(* ===== verification/Xv6_Prelude.thy ===== *)
theory Xv6_Prelude
  imports Main "HOL-Library.Word"
begin

unbundle bit_operations_syntax

text \<open>
  Shared vocabulary of the development: the machine integers of kernel/types.h, the result type
  that every kernel operation returns, byte-addressed memory with little-endian words, and the
  generic lemmas that the component theories use.

  A kernel operation takes the state as its last argument and returns an outcome:
  \<^item> \<open>Ok x s\<close>: it returns \<open>x\<close> in the state \<open>s\<close>;
  \<^item> \<open>Panic msg\<close>: it calls \<^verbatim>\<open>panic(msg)\<close>, which never returns;
  \<^item> \<open>Sleeps c s\<close>: the calling process goes to sleep on the channel \<open>c\<close> in the state \<open>s\<close>
    (\<^verbatim>\<open>sleep(c, lk)\<close> in kernel/proc.c); loops that sleep are resumable from their local variables;
  \<^item> \<open>Exits s\<close>: the calling process has exited in the state \<open>s\<close> and never runs again;
  \<^item> \<open>Hang\<close>: it loops for ever without giving up the processor.
\<close>

section \<open>Machine integers\<close>

type_synonym u8 = "8 word"
type_synonym u16 = "16 word"
type_synonym u32 = "32 word"
type_synonym u64 = "64 word"

type_synonym mem = "u64 \<Rightarrow> u8"

text \<open>C strings of the source as byte lists.\<close>

definition bytes_of :: "string \<Rightarrow> u8 list" where
  "bytes_of s = map of_char s"

lemma unat_bound: "unat (w :: 'a::len word) < 2 ^ LENGTH('a)"
  by (rule unsigned_less)

lemma unat_of_nat_small: "n < 2 ^ LENGTH('a) \<Longrightarrow> unat (of_nat n :: 'a::len word) = n"
  by (simp add: unat_of_nat take_bit_nat_eq_self)

lemma word_of_nat_unat: "of_nat (unat w) = (w :: 'a::len word)"
  by simp

lemma unat_ucast_small:
  "unat w < 2 ^ LENGTH('b) \<Longrightarrow> unat (ucast w :: 'b::len word) = unat (w :: 'a::len word)"
  by (simp add: unsigned_ucast_eq take_bit_nat_eq_self)

lemma bit_top: fixes k :: int assumes "0 \<le> k" "k < 2 ^ Suc n" shows "bit k n \<longleftrightarrow> 2 ^ n \<le> k"
proof
  assume a: "2 ^ n \<le> k"
  have "k div 2 ^ n = 1" using assms a by (intro int_div_pos_eq [where r = "k - 2 ^ n"]) auto
  then show "bit k n" by (simp add: bit_iff_odd)
next
  assume "bit k n"
  then have "k div 2 ^ n \<noteq> 0" by (auto simp: bit_iff_odd)
  then show "2 ^ n \<le> k" using assms(1) by (meson div_pos_pos_trivial not_le)
qed

lemma sint_cases:
  fixes w :: "'a::len word"
  shows "sint w = (if 2 ^ (LENGTH('a) - 1) \<le> unat w then int (unat w) - 2 ^ LENGTH('a) else int (unat w))"
proof -
  obtain n where n: "LENGTH('a) = Suc n" using len_gt_0 [where 'a = 'a] by (cases "LENGTH('a)") auto
  have l: "uint w < 2 ^ Suc n" using uint_bounded [of w] n by simp
  have "sint w = take_bit (Suc n) (uint w) - 2 ^ Suc n * of_bool (bit (uint w) n)"
    by (simp only: sint_uint signed_take_bit_eq_take_bit_minus n diff_Suc_Suc diff_zero)
  moreover have "take_bit (Suc n) (uint w) = uint w" using l by (intro take_bit_int_eq_self) auto
  moreover have "bit (uint w) n \<longleftrightarrow> 2 ^ n \<le> uint w" using l by (intro bit_top) auto
  moreover have "2 ^ n \<le> uint w \<longleftrightarrow> 2 ^ n \<le> unat w" unfolding uint_nat by (rule numeral_power_le_of_nat_cancel_iff)
  ultimately show ?thesis by (simp add: n)
qed

lemma sint_range32: "- (2 ^ 31) \<le> sint (w :: u32)" "sint (w :: u32) < 2 ^ 31"
  using sint_greater_eq [of w] sint_less [of w] by simp_all

lemma sint_scast [simp]: "sint (scast (w :: u32) :: u64) = sint w"
proof -
  have "signed_take_bit 63 (sint w) = sint w"
    by (rule signed_take_bit_int_eq_self) (use sint_range32 [of w] in simp_all)
  then show ?thesis by (simp add: signed_scast_eq)
qed

lemma ucast_ucast_u32 [simp]: "ucast (ucast (w :: u32) :: u64) = w"
  by (rule bit_word_eqI) (simp add: bit_ucast_iff)

lemma find_SomeD: "List.find P xs = Some x \<Longrightarrow> x \<in> set xs \<and> P x"
  by (induction xs) (auto split: if_splits)

section \<open>Outcomes of kernel operations\<close>

text \<open>
  Sleep channels are addresses in the source. The model names the object whose address is used.
\<close>

datatype chan =
    ChanProc nat            \<comment> \<open>a \<open>struct proc\<close>, in wait() and exit()\<close>
  | ChanTicks               \<comment> \<open>\<open>&ticks\<close>\<close>
  | ChanLog                 \<comment> \<open>\<open>&log\<close>\<close>
  | ChanBufLock nat         \<comment> \<open>the sleep lock of a buffer\<close>
  | ChanInodeLock nat       \<comment> \<open>the sleep lock of an inode\<close>
  | ChanBufIO nat           \<comment> \<open>a \<open>struct buf\<close>, in virtio_disk_rw()\<close>
  | ChanDiskFree            \<comment> \<open>\<open>&disk.free[0]\<close>\<close>
  | ChanPipeRead u64        \<comment> \<open>\<open>&pi->nread\<close>\<close>
  | ChanPipeWrite u64       \<comment> \<open>\<open>&pi->nwrite\<close>\<close>
  | ChanConsR               \<comment> \<open>\<open>&cons.r\<close>\<close>
  | ChanUartTx              \<comment> \<open>\<open>&uart_tx_r\<close>\<close>

datatype ('s, 'a) result = Ok 'a 's | Panic string | Hang | Sleeps chan 's | Exits 's

primrec then_do :: "('s, 'a) result \<Rightarrow> ('a \<Rightarrow> 's \<Rightarrow> ('s, 'b) result) \<Rightarrow> ('s, 'b) result" where
  "then_do (Ok x s) f = f x s"
| "then_do (Panic e) f = Panic e"
| "then_do Hang f = Hang"
| "then_do (Sleeps c s) f = Sleeps c s"
| "then_do (Exits s) f = Exits s"

lemma then_do_cong [fundef_cong]:
  assumes "m = m'" and "\<And>x s. m' = Ok x s \<Longrightarrow> f x s = g x s"
  shows "then_do m f = then_do m' g"
  using assms by (cases m') auto

named_theorems result_iff \<open>when a sequence of operations returns\<close>

lemma then_do_Ok_iff [result_iff]:
  "then_do m f = Ok y t \<longleftrightarrow> (\<exists>x s. m = Ok x s \<and> f x s = Ok y t)"
  by (cases m) auto

lemma Ok_then_do_iff [result_iff]:
  "Ok y t = then_do m f \<longleftrightarrow> (\<exists>x s. m = Ok x s \<and> f x s = Ok y t)"
  by (cases m) auto

lemma then_do_assoc: "then_do (then_do m f) g = then_do m (\<lambda>x s. then_do (f x s) g)"
  by (cases m) auto

lemma then_do_OkE:
  assumes "then_do m f = Ok y t"
  obtains x s where "m = Ok x s" and "f x s = Ok y t"
  using assms by (auto simp: result_iff)

section \<open>Pointer paths\<close>

text \<open>\<open>path nxt a xs b\<close>: following \<open>nxt\<close> from \<open>a\<close> visits \<open>xs\<close> and arrives at \<open>b\<close>.\<close>

primrec path :: "('p \<Rightarrow> 'p) \<Rightarrow> 'p \<Rightarrow> 'p list \<Rightarrow> 'p \<Rightarrow> bool" where
  "path nxt a [] b \<longleftrightarrow> a = b"
| "path nxt a (x # xs) b \<longleftrightarrow> a = x \<and> path nxt (nxt x) xs b"

lemma path_append [simp]:
  "path nxt a (xs @ ys) b \<longleftrightarrow> (\<exists>c. path nxt a xs c \<and> path nxt c ys b)"
  by (induction xs arbitrary: a) auto

lemma path_upd [simp]:
  "u \<notin> set xs \<Longrightarrow> path (nxt(u := v)) a xs b = path nxt a xs b"
  by (induction xs arbitrary: a) auto

lemma path_cong:
  "(\<And>x. x \<in> set xs \<Longrightarrow> nxt x = nxt' x) \<Longrightarrow> path nxt a xs b = path nxt' a xs b"
  by (induction xs arbitrary: a) auto

section \<open>Bytes and words\<close>

definition byte_at :: "nat \<Rightarrow> 'a::len word \<Rightarrow> u8" where
  "byte_at i w = ucast (drop_bit (8 * i) w)"

lemma bit_byte_at:
  "bit (byte_at i (w :: 'a::len word)) k \<longleftrightarrow> k < 8 \<and> bit w (8 * i + k)"
  by (auto simp: byte_at_def bit_simps)

text \<open>\<open>le_word xs\<close> reads a list of bytes as a little-endian word.\<close>

primrec le_word :: "u8 list \<Rightarrow> 'a::len word" where
  "le_word [] = 0"
| "le_word (b # bs) = ucast b OR push_bit 8 (le_word bs)"

definition le_bytes :: "nat \<Rightarrow> 'a::len word \<Rightarrow> u8 list" where
  "le_bytes n w = map (\<lambda>i. byte_at i w) [0..<n]"

lemma length_le_bytes [simp]: "length (le_bytes n w) = n"
  by (simp add: le_bytes_def)

lemma nth_le_bytes [simp]: "i < n \<Longrightarrow> le_bytes n w ! i = byte_at i w"
  by (simp add: le_bytes_def)

lemma bit_le_word:
  "bit (le_word bs :: 'a::len word) k \<longleftrightarrow>
     k < LENGTH('a) \<and> k div 8 < length bs \<and> bit (bs ! (k div 8)) (k mod 8)"
proof (induction bs arbitrary: k)
  case Nil
  then show ?case by simp
next
  case (Cons b bs)
  show ?case
  proof (cases "k < 8")
    case True
    then show ?thesis by (auto simp: bit_simps)
  next
    case False
    then obtain j where k: "k = 8 + j" by (metis le_Suc_ex not_less)
    have "\<not> bit b k" using False by (auto dest: bit_imp_le_length)
    then have "bit (le_word (b # bs) :: 'a word) k \<longleftrightarrow>
        k < LENGTH('a) \<and> bit (le_word bs :: 'a word) j"
      by (simp add: k bit_simps)
    also have "\<dots> \<longleftrightarrow> k < LENGTH('a) \<and> j div 8 < length bs \<and> bit (bs ! (j div 8)) (j mod 8)"
      using Cons [of j] k by auto
    finally show ?thesis by (simp add: k div_add_self1)
  qed
qed

lemma le_word_bytes:
  fixes w :: "'a::len word"
  assumes "LENGTH('a) \<le> 8 * n"
  shows "le_word (le_bytes n w) = w"
proof (rule bit_word_eqI)
  fix k assume "k < LENGTH('a)"
  with assms have "k div 8 < n" by auto
  then show "bit (le_word (le_bytes n w) :: 'a word) k = bit w k"
    using \<open>k < LENGTH('a)\<close> by (simp add: bit_le_word bit_byte_at)
qed

end
