(* ===== verification/Kstring.thy ===== *)
theory Kstring
  imports Xv6_Prelude
begin

text \<open>
  kernel/string.c, and the routines of user/ulib.c with the same contract.

  Routines that only read strings take a C string as the sequence of bytes from the pointer on
  (\<open>cstr\<close>); \<open>at m p\<close> is the string at address \<open>p\<close> of a memory and \<open>of_list xs\<close> the one held by a
  kernel buffer \<open>xs\<close>, after whose end a NUL is read. Routines that write take the memory and
  addresses, so that overlapping arguments behave as in the source.
\<close>

type_synonym cstr = "nat \<Rightarrow> u8"

definition cstr_at :: "mem \<Rightarrow> u64 \<Rightarrow> cstr" where
  "cstr_at m p i = m (p + of_nat i)"

definition cstr_of_list :: "u8 list \<Rightarrow> cstr" where
  "cstr_of_list xs i = (if i < length xs then xs ! i else 0)"

section \<open>Filling and moving memory\<close>

text \<open>memset: the loop stores the byte at \<open>cdst[0], cdst[1], \<dots>\<close>.\<close>

primrec memset_loop :: "mem \<Rightarrow> u64 \<Rightarrow> u8 \<Rightarrow> nat \<Rightarrow> mem" where
  "memset_loop m cdst c 0 = m"
| "memset_loop m cdst c (Suc n) = memset_loop (m(cdst := c)) (cdst + 1) c n"

definition memset :: "mem \<Rightarrow> u64 \<Rightarrow> u32 \<Rightarrow> u32 \<Rightarrow> mem" where
  "memset m dst c n = memset_loop m dst (ucast c) (unat n)"

text \<open>The two copying loops of memmove.\<close>

primrec copy_up :: "mem \<Rightarrow> u64 \<Rightarrow> u64 \<Rightarrow> nat \<Rightarrow> mem" where
  "copy_up m d s 0 = m"
| "copy_up m d s (Suc n) = copy_up (m(d := m s)) (d + 1) (s + 1) n"

primrec copy_down :: "mem \<Rightarrow> u64 \<Rightarrow> u64 \<Rightarrow> nat \<Rightarrow> mem" where
  "copy_down m d s 0 = m"
| "copy_down m d s (Suc n) = copy_down (m(d - 1 := m (s - 1))) (d - 1) (s - 1) n"

definition memmove :: "mem \<Rightarrow> u64 \<Rightarrow> u64 \<Rightarrow> u32 \<Rightarrow> mem" where
  "memmove m dst src n =
     (if n = 0 then m
      else if src < dst \<and> src + ucast n > dst
        then copy_down m (dst + ucast n) (src + ucast n) (unat n)
        else copy_up m dst src (unat n))"

definition memcpy :: "mem \<Rightarrow> u64 \<Rightarrow> u64 \<Rightarrow> u32 \<Rightarrow> mem" where
  "memcpy m dst src n = memmove m dst src n"

text \<open>user/ulib.c copies upwards exactly when the source lies above the destination.\<close>

definition ulib_memmove :: "mem \<Rightarrow> u64 \<Rightarrow> u64 \<Rightarrow> int \<Rightarrow> mem" where
  "ulib_memmove m vdst vsrc n =
     (if vsrc > vdst then copy_up m vdst vsrc (nat n)
      else copy_down m (vdst + of_int n) (vsrc + of_int n) (nat n))"

section \<open>Comparing\<close>

primrec memcmp :: "cstr \<Rightarrow> cstr \<Rightarrow> nat \<Rightarrow> int" where
  "memcmp s1 s2 0 = 0"
| "memcmp s1 s2 (Suc n) =
     (if s1 0 \<noteq> s2 0 then uint (s1 0) - uint (s2 0)
      else memcmp (\<lambda>i. s1 (Suc i)) (\<lambda>i. s2 (Suc i)) n)"

primrec strncmp :: "cstr \<Rightarrow> cstr \<Rightarrow> nat \<Rightarrow> int" where
  "strncmp p q 0 = 0"
| "strncmp p q (Suc n) =
     (if p 0 \<noteq> 0 \<and> p 0 = q 0 then strncmp (\<lambda>i. p (Suc i)) (\<lambda>i. q (Suc i)) n
      else uint (p 0) - uint (q 0))"

section \<open>Copying strings\<close>

text \<open>strncpy: copy until the NUL has been copied, then pad with NULs; \<open>n\<close> bytes in all.\<close>

primrec strncpy_loop :: "mem \<Rightarrow> u64 \<Rightarrow> u64 \<Rightarrow> nat \<Rightarrow> mem" where
  "strncpy_loop m s t 0 = m"
| "strncpy_loop m s t (Suc n) =
     (let m' = m(s := m t) in
      if m t \<noteq> 0 then strncpy_loop m' (s + 1) (t + 1) n
      else memset_loop m' (s + 1) 0 n)"

definition strncpy :: "mem \<Rightarrow> u64 \<Rightarrow> u64 \<Rightarrow> int \<Rightarrow> mem" where
  "strncpy m s t n = strncpy_loop m s t (nat n)"

text \<open>
  safestrcpy: \<^verbatim>\<open>while(--n > 0 && (*s++ = *t++) != 0);\<close> and then \<^verbatim>\<open>*s = 0\<close>. The loop returns the memory
  and the final \<open>s\<close>, which is one past the NUL when a NUL was copied.
\<close>

primrec safestrcpy_loop :: "mem \<Rightarrow> u64 \<Rightarrow> u64 \<Rightarrow> nat \<Rightarrow> mem \<times> u64" where
  "safestrcpy_loop m s t 0 = (m, s)"
| "safestrcpy_loop m s t (Suc n) =
     (let m' = m(s := m t) in
      if m t \<noteq> 0 then safestrcpy_loop m' (s + 1) (t + 1) n
      else (m', s + 1))"

definition safestrcpy :: "mem \<Rightarrow> u64 \<Rightarrow> u64 \<Rightarrow> int \<Rightarrow> mem" where
  "safestrcpy m s t n =
     (if n \<le> 0 then m
      else (let (m', s') = safestrcpy_loop m s t (nat (n - 1)) in m'(s' := 0)))"

text \<open>strlen may run for ever on an object without a NUL.\<close>

partial_function (option) strlen_from :: "cstr \<Rightarrow> nat \<Rightarrow> nat option" where
  "strlen_from s n = (if s n = 0 then Some n else strlen_from s (Suc n))"

definition strlen :: "cstr \<Rightarrow> nat option" where
  "strlen s = strlen_from s 0"

section \<open>memset and memmove\<close>

lemma unat_minus_Suc: "x \<noteq> p \<Longrightarrow> unat (x - (p + 1)) = unat (x - p) - 1" for x p :: u64
proof -
  assume "x \<noteq> p"
  then have "x - p \<noteq> 0" by simp
  then have "unat (x - p - 1) = unat (x - p) - 1" by (rule unat_minus_one)
  then show ?thesis by (simp add: diff_diff_eq)
qed

lemma memset_loop_apply:
  "n \<le> 2 ^ 64 \<Longrightarrow> memset_loop m p c n x = (if unat (x - p) < n then c else m x)"
proof (induction n arbitrary: m p)
  case 0
  then show ?case by simp
next
  case (Suc n)
  show ?case
  proof (cases "x = p")
    case True
    with Suc show ?thesis by simp
  next
    case False
    then have "0 < unat (x - p)" by (simp add: unat_gt_0)
    with Suc False show ?thesis by (auto simp: unat_minus_Suc)
  qed
qed

lemma memset_apply:
  "memset m dst c n x = (if unat (x - dst) < unat n then ucast c else m x)"
proof -
  have "unat n \<le> 2 ^ 64" using unat_bound [of n] by simp
  then show ?thesis by (simp add: memset_def memset_loop_apply)
qed

lemma copy_up_apply:
  assumes "n \<le> 2 ^ 64" and "unat (d - s) = 0 \<or> n \<le> unat (d - s)"
  shows "copy_up m d s n x = (if unat (x - d) < n then m (s + (x - d)) else m x)"
  using assms
proof (induction n arbitrary: m d s)
  case 0
  then show ?case by simp
next
  case (Suc n)
  let ?m = "m(d := m s)"
  have "copy_up ?m (d + 1) (s + 1) n x =
      (if unat (x - (d + 1)) < n then ?m (s + 1 + (x - (d + 1))) else ?m x)"
    using Suc.prems by (intro Suc.IH) auto
  then have IH: "copy_up m d s (Suc n) x =
      (if unat (x - (d + 1)) < n then ?m (s + (x - d)) else ?m x)"
    by simp
  show ?case
  proof (cases "x = d")
    case True
    have "unat (d - (d + 1)) = 2 ^ 64 - 1"
      by (simp add: unsigned_minus_1_eq_mask mask_eq_exp_minus_1)
    then show ?thesis unfolding IH using Suc.prems(1) True by simp
  next
    case False
    then have pos: "0 < unat (x - d)" by (simp add: unat_gt_0)
    have src: "s + (x - d) \<noteq> d" if "unat (x - d) < Suc n"
    proof
      assume "s + (x - d) = d"
      then have eq: "x - d = d - s" by (simp add: algebra_simps)
      with Suc.prems(2) that pos show False by auto
    qed
    from False pos have "unat (x - (d + 1)) < n \<longleftrightarrow> unat (x - d) < Suc n"
      by (auto simp: unat_minus_Suc)
    with False src show ?thesis unfolding IH by auto
  qed
qed

lemma copy_down_apply:
  assumes "n < 2 ^ 64" and "unat (s - d) = 0 \<or> n \<le> unat (s - d)"
  shows "copy_down m (d + of_nat n) (s + of_nat n) n x =
           (if unat (x - d) < n then m (s + (x - d)) else m x)"
  using assms
proof (induction n arbitrary: m)
  case 0
  then show ?case by simp
next
  case (Suc n)
  let ?m = "m(d + of_nat n := m (s + of_nat n))"
  have n: "unat (of_nat n :: u64) = n" using Suc.prems(1) by (simp add: unat_of_nat_small)
  have "copy_down m (d + of_nat (Suc n)) (s + of_nat (Suc n)) (Suc n) x =
      copy_down ?m (d + of_nat n) (s + of_nat n) n x"
    by simp
  also have "\<dots> = (if unat (x - d) < n then ?m (s + (x - d)) else ?m x)"
    using Suc.prems by (intro Suc.IH) auto
  finally have IH: "copy_down m (d + of_nat (Suc n)) (s + of_nat (Suc n)) (Suc n) x = \<dots>" .
  show ?case
  proof (cases "x = d + of_nat n")
    case True
    then show ?thesis unfolding IH by (simp add: n)
  next
    case False
    then have ne: "unat (x - d) \<noteq> n"
      using word_of_nat_unat [of "x - d"] by (auto simp: algebra_simps)
    have src: "s + (x - d) \<noteq> d + of_nat n" if "unat (x - d) < n"
    proof
      assume "s + (x - d) = d + of_nat n"
      then have "s - d = of_nat n - (x - d)" by (simp add: algebra_simps)
      then have "unat (s - d) = unat (of_nat n - (x - d))" by (rule arg_cong)
      also have "\<dots> = n - unat (x - d)"
        using that n by (simp add: unat_sub word_le_nat_alt)
      finally have "unat (s - d) = n - unat (x - d)" .
      with Suc.prems(2) that show False by linarith
    qed
    from False ne src show ?thesis unfolding IH by auto
  qed
qed

lemma memmove_apply:
  assumes "unat src + unat n < 2 ^ 64" and "unat dst + unat n < 2 ^ 64"
  shows "memmove m dst src n x =
           (if unat (x - dst) < unat n then m (src + (x - dst)) else m x)"
proof -
  have n64: "unat n < 2 ^ 64" using assms by linarith
  then have n: "unat (ucast n :: u64) = unat n" by (simp add: unat_ucast_small)
  then have n': "of_nat (unat n) = (ucast n :: u64)" by (metis word_of_nat_unat)
  have sum: "unat (src + ucast n) = unat src + unat n"
    using assms(1) n by (subst unat_add_lem [THEN iffD1]) auto
  show ?thesis
  proof (cases "src < dst \<and> src + ucast n > dst")
    case True
    then have "unat (src - dst) = 2 ^ 64 - (unat dst - unat src)"
      by (simp add: unat_sub_if_size word_size word_le_nat_alt word_less_nat_alt)
    then have "unat n \<le> unat (src - dst)" using assms by linarith
    then have "copy_down m (dst + ucast n) (src + ucast n) (unat n) x =
        (if unat (x - dst) < unat n then m (src + (x - dst)) else m x)"
      using copy_down_apply [OF n64, of src dst m x] by (simp only: n') auto
    with True show ?thesis by (auto simp: memmove_def)
  next
    case False
    have "unat (dst - src) = 0 \<or> unat n \<le> unat (dst - src)"
    proof (cases "src \<le> dst")
      case True
      with False have "src = dst \<or> unat src + unat n \<le> unat dst"
        by (auto simp: word_less_nat_alt word_le_nat_alt sum word_unat_eq_iff)
      with True show ?thesis by (auto simp: unat_sub word_le_nat_alt)
    next
      case False
      then have "unat (dst - src) = 2 ^ 64 - (unat src - unat dst)"
        by (simp add: unat_sub_if_size word_size word_le_nat_alt)
      with assms show ?thesis by linarith
    qed
    with False n64 show ?thesis by (auto simp: memmove_def copy_up_apply)
  qed
qed

section \<open>String routines\<close>

lemma strncmp_zero_iff:
  "strncmp p q n = 0 \<longleftrightarrow> (\<forall>i<n. (\<forall>j<i. p j \<noteq> 0) \<longrightarrow> p i = q i)"
proof (induction n arbitrary: p q)
  case 0
  then show ?case by simp
next
  case (Suc n)
  have "(\<forall>i<Suc n. (\<forall>j<i. p j \<noteq> 0) \<longrightarrow> p i = q i) \<longleftrightarrow>
      p 0 = q 0 \<and> (p 0 \<noteq> 0 \<longrightarrow> (\<forall>i<n. (\<forall>j<i. p (Suc j) \<noteq> 0) \<longrightarrow> p (Suc i) = q (Suc i)))"
    by (auto simp: All_less_Suc2)
  also have "\<dots> \<longleftrightarrow> strncmp p q (Suc n) = 0"
    using Suc.IH [of "\<lambda>i. p (Suc i)" "\<lambda>i. q (Suc i)"] by (cases "p 0 = 0") (auto simp: word_uint_eq_iff)
  finally show ?case ..
qed

lemma strlen_from_Some:
  "s n = 0 \<Longrightarrow> (\<forall>j<n. k \<le> j \<longrightarrow> s j \<noteq> 0) \<Longrightarrow> k \<le> n \<Longrightarrow> strlen_from s k = Some n"
proof (induction "n - k" arbitrary: k)
  case 0
  then show ?case by (simp add: strlen_from.simps)
next
  case (Suc d)
  then have "s k \<noteq> 0" and "strlen_from s (Suc k) = Some n" by auto
  then show ?case by (simp add: strlen_from.simps)
qed

text \<open>The loop of safestrcpy copies the \<open>k\<close> non-NUL bytes and, if it met one in time, the NUL.\<close>

lemma safestrcpy_loop_spec:
  assumes "N < 2 ^ 64" and "\<And>i j. i < N \<Longrightarrow> j < N \<Longrightarrow> s + of_nat i \<noteq> t + of_nat j"
  shows "\<exists>k\<le>N. (\<forall>i<k. m (t + of_nat i) \<noteq> 0) \<and> (k < N \<longrightarrow> m (t + of_nat k) = 0) \<and>
           safestrcpy_loop m s t N =
             (let l = (if k < N then Suc k else k) in
              ((\<lambda>x. if unat (x - s) < l then m (t + (x - s)) else m x), s + of_nat l))"
  using assms
proof (induction N arbitrary: m s t)
  case 0
  then show ?case by simp
next
  case (Suc N)
  show ?case
  proof (cases "m t = 0")
    case True
    have "safestrcpy_loop m s t (Suc N) =
        ((\<lambda>x. if unat (x - s) < 1 then m (t + (x - s)) else m x), s + 1)"
      using True by (auto simp: Let_def fun_eq_iff unat_eq_0)
    with True show ?thesis by (intro exI [of _ 0]) (simp add: Let_def)
  next
    case False
    let ?m = "m(s := m t)"
    have dis: "s + 1 + of_nat i \<noteq> t + 1 + of_nat j" if "i < N" "j < N" for i j
      using Suc.prems(2) [of "Suc i" "Suc j"] that by (simp add: algebra_simps)
    have ne: "t + of_nat j \<noteq> s" if "j < Suc N" for j
      using Suc.prems(2) [of 0 j] that by auto
    have "N < 2 ^ 64" using Suc.prems(1) by simp
    from Suc.IH [of "s + 1" "t + 1" ?m, OF this dis] obtain k where
      k: "k \<le> N" "\<forall>i<k. ?m (t + 1 + of_nat i) \<noteq> 0" "k < N \<longrightarrow> ?m (t + 1 + of_nat k) = 0"
      and loop: "safestrcpy_loop ?m (s + 1) (t + 1) N =
        (let l = (if k < N then Suc k else k) in
         ((\<lambda>x. if unat (x - (s + 1)) < l then ?m (t + 1 + (x - (s + 1))) else ?m x),
          s + 1 + of_nat l))"
      by blast
    have suc: "t + 1 + of_nat j = t + of_nat (Suc j)" for j by simp
    have shift: "t + 1 + (x - (s + 1)) = t + (x - s)" for x by simp
    let ?l = "if k < N then Suc k else k"
    have l: "?l \<le> N" using k(1) by auto
    have nz: "m (t + of_nat i) \<noteq> 0" if "i < Suc k" for i
    proof (cases i)
      case 0
      with False show ?thesis by simp
    next
      case (Suc j)
      with that k(2) have "?m (t + of_nat i) \<noteq> 0" by (simp only: suc) auto
      with ne [of i] that k(1) show ?thesis by (simp add: fun_upd_other)
    qed
    have z: "m (t + of_nat (Suc k)) = 0" if "k < N"
      using k(3) that ne [of "Suc k"] by (simp only: suc) (simp add: fun_upd_other)
    have fn: "(if unat (x - (s + 1)) < ?l then ?m (t + (x - s)) else ?m x) =
        (if unat (x - s) < Suc ?l then m (t + (x - s)) else m x)" for x
    proof (cases "x = s")
      case True
      have "unat (x - (s + 1)) = 2 ^ 64 - 1"
        using True by (simp add: unsigned_minus_1_eq_mask mask_eq_exp_minus_1)
      then have "\<not> unat (x - (s + 1)) < ?l" using l Suc.prems(1) by linarith
      then show ?thesis using True by simp
    next
      case False
      then have pos: "0 < unat (x - s)" by (simp add: unat_gt_0)
      then have lt: "unat (x - (s + 1)) < ?l \<longleftrightarrow> unat (x - s) < Suc ?l"
        using False by (auto simp: unat_minus_Suc)
      have "t + (x - s) \<noteq> s" if "unat (x - s) < Suc ?l"
        using ne [of "unat (x - s)"] that l by auto
      with lt False show ?thesis by auto
    qed
    have "safestrcpy_loop m s t (Suc N) =
        ((\<lambda>x. if unat (x - s) < Suc ?l then m (t + (x - s)) else m x), s + of_nat (Suc ?l))"
    proof -
      have "safestrcpy_loop m s t (Suc N) = safestrcpy_loop ?m (s + 1) (t + 1) N"
        using False by (simp add: Let_def)
      also have "\<dots> = ((\<lambda>x. if unat (x - (s + 1)) < ?l then ?m (t + (x - s)) else ?m x),
          s + 1 + of_nat ?l)"
        unfolding loop Let_def shift ..
      also have "(\<lambda>x. if unat (x - (s + 1)) < ?l then ?m (t + (x - s)) else ?m x) =
          (\<lambda>x. if unat (x - s) < Suc ?l then m (t + (x - s)) else m x)"
        using fn by (rule ext)
      also have "s + 1 + of_nat ?l = s + of_nat (Suc ?l)" by simp
      finally show ?thesis .
    qed
    moreover have "(if Suc k < Suc N then Suc (Suc k) else Suc k) = Suc ?l" by simp
    ultimately have "safestrcpy_loop m s t (Suc N) =
        (let l = (if Suc k < Suc N then Suc (Suc k) else Suc k) in
         ((\<lambda>x. if unat (x - s) < l then m (t + (x - s)) else m x), s + of_nat l))"
      unfolding Let_def by (simp only:)
    with k(1) nz z show ?thesis by (intro exI [of _ "Suc k"]) blast
  qed
qed

lemma ulib_memmove_apply:
  assumes "unat src + unat n < 2 ^ 64" and "unat dst + unat n < 2 ^ 64"
  shows "ulib_memmove m dst src (uint n) x =
           (if unat (x - dst) < unat n then m (src + (x - dst)) else m x)"
proof -
  have n64: "unat n < 2 ^ 64" using assms by linarith
  have n: "of_int (uint n) = (of_nat (unat n) :: u64)" by simp
  show ?thesis
  proof (cases "src > dst")
    case True
    then have "unat (dst - src) = 2 ^ 64 - (unat src - unat dst)"
      by (simp add: unat_sub_if_size word_size word_le_nat_alt word_less_nat_alt)
    with assms have "unat n \<le> unat (dst - src)" by linarith
    with True n64 show ?thesis by (simp add: ulib_memmove_def copy_up_apply nat_uint_eq)
  next
    case False
    have "unat (src - dst) = 0 \<or> unat n \<le> unat (src - dst)"
    proof (cases "src = dst")
      case True
      then show ?thesis by simp
    next
      case neq: False
      with False have "unat (src - dst) = 2 ^ 64 - (unat dst - unat src)"
        by (auto simp: unat_sub_if_size word_size word_le_nat_alt word_less_nat_alt word_unat_eq_iff)
      with assms show ?thesis by linarith
    qed
    from copy_down_apply [OF n64 this, of m x] False show ?thesis
      by (simp only: ulib_memmove_def n nat_uint_eq if_False)
  qed
qed

section \<open>Properties\<close>

text \<open>C32: memmove copies the source bytes as they were before the call, also when the two ranges
  overlap, changes nothing else, and the user library's memmove computes the same memory
  (kernel/string.c, user/ulib.c), for ranges that do not run past the end of the address space.\<close>

theorem memmove_correct:
  assumes "unat src + unat n < 2 ^ 64" and "unat dst + unat n < 2 ^ 64"
  shows "(\<forall>i<unat n. memmove m dst src n (dst + of_nat i) = m (src + of_nat i)) \<and>
         (\<forall>x. unat n \<le> unat (x - dst) \<longrightarrow> memmove m dst src n x = m x) \<and>
         ulib_memmove m dst src (uint n) = memmove m dst src n"
proof -
  have "memmove m dst src n (dst + of_nat i) = m (src + of_nat i)" if "i < unat n" for i
    using that assms by (simp add: memmove_apply unat_of_nat_small)
  moreover have "memmove m dst src n x = m x" if "unat n \<le> unat (x - dst)" for x
    using that assms by (simp add: memmove_apply)
  moreover have "ulib_memmove m dst src (uint n) = memmove m dst src n"
    using assms by (simp add: fun_eq_iff memmove_apply ulib_memmove_apply)
  ultimately show ?thesis by blast
qed

theorem memmove_correct_witness:
  "memmove ucast 100 98 5 (104 :: u64) = 102 \<and> memmove ucast 98 100 5 (98 :: u64) = 100 \<and>
   ulib_memmove ucast 100 98 5 = memmove ucast 100 98 5"
  using memmove_correct [of 98 5 100 ucast, THEN conjunct1, THEN spec, of 4]
    memmove_correct [of 100 5 98 ucast, THEN conjunct1, THEN spec, of 0]
    memmove_correct [of 98 5 100 ucast, THEN conjunct2, THEN conjunct2]
  by simp

text \<open>safestrcpy on non-overlapping buffers copies the source string up to its NUL or up to
  \<open>n - 1\<close> bytes, always leaves a NUL-terminated string in the first \<open>n\<close> bytes of the destination
  and writes no byte outside them.\<close>

theorem safestrcpy_terminated:
  assumes "0 < n" and "n < 2 ^ 32"
    and "\<And>i j. i < nat n \<Longrightarrow> j < nat n \<Longrightarrow> s + of_nat i \<noteq> t + of_nat j"
  shows "\<exists>k<nat n.
     (\<forall>i<k. m (t + of_nat i) \<noteq> 0 \<and> safestrcpy m s t n (s + of_nat i) = m (t + of_nat i)) \<and>
     safestrcpy m s t n (s + of_nat k) = 0 \<and>
     (k < nat n - 1 \<longrightarrow> m (t + of_nat k) = 0) \<and>
     (\<forall>x. nat n \<le> unat (x - s) \<longrightarrow> safestrcpy m s t n x = m x)"
proof -
  let ?N = "nat (n - 1)"
  have N: "?N < 2 ^ 64" "Suc ?N = nat n" using assms(1,2) by auto
  have dis: "s + of_nat i \<noteq> t + of_nat j" if "i < ?N" "j < ?N" for i j
    using assms(3) [of i j] that N(2) by simp
  from safestrcpy_loop_spec [OF N(1) dis, of m] obtain k where
    k: "k \<le> ?N" "\<forall>i<k. m (t + of_nat i) \<noteq> 0" "k < ?N \<longrightarrow> m (t + of_nat k) = 0"
    and loop: "safestrcpy_loop m s t ?N = (let l = (if k < ?N then Suc k else k) in
         ((\<lambda>x. if unat (x - s) < l then m (t + (x - s)) else m x), s + of_nat l))"
    by blast
  define l where "l = (if k < ?N then Suc k else k)"
  have l: "k \<le> l" "l \<le> ?N" using k(1) by (auto simp: l_def)
  have res: "safestrcpy m s t n x =
      (if x = s + of_nat l then 0 else if unat (x - s) < l then m (t + (x - s)) else m x)" for x
    using assms(1) unfolding safestrcpy_def loop by (simp add: Let_def l_def)
  have small: "unat (of_nat i :: u64) = i" if "i \<le> ?N" for i
    using that N(1) by (intro unat_of_nat_small) auto
  have "safestrcpy m s t n (s + of_nat i) = m (t + of_nat i)" if "i < k" for i
    using that l small [of i] small [of l] by (auto simp: res)
  moreover have "safestrcpy m s t n (s + of_nat k) = 0"
    using k(1,3) l small [of k] by (auto simp: res l_def)
  moreover have "safestrcpy m s t n x = m x" if "nat n \<le> unat (x - s)" for x
    using that l N(2) small [of l] by (auto simp: res)
  ultimately show ?thesis using k N(2) by (intro exI [of _ k]) auto
qed

theorem safestrcpy_terminated_witness:
  "\<exists>k<nat 4. safestrcpy (\<lambda>x. if x = 12 then 0 else ucast x) 20 10 4 (20 + of_nat k) = 0"
proof -
  have dis: "(20 :: u64) + of_nat i \<noteq> 10 + of_nat j" if "i < nat 4" "j < nat 4" for i j
  proof -
    from that have "i \<in> {0, 1, 2, 3}" "j \<in> {0, 1, 2, 3}" by auto
    then show ?thesis by auto
  qed
  show ?thesis
    using safestrcpy_terminated [of 4 20 10 "\<lambda>x. if x = 12 then 0 else ucast x", OF _ _ dis] by auto
qed

end
