(* ===== verification/Physmem.thy ===== *)
theory Physmem
  imports Kstring
begin

text \<open>
  Physical memory as the kernel uses it: 64-bit little-endian loads and stores, and the page
  arithmetic of kernel/riscv.h and kernel/memlayout.h. The kernel maps physical memory at the
  same virtual addresses (kvmmake() in kernel/vm.c), so a kernel pointer is a physical address.
\<close>

section \<open>Constants and macros of riscv.h and memlayout.h\<close>

definition PGSIZE :: u64 where "PGSIZE = 4096"
definition PGROUNDUP :: "u64 \<Rightarrow> u64" where "PGROUNDUP sz = (sz + PGSIZE - 1) AND NOT (PGSIZE - 1)"
definition PGROUNDDOWN :: "u64 \<Rightarrow> u64" where "PGROUNDDOWN a = a AND NOT (PGSIZE - 1)"

definition KERNBASE :: u64 where "KERNBASE = 0x80000000"
definition PHYSTOP :: u64 where "PHYSTOP = KERNBASE + 128 * 1024 * 1024"
definition MAXVA :: u64 where "MAXVA = push_bit (9 + 9 + 9 + 12 - 1) 1"
definition TRAMPOLINE :: u64 where "TRAMPOLINE = MAXVA - PGSIZE"
definition TRAPFRAME :: u64 where "TRAPFRAME = TRAMPOLINE - PGSIZE"
definition KSTACK :: "nat \<Rightarrow> u64" where "KSTACK p = TRAMPOLINE - of_nat (p + 1) * 2 * PGSIZE"

definition PTE_V :: u64 where "PTE_V = 1"
definition PTE_R :: u64 where "PTE_R = 2"
definition PTE_W :: u64 where "PTE_W = 4"
definition PTE_X :: u64 where "PTE_X = 8"
definition PTE_U :: u64 where "PTE_U = 16"

definition PA2PTE :: "u64 \<Rightarrow> u64" where "PA2PTE pa = push_bit 10 (drop_bit 12 pa)"
definition PTE2PA :: "u64 \<Rightarrow> u64" where "PTE2PA pte = push_bit 12 (drop_bit 10 pte)"
definition PTE_FLAGS :: "u64 \<Rightarrow> u64" where "PTE_FLAGS pte = pte AND 0x3FF"
definition PX :: "nat \<Rightarrow> u64 \<Rightarrow> u64" where "PX level va = drop_bit (12 + 9 * level) va AND 0x1FF"

lemmas layout_defs = PGSIZE_def KERNBASE_def PHYSTOP_def MAXVA_def TRAMPOLINE_def TRAPFRAME_def
lemmas pte_bits = PTE_V_def PTE_R_def PTE_W_def PTE_X_def PTE_U_def

section \<open>Loads and stores\<close>

definition load64 :: "mem \<Rightarrow> u64 \<Rightarrow> u64" where
  "load64 m a = le_word (map (\<lambda>i. m (a + of_nat i)) [0..<8])"

definition store_bytes :: "mem \<Rightarrow> u64 \<Rightarrow> u8 list \<Rightarrow> mem" where
  "store_bytes m a bs x = (if unat (x - a) < length bs then bs ! unat (x - a) else m x)"

definition load_bytes :: "mem \<Rightarrow> u64 \<Rightarrow> nat \<Rightarrow> u8 list" where
  "load_bytes m a n = map (\<lambda>i. m (a + of_nat i)) [0..<n]"

definition store64 :: "mem \<Rightarrow> u64 \<Rightarrow> u64 \<Rightarrow> mem" where
  "store64 m a v = store_bytes m a (le_bytes 8 v)"

lemma load_store64_same [simp]: "load64 (store64 m a v) a = v"
proof -
  have "map (\<lambda>i. store64 m a v (a + of_nat i)) [0..<8] = le_bytes 8 v"
    by (rule nth_equalityI) (auto simp: store64_def store_bytes_def unat_of_nat_small)
  then show ?thesis by (simp only: load64_def) (simp add: le_word_bytes)
qed

lemma load64_cong: "(\<And>i. i < 8 \<Longrightarrow> m (a + of_nat i) = m' (a + of_nat i)) \<Longrightarrow> load64 m a = load64 m' a"
  unfolding load64_def by (intro arg_cong [where f = le_word] map_cong) auto

lemma load_store_bytes_same:
  "length bs < 2 ^ 64 \<Longrightarrow> load_bytes (store_bytes m a bs) a (length bs) = bs"
  by (rule nth_equalityI) (auto simp: load_bytes_def store_bytes_def unat_of_nat_small)

section \<open>Pages\<close>

text \<open>\<open>page_of x\<close> is the page that the byte \<open>x\<close> lies in.\<close>

definition page_of :: "u64 \<Rightarrow> u64" where "page_of x = x AND NOT 4095"

definition aligned :: "u64 \<Rightarrow> bool" where "aligned p \<longleftrightarrow> p mod PGSIZE = 0"

lemma aligned_iff_unat: "aligned p \<longleftrightarrow> 4096 dvd unat p"
  by (simp add: aligned_def PGSIZE_def word_unat_eq_iff unat_mod_distrib mod_eq_0_iff_dvd)

lemma NOT_4095: "(NOT 4095 :: u64) = NOT (mask 12)"
  by (simp add: mask_eq_exp_minus_1)

lemma page_of_eq_minus: "page_of x = x - x mod 4096"
proof -
  have "page_of x = push_bit 12 (drop_bit 12 x)"
    unfolding page_of_def NOT_4095 by (rule bit_word_eqI) (auto simp: bit_simps)
  also have "\<dots> = x - take_bit 12 x" using bits_ident [of 12 x] by (simp add: eq_diff_eq)
  also have "take_bit 12 x = x mod 4096" by (simp add: take_bit_eq_mod)
  finally show ?thesis .
qed

lemma unat_page_of: "unat (page_of x) = unat x - unat x mod 4096"
  unfolding page_of_eq_minus
  by (subst unat_sub) (simp_all add: word_le_nat_alt unat_mod_distrib)

lemma aligned_page_of [simp]: "aligned (page_of x)"
  by (simp add: aligned_iff_unat unat_page_of dvd_minus_mod)

lemma page_of_aligned: "aligned p \<Longrightarrow> page_of p = p"
  by (simp add: page_of_eq_minus aligned_def PGSIZE_def)

lemma PGROUNDDOWN_page_of: "PGROUNDDOWN a = page_of a"
  by (simp add: PGROUNDDOWN_def page_of_def PGSIZE_def)

lemma aligned_bound: "aligned p \<Longrightarrow> unat p \<le> 2 ^ 64 - 4096"
proof -
  assume "aligned p"
  then obtain k where k: "unat p = 4096 * k" by (auto simp: aligned_iff_unat)
  with unat_bound [of p] show ?thesis by simp
qed

lemma unat_in_page:
  assumes "aligned p" and "i < 4096"
  shows "unat (p + of_nat i) = unat p + i"
proof -
  have i: "unat (of_nat i :: u64) = i" using assms(2) by (intro unat_of_nat_small) simp
  have "unat p + i < 2 ^ 64" using aligned_bound [OF assms(1)] assms(2) by simp
  then show ?thesis using i by (subst unat_add_lem [THEN iffD1]) auto
qed

lemma page_of_in_page: "aligned p \<Longrightarrow> i < 4096 \<Longrightarrow> page_of (p + of_nat i) = p"
proof -
  assume p: "aligned p" and i: "i < 4096"
  then obtain k where k: "unat p = 4096 * k" by (auto simp: aligned_iff_unat)
  have "unat (page_of (p + of_nat i)) = unat p"
    using p i k by (simp add: unat_page_of unat_in_page mod_add_left_eq)
  then show ?thesis by (simp add: word_unat_eq_iff)
qed

lemma in_page_iff: "aligned p \<Longrightarrow> unat (x - p) < 4096 \<longleftrightarrow> page_of x = p"
proof
  assume p: "aligned p" and "unat (x - p) < 4096"
  then have "page_of (p + of_nat (unat (x - p))) = p" by (rule page_of_in_page)
  then show "page_of x = p" by simp
next
  assume p: "aligned p" and q: "page_of x = p"
  have "x - p = x mod 4096" unfolding q [symmetric] page_of_eq_minus by simp
  then have "unat (x - p) = unat x mod 4096" by (simp add: unat_mod_distrib)
  then show "unat (x - p) < 4096" by simp
qed

lemma page_decomp: "x = page_of x + of_nat (unat x mod 4096)"
proof -
  have "of_nat (unat x mod 4096) = x mod 4096"
    by (simp add: word_unat_eq_iff unat_mod_distrib unat_of_nat_small)
  then show ?thesis by (simp add: page_of_eq_minus)
qed

text \<open>Word-sized accesses within a page do not reach other pages.\<close>

lemma store64_other_page:
  assumes "aligned p" and "i \<le> 4088" and "page_of x \<noteq> p"
  shows "store64 m (p + of_nat i) v x = m x"
proof -
  have "\<not> unat (x - (p + of_nat i)) < 8"
  proof
    assume lt: "unat (x - (p + of_nat i)) < 8"
    define k where "k = unat (x - (p + of_nat i))"
    have "x = p + of_nat (i + k)" by (simp add: k_def)
    moreover have "page_of (p + of_nat (i + k)) = p"
      using assms(1,2) lt unfolding k_def [symmetric] by (intro page_of_in_page) auto
    ultimately show False using assms(3) by simp
  qed
  then show ?thesis by (simp add: store64_def store_bytes_def)
qed

lemma load64_page_cong:
  assumes "aligned p" and "i \<le> 4088" and "\<And>x. page_of x = p \<Longrightarrow> m x = m' x"
  shows "load64 m (p + of_nat i) = load64 m' (p + of_nat i)"
proof (rule load64_cong)
  fix k :: nat assume "k < 8"
  then have "page_of (p + of_nat (i + k)) = p" using assms(1,2) by (intro page_of_in_page) auto
  then show "m (p + of_nat i + of_nat k) = m' (p + of_nat i + of_nat k)"
    using assms(3) by (simp add: add.assoc)
qed

lemma load_store64_other_page:
  assumes "aligned p" "aligned q" "p \<noteq> q" "i \<le> 4088" "j \<le> 4088"
  shows "load64 (store64 m (p + of_nat i) v) (q + of_nat j) = load64 m (q + of_nat j)"
  using assms by (intro load64_page_cong store64_other_page) auto

lemma load_store64_same_page:
  assumes p: "aligned p" and i: "i < 512" and j: "j < 512" and ne: "i \<noteq> j"
  shows "load64 (store64 m (p + of_nat (8 * i)) v) (p + of_nat (8 * j)) = load64 m (p + of_nat (8 * j))"
proof (rule load64_cong)
  fix k :: nat assume k: "k < 8"
  have "\<not> unat (p + of_nat (8 * j) + of_nat k - (p + of_nat (8 * i))) < 8"
  proof
    assume lt: "unat (p + of_nat (8 * j) + of_nat k - (p + of_nat (8 * i))) < 8"
    define d where "d = unat (p + of_nat (8 * j) + of_nat k - (p + of_nat (8 * i)))"
    have "p + of_nat (8 * j + k) = p + of_nat (8 * i + d)" by (simp add: d_def)
    then have "unat p + (8 * j + k) = unat p + (8 * i + d)"
      using unat_in_page [OF p, of "8 * j + k"] unat_in_page [OF p, of "8 * i + d"] i j k lt
      by (simp add: d_def del: of_nat_add)
    with k lt ne show False by (simp add: d_def)
  qed
  then show "store64 m (p + of_nat (8 * i)) v (p + of_nat (8 * j) + of_nat k) =
      m (p + of_nat (8 * j) + of_nat k)"
    by (simp add: store64_def store_bytes_def)
qed

text \<open>Filling a whole page.\<close>

lemma memset_page: "aligned p \<Longrightarrow> memset m p c 4096 x = (if page_of x = p then ucast c else m x)"
  by (simp add: memset_apply in_page_iff)

lemma load64_memset_zero: "aligned p \<Longrightarrow> i \<le> 4088 \<Longrightarrow> load64 (memset m p 0 4096) (p + of_nat i) = 0"
proof -
  assume p: "aligned p" and i: "i \<le> 4088"
  have "load64 (memset m p 0 4096) (p + of_nat i) = load64 (\<lambda>_. 0) (p + of_nat i)"
    using p i by (intro load64_page_cong) (auto simp: memset_page)
  also have "\<dots> = 0" by (simp add: load64_def upt_rec)
  finally show ?thesis .
qed

lemma load64_memset_other:
  "aligned p \<Longrightarrow> aligned q \<Longrightarrow> p \<noteq> q \<Longrightarrow> i \<le> 4088 \<Longrightarrow>
     load64 (memset m p c 4096) (q + of_nat i) = load64 m (q + of_nat i)"
  by (intro load64_page_cong) (auto simp: memset_page)

end
