(* ===== verification/Kalloc.thy ===== *)
theory Kalloc
  imports Physmem
begin

text \<open>
  The physical page allocator, kernel/kalloc.c. The free list is kept, as in the source, inside
  the free pages themselves: the first eight bytes of a free page hold the address of the next
  one. \<open>free_pages s ps\<close> says that the list starting at \<open>kmem.freelist\<close> is \<open>ps\<close>.
\<close>

section \<open>State and operations\<close>

text \<open>
  \<open>kend\<close> is the linker symbol \<^verbatim>\<open>end\<close>; \<open>pmem\<close> is physical memory; \<open>freelist\<close> is
  \<^verbatim>\<open>kmem.freelist\<close>, 0 being the null pointer.
\<close>

record machine =
  pmem :: mem
  freelist :: u64
  kend :: u64

definition kfree :: "u64 \<Rightarrow> 'z machine_scheme \<Rightarrow> ('z machine_scheme, unit) result" where
  "kfree pa s =
     (if pa mod PGSIZE \<noteq> 0 \<or> pa < kend s \<or> PHYSTOP \<le> pa then Panic ''kfree''
      else
        let m = memset (pmem s) pa 1 (ucast PGSIZE);
            m = store64 m pa (freelist s)
        in Ok () (s\<lparr>pmem := m, freelist := pa\<rparr>))"

definition kalloc :: "'z machine_scheme \<Rightarrow> ('z machine_scheme, u64) result" where
  "kalloc s =
     (let r = freelist s in
      if r \<noteq> 0 then
        Ok r (s\<lparr>freelist := load64 (pmem s) r, pmem := memset (pmem s) r 5 (ucast PGSIZE)\<rparr>)
      else Ok r s)"

function freerange_loop :: "u64 \<Rightarrow> u64 \<Rightarrow> 'z machine_scheme \<Rightarrow> ('z machine_scheme, unit) result" where
  "freerange_loop p pa_end s =
     (if p + PGSIZE \<le> pa_end then
        then_do (kfree p s) (\<lambda>_ s. freerange_loop (p + PGSIZE) pa_end s)
      else Ok () s)"
  by pat_completeness auto
termination
proof (relation "measure (\<lambda>(p, e, s). unat (PHYSTOP - p) )", goal_cases)
  case 1
  then show ?case by simp
next
  case (2 p pa_end s x sa)
  then have p: "p < PHYSTOP" "p mod PGSIZE = 0"
    by (auto simp: kfree_def Let_def split: if_splits)
  have "aligned p" using p(2) by (simp add: aligned_def)
  moreover have "unat p < 0x88000000" using p(1) by (simp add: layout_defs word_less_nat_alt)
  ultimately have le: "unat p + 4096 \<le> 0x88000000"
    by (auto simp: aligned_iff_unat elim!: dvdE)
  then have "unat (p + 4096) = unat p + 4096" by (subst unat_add_lem [THEN iffD1]) simp_all
  with le have "p + 4096 \<le> PHYSTOP" by (simp add: layout_defs word_le_nat_alt)
  then have "unat (PHYSTOP - (p + 4096)) = unat PHYSTOP - (unat p + 4096)"
    using \<open>unat (p + 4096) = _\<close> by (simp add: unat_sub)
  moreover have "unat (PHYSTOP - p) = unat PHYSTOP - unat p"
    using p(1) by (simp add: unat_sub order_less_imp_le)
  ultimately show ?case using le by (simp add: layout_defs)
qed

declare freerange_loop.simps [simp del]

definition freerange :: "u64 \<Rightarrow> u64 \<Rightarrow> 'z machine_scheme \<Rightarrow> ('z machine_scheme, unit) result" where
  "freerange pa_start pa_end s = freerange_loop (PGROUNDUP pa_start) pa_end s"

definition kinit :: "'z machine_scheme \<Rightarrow> ('z machine_scheme, unit) result" where
  "kinit s = freerange (kend s) PHYSTOP s"

section \<open>The free list\<close>

definition frame_ok :: "'z machine_scheme \<Rightarrow> u64 \<Rightarrow> bool" where
  "frame_ok s p \<longleftrightarrow> aligned p \<and> kend s \<le> p \<and> p < PHYSTOP"

definition free_pages :: "'z machine_scheme \<Rightarrow> u64 list \<Rightarrow> bool" where
  "free_pages s ps \<longleftrightarrow>
     path (load64 (pmem s)) (freelist s) ps 0 \<and> distinct ps \<and> (\<forall>p\<in>set ps. frame_ok s p) \<and> 0 < kend s"

lemma frame_ok_nonzero: "frame_ok s p \<Longrightarrow> 0 < kend s \<Longrightarrow> p \<noteq> 0"
  by (auto simp: frame_ok_def)

lemma ucast_PGSIZE [simp]: "(ucast PGSIZE :: u32) = 4096"
  by (simp add: PGSIZE_def)

lemma kfree_panics_iff: "(kfree p s = Panic e) \<longleftrightarrow> \<not> frame_ok s p \<and> e = ''kfree''"
  by (auto simp: kfree_def Let_def frame_ok_def aligned_def)

lemma path_pages_cong:
  assumes "\<forall>p\<in>set ps. aligned p" and "\<And>x. page_of x \<in> set ps \<Longrightarrow> m x = m' x"
  shows "path (load64 m) a ps b = path (load64 m') a ps b"
proof (rule path_cong)
  fix p assume p: "p \<in> set ps"
  then show "load64 m p = load64 m' p"
    using assms load64_page_cong [of p 0 m m'] by simp
qed

lemma free_pages_frame:
  assumes "free_pages s ps" and "freelist t = freelist s" and "kend t = kend s"
    and "\<And>x. page_of x \<in> set ps \<Longrightarrow> pmem t x = pmem s x"
  shows "free_pages t ps"
proof -
  have "path (load64 (pmem s)) (freelist s) ps 0 = path (load64 (pmem t)) (freelist s) ps 0"
    using assms by (intro path_pages_cong) (auto simp: free_pages_def frame_ok_def)
  then show ?thesis using assms by (auto simp: free_pages_def frame_ok_def)
qed

lemma free_pages_unique:
  assumes "free_pages s ps" and "free_pages s qs"
  shows "ps = qs"
proof -
  have "path n a xs 0 \<Longrightarrow> path n a ys 0 \<Longrightarrow> 0 \<notin> set xs \<Longrightarrow> 0 \<notin> set ys \<Longrightarrow> xs = ys"
    for n and a :: u64 and xs ys
  proof (induction xs arbitrary: a ys)
    case Nil then show ?case by (cases ys) auto
  next
    case (Cons x xs) then show ?case by (cases ys) auto
  qed
  moreover have "0 \<notin> set ps" "0 \<notin> set qs"
    using assms frame_ok_nonzero unfolding free_pages_def by blast+
  ultimately show ?thesis using assms unfolding free_pages_def by blast
qed

lemma free_pages_Nil: "free_pages s [] \<longleftrightarrow> freelist s = 0 \<and> 0 < kend s"
  by (simp add: free_pages_def)

lemma kalloc_empty: "free_pages s [] \<Longrightarrow> kalloc s = Ok 0 s"
  by (simp add: free_pages_Nil kalloc_def)

lemma kalloc_cons:
  assumes "free_pages s (p # ps)"
  shows "\<exists>t. kalloc s = Ok p t \<and> free_pages t ps \<and> kend t = kend s \<and>
    (\<forall>x. pmem t x = (if page_of x = p then 5 else pmem s x)) \<and> machine.more t = machine.more s"
proof -
  from assms have f: "freelist s = p" "path (load64 (pmem s)) (load64 (pmem s) p) ps 0"
    "p \<notin> set ps" "distinct ps" "frame_ok s p" "\<forall>q\<in>set ps. frame_ok s q" "0 < kend s"
    by (auto simp: free_pages_def)
  have nz: "p \<noteq> 0" using f(5,7) by (rule frame_ok_nonzero)
  have al: "aligned p" using f(5) by (simp add: frame_ok_def)
  define t where "t = s\<lparr>freelist := load64 (pmem s) p, pmem := memset (pmem s) p 5 4096\<rparr>"
  have k: "kalloc s = Ok p t" using f(1) nz by (simp add: kalloc_def t_def)
  have m: "pmem t x = (if page_of x = p then 5 else pmem s x)" for x
    by (simp add: t_def memset_page [OF al])
  have "free_pages (s\<lparr>freelist := load64 (pmem s) p\<rparr>) ps"
    using f by (simp add: free_pages_def frame_ok_def)
  then have "free_pages t ps"
    by (rule free_pages_frame) (use f(3) in \<open>auto simp: t_def memset_page [OF al]\<close>)
  with k m show ?thesis by (intro exI [of _ t]) (simp add: t_def)
qed

lemma kfree_cons:
  assumes "free_pages s ps" and "frame_ok s p" and "p \<notin> set ps"
  shows "\<exists>t. kfree p s = Ok () t \<and> free_pages t (p # ps) \<and> kend t = kend s \<and>
    (\<forall>x. page_of x \<noteq> p \<longrightarrow> pmem t x = pmem s x) \<and> machine.more t = machine.more s"
proof -
  have al: "aligned p" using assms(2) by (simp add: frame_ok_def)
  define t where
    "t = s\<lparr>pmem := store64 (memset (pmem s) p 1 4096) p (freelist s), freelist := p\<rparr>"
  have k: "kfree p s = Ok () t"
    using assms(2) by (auto simp: kfree_def frame_ok_def aligned_def t_def Let_def)
  have m: "page_of x \<noteq> p \<Longrightarrow> pmem t x = pmem s x" for x
    using store64_other_page [OF al, of 0 x] by (simp add: t_def memset_page [OF al])
  have "path (load64 (pmem s)) (freelist s) ps 0 = path (load64 (pmem t)) (freelist s) ps 0"
    using assms m by (intro path_pages_cong) (fastforce simp: free_pages_def frame_ok_def)+
  then have "free_pages t (p # ps)"
    using assms by (auto simp: free_pages_def frame_ok_def t_def)
  with k m show ?thesis by (intro exI [of _ t]) (simp add: t_def)
qed


section \<open>The allocator's contract\<close>

text \<open>
  What the rest of the kernel relies on. \<open>pool s ps\<close>: the pages \<open>ps\<close> are free; \<open>legal s p\<close>: \<open>p\<close> is
  a page that may be given to \<open>release\<close>.
\<close>

locale page_allocator =
  fixes pool :: "'s \<Rightarrow> u64 list \<Rightarrow> bool"
    and legal :: "'s \<Rightarrow> u64 \<Rightarrow> bool"
    and obtain_page :: "'s \<Rightarrow> ('s, u64) result"
    and release_page :: "u64 \<Rightarrow> 's \<Rightarrow> ('s, unit) result"
  assumes pool_unique: "pool s ps \<Longrightarrow> pool s qs \<Longrightarrow> ps = qs"
    and pool_distinct: "pool s ps \<Longrightarrow> distinct ps"
    and pool_legal: "pool s ps \<Longrightarrow> p \<in> set ps \<Longrightarrow> legal s p \<and> p \<noteq> 0"
    and obtain_none: "pool s [] \<Longrightarrow> obtain_page s = Ok 0 s"
    and obtain_some: "pool s (p # ps) \<Longrightarrow>
      \<exists>t. obtain_page s = Ok p t \<and> pool t ps \<and> legal t = legal s"
    and release_ok: "pool s ps \<Longrightarrow> legal s p \<Longrightarrow> p \<notin> set ps \<Longrightarrow>
      \<exists>t. release_page p s = Ok () t \<and> pool t (p # ps) \<and> legal t = legal s"
begin

lemma obtain_cases:
  assumes "pool s ps" and "obtain_page s = Ok r t"
  shows "(r = 0 \<and> ps = [] \<and> t = s) \<or>
    (r \<noteq> 0 \<and> legal t r \<and> (\<exists>qs. ps = r # qs \<and> r \<notin> set qs \<and> pool t qs))"
proof (cases ps)
  case Nil
  then show ?thesis using assms obtain_none by auto
next
  case (Cons p qs)
  then obtain t' where "obtain_page s = Ok p t'" "pool t' qs" "legal t' = legal s"
    using obtain_some assms(1) by blast
  then show ?thesis
    using assms Cons pool_legal [of s ps p] pool_distinct [of s ps] by auto
qed

lemma obtain_total: "pool s ps \<Longrightarrow> \<exists>r t. obtain_page s = Ok r t"
  by (cases ps) (use obtain_none obtain_some in blast)+

lemma obtain_release:
  assumes "pool s (p # ps)"
  shows "\<exists>t. then_do (obtain_page s) (\<lambda>r t. release_page r t) = Ok () t \<and> pool t (p # ps)"
proof -
  obtain t where t: "obtain_page s = Ok p t" "pool t ps" "legal t = legal s"
    using obtain_some [OF assms] by blast
  moreover have "p \<notin> set ps" "legal t p"
    using pool_distinct [OF assms] pool_legal [OF assms] t(3) by auto
  ultimately show ?thesis using release_ok by fastforce
qed

lemma obtain_twice_distinct:
  assumes "pool s ps" and "then_do (obtain_page s) (\<lambda>r t. then_do (obtain_page t) (\<lambda>q u. Ok (r, q) u)) = Ok (r, q) u"
    and "q \<noteq> 0"
  shows "r \<noteq> 0 \<and> r \<noteq> q"
proof -
  from assms(2) obtain t where t: "obtain_page s = Ok r t" "obtain_page t = Ok q u"
    by (auto simp: result_iff)
  show ?thesis
  proof (cases "r = 0")
    case True
    then have "t = s" using obtain_cases [OF assms(1) t(1)] by simp
    then show ?thesis using t assms(3) True by simp
  next
    case False
    then obtain qs where "r \<notin> set qs" "pool t qs" using obtain_cases [OF assms(1) t(1)] by auto
    then show ?thesis using False obtain_cases [of t qs q u] t(2) assms(3) by auto
  qed
qed

end

lemma frame_ok_kend: "kend t = kend s \<Longrightarrow> frame_ok t = frame_ok s"
  by (auto simp: frame_ok_def fun_eq_iff)

interpretation kmem: page_allocator free_pages frame_ok kalloc kfree
proof (unfold_locales, goal_cases)
  case (1 s ps qs)
  then show ?case by (rule free_pages_unique)
next
  case (2 s ps)
  then show ?case by (simp add: free_pages_def)
next
  case (3 s ps p)
  then show ?case using frame_ok_nonzero by (auto simp: free_pages_def)
next
  case (4 s)
  then show ?case by (rule kalloc_empty)
next
  case (5 s p ps)
  then show ?case using kalloc_cons [of s p ps] frame_ok_kend by blast
next
  case (6 s ps p)
  then show ?case using kfree_cons [of s ps p] frame_ok_kend by blast
qed

section \<open>Initialisation\<close>

lemma freerange_loop_pages:
  assumes "free_pages s ps" and "aligned p" and "kend s \<le> p" and "e \<le> PHYSTOP"
    and "unat p + 4096 * n \<le> unat e" and "unat e < unat p + 4096 * Suc n"
    and "\<forall>q\<in>set ps. q < p"
  shows "\<exists>t. freerange_loop p e s = Ok () t \<and> kend t = kend s \<and>
    free_pages t (rev (map (\<lambda>i. p + of_nat (4096 * i)) [0..<n]) @ ps)"
  using assms
proof (induction n arbitrary: p s ps)
  case 0
  have "unat e \<le> 0x88000000" using 0(4) by (simp add: layout_defs word_le_nat_alt)
  then have "unat p \<le> 0x88000000" using 0(5) by simp
  then have "unat (p + 4096) = unat p + 4096" by (subst unat_add_lem [THEN iffD1]) simp_all
  with 0 have "\<not> p + PGSIZE \<le> e" by (simp add: word_le_nat_alt PGSIZE_def)
  with 0 show ?case by (simp add: freerange_loop.simps [of p])
next
  case (Suc n)
  have e: "unat e \<le> 0x88000000" using Suc.prems(4) by (simp add: layout_defs word_le_nat_alt)
  have up: "unat (p + 4096) = unat p + 4096"
    using Suc.prems(5) e by (subst unat_add_lem [THEN iffD1]) simp_all
  have lt: "p < PHYSTOP" using Suc.prems(5) e by (simp add: layout_defs word_less_nat_alt)
  have go: "p + PGSIZE \<le> e" using Suc.prems(5) up by (simp add: word_le_nat_alt PGSIZE_def)
  have "frame_ok s p" using Suc.prems(2,3) lt by (simp add: frame_ok_def)
  moreover have "p \<notin> set ps" using Suc.prems(7) by auto
  ultimately obtain t where t: "kfree p s = Ok () t" "free_pages t (p # ps)" "kend t = kend s"
    using kfree_cons [OF Suc.prems(1)] by blast
  have "aligned (p + 4096)" using Suc.prems(2) by (simp add: aligned_iff_unat up)
  moreover have "kend t \<le> p + 4096" using t(3) Suc.prems(3) up by (simp add: word_le_nat_alt)
  moreover have "\<forall>q\<in>set (p # ps). q < p + 4096"
    using Suc.prems(7) up by (auto simp: word_less_nat_alt)
  ultimately obtain u where u: "freerange_loop (p + 4096) e t = Ok () u" "kend u = kend t"
    "free_pages u (rev (map (\<lambda>i. p + 4096 + of_nat (4096 * i)) [0..<n]) @ p # ps)"
    using Suc.IH [OF t(2), of "p + 4096"] Suc.prems(4-6) up by auto
  have "map (\<lambda>i. p + of_nat (4096 * i)) [0..<Suc n] =
      p # map (\<lambda>i. p + 4096 + of_nat (4096 * i)) [0..<n]"
    by (simp add: upt_conv_Cons map_Suc_upt [symmetric] add.assoc del: upt_Suc)
  then show ?case
    using u t go by (simp add: freerange_loop.simps [of p] PGSIZE_def del: upt_Suc)
qed

lemma PGROUNDUP_page_of: "PGROUNDUP x = page_of (x + 4095)"
  by (simp add: PGROUNDUP_def page_of_def PGSIZE_def add.commute)

lemma unat_PGROUNDUP:
  "unat x \<le> 2 ^ 63 \<Longrightarrow> unat (PGROUNDUP x) = (unat x + 4095) div 4096 * 4096"
proof -
  assume "unat x \<le> 2 ^ 63"
  then have "unat (x + 4095) = unat x + 4095" by (subst unat_add_lem [THEN iffD1]) simp_all
  then show ?thesis by (simp add: PGROUNDUP_page_of unat_page_of minus_mod_eq_div_mult)
qed

lemma aligned_PGROUNDUP [simp]: "aligned (PGROUNDUP x)"
  by (simp add: PGROUNDUP_page_of)

section \<open>Properties\<close>

text \<open>C6: The free list kept inside the free pages is a stack of pages. When the list is \<open>ps\<close>, kalloc
  returns 0 and changes nothing if \<open>ps\<close> is empty; otherwise it returns the head, which is a legal,
  page-aligned frame, leaves the tail as the list, fills exactly that page with 5 and keeps every other
  byte of memory. Freeing a legal page that is not in the list pushes it and keeps every byte outside
  the page; freeing anything else that is not a legal frame panics.\<close>

theorem kalloc_kfree_stack:
  assumes "free_pages s ps"
  shows "(ps = [] \<longrightarrow> kalloc s = Ok 0 s) \<and>
    (\<forall>p qs. ps = p # qs \<longrightarrow> frame_ok s p \<and> (\<exists>t. kalloc s = Ok p t \<and> free_pages t qs \<and>
        (\<forall>x. pmem t x = (if page_of x = p then 5 else pmem s x)))) \<and>
    (\<forall>p. frame_ok s p \<and> p \<notin> set ps \<longrightarrow> (\<exists>t. kfree p s = Ok () t \<and> free_pages t (p # ps) \<and>
        (\<forall>x. page_of x \<noteq> p \<longrightarrow> pmem t x = pmem s x))) \<and>
    (\<forall>p. \<not> frame_ok s p \<longrightarrow> kfree p s = Panic ''kfree'')"
proof (intro conjI allI impI)
  fix p qs assume "ps = p # qs"
  then show "frame_ok s p" "\<exists>t. kalloc s = Ok p t \<and> free_pages t qs \<and>
        (\<forall>x. pmem t x = (if page_of x = p then 5 else pmem s x))"
    using assms kalloc_cons [of s p qs] by (auto simp: free_pages_def)
next
  fix p assume "frame_ok s p \<and> p \<notin> set ps"
  then show "\<exists>t. kfree p s = Ok () t \<and> free_pages t (p # ps) \<and>
        (\<forall>x. page_of x \<noteq> p \<longrightarrow> pmem t x = pmem s x)"
    using kfree_cons [OF assms] by blast
qed (use assms kalloc_empty in \<open>auto simp: kfree_panics_iff\<close>)

theorem kalloc_kfree_stack_witness:
  "kfree 5 (\<lparr>pmem = \<lambda>_. 0, freelist = 0, kend = 0x80001000\<rparr>) = Panic ''kfree''"
  by (rule kalloc_kfree_stack [of _ "[]", THEN conjunct2, THEN conjunct2, THEN conjunct2,
        THEN spec, THEN mp])
    (simp_all add: free_pages_def frame_ok_def aligned_iff_unat)

text \<open>kinit() puts every whole page between the end of the kernel and PHYSTOP on the free list,
  each exactly once, in descending order of address, and never panics.\<close>

theorem kinit_frees_all:
  assumes "freelist s = 0" and "0 < kend s" and "kend s \<le> PHYSTOP"
  shows "\<exists>t. kinit s = Ok () t \<and>
    free_pages t (rev (map (\<lambda>i. PGROUNDUP (kend s) + of_nat (4096 * i))
      [0..<(unat PHYSTOP - unat (PGROUNDUP (kend s))) div 4096]))"
proof -
  let ?p = "PGROUNDUP (kend s)"
  let ?n = "(unat PHYSTOP - unat ?p) div 4096"
  have k: "unat (kend s) \<le> 0x88000000" using assms(3) by (simp add: layout_defs word_le_nat_alt)
  then have up: "unat ?p = (unat (kend s) + 4095) div 4096 * 4096" by (intro unat_PGROUNDUP) simp
  have ge: "kend s \<le> ?p" unfolding word_le_nat_alt up by simp
  have le: "unat ?p \<le> 0x88000000" using k unfolding up by simp
  have P: "unat PHYSTOP = 0x88000000" by (simp add: layout_defs)
  have "free_pages s []" using assms by (simp add: free_pages_Nil)
  then have "\<exists>t. freerange_loop ?p PHYSTOP s = Ok () t \<and> kend t = kend s \<and>
    free_pages t (rev (map (\<lambda>i. ?p + of_nat (4096 * i)) [0..<?n]) @ [])"
    using ge le P by (intro freerange_loop_pages) auto
  then show ?thesis by (auto simp: kinit_def freerange_def)
qed

theorem kinit_frees_all_witness:
  "\<exists>t. kinit \<lparr>pmem = \<lambda>_. 0, freelist = 0, kend = 0x87FFE801\<rparr> = Ok () t \<and> free_pages t [0x87FFF000]"
proof -
  have "PGROUNDUP 0x87FFE801 = 0x87FFF000" by (simp add: PGROUNDUP_def PGSIZE_def)
  then show ?thesis
    using kinit_frees_all [of "\<lparr>pmem = \<lambda>_. 0, freelist = 0, kend = 0x87FFE801\<rparr>"]
    by (simp add: layout_defs word_le_nat_alt)
qed

end
