(* ===== verification/Vm.thy ===== *)
theory Vm
  imports Kalloc
begin

text \<open>
  Page tables and user memory, kernel/vm.c. Page-table pages live in physical memory exactly as the
  hardware reads them: \<open>walk\<close> loads and stores 64-bit entries. A kernel buffer that copyout() reads or
  copyin() fills is a list of bytes.
\<close>

section \<open>Walking and mapping\<close>

definition pte_ptr :: "u64 \<Rightarrow> nat \<Rightarrow> u64 \<Rightarrow> u64" where
  "pte_ptr pagetable level va = pagetable + 8 * PX level va"

primrec walk_levels :: "nat \<Rightarrow> u64 \<Rightarrow> u64 \<Rightarrow> bool \<Rightarrow> 'z machine_scheme \<Rightarrow> ('z machine_scheme, u64) result" where
  "walk_levels 0 pagetable va alloc s = Ok (pte_ptr pagetable 0 va) s"
| "walk_levels (Suc l) pagetable va alloc s =
     (let pte = pte_ptr pagetable (Suc l) va; v = load64 (pmem s) pte in
      if v AND PTE_V \<noteq> 0 then walk_levels l (PTE2PA v) va alloc s
      else if \<not> alloc then Ok 0 s
      else then_do (kalloc s) (\<lambda>r s.
        if r = 0 then Ok 0 s
        else
          let m = memset (pmem s) r 0 (ucast PGSIZE);
              m = store64 m pte (PA2PTE r OR PTE_V)
          in walk_levels l r va alloc (s\<lparr>pmem := m\<rparr>)))"

definition walk :: "u64 \<Rightarrow> u64 \<Rightarrow> bool \<Rightarrow> 'z machine_scheme \<Rightarrow> ('z machine_scheme, u64) result" where
  "walk pagetable va alloc s =
     (if MAXVA \<le> va then Panic ''walk'' else walk_levels 2 pagetable va alloc s)"

definition walkaddr :: "u64 \<Rightarrow> u64 \<Rightarrow> 'z machine_scheme \<Rightarrow> ('z machine_scheme, u64) result" where
  "walkaddr pagetable va s =
     (if MAXVA \<le> va then Ok 0 s
      else then_do (walk pagetable va False s) (\<lambda>pte s.
        if pte = 0 then Ok 0 s
        else
          let v = load64 (pmem s) pte in
          if v AND PTE_V = 0 then Ok 0 s
          else if v AND PTE_U = 0 then Ok 0 s
          else Ok (PTE2PA v) s))"

text \<open>Loops over user addresses end because walk() panics at \<^const>\<open>MAXVA\<close>.\<close>

lemma walk_Ok_lt: "walk pt a f s = Ok r t \<Longrightarrow> a < MAXVA"
  by (auto simp: walk_def split: if_splits)

lemma below_MAXVA_step:
  "a < MAXVA \<Longrightarrow> unat MAXVA - unat (a + PGSIZE) < unat MAXVA - unat a"
proof -
  assume a: "a < MAXVA"
  then have "unat a < 2 ^ 38" by (simp add: layout_defs word_less_nat_alt)
  then have "unat (a + 4096) = unat a + 4096" by (subst unat_add_lem [THEN iffD1]) simp_all
  then show ?thesis using a by (simp add: PGSIZE_def word_less_nat_alt)
qed

function mappages_loop :: "u64 \<Rightarrow> u64 \<Rightarrow> u64 \<Rightarrow> u64 \<Rightarrow> u64 \<Rightarrow> 'z machine_scheme \<Rightarrow> ('z machine_scheme, int) result" where
  "mappages_loop pagetable a last_a pa perm s =
     then_do (walk pagetable a True s) (\<lambda>pte s.
       if pte = 0 then Ok (-1) s
       else if load64 (pmem s) pte AND PTE_V \<noteq> 0 then Panic ''mappages: remap''
       else
         let s = s\<lparr>pmem := store64 (pmem s) pte (PA2PTE pa OR perm OR PTE_V)\<rparr> in
         if a = last_a then Ok 0 s
         else mappages_loop pagetable (a + PGSIZE) last_a (pa + PGSIZE) perm s)"
  by pat_completeness auto
termination
  by (relation "measure (\<lambda>(pt, a, last_a, pa, perm, s). unat MAXVA - unat a)")
    (auto dest!: walk_Ok_lt intro: below_MAXVA_step)

declare mappages_loop.simps [simp del]

definition mappages :: "u64 \<Rightarrow> u64 \<Rightarrow> u64 \<Rightarrow> u64 \<Rightarrow> u64 \<Rightarrow> 'z machine_scheme \<Rightarrow> ('z machine_scheme, int) result" where
  "mappages pagetable va sz pa perm s =
     (if va mod PGSIZE \<noteq> 0 then Panic ''mappages: va not aligned''
      else if sz mod PGSIZE \<noteq> 0 then Panic ''mappages: size not aligned''
      else if sz = 0 then Panic ''mappages: size''
      else mappages_loop pagetable va (va + sz - PGSIZE) pa perm s)"

definition kvmmap :: "u64 \<Rightarrow> u64 \<Rightarrow> u64 \<Rightarrow> u64 \<Rightarrow> u64 \<Rightarrow> 'z machine_scheme \<Rightarrow> ('z machine_scheme, unit) result" where
  "kvmmap kpgtbl va pa sz perm s =
     then_do (mappages kpgtbl va sz pa perm s) (\<lambda>r s. if r \<noteq> 0 then Panic ''kvmmap'' else Ok () s)"

function uvmunmap_loop :: "u64 \<Rightarrow> u64 \<Rightarrow> u64 \<Rightarrow> bool \<Rightarrow> 'z machine_scheme \<Rightarrow> ('z machine_scheme, unit) result" where
  "uvmunmap_loop pagetable a upto_a do_free s =
     (if a < upto_a then
        then_do (walk pagetable a False s) (\<lambda>pte s.
          if pte = 0 then Panic ''uvmunmap: walk''
          else
            let v = load64 (pmem s) pte in
            if v AND PTE_V = 0 then Panic ''uvmunmap: not mapped''
            else if PTE_FLAGS v = PTE_V then Panic ''uvmunmap: not a leaf''
            else
              then_do (if do_free then kfree (PTE2PA v) s else Ok () s) (\<lambda>_ s.
                uvmunmap_loop pagetable (a + PGSIZE) upto_a do_free
                  (s\<lparr>pmem := store64 (pmem s) pte 0\<rparr>)))
      else Ok () s)"
  by pat_completeness auto
termination
  by (relation "measure (\<lambda>(pt, a, upto_a, f, s). unat MAXVA - unat a)")
    (auto dest!: walk_Ok_lt intro: below_MAXVA_step)

declare uvmunmap_loop.simps [simp del]

definition uvmunmap :: "u64 \<Rightarrow> u64 \<Rightarrow> u64 \<Rightarrow> bool \<Rightarrow> 'z machine_scheme \<Rightarrow> ('z machine_scheme, unit) result" where
  "uvmunmap pagetable va npages do_free s =
     (if va mod PGSIZE \<noteq> 0 then Panic ''uvmunmap: not aligned''
      else uvmunmap_loop pagetable va (va + npages * PGSIZE) do_free s)"

section \<open>The kernel's own page table\<close>

definition UART0 :: u64 where "UART0 = 0x10000000"
definition VIRTIO0 :: u64 where "VIRTIO0 = 0x10001000"
definition PLIC :: u64 where "PLIC = 0x0c000000"
definition NPROC :: nat where "NPROC = 64"

primrec proc_mapstacks_upto :: "nat \<Rightarrow> u64 \<Rightarrow> 'z machine_scheme \<Rightarrow> ('z machine_scheme, unit) result" where
  "proc_mapstacks_upto 0 kpgtbl s = Ok () s"
| "proc_mapstacks_upto (Suc i) kpgtbl s =
     then_do (proc_mapstacks_upto i kpgtbl s) (\<lambda>_ s.
     then_do (kalloc s) (\<lambda>pa s.
       if pa = 0 then Panic ''kalloc''
       else kvmmap kpgtbl (KSTACK i) pa PGSIZE (PTE_R OR PTE_W) s))"

definition proc_mapstacks :: "u64 \<Rightarrow> 'z machine_scheme \<Rightarrow> ('z machine_scheme, unit) result" where
  "proc_mapstacks kpgtbl s = proc_mapstacks_upto NPROC kpgtbl s"

text \<open>\<open>etext\<close> and \<open>trampoline\<close> are linker symbols.\<close>

definition kvmmake :: "u64 \<Rightarrow> u64 \<Rightarrow> 'z machine_scheme \<Rightarrow> ('z machine_scheme, u64) result" where
  "kvmmake etext trampoline s =
     then_do (kalloc s) (\<lambda>kpgtbl s.
     let s = s\<lparr>pmem := memset (pmem s) kpgtbl 0 (ucast PGSIZE)\<rparr> in
     then_do (kvmmap kpgtbl UART0 UART0 PGSIZE (PTE_R OR PTE_W) s) (\<lambda>_ s.
     then_do (kvmmap kpgtbl VIRTIO0 VIRTIO0 PGSIZE (PTE_R OR PTE_W) s) (\<lambda>_ s.
     then_do (kvmmap kpgtbl PLIC PLIC 0x4000000 (PTE_R OR PTE_W) s) (\<lambda>_ s.
     then_do (kvmmap kpgtbl KERNBASE KERNBASE (etext - KERNBASE) (PTE_R OR PTE_X) s) (\<lambda>_ s.
     then_do (kvmmap kpgtbl etext etext (PHYSTOP - etext) (PTE_R OR PTE_W) s) (\<lambda>_ s.
     then_do (kvmmap kpgtbl TRAMPOLINE trampoline PGSIZE (PTE_R OR PTE_X) s) (\<lambda>_ s.
     then_do (proc_mapstacks kpgtbl s) (\<lambda>_ s. Ok kpgtbl s))))))))"

section \<open>User address spaces\<close>

definition uvmcreate :: "'z machine_scheme \<Rightarrow> ('z machine_scheme, u64) result" where
  "uvmcreate s =
     then_do (kalloc s) (\<lambda>pagetable s.
       if pagetable = 0 then Ok 0 s
       else Ok pagetable (s\<lparr>pmem := memset (pmem s) pagetable 0 (ucast PGSIZE)\<rparr>))"

definition uvmfirst :: "u64 \<Rightarrow> u8 list \<Rightarrow> 'z machine_scheme \<Rightarrow> ('z machine_scheme, unit) result" where
  "uvmfirst pagetable src s =
     (if PGSIZE \<le> of_nat (length src) then Panic ''uvmfirst: more than a page''
      else
        then_do (kalloc s) (\<lambda>mem s.
        let s = s\<lparr>pmem := memset (pmem s) mem 0 (ucast PGSIZE)\<rparr> in
        then_do (mappages pagetable 0 PGSIZE mem (PTE_W OR PTE_R OR PTE_X OR PTE_U) s) (\<lambda>_ s.
        Ok () (s\<lparr>pmem := store_bytes (pmem s) mem src\<rparr>))))"

definition uvmdealloc :: "u64 \<Rightarrow> u64 \<Rightarrow> u64 \<Rightarrow> 'z machine_scheme \<Rightarrow> ('z machine_scheme, u64) result" where
  "uvmdealloc pagetable oldsz newsz s =
     (if oldsz \<le> newsz then Ok oldsz s
      else if PGROUNDUP newsz < PGROUNDUP oldsz then
        let npages = scast (ucast ((PGROUNDUP oldsz - PGROUNDUP newsz) div PGSIZE) :: u32) in
        then_do (uvmunmap pagetable (PGROUNDUP newsz) npages True s) (\<lambda>_ s. Ok newsz s)
      else Ok newsz s)"

lemma mappages_Ok_lt: "mappages pt a n pa perm s = Ok r t \<Longrightarrow> a < MAXVA"
  by (auto simp: mappages_def mappages_loop.simps [of pt a] result_iff dest!: walk_Ok_lt
      split: if_splits)

function uvmalloc_loop :: "u64 \<Rightarrow> u64 \<Rightarrow> u64 \<Rightarrow> u64 \<Rightarrow> u64 \<Rightarrow> 'z machine_scheme \<Rightarrow> ('z machine_scheme, u64) result" where
  "uvmalloc_loop pagetable oldsz a newsz xperm s =
     (if a < newsz then
        then_do (kalloc s) (\<lambda>mem s.
          if mem = 0 then then_do (uvmdealloc pagetable a oldsz s) (\<lambda>_ s. Ok 0 s)
          else
            let s = s\<lparr>pmem := memset (pmem s) mem 0 (ucast PGSIZE)\<rparr> in
            then_do (mappages pagetable a PGSIZE mem (PTE_R OR PTE_U OR xperm) s) (\<lambda>r s.
              if r \<noteq> 0 then
                then_do (kfree mem s) (\<lambda>_ s.
                then_do (uvmdealloc pagetable a oldsz s) (\<lambda>_ s. Ok 0 s))
              else uvmalloc_loop pagetable oldsz (a + PGSIZE) newsz xperm s))
      else Ok newsz s)"
  by pat_completeness auto
termination
  by (relation "measure (\<lambda>(pt, oldsz, a, newsz, xperm, s). unat MAXVA - unat a)")
    (auto dest!: mappages_Ok_lt intro: below_MAXVA_step)

declare uvmalloc_loop.simps [simp del]

definition uvmalloc :: "u64 \<Rightarrow> u64 \<Rightarrow> u64 \<Rightarrow> u64 \<Rightarrow> 'z machine_scheme \<Rightarrow> ('z machine_scheme, u64) result" where
  "uvmalloc pagetable oldsz newsz xperm s =
     (if newsz < oldsz then Ok oldsz s
      else let oldsz = PGROUNDUP oldsz in uvmalloc_loop pagetable oldsz oldsz newsz xperm s)"

text \<open>
  freewalk() recurses through page-table pages. A table built by walk() has three levels; \<open>depth\<close>
  bounds the recursion, and running out of it stands for a recursion that does not end.
\<close>

primrec freewalk_entries ::
  "(u64 \<Rightarrow> 'z machine_scheme \<Rightarrow> ('z machine_scheme, unit) result) \<Rightarrow> u64 \<Rightarrow> nat \<Rightarrow> 'z machine_scheme \<Rightarrow>
     ('z machine_scheme, unit) result" where
  "freewalk_entries rec_free pagetable 0 s = Ok () s"
| "freewalk_entries rec_free pagetable (Suc n) s =
     (let i = 512 - Suc n; ptr = pagetable + 8 * of_nat i; pte = load64 (pmem s) ptr in
      if pte AND PTE_V \<noteq> 0 \<and> pte AND (PTE_R OR PTE_W OR PTE_X) = 0 then
        then_do (rec_free (PTE2PA pte) s) (\<lambda>_ s.
          freewalk_entries rec_free pagetable n (s\<lparr>pmem := store64 (pmem s) ptr 0\<rparr>))
      else if pte AND PTE_V \<noteq> 0 then Panic ''freewalk: leaf''
      else freewalk_entries rec_free pagetable n s)"

primrec freewalk_depth :: "nat \<Rightarrow> u64 \<Rightarrow> 'z machine_scheme \<Rightarrow> ('z machine_scheme, unit) result" where
  "freewalk_depth 0 pagetable s = Hang"
| "freewalk_depth (Suc d) pagetable s =
     then_do (freewalk_entries (freewalk_depth d) pagetable 512 s) (\<lambda>_ s. kfree pagetable s)"

definition freewalk :: "u64 \<Rightarrow> 'z machine_scheme \<Rightarrow> ('z machine_scheme, unit) result" where
  "freewalk pagetable s = freewalk_depth 3 pagetable s"

definition uvmfree :: "u64 \<Rightarrow> u64 \<Rightarrow> 'z machine_scheme \<Rightarrow> ('z machine_scheme, unit) result" where
  "uvmfree pagetable sz s =
     then_do (if 0 < sz then uvmunmap pagetable 0 (PGROUNDUP sz div PGSIZE) True s else Ok () s)
       (\<lambda>_ s. freewalk pagetable s)"

function uvmcopy_loop :: "u64 \<Rightarrow> u64 \<Rightarrow> u64 \<Rightarrow> u64 \<Rightarrow> 'z machine_scheme \<Rightarrow> ('z machine_scheme, int) result" where
  "uvmcopy_loop old new i sz s =
     (if i < sz then
        then_do (walk old i False s) (\<lambda>pte s.
          if pte = 0 then Panic ''uvmcopy: pte should exist''
          else
            let v = load64 (pmem s) pte in
            if v AND PTE_V = 0 then Panic ''uvmcopy: page not present''
            else
              then_do (kalloc s) (\<lambda>mem s.
                if mem = 0 then then_do (uvmunmap new 0 (i div PGSIZE) True s) (\<lambda>_ s. Ok (-1) s)
                else
                  let s = s\<lparr>pmem := memmove (pmem s) mem (PTE2PA v) (ucast PGSIZE)\<rparr> in
                  then_do (mappages new i PGSIZE mem (PTE_FLAGS v) s) (\<lambda>r s.
                    if r \<noteq> 0 then
                      then_do (kfree mem s) (\<lambda>_ s.
                      then_do (uvmunmap new 0 (i div PGSIZE) True s) (\<lambda>_ s. Ok (-1) s))
                    else uvmcopy_loop old new (i + PGSIZE) sz s)))
      else Ok 0 s)"
  by pat_completeness auto
termination
  by (relation "measure (\<lambda>(old, new, i, sz, s). unat MAXVA - unat i)")
    (auto dest!: walk_Ok_lt intro: below_MAXVA_step)

declare uvmcopy_loop.simps [simp del]

definition uvmcopy :: "u64 \<Rightarrow> u64 \<Rightarrow> u64 \<Rightarrow> 'z machine_scheme \<Rightarrow> ('z machine_scheme, int) result" where
  "uvmcopy old new sz s = uvmcopy_loop old new 0 sz s"

definition uvmclear :: "u64 \<Rightarrow> u64 \<Rightarrow> 'z machine_scheme \<Rightarrow> ('z machine_scheme, unit) result" where
  "uvmclear pagetable va s =
     then_do (walk pagetable va False s) (\<lambda>pte s.
       if pte = 0 then Panic ''uvmclear''
       else Ok () (s\<lparr>pmem := store64 (pmem s) pte (load64 (pmem s) pte AND NOT PTE_U)\<rparr>))"

section \<open>Copying between kernel and user space\<close>

definition chunk_len :: "u64 \<Rightarrow> nat \<Rightarrow> nat" where
  "chunk_len va len = (let n = PGSIZE - (va - PGROUNDDOWN va) in if unat n > len then len else unat n)"

lemma chunk_len_le: "chunk_len va len \<le> len"
  by (simp add: chunk_len_def Let_def)

lemma page_offset: "va - PGROUNDDOWN va = va mod 4096"
  by (simp add: PGROUNDDOWN_page_of page_of_eq_minus)

lemma unat_offset: "unat (va mod 4096 :: u64) = unat va mod 4096"
  by (simp add: unat_mod_distrib)

lemma chunk_len_eq: "chunk_len va len = min len (4096 - unat va mod 4096)"
proof -
  have "unat (4096 - va mod 4096 :: u64) = 4096 - unat va mod 4096"
    by (subst unat_sub) (simp_all add: word_le_nat_alt unat_offset)
  then show ?thesis by (simp add: chunk_len_def Let_def page_offset PGSIZE_def min_def)
qed

lemma chunk_len_pos: "0 < len \<Longrightarrow> 0 < chunk_len va len"
  by (simp add: chunk_len_eq)

function copyout :: "u64 \<Rightarrow> u64 \<Rightarrow> u8 list \<Rightarrow> 'z machine_scheme \<Rightarrow> ('z machine_scheme, int) result" where
  "copyout pagetable dstva src s =
     (if src \<noteq> [] then
        let va0 = PGROUNDDOWN dstva in
        if MAXVA \<le> va0 then Ok (-1) s
        else then_do (walk pagetable va0 False s) (\<lambda>pte s.
          if pte = 0 \<or> load64 (pmem s) pte AND PTE_V = 0 \<or> load64 (pmem s) pte AND PTE_U = 0 \<or>
             load64 (pmem s) pte AND PTE_W = 0 then Ok (-1) s
          else
            let pa0 = PTE2PA (load64 (pmem s) pte); n = chunk_len dstva (length src) in
            copyout pagetable (va0 + PGSIZE) (drop n src)
              (s\<lparr>pmem := store_bytes (pmem s) (pa0 + (dstva - va0)) (take n src)\<rparr>))
      else Ok 0 s)"
  by pat_completeness auto
termination
  by (relation "measure (\<lambda>(pt, dstva, src, s). length src)") (auto simp: chunk_len_pos)

declare copyout.simps [simp del]

text \<open>copyin() returns its result and the bytes it has stored at \<open>dst\<close>, also when it fails half-way.\<close>

function copyin :: "u64 \<Rightarrow> u64 \<Rightarrow> nat \<Rightarrow> 'z machine_scheme \<Rightarrow> ('z machine_scheme, int \<times> u8 list) result" where
  "copyin pagetable srcva len s =
     (if 0 < len then
        let va0 = PGROUNDDOWN srcva in
        then_do (walkaddr pagetable va0 s) (\<lambda>pa0 s.
          if pa0 = 0 then Ok (-1, []) s
          else
            let n = chunk_len srcva len; bs = load_bytes (pmem s) (pa0 + (srcva - va0)) n in
            then_do (copyin pagetable (va0 + PGSIZE) (len - n) s) (\<lambda>(r, cs) s. Ok (r, bs @ cs) s))
      else Ok (0, []) s)"
  by pat_completeness auto
termination
  by (relation "measure (\<lambda>(pt, srcva, len, s). len)") (auto simp: chunk_len_pos)

declare copyin.simps [simp del]

text \<open>The bytes of one page up to and including a terminator: \<open>(bytes stored, got_null)\<close>.\<close>

primrec copyinstr_page :: "u8 list \<Rightarrow> u8 list \<times> bool" where
  "copyinstr_page [] = ([], False)"
| "copyinstr_page (c # cs) =
     (if c = 0 then ([0], True) else let (ds, g) = copyinstr_page cs in (c # ds, g))"

function copyinstr :: "u64 \<Rightarrow> u64 \<Rightarrow> nat \<Rightarrow> 'z machine_scheme \<Rightarrow> ('z machine_scheme, int \<times> u8 list) result" where
  "copyinstr pagetable srcva maxlen s =
     (if 0 < maxlen then
        let va0 = PGROUNDDOWN srcva in
        then_do (walkaddr pagetable va0 s) (\<lambda>pa0 s.
          if pa0 = 0 then Ok (-1, []) s
          else
            let n = chunk_len srcva maxlen;
                (ds, got_null) = copyinstr_page (load_bytes (pmem s) (pa0 + (srcva - va0)) n)
            in if got_null then Ok (0, ds) s
               else then_do (copyinstr pagetable (va0 + PGSIZE) (maxlen - n) s)
                      (\<lambda>(r, cs) s. Ok (r, ds @ cs) s))
      else Ok (-1, []) s)"
  by pat_completeness auto
termination
  by (relation "measure (\<lambda>(pt, srcva, maxlen, s). maxlen)") (auto simp: chunk_len_pos)

declare copyinstr.simps [simp del]

end
