(* ===== verification/Vm_Map.thy ===== *)
theory Vm_Map
  imports Vm "HOL-Library.Sublist"
begin

text \<open>
  Correctness of the page-table code of kernel/vm.c. A three-level table in memory is abstracted to
  the function \<open>pte_of m pt\<close> from virtual addresses to leaf entries (0 where a table page is missing).
  \<open>pt_inv\<close> says that the table pages form a tree of distinct frames none of which is on the free
  list; under it walk(), mappages() and uvmunmap() act on the abstraction as on a map.
\<close>

section \<open>Entries and indices\<close>

lemma PTE_FLAGS_take: "PTE_FLAGS f = take_bit 10 f"
  by (simp add: PTE_FLAGS_def take_bit_eq_mask mask_eq_exp_minus_1)

lemma flags_bit: "PTE_FLAGS f = f \<Longrightarrow> bit f k \<Longrightarrow> k < 10"
  by (metis PTE_FLAGS_take bit_take_bit_iff)

lemma PTE2PA_entry: "PTE_FLAGS f = f \<Longrightarrow> PTE2PA (PA2PTE pa OR f) = page_of pa"
  unfolding page_of_def NOT_4095
  by (rule bit_word_eqI) (auto simp: PTE2PA_def PA2PTE_def bit_simps dest: flags_bit)

lemma PTE_FLAGS_entry: "PTE_FLAGS f = f \<Longrightarrow> PTE_FLAGS (PA2PTE pa OR f) = f"
  by (rule bit_word_eqI) (auto simp: PTE_FLAGS_take PA2PTE_def bit_simps dest: flags_bit)

lemma entry_valid: "(v OR PTE_V) AND PTE_V \<noteq> 0"
proof -
  have "bit ((v OR PTE_V) AND PTE_V) 0" by (simp add: PTE_V_def bit_simps)
  then show ?thesis by (metis bit_0_eq bot_apply bot_bool_def)
qed

lemma PTE_V_nonzero [simp]: "PTE_V \<noteq> 0"
  by (simp add: PTE_V_def)

lemma flags_V: "PTE_FLAGS PTE_V = PTE_V"
  by (simp add: PTE_FLAGS_def PTE_V_def)

lemma unat_PX: "unat (PX l va) < 512"
proof -
  have "PX l va = take_bit 9 (drop_bit (12 + 9 * l) va)"
    by (simp add: PX_def take_bit_eq_mask mask_eq_exp_minus_1)
  then have "unat (PX l va) = unat (drop_bit (12 + 9 * l) va) mod 512"
    by (simp add: take_bit_eq_mod unat_mod_distrib)
  then show ?thesis by simp
qed

text \<open>The address of entry \<open>i\<close> of a table page.\<close>

definition slot :: "u64 \<Rightarrow> nat \<Rightarrow> u64" where "slot p i = p + of_nat (8 * i)"

lemma pte_ptr_nat: "pte_ptr pt l va = slot pt (unat (PX l va))"
  by (simp add: pte_ptr_def slot_def)

definition ix :: "u64 \<Rightarrow> nat list" where
  "ix va = [unat (PX 2 va), unat (PX 1 va), unat (PX 0 va)]"

lemma bit_PX: "bit (PX l va) j \<longleftrightarrow> j < 9 \<and> bit va (12 + 9 * l + j)"
proof -
  have "PX l va = take_bit 9 (drop_bit (12 + 9 * l) va)"
    by (simp add: PX_def take_bit_eq_mask mask_eq_exp_minus_1)
  then show ?thesis by (auto simp: bit_simps)
qed

lemma below_MAXVA_bit: "va < MAXVA \<Longrightarrow> bit va k \<Longrightarrow> k < 38"
proof -
  assume va: "va < MAXVA" and b: "bit va k"
  have "unat va < 2 ^ 38" using va by (simp add: layout_defs word_less_nat_alt)
  then have "take_bit 38 va = va" by (simp add: take_bit_eq_mod word_unat_eq_iff unat_mod_distrib)
  with b show "k < 38" by (metis bit_take_bit_iff)
qed

lemma ix_eq_iff:
  assumes "va < MAXVA" and "vb < MAXVA"
  shows "ix va = ix vb \<longleftrightarrow> page_of va = page_of vb"
proof -
  have page: "page_of va = page_of vb \<longleftrightarrow> (\<forall>k. 12 \<le> k \<longrightarrow> bit va k = bit vb k)"
  proof -
    have lt: "bit w k \<Longrightarrow> k < 64" for w :: u64 and k using bit_imp_le_length [of w k] by simp
    have "page_of va = page_of vb \<longleftrightarrow> (\<forall>k<64. (bit va k \<and> 12 \<le> k) = (bit vb k \<and> 12 \<le> k))"
      unfolding page_of_def NOT_4095 by (simp add: bit_eq_iff [of "va AND _"] bit_simps not_less)
    then show ?thesis using lt by blast
  qed
  have "ix va = ix vb \<longleftrightarrow> PX 2 va = PX 2 vb \<and> PX 1 va = PX 1 vb \<and> PX 0 va = PX 0 vb"
    by (simp add: ix_def word_unat_eq_iff)
  also have "\<dots> \<longleftrightarrow> (\<forall>k. 12 \<le> k \<longrightarrow> bit va k = bit vb k)" (is "?P \<longleftrightarrow> ?Q")
  proof
    assume P: ?P
    show ?Q
    proof (intro allI impI)
      fix k :: nat assume k: "12 \<le> k"
      define l where "l = (k - 12) div 9"
      define j where "j = (k - 12) mod 9"
      have kj: "k = 12 + 9 * l + j" "j < 9" using k by (auto simp: l_def j_def)
      show "bit va k = bit vb k"
      proof (cases "l \<le> 2")
        case True
        then have "PX l va = PX l vb" using P by (auto simp: le_Suc_eq numeral_2_eq_2)
        then show ?thesis using bit_PX [of l va j] bit_PX [of l vb j] kj by simp
      next
        case False
        then have "38 \<le> k" using kj by simp
        then show ?thesis using assms below_MAXVA_bit [of va k] below_MAXVA_bit [of vb k] by auto
      qed
    qed
  next
    assume ?Q
    then have "PX l va = PX l vb" for l by (intro bit_word_eqI) (auto simp: bit_PX)
    then show ?P by simp
  qed
  finally show ?thesis using page by simp
qed

section \<open>The table as a tree of pages\<close>

primrec node :: "mem \<Rightarrow> u64 \<Rightarrow> nat list \<Rightarrow> u64 option" where
  "node m p [] = Some p"
| "node m p (i # is) =
     (let v = load64 m (slot p i) in
      if v AND PTE_V \<noteq> 0 then node m (PTE2PA v) is else None)"

lemma node_snoc:
  "node m p (xs @ [i]) =
     (case node m p xs of None \<Rightarrow> None
      | Some q \<Rightarrow>
          let v = load64 m (slot q i) in
          if v AND PTE_V \<noteq> 0 then Some (PTE2PA v) else None)"
  by (induction xs arbitrary: p) (auto simp: Let_def)

lemma node_append:
  "node m p (xs @ ys) = (case node m p xs of None \<Rightarrow> None | Some q \<Rightarrow> node m q ys)"
  by (induction xs arbitrary: p) (auto simp: Let_def)

definition tpath :: "nat list \<Rightarrow> bool" where
  "tpath xs \<longleftrightarrow> length xs \<le> 2 \<and> (\<forall>i\<in>set xs. i < 512)"

definition tables :: "mem \<Rightarrow> u64 \<Rightarrow> u64 set" where
  "tables m pt = {p. \<exists>xs. tpath xs \<and> node m pt xs = Some p}"

definition pte_at :: "mem \<Rightarrow> u64 \<Rightarrow> nat list \<Rightarrow> nat \<Rightarrow> u64" where
  "pte_at m pt xs i = (case node m pt xs of None \<Rightarrow> 0 | Some p \<Rightarrow> load64 m (slot p i))"

definition pte_of :: "mem \<Rightarrow> u64 \<Rightarrow> u64 \<Rightarrow> u64" where
  "pte_of m pt va = pte_at m pt (take 2 (ix va)) (unat (PX 0 va))"

definition tree_inj :: "mem \<Rightarrow> u64 \<Rightarrow> bool" where
  "tree_inj m pt \<longleftrightarrow>
     (\<forall>xs ys p. tpath xs \<and> tpath ys \<and> node m pt xs = Some p \<and> node m pt ys = Some p \<longrightarrow> xs = ys)"

definition pt_inv :: "u64 \<Rightarrow> 'z machine_scheme \<Rightarrow> u64 list \<Rightarrow> bool" where
  "pt_inv pt s ps \<longleftrightarrow> free_pages s ps \<and> tree_inj (pmem s) pt \<and>
     (\<forall>p\<in>tables (pmem s) pt. frame_ok s p \<and> p \<notin> set ps)"

lemma tpath_take_ix [simp]: "n \<le> 2 \<Longrightarrow> tpath (take n (ix va))"
proof -
  assume "n \<le> 2"
  moreover have "\<forall>i\<in>set (ix va). i < 512" by (simp add: ix_def unat_PX)
  ultimately show ?thesis by (auto simp: tpath_def dest: in_set_takeD)
qed

lemma tables_I: "tpath xs \<Longrightarrow> node m pt xs = Some p \<Longrightarrow> p \<in> tables m pt"
  by (auto simp: tables_def)

text \<open>A change of one entry only affects the paths through it.\<close>

lemma node_update:
  assumes inj: "tree_inj m pt" and xs: "tpath xs" "node m pt xs = Some q"
    and same: "\<And>p j. p \<in> tables m pt \<Longrightarrow> j < 512 \<Longrightarrow> (p, j) \<noteq> (q, i) \<Longrightarrow>
      load64 m' (slot p j) = load64 m (slot p j)"
    and ys: "\<not> prefix (xs @ [i]) ys" "length ys \<le> 3" "\<forall>j\<in>set ys. j < 512"
  shows "node m' pt ys = node m pt ys"
  using ys
proof (induction ys rule: rev_induct)
  case Nil
  then show ?case by simp
next
  case (snoc j ys)
  then have tp: "tpath ys" by (simp add: tpath_def)
  have IH: "node m' pt ys = node m pt ys"
    using snoc by (auto intro: prefix_order.trans)
  show ?case
  proof (cases "node m pt ys")
    case None
    then show ?thesis using IH by (simp add: node_snoc)
  next
    case (Some p)
    have "(p, j) \<noteq> (q, i)"
    proof
      assume "(p, j) = (q, i)"
      then have "ys = xs" using inj tp xs Some by (auto simp: tree_inj_def)
      then show False using snoc.prems(1) \<open>(p, j) = (q, i)\<close> by simp
    qed
    then show ?thesis
      using IH Some same [OF tables_I [OF tp Some], of j] snoc.prems(3)
      by (simp add: node_snoc)
  qed
qed

lemma load64_slot_same [simp]: "load64 (store64 m (slot q i) v) (slot q i) = v"
  by (simp add: slot_def)

lemma load64_slot_store:
  assumes "aligned p" "aligned q" "i < 512" "j < 512" "(p, j) \<noteq> (q, i)"
  shows "load64 (store64 m (slot q i) v) (slot p j) = load64 m (slot p j)"
  unfolding slot_def
proof (cases "p = q")
  case True
  then show "load64 (store64 m (q + of_nat (8 * i)) v) (p + of_nat (8 * j)) = load64 m (p + of_nat (8 * j))"
    using assms load_store64_same_page [of q i j] by auto
next
  case False
  then show "load64 (store64 m (q + of_nat (8 * i)) v) (p + of_nat (8 * j)) = load64 m (p + of_nat (8 * j))"
    using assms load_store64_other_page [of q p "8 * i" "8 * j"] by auto
qed

lemma store_slot_other_page:
  "aligned q \<Longrightarrow> i < 512 \<Longrightarrow> page_of x \<noteq> q \<Longrightarrow> store64 m (slot q i) v x = m x"
  unfolding slot_def by (rule store64_other_page) auto

lemma slot_nonzero: "aligned p \<Longrightarrow> i < 512 \<Longrightarrow> p \<noteq> 0 \<Longrightarrow> slot p i \<noteq> 0"
  using unat_in_page [of p "8 * i"] by (auto simp: slot_def word_unat_eq_iff)

lemma page_of_slot: "aligned p \<Longrightarrow> i < 512 \<Longrightarrow> page_of (slot p i) = p"
  unfolding slot_def by (rule page_of_in_page) auto

text \<open>Storing a leaf entry.\<close>

lemma leaf_store:
  fixes v :: u64
  assumes inj: "tree_inj m pt" and al: "\<forall>p\<in>tables m pt. aligned p"
    and xs: "tpath xs" "length xs = 2" "node m pt xs = Some q" and i: "i < 512"
    and ys: "tpath ys"
  defines "m' \<equiv> store64 m (slot q i) v"
  shows "node m' pt ys = node m pt ys" and
    "length ys = 2 \<Longrightarrow> j < 512 \<Longrightarrow> pte_at m' pt ys j = (if ys = xs \<and> j = i then v else pte_at m pt ys j)"
proof -
  have q: "q \<in> tables m pt" using xs by (auto intro: tables_I)
  have nd: "node m' pt zs = node m pt zs" if "tpath zs" for zs
  proof (rule node_update [OF inj xs(1) xs(3)])
    show "\<not> prefix (xs @ [i]) zs" using that xs(2) by (auto simp: tpath_def dest: prefix_length_le)
  qed (use that al q i in \<open>auto simp: tpath_def m'_def load64_slot_store\<close>)
  show "node m' pt ys = node m pt ys" by (rule nd [OF ys])
  assume "length ys = 2" and j: "j < 512"
  show "pte_at m' pt ys j = (if ys = xs \<and> j = i then v else pte_at m pt ys j)"
  proof (cases "node m pt ys")
    case None
    then show ?thesis using nd [OF ys] xs by (auto simp: pte_at_def)
  next
    case (Some p)
    have p: "p \<in> tables m pt" by (rule tables_I [OF ys Some])
    have "p = q \<longleftrightarrow> ys = xs" using inj ys xs Some by (auto simp: tree_inj_def)
    then show ?thesis
      using Some nd [OF ys] al p q i j by (auto simp: pte_at_def m'_def load64_slot_store)
  qed
qed


text \<open>Hanging a fresh, zeroed table page under an invalid entry.\<close>

lemma fresh_table:
  assumes inj: "tree_inj m pt" and al: "\<forall>p\<in>tables m pt. aligned p"
    and xs: "tpath xs" "length xs \<le> 1" "node m pt xs = Some q" and i: "i < 512"
    and inv: "load64 m (slot q i) AND PTE_V = 0"
    and r: "aligned r" "r \<notin> tables m pt"
  defines "m' \<equiv> store64 (memset m r 0 4096) (slot q i) (PA2PTE r OR PTE_V)"
  shows fresh_table_other: "\<not> prefix (xs @ [i]) ys \<Longrightarrow> length ys \<le> 3 \<Longrightarrow> \<forall>j\<in>set ys. j < 512 \<Longrightarrow>
      node m' pt ys = node m pt ys"
    and fresh_table_new: "node m' pt (xs @ [i]) = Some r"
    and fresh_table_empty: "j < 512 \<Longrightarrow> load64 m' (slot r j) = 0"
    and fresh_table_below: "j < 512 \<Longrightarrow> node m' pt (xs @ i # j # zs) = None"
    and fresh_table_old: "node m pt (xs @ i # zs) = None"
    and fresh_table_load: "p \<in> tables m pt \<Longrightarrow> j < 512 \<Longrightarrow> (p, j) \<noteq> (q, i) \<Longrightarrow>
      load64 m' (slot p j) = load64 m (slot p j)"
proof -
  have q: "q \<in> tables m pt" using xs by (auto intro: tables_I)
  have qr: "q \<noteq> r" using q r by auto
  have zero: "load64 (memset m r 0 4096) (slot r j) = 0" if "j < 512" for j
    unfolding slot_def using that r(1) by (intro load64_memset_zero) auto
  have keep: "load64 (memset m r 0 4096) (slot p j) = load64 m (slot p j)"
    if "p \<in> tables m pt" "j < 512" for p j
    unfolding slot_def using that r al by (intro load64_memset_other) auto
  show load: "load64 m' (slot p j) = load64 m (slot p j)"
    if "p \<in> tables m pt" "j < 512" "(p, j) \<noteq> (q, i)" for p j
    using that al q i keep by (simp add: m'_def load64_slot_store)
  show oth: "node m' pt ys = node m pt ys"
    if "\<not> prefix (xs @ [i]) ys" "length ys \<le> 3" "\<forall>j\<in>set ys. j < 512" for ys
    by (rule node_update [OF inj xs(1,3) load that])
  have "node m' pt xs = Some q" using oth [of xs] xs by (auto simp: tpath_def)
  then show new: "node m' pt (xs @ [i]) = Some r"
    by (simp add: node_snoc m'_def entry_valid PTE2PA_entry flags_V page_of_aligned r)
  show empty: "load64 m' (slot r j) = 0" if "j < 512" for j
    using that zero al q i r qr by (simp add: m'_def load64_slot_store)
  show "node m' pt (xs @ i # j # zs) = None" if "j < 512" for j zs
    using node_append [of m' pt "xs @ [i]" "j # zs"] new empty [OF that] by simp
  show "node m pt (xs @ i # zs) = None" for zs
    using node_append [of m pt xs "i # zs"] xs inv by simp
qed

lemma fresh_table_pte:
  assumes "tree_inj m pt" "\<forall>p\<in>tables m pt. aligned p"
    "tpath xs" "length xs \<le> 1" "node m pt xs = Some q" "i < 512"
    "load64 m (slot q i) AND PTE_V = 0" "aligned r" "r \<notin> tables m pt"
    and ys: "tpath ys" "length ys = 2" "j < 512"
  shows "pte_at (store64 (memset m r 0 4096) (slot q i) (PA2PTE r OR PTE_V)) pt ys j = pte_at m pt ys j"
proof (cases "prefix (xs @ [i]) ys")
  case True
  note F = fresh_table [OF assms(1-9)]
  from True obtain zs where z: "ys = xs @ i # zs" by (auto simp: prefix_def)
  have zlt: "\<forall>k\<in>set zs. k < 512" using ys z by (auto simp: tpath_def)
  show ?thesis
  proof (cases zs)
    case Nil
    then show ?thesis using F(2) F(3) [OF ys(3)] F(5) [of "[]"] z by (simp add: pte_at_def)
  next
    case (Cons k ks)
    then have "k < 512" using zlt by simp
    then show ?thesis using F(4) [of k ks] F(5) [of zs] z Cons by (simp add: pte_at_def)
  qed
next
  case False
  note F = fresh_table [OF assms(1-9)]
  have nd: "node (store64 (memset m r 0 4096) (slot q i) (PA2PTE r OR PTE_V)) pt ys = node m pt ys"
    using False ys F(1) by (auto simp: tpath_def)
  show ?thesis
  proof (cases "node m pt ys")
    case None
    then show ?thesis using nd by (simp add: pte_at_def)
  next
    case (Some p)
    have "ys \<noteq> xs" using assms(4) ys(2) by auto
    then have "p \<noteq> q" using assms(1,3,5) ys(1) Some unfolding tree_inj_def by blast
    then show ?thesis
      using nd Some F(6) [OF tables_I [OF ys(1) Some] ys(3)] by (simp add: pte_at_def)
  qed
qed

lemma fresh_table_inj:
  assumes A: "tree_inj m pt" "\<forall>p\<in>tables m pt. aligned p"
    "tpath xs" "length xs \<le> 1" "node m pt xs = Some q" "i < 512"
    "load64 m (slot q i) AND PTE_V = 0" "aligned r" "r \<notin> tables m pt"
  defines "m' \<equiv> store64 (memset m r 0 4096) (slot q i) (PA2PTE r OR PTE_V)"
  shows "tree_inj m' pt" and "tables m' pt = insert r (tables m pt)"
    and "tpath ys \<Longrightarrow> node m pt ys = Some p \<Longrightarrow> node m' pt ys = Some p"
proof -
  note F = fresh_table [OF A, folded m'_def]
  have char: "node m' pt ys = (if ys = xs @ [i] then Some r else node m pt ys)" if "tpath ys" for ys
  proof (cases "prefix (xs @ [i]) ys")
    case True
    then obtain zs where z: "ys = xs @ i # zs" by (auto simp: prefix_def)
    then show ?thesis
      using F(2) F(4) F(5) [of zs] that by (cases zs) (auto simp: tpath_def)
  next
    case False
    then show ?thesis using F(1) [OF False] that by (auto simp: tpath_def)
  qed
  have new: "tpath (xs @ [i])" using A(3,4,6) by (auto simp: tpath_def)
  have notr: "node m pt ys \<noteq> Some r" if "tpath ys" for ys using that A(9) by (auto simp: tables_def)
  show "tree_inj m' pt"
    using A(1) notr unfolding tree_inj_def by (auto simp: char split: if_splits)
  show "tables m' pt = insert r (tables m pt)"
  proof -
    have "p \<in> tables m' pt \<longleftrightarrow> p = r \<or> p \<in> tables m pt" for p
      using new F(5) [of "[]"] char unfolding tables_def by (auto split: if_splits) fastforce+
    then show ?thesis by auto
  qed
  assume "tpath ys" "node m pt ys = Some p"
  then show "node m' pt ys = Some p" using F(5) [of "[]"] by (auto simp: char)
qed


section \<open>walk()\<close>

lemma take2_ix: "take 2 (ix va) = [unat (PX 2 va), unat (PX 1 va)]"
  by (simp add: ix_def numeral_2_eq_2)

lemma walk_no_alloc:
  "va < MAXVA \<Longrightarrow> walk pt va False s =
     Ok (case node (pmem s) pt (take 2 (ix va)) of None \<Rightarrow> 0 | Some p \<Rightarrow> slot p (unat (PX 0 va))) s"
  by (auto simp: walk_def ix_def numeral_2_eq_2 pte_ptr_nat Let_def not_le [symmetric])

text \<open>
  \<open>vm_ext pt s ps t ps'\<close>: from \<open>s\<close> to \<open>t\<close> the table \<open>pt\<close> may have gained table pages from the free list,
  and nothing outside its table pages and the free pages has changed.
\<close>

definition vm_ext :: "u64 \<Rightarrow> 'z machine_scheme \<Rightarrow> u64 list \<Rightarrow> 'z machine_scheme \<Rightarrow> u64 list \<Rightarrow> bool" where
  "vm_ext pt s ps t ps' \<longleftrightarrow>
     pt_inv pt t ps' \<and> kend t = kend s \<and> machine.more t = machine.more s \<and> suffix ps' ps \<and>
     tables (pmem t) pt \<subseteq> tables (pmem s) pt \<union> (set ps - set ps') \<and>
     (\<forall>x. page_of x \<notin> set ps \<union> tables (pmem s) pt \<longrightarrow> pmem t x = pmem s x) \<and>
     (\<forall>xs p. tpath xs \<and> node (pmem s) pt xs = Some p \<longrightarrow> node (pmem t) pt xs = Some p)"

lemma vm_ext_refl: "pt_inv pt s ps \<Longrightarrow> vm_ext pt s ps s ps"
  by (simp add: vm_ext_def)

lemma vm_ext_trans:
  assumes "vm_ext pt s ps t qs" and "vm_ext pt t qs u rs"
  shows "vm_ext pt s ps u rs"
proof -
  have q: "set qs \<subseteq> set ps" "set rs \<subseteq> set qs" "suffix rs ps"
    using assms by (auto simp: vm_ext_def dest: set_mono_suffix intro: suffix_order.trans)
  have tb: "tables (pmem t) pt \<subseteq> tables (pmem s) pt \<union> (set ps - set qs)"
    "tables (pmem u) pt \<subseteq> tables (pmem t) pt \<union> (set qs - set rs)"
    using assms by (auto simp: vm_ext_def)
  have "pmem u x = pmem s x" if "page_of x \<notin> set ps \<union> tables (pmem s) pt" for x
  proof -
    have "page_of x \<notin> set qs \<union> tables (pmem t) pt" using that q(1) tb(1) by blast
    then show ?thesis using assms that by (simp add: vm_ext_def)
  qed
  then show ?thesis using assms q tb by (auto simp: vm_ext_def)
qed

lemma vm_ext_inv: "vm_ext pt s ps t qs \<Longrightarrow> pt_inv pt t qs"
  by (simp add: vm_ext_def)

lemma pt_inv_aligned: "pt_inv pt s ps \<Longrightarrow> \<forall>p\<in>tables (pmem s) pt. aligned p"
  by (auto simp: pt_inv_def frame_ok_def)

lemma walk_fresh:
  assumes inv: "pt_inv pt s (r # ps)" and xs: "tpath xs" "length xs \<le> 1" "node (pmem s) pt xs = Some q"
    and i: "i < 512" and v: "load64 (pmem s) (slot q i) AND PTE_V = 0"
    and k: "kalloc s = Ok r t" "free_pages t ps" "kend t = kend s" "machine.more t = machine.more s"
      "\<forall>x. pmem t x = (if page_of x = r then 5 else pmem s x)"
  defines "u \<equiv> t\<lparr>pmem := store64 (memset (pmem t) r 0 4096) (slot q i) (PA2PTE r OR PTE_V)\<rparr>"
  shows "vm_ext pt s (r # ps) u ps" and "node (pmem u) pt (xs @ [i]) = Some r"
    and "tpath ys \<Longrightarrow> length ys = 2 \<Longrightarrow> j < 512 \<Longrightarrow> pte_at (pmem u) pt ys j = pte_at (pmem s) pt ys j"
proof -
  have f: "free_pages s (r # ps)" using inv by (simp add: pt_inv_def)
  have fr: "frame_ok s r" "r \<notin> set ps" using f by (auto simp: free_pages_def)
  have al: "aligned r" using fr by (simp add: frame_ok_def)
  have rt: "r \<notin> tables (pmem s) pt" using inv by (auto simp: pt_inv_def)
  have "memset (pmem t) r 0 4096 = memset (pmem s) r 0 4096"
    using k(5) by (auto simp: memset_page [OF al])
  then have um: "pmem u = store64 (memset (pmem s) r 0 4096) (slot q i) (PA2PTE r OR PTE_V)"
    by (simp add: u_def)
  have inj: "tree_inj (pmem s) pt" using inv by (simp add: pt_inv_def)
  note A = inj pt_inv_aligned [OF inv] xs i v al rt
  note G = fresh_table_inj [OF A, folded um] and F = fresh_table [OF A, folded um]
  show "node (pmem u) pt (xs @ [i]) = Some r" by (rule F(2))
  show "tpath ys \<Longrightarrow> length ys = 2 \<Longrightarrow> j < 512 \<Longrightarrow> pte_at (pmem u) pt ys j = pte_at (pmem s) pt ys j"
    using fresh_table_pte [OF A] um by simp
  have q: "q \<in> tables (pmem s) pt" using xs by (auto intro: tables_I)
  then have qa: "aligned q" "q \<notin> set (r # ps)" using pt_inv_aligned [OF inv] inv by (auto simp: pt_inv_def)
  have out: "page_of x \<noteq> r \<Longrightarrow> page_of x \<noteq> q \<Longrightarrow> pmem u x = pmem s x" for x
    using um qa(1) i by (simp add: store_slot_other_page memset_page [OF al])
  have "free_pages u ps"
  proof (rule free_pages_frame [OF k(2)])
    fix x assume "page_of x \<in> set ps"
    then have "page_of x \<noteq> r" "page_of x \<noteq> q" using fr(2) qa(2) by auto
    then show "pmem u x = pmem t x" using out k(5) by simp
  qed (simp_all add: u_def)
  moreover have "\<forall>p\<in>tables (pmem u) pt. frame_ok u p \<and> p \<notin> set ps"
    using inv fr G(2) k(3) by (auto simp: pt_inv_def frame_ok_def u_def)
  ultimately have "pt_inv pt u ps" using G(1) by (simp add: pt_inv_def)
  then show "vm_ext pt s (r # ps) u ps"
    using G(2,3) k(3,4) fr(2) out q unfolding vm_ext_def
    by (auto simp: u_def suffix_def)
qed


definition same_ptes :: "u64 \<Rightarrow> 'z machine_scheme \<Rightarrow> 'z machine_scheme \<Rightarrow> bool" where
  "same_ptes pt s t \<longleftrightarrow>
     (\<forall>ys j. tpath ys \<and> length ys = 2 \<and> j < 512 \<longrightarrow> pte_at (pmem t) pt ys j = pte_at (pmem s) pt ys j)"

lemma same_ptes_refl [simp]: "same_ptes pt s s"
  by (simp add: same_ptes_def)

lemma same_ptes_trans: "same_ptes pt s t \<Longrightarrow> same_ptes pt t u \<Longrightarrow> same_ptes pt s u"
  by (simp add: same_ptes_def)

lemma same_ptes_pte_of: "same_ptes pt s t \<Longrightarrow> pte_of (pmem t) pt va = pte_of (pmem s) pt va"
proof -
  assume "same_ptes pt s t"
  moreover have "tpath (take 2 (ix va))" by simp
  moreover have "length (take 2 (ix va)) = 2" by (simp add: ix_def)
  ultimately show ?thesis unfolding same_ptes_def pte_of_def using unat_PX by blast
qed

text \<open>What walk(pt, va, 1) does: the address of the leaf entry, or 0 when the free list runs out.\<close>

definition walk_post :: "u64 \<Rightarrow> u64 \<Rightarrow> 'z machine_scheme \<Rightarrow> u64 list \<Rightarrow> u64 \<Rightarrow> 'z machine_scheme \<Rightarrow> u64 list \<Rightarrow> bool" where
  "walk_post pt va s ps r t qs \<longleftrightarrow> vm_ext pt s ps t qs \<and> same_ptes pt s t \<and>
     (r = 0 \<and> qs = [] \<or>
      (\<exists>p. node (pmem t) pt (take 2 (ix va)) = Some p \<and> r = slot p (unat (PX 0 va)) \<and> r \<noteq> 0))"

lemma walk_post_trans:
  "vm_ext pt s ps t qs \<Longrightarrow> same_ptes pt s t \<Longrightarrow> walk_post pt va t qs r u rs \<Longrightarrow> walk_post pt va s ps r u rs"
  by (auto simp: walk_post_def intro: vm_ext_trans same_ptes_trans)

lemma take_ix_Suc: "l < 2 \<Longrightarrow> take (2 - l) (ix va) = take (2 - Suc l) (ix va) @ [unat (PX (Suc l) va)]"
  by (cases l) (auto simp: ix_def numeral_2_eq_2)

lemma walk_levels_alloc:
  assumes "pt_inv pt s ps" and "l \<le> 2" and "node (pmem s) pt (take (2 - l) (ix va)) = Some q"
  shows "\<exists>r t qs. walk_levels l q va True s = Ok r t \<and> walk_post pt va s ps r t qs \<and>
    length ps \<le> length qs + l \<and> (r = 0 \<longrightarrow> length ps < l)"
  using assms
proof (induction l arbitrary: s ps q)
  case 0
  then have "q \<in> tables (pmem s) pt" by (auto intro: tables_I [of "take 2 (ix va)"])
  then have "frame_ok s q" "0 < kend s" using 0(1) by (auto simp: pt_inv_def free_pages_def)
  then have "slot q (unat (PX 0 va)) \<noteq> 0"
    using frame_ok_nonzero by (intro slot_nonzero unat_PX) (auto simp: frame_ok_def)
  then show ?case using 0 by (auto simp: walk_post_def pte_ptr_nat intro: vm_ext_refl)
next
  case (Suc l)
  let ?xs = "take (2 - Suc l) (ix va)" and ?i = "unat (PX (Suc l) va)"
  let ?v = "load64 (pmem s) (slot q ?i)"
  have xs: "tpath ?xs" by simp
  have len: "length ?xs \<le> 1" by simp
  have path: "take (2 - l) (ix va) = ?xs @ [?i]" using Suc.prems(2) by (intro take_ix_Suc) simp
  show ?case
  proof (cases "?v AND PTE_V = 0")
    case False
    then have "node (pmem s) pt (take (2 - l) (ix va)) = Some (PTE2PA ?v)"
      using Suc.prems(3) by (simp add: path node_snoc)
    then obtain r t qs where "walk_levels l (PTE2PA ?v) va True s = Ok r t" "walk_post pt va s ps r t qs"
      "length ps \<le> length qs + l" "r = 0 \<longrightarrow> length ps < l"
      using Suc.IH [OF Suc.prems(1)] Suc.prems(2) by force
    then show ?thesis using False by (intro exI [of _ r] exI [of _ t] exI [of _ qs]) (auto simp: pte_ptr_nat)
  next
    case True
    show ?thesis
    proof (cases ps)
      case Nil
      then have "kalloc s = Ok 0 s" using Suc.prems(1) by (intro kalloc_empty) (simp add: pt_inv_def)
      then show ?thesis
        using Suc.prems(1) True Nil vm_ext_refl by (auto simp: pte_ptr_nat walk_post_def)
    next
      case (Cons r qs)
      have inv: "pt_inv pt s (r # qs)" using Suc.prems(1) Cons by simp
      then have fp: "free_pages s (r # qs)" by (simp add: pt_inv_def)
      then have "r \<noteq> 0" by (auto simp: free_pages_def dest: frame_ok_nonzero)
      obtain t where k: "kalloc s = Ok r t" "free_pages t qs" "kend t = kend s"
        "\<forall>x. pmem t x = (if page_of x = r then 5 else pmem s x)" "machine.more t = machine.more s"
        using kalloc_cons [OF fp] by auto
      define u where "u = t\<lparr>pmem := store64 (memset (pmem t) r 0 4096) (slot q ?i) (PA2PTE r OR PTE_V)\<rparr>"
      note W = walk_fresh [OF inv xs len Suc.prems(3) unat_PX True k(1,2,3,5,4), folded u_def]
      have "same_ptes pt s u" using W(3) by (auto simp: same_ptes_def)
      moreover obtain r' v rs where w: "walk_levels l r va True u = Ok r' v" "walk_post pt va u qs r' v rs"
        "length qs \<le> length rs + l" "r' = 0 \<longrightarrow> length qs < l"
        using Suc.IH [OF vm_ext_inv [OF W(1)]] Suc.prems(2) W(2) by (auto simp: path)
      ultimately have "walk_post pt va s ps r' v rs" using W(1) Cons walk_post_trans by blast
      moreover have "walk_levels (Suc l) q va True s = Ok r' v"
        using True k(1) \<open>r \<noteq> 0\<close> w(1) by (simp add: pte_ptr_nat u_def Let_def)
      ultimately show ?thesis using w(3,4) Cons by (intro exI [of _ r'] exI [of _ v] exI [of _ rs]) auto
    qed
  qed
qed

lemma walk_alloc:
  assumes "pt_inv pt s ps" and "va < MAXVA"
  shows "\<exists>r t qs. walk pt va True s = Ok r t \<and> walk_post pt va s ps r t qs \<and>
    length ps \<le> length qs + 2 \<and> (r = 0 \<longrightarrow> length ps < 2)"
  using walk_levels_alloc [OF assms(1), of 2 va pt] assms(2) by (simp add: walk_def not_le [symmetric])


section \<open>Writing leaf entries\<close>

lemma leaf_write:
  fixes v :: u64
  assumes inv: "pt_inv pt s ps" and nd: "node (pmem s) pt (take 2 (ix va)) = Some p" and va: "va < MAXVA"
  defines "t \<equiv> s\<lparr>pmem := store64 (pmem s) (slot p (unat (PX 0 va))) v\<rparr>"
  shows "vm_ext pt s ps t ps"
    and "vb < MAXVA \<Longrightarrow> pte_of (pmem t) pt vb = (if page_of vb = page_of va then v else pte_of (pmem s) pt vb)"
    and "tables (pmem t) pt = tables (pmem s) pt"
proof -
  let ?xs = "take 2 (ix va)"
  have inj: "tree_inj (pmem s) pt" using inv by (simp add: pt_inv_def)
  have xs: "tpath ?xs" "length ?xs = 2" by simp (simp add: ix_def)
  have p: "p \<in> tables (pmem s) pt" by (rule tables_I [OF xs(1) nd])
  then have pa: "aligned p" "p \<notin> set ps" using pt_inv_aligned [OF inv] inv by (auto simp: pt_inv_def)
  have nodes: "node (pmem t) pt ys = node (pmem s) pt ys" if "tpath ys" for ys
    using leaf_store(1) [OF inj pt_inv_aligned [OF inv] xs nd unat_PX that] by (simp add: t_def)
  have out: "page_of x \<noteq> p \<Longrightarrow> pmem t x = pmem s x" for x
    using pa unat_PX by (simp add: t_def store_slot_other_page)
  show tb: "tables (pmem t) pt = tables (pmem s) pt" using nodes by (auto simp: tables_def)
  have "free_pages t ps"
  proof (rule free_pages_frame [of s])
    fix x assume "page_of x \<in> set ps"
    then show "pmem t x = pmem s x" using out pa(2) by metis
  qed (use inv in \<open>simp_all add: t_def pt_inv_def\<close>)
  then have "pt_inv pt t ps"
    using inv tb nodes by (auto simp: pt_inv_def tree_inj_def frame_ok_def t_def)
  moreover have "pmem t x = pmem s x" if "page_of x \<notin> set ps \<union> tables (pmem s) pt" for x
  proof (rule out)
    show "page_of x \<noteq> p" using that p by auto
  qed
  moreover have "kend t = kend s" "machine.more t = machine.more s" by (simp_all add: t_def)
  ultimately show "vm_ext pt s ps t ps"
    using tb nodes by (simp add: vm_ext_def)
  assume vb: "vb < MAXVA"
  have "take 2 (ix vb) = ?xs \<and> unat (PX 0 vb) = unat (PX 0 va) \<longleftrightarrow> ix vb = ix va"
    by (auto simp: ix_def numeral_2_eq_2)
  moreover have "length (take 2 (ix vb)) = 2" by (simp add: ix_def)
  ultimately show "pte_of (pmem t) pt vb = (if page_of vb = page_of va then v else pte_of (pmem s) pt vb)"
    using leaf_store(2) [OF inj pt_inv_aligned [OF inv] xs nd unat_PX,
        where ys = "take 2 (ix vb)" and j = "unat (PX 0 vb)" and v = v]
    by (simp add: pte_of_def t_def unat_PX ix_eq_iff [OF vb va])
qed

lemma pte_of_node: "node m pt (take 2 (ix va)) = Some p \<Longrightarrow> pte_of m pt va = load64 m (slot p (unat (PX 0 va)))"
  by (simp add: pte_of_def pte_at_def)

text \<open>One round of the loop of mappages().\<close>

lemma map_one:
  assumes inv: "pt_inv pt s ps" and va: "va < MAXVA" and free: "pte_of (pmem s) pt va AND PTE_V = 0"
  obtains (full) t where "walk pt va True s = Ok 0 t" "vm_ext pt s ps t []" "same_ptes pt s t" "length ps < 2"
  | (mapped) r t qs u where "walk pt va True s = Ok r t" "r \<noteq> 0" "load64 (pmem t) r AND PTE_V = 0"
      "u = t\<lparr>pmem := store64 (pmem t) r v\<rparr>" "vm_ext pt s ps u qs"
      "length ps \<le> length qs + 2"
      "\<And>vb. vb < MAXVA \<Longrightarrow> pte_of (pmem u) pt vb = (if page_of vb = page_of va then v else pte_of (pmem s) pt vb)"
proof -
  obtain r t qs where w: "walk pt va True s = Ok r t" "walk_post pt va s ps r t qs"
    "length ps \<le> length qs + 2" "r = 0 \<longrightarrow> length ps < 2"
    using walk_alloc [OF inv va] by blast
  then consider "r = 0" "qs = []" | p where "node (pmem t) pt (take 2 (ix va)) = Some p"
      "r = slot p (unat (PX 0 va))" "r \<noteq> 0"
    by (auto simp: walk_post_def)
  then show thesis
  proof cases
    case 1
    then show thesis using full w by (auto simp: walk_post_def)
  next
    case (2 p)
    have ext: "vm_ext pt s ps t qs" and same: "same_ptes pt s t" using w(2) by (auto simp: walk_post_def)
    note L = leaf_write [OF vm_ext_inv [OF ext] 2(1) va, where v = v]
    show thesis
    proof (rule mapped [OF w(1) 2(3)])
      show "load64 (pmem t) r AND PTE_V = 0"
        using free same_ptes_pte_of [OF same, of va] pte_of_node [OF 2(1)] 2(2) by simp
      show "vm_ext pt s ps (t\<lparr>pmem := store64 (pmem t) r v\<rparr>) qs"
        using vm_ext_trans [OF ext L(1)] 2(2) by simp
      show "pte_of (pmem (t\<lparr>pmem := store64 (pmem t) r v\<rparr>)) pt vb =
          (if page_of vb = page_of va then v else pte_of (pmem s) pt vb)" if "vb < MAXVA" for vb
        using L(2) [OF that] 2(2) same_ptes_pte_of [OF same, of vb] by simp
    qed (use w(3) in simp_all)
  qed
qed

section \<open>mappages()\<close>

definition mapped_range ::
  "u64 \<Rightarrow> u64 \<Rightarrow> nat \<Rightarrow> u64 \<Rightarrow> u64 \<Rightarrow> mem \<Rightarrow> mem \<Rightarrow> bool" where
  "mapped_range pt a k pa perm m m' \<longleftrightarrow>
     (\<forall>vb<MAXVA. pte_of m' pt vb =
        (if unat a \<le> unat vb \<and> unat vb < unat a + 4096 * k
         then PA2PTE (pa + (page_of vb - a)) OR perm OR PTE_V else pte_of m pt vb))"

lemma in_page_range:
  assumes "aligned a" shows "page_of vb = a \<longleftrightarrow> unat a \<le> unat vb \<and> unat vb < unat a + 4096"
proof -
  obtain k where k: "unat a = 4096 * k" using assms by (auto simp: aligned_iff_unat)
  have "page_of vb = a \<longleftrightarrow> unat vb div 4096 * 4096 = 4096 * k"
    by (simp add: word_unat_eq_iff unat_page_of k minus_mod_eq_div_mult)
  also have "\<dots> \<longleftrightarrow> 4096 * k \<le> unat vb \<and> unat vb < 4096 * k + 4096"
  proof -
    have "unat vb div 4096 = k \<longleftrightarrow> 4096 * k \<le> unat vb \<and> unat vb < 4096 * k + 4096"
      by (subst div_nat_eqI [symmetric, THEN eq_reflection]) auto
    then show ?thesis by auto
  qed
  finally show ?thesis by (simp add: k)
qed


lemma mapped_range_step:
  assumes al: "aligned a" and up: "unat (a + 4096) = unat a + 4096"
    and one: "\<And>vb. vb < MAXVA \<Longrightarrow> pte_of m1 pt vb =
      (if page_of vb = page_of a then PA2PTE pa OR perm OR PTE_V else pte_of m pt vb)"
    and rest: "mapped_range pt (a + 4096) k (pa + 4096) perm m1 m2"
  shows "mapped_range pt a (Suc k) pa perm m m2"
  unfolding mapped_range_def
proof (intro allI impI)
  fix vb assume vb: "vb < MAXVA"
  have pg: "page_of vb = page_of a \<longleftrightarrow> unat a \<le> unat vb \<and> unat vb < unat a + 4096"
    by (simp add: page_of_aligned [OF al] in_page_range [OF al])
  have shift: "pa + 4096 + (page_of vb - (a + 4096)) = pa + (page_of vb - a)" by simp
  have "pte_of m2 pt vb = (if unat a + 4096 \<le> unat vb \<and> unat vb < unat a + 4096 + 4096 * k
      then PA2PTE (pa + (page_of vb - a)) OR perm OR PTE_V else pte_of m1 pt vb)"
    using rest vb unfolding mapped_range_def shift up by simp
  then show "pte_of m2 pt vb = (if unat a \<le> unat vb \<and> unat vb < unat a + 4096 * Suc k
      then PA2PTE (pa + (page_of vb - a)) OR perm OR PTE_V else pte_of m pt vb)"
    using one [OF vb] pg page_of_aligned [OF al] by auto
qed

lemma mapped_range_0 [simp]: "mapped_range pt a 0 pa perm m m' \<longleftrightarrow> (\<forall>vb<MAXVA. pte_of m' pt vb = pte_of m pt vb)"
  by (auto simp: mapped_range_def)

definition unmapped :: "u64 \<Rightarrow> u64 \<Rightarrow> nat \<Rightarrow> mem \<Rightarrow> bool" where
  "unmapped pt a k m \<longleftrightarrow>
     (\<forall>vb<MAXVA. unat a \<le> unat vb \<and> unat vb < unat a + 4096 * k \<longrightarrow> pte_of m pt vb AND PTE_V = 0)"

lemma mappages_loop_maps:
  assumes "pt_inv pt s ps" and "aligned a" and "unat a + 4096 * n < 2 ^ 38"
    and "unmapped pt a (Suc n) (pmem s)"
  shows "\<exists>r t qs k. mappages_loop pt a (a + of_nat (4096 * n)) pa perm s = Ok r t \<and> vm_ext pt s ps t qs \<and>
    (r = 0 \<and> k = Suc n \<or> r = -1 \<and> k \<le> n \<and> qs = [] \<and> length ps < 2 * Suc n) \<and> mapped_range pt a k pa perm (pmem s) (pmem t)"
  using assms
proof (induction n arbitrary: a pa s ps)
  case 0
  have a: "a < MAXVA" using 0(3) by (simp add: layout_defs word_less_nat_alt)
  have fr: "pte_of (pmem s) pt a AND PTE_V = 0" using 0(4) a by (simp add: unmapped_def)
  from 0(1) a fr show ?case
  proof (cases rule: map_one [where v = "PA2PTE pa OR perm OR PTE_V"])
    case (full t)
    then show ?thesis
      using same_ptes_pte_of by (intro exI [of _ "-1"] exI [of _ t] exI [of _ "[]"] exI [of _ 0])
        (auto simp: mappages_loop.simps [of pt a])
  next
    case (mapped r t qs u)
    have "unat (a + 4096) = unat a + 4096" using 0(3) by (subst unat_add_lem [THEN iffD1]) simp_all
    then have "mapped_range pt a (Suc 0) pa perm (pmem s) (pmem u)"
      using mapped_range_step [OF 0(2) _ mapped(7)] by simp
    with mapped show ?thesis
      by (intro exI [of _ 0] exI [of _ u] exI [of _ qs] exI [of _ "Suc 0"])
        (auto simp: mappages_loop.simps [of pt a])
  qed
next
  case (Suc n)
  have a: "a < MAXVA" using Suc.prems(3) by (simp add: layout_defs word_less_nat_alt)
  have fr: "pte_of (pmem s) pt a AND PTE_V = 0" using Suc.prems(4) a by (simp add: unmapped_def)
  have up: "unat (a + 4096) = unat a + 4096"
    using Suc.prems(3) by (subst unat_add_lem [THEN iffD1]) simp_all
  have ne: "a \<noteq> a + of_nat (4096 * Suc n)"
  proof -
    have "unat (of_nat (4096 * Suc n) :: u64) = 4096 * Suc n" using Suc.prems(3) by (intro unat_of_nat_small) simp
    then show ?thesis by auto
  qed
  have lst: "a + of_nat (4096 * Suc n) = a + 4096 + of_nat (4096 * n)" by (simp add: algebra_simps)
  from Suc.prems(1) a fr show ?case
  proof (cases rule: map_one [where v = "PA2PTE pa OR perm OR PTE_V"])
    case (full t)
    then show ?thesis
      using same_ptes_pte_of by (intro exI [of _ "-1"] exI [of _ t] exI [of _ "[]"] exI [of _ 0])
        (auto simp: mappages_loop.simps [of pt a])
  next
    case (mapped r t qs u)
    have al: "aligned (a + 4096)" using Suc.prems(2) by (simp add: aligned_iff_unat up)
    have "unmapped pt (a + 4096) (Suc n) (pmem u)"
      using Suc.prems(4) mapped(7) page_of_aligned [OF Suc.prems(2)] in_page_range [OF Suc.prems(2)]
      by (auto simp: unmapped_def up)
    then obtain r' w rs k where IH: "mappages_loop pt (a + 4096) (a + 4096 + of_nat (4096 * n)) (pa + 4096) perm u = Ok r' w"
      "vm_ext pt u qs w rs" "r' = 0 \<and> k = Suc n \<or> r' = -1 \<and> k \<le> n \<and> rs = [] \<and> length qs < 2 * Suc n"
      "mapped_range pt (a + 4096) k (pa + 4096) perm (pmem u) (pmem w)"
      using Suc.IH [OF vm_ext_inv [OF mapped(5)] al, of "pa + 4096"] Suc.prems(3) up by auto
    have "mappages_loop pt a (a + of_nat (4096 * Suc n)) pa perm s = Ok r' w"
      using mapped(1-4) IH(1) ne unfolding lst
      by (simp add: mappages_loop.simps [of pt a] PGSIZE_def Let_def)
    moreover have "mapped_range pt a (Suc k) pa perm (pmem s) (pmem w)"
      using mapped_range_step [OF Suc.prems(2) up mapped(7) IH(4)] .
    moreover have "vm_ext pt s ps w rs" by (rule vm_ext_trans [OF mapped(5) IH(2)])
    ultimately show ?thesis
      using IH(3) mapped(6) by (intro exI [of _ r'] exI [of _ w] exI [of _ rs] exI [of _ "Suc k"]) auto
  qed
qed


lemma walk_existing:
  "va < MAXVA \<Longrightarrow> node (pmem s) pt (take 2 (ix va)) = Some p \<Longrightarrow>
     walk pt va alloc s = Ok (slot p (unat (PX 0 va))) s"
  by (auto simp: walk_def ix_def numeral_2_eq_2 pte_ptr_nat Let_def not_le [symmetric] split: if_splits)

lemma pte_slot_nonzero:
  assumes "pt_inv pt s ps" and "node (pmem s) pt (take 2 (ix va)) = Some p"
  shows "slot p (unat (PX 0 va)) \<noteq> 0"
proof -
  have "p \<in> tables (pmem s) pt" using assms(2) by (intro tables_I [of "take 2 (ix va)"]) simp_all
  then have "frame_ok s p" "0 < kend s" using assms(1) by (auto simp: pt_inv_def free_pages_def)
  then show ?thesis
    using frame_ok_nonzero by (intro slot_nonzero unat_PX) (auto simp: frame_ok_def)
qed

text \<open>A page that the user can read, and the address walkaddr() returns for it.\<close>

definition user_pa :: "mem \<Rightarrow> u64 \<Rightarrow> u64 \<Rightarrow> u64" where
  "user_pa m pt va =
     (if MAXVA \<le> va \<or> pte_of m pt va AND PTE_V = 0 \<or> pte_of m pt va AND PTE_U = 0 then 0
      else PTE2PA (pte_of m pt va))"

lemma walkaddr_user_pa:
  assumes "pt_inv pt s ps"
  shows "walkaddr pt va s = Ok (user_pa (pmem s) pt va) s"
proof (cases "va < MAXVA")
  case True
  show ?thesis
  proof (cases "node (pmem s) pt (take 2 (ix va))")
    case None
    then show ?thesis
      using True by (simp add: walkaddr_def walk_no_alloc user_pa_def pte_of_def pte_at_def)
  next
    case (Some p)
    then show ?thesis
      using True pte_slot_nonzero [OF assms Some]
      by (auto simp: walkaddr_def walk_no_alloc user_pa_def pte_of_node Let_def)
  qed
qed (auto simp: walkaddr_def user_pa_def not_less)

section \<open>uvmunmap()\<close>

definition unmapped_range :: "u64 \<Rightarrow> u64 \<Rightarrow> nat \<Rightarrow> mem \<Rightarrow> mem \<Rightarrow> bool" where
  "unmapped_range pt a k m m' \<longleftrightarrow>
     (\<forall>vb<MAXVA. pte_of m' pt vb =
        (if unat a \<le> unat vb \<and> unat vb < unat a + 4096 * k then 0 else pte_of m pt vb))"

lemma pte_of_nonzero_node:
  "pte_of m pt va \<noteq> 0 \<Longrightarrow> \<exists>p. node m pt (take 2 (ix va)) = Some p"
  by (auto simp: pte_of_def pte_at_def split: option.splits)

text \<open>Changes outside the table pages do not change what the table says.\<close>

lemma tables_frame:
  assumes al: "\<forall>p\<in>tables m pt. aligned p" and same: "\<forall>x. page_of x \<in> tables m pt \<longrightarrow> m' x = m x"
  shows "tpath xs \<Longrightarrow> node m' pt xs = node m pt xs" and "tables m' pt = tables m pt"
    and "pte_of m' pt va = pte_of m pt va"
proof -
  have ld: "load64 m' (slot p j) = load64 m (slot p j)" if "p \<in> tables m pt" "j < 512" for p j
    unfolding slot_def using that al same by (intro load64_page_cong) auto
  show nd: "node m' pt xs = node m pt xs" if "tpath xs" for xs
    using that
  proof (induction xs rule: rev_induct)
    case (snoc i xs)
    then have "tpath xs" "i < 512" by (auto simp: tpath_def)
    then show ?case
      using snoc.IH ld tables_I [of xs m pt] by (auto simp: node_snoc Let_def split: option.split)
  qed simp
  show "tables m' pt = tables m pt" using nd by (auto simp: tables_def)
  have tp: "tpath (take 2 (ix va))" by simp
  show "pte_of m' pt va = pte_of m pt va"
    using nd [OF tp] ld unat_PX tables_I [OF tp] by (auto simp: pte_of_def pte_at_def split: option.split)
qed

lemma kfree_tables:
  assumes inv: "pt_inv pt s ps" and f: "frame_ok s q" "q \<notin> set ps" "q \<notin> tables (pmem s) pt"
  shows "\<exists>t. kfree q s = Ok () t \<and> pt_inv pt t (q # ps) \<and> kend t = kend s \<and> machine.more t = machine.more s \<and>
    (\<forall>x. page_of x \<noteq> q \<longrightarrow> pmem t x = pmem s x) \<and>
    tables (pmem t) pt = tables (pmem s) pt \<and> (\<forall>va. pte_of (pmem t) pt va = pte_of (pmem s) pt va) \<and>
    (\<forall>xs. tpath xs \<longrightarrow> node (pmem t) pt xs = node (pmem s) pt xs)"
proof -
  obtain t where t: "kfree q s = Ok () t" "free_pages t (q # ps)" "kend t = kend s"
    "\<forall>x. page_of x \<noteq> q \<longrightarrow> pmem t x = pmem s x" "machine.more t = machine.more s"
    using kfree_cons [of s ps q] f inv by (auto simp: pt_inv_def)
  have "\<forall>x. page_of x \<in> tables (pmem s) pt \<longrightarrow> pmem t x = pmem s x" using t(4) f(3) by auto
  note T = tables_frame [OF pt_inv_aligned [OF inv] this]
  have "pt_inv pt t (q # ps)"
    using inv t(2,3) T(1,2) f(3) by (auto simp: pt_inv_def tree_inj_def frame_ok_def)
  then show ?thesis using t T by blast
qed

lemma unmap_one:
  assumes inv: "pt_inv pt s ps" and a: "a < MAXVA"
    and v: "pte_of (pmem s) pt a AND PTE_V \<noteq> 0"
    and f: "frame_ok s f" "f \<notin> set ps" "f \<notin> tables (pmem s) pt"
  obtains r t u where "walk pt a False s = Ok r s" "r \<noteq> 0" "load64 (pmem s) r = pte_of (pmem s) pt a"
    "kfree f s = Ok () t" "u = t\<lparr>pmem := store64 (pmem t) r 0\<rparr>" "pt_inv pt u (f # ps)"
    "kend u = kend s" "machine.more u = machine.more s" "tables (pmem u) pt = tables (pmem s) pt"
    "\<forall>x. page_of x \<noteq> f \<and> page_of x \<notin> tables (pmem s) pt \<longrightarrow> pmem u x = pmem s x"
    "\<forall>vb<MAXVA. pte_of (pmem u) pt vb = (if page_of vb = page_of a then 0 else pte_of (pmem s) pt vb)"
proof -
  have "pte_of (pmem s) pt a \<noteq> 0" using v by auto
  then obtain p where nd: "node (pmem s) pt (take 2 (ix a)) = Some p"
    using pte_of_nonzero_node by blast
  let ?r = "slot p (unat (PX 0 a))"
  obtain t where t: "kfree f s = Ok () t" "pt_inv pt t (f # ps)" "kend t = kend s" "machine.more t = machine.more s"
    "\<forall>x. page_of x \<noteq> f \<longrightarrow> pmem t x = pmem s x" "tables (pmem t) pt = tables (pmem s) pt"
    "\<forall>va. pte_of (pmem t) pt va = pte_of (pmem s) pt va"
    "\<forall>xs. tpath xs \<longrightarrow> node (pmem t) pt xs = node (pmem s) pt xs"
    using kfree_tables [OF inv f] by blast
  define u where "u = t\<lparr>pmem := store64 (pmem t) ?r 0\<rparr>"
  have ndt: "node (pmem t) pt (take 2 (ix a)) = Some p" using t(8) nd by simp
  note L = leaf_write [OF t(2) ndt a, where v = 0, folded u_def]
  have ptab: "p \<in> tables (pmem s) pt" using nd by (intro tables_I [of "take 2 (ix a)"]) simp_all
  then have al: "aligned p" using pt_inv_aligned [OF inv] by simp
  show thesis
  proof (rule that [of ?r t u])
    show "walk pt a False s = Ok ?r s" using a nd by (simp add: walk_no_alloc)
    show "?r \<noteq> 0" by (rule pte_slot_nonzero [OF inv nd])
    show "load64 (pmem s) ?r = pte_of (pmem s) pt a" by (simp add: pte_of_node [OF nd])
    show "\<forall>x. page_of x \<noteq> f \<and> page_of x \<notin> tables (pmem s) pt \<longrightarrow> pmem u x = pmem s x"
    proof (intro allI impI)
      fix x assume x: "page_of x \<noteq> f \<and> page_of x \<notin> tables (pmem s) pt"
      then have "page_of x \<noteq> p" using ptab by auto
      then show "pmem u x = pmem s x" using x t(5) al unat_PX by (simp add: u_def store_slot_other_page)
    qed
  qed (use t L vm_ext_inv [OF L(1)] in \<open>auto simp: u_def\<close>)
qed

lemma unmapped_range_step:
  assumes al: "aligned a" and up: "unat (a + 4096) = unat a + 4096"
    and one: "\<And>vb. vb < MAXVA \<Longrightarrow> pte_of m1 pt vb = (if page_of vb = page_of a then 0 else pte_of m pt vb)"
    and rest: "unmapped_range pt (a + 4096) k m1 m2"
  shows "unmapped_range pt a (Suc k) m m2"
  unfolding unmapped_range_def
proof (intro allI impI)
  fix vb assume vb: "vb < MAXVA"
  have pg: "page_of vb = page_of a \<longleftrightarrow> unat a \<le> unat vb \<and> unat vb < unat a + 4096"
    by (simp add: page_of_aligned [OF al] in_page_range [OF al])
  have "pte_of m2 pt vb = (if unat a + 4096 \<le> unat vb \<and> unat vb < unat a + 4096 + 4096 * k
      then 0 else pte_of m1 pt vb)"
    using rest vb unfolding unmapped_range_def up by simp
  then show "pte_of m2 pt vb = (if unat a \<le> unat vb \<and> unat vb < unat a + 4096 * Suc k
      then 0 else pte_of m pt vb)"
    using one [OF vb] pg by auto
qed

text \<open>
  \<open>user_frames pt a fs s\<close>: the pages from \<open>a\<close> on are mapped as leaves to the frames \<open>fs\<close>, which are
  distinct legal frames and no table pages.
\<close>

definition user_frames :: "u64 \<Rightarrow> u64 \<Rightarrow> u64 list \<Rightarrow> 'z machine_scheme \<Rightarrow> bool" where
  "user_frames pt a fs s \<longleftrightarrow> distinct fs \<and> set fs \<inter> tables (pmem s) pt = {} \<and>
     (\<forall>f\<in>set fs. frame_ok s f) \<and>
     (\<forall>i<length fs. let v = pte_of (pmem s) pt (a + of_nat (4096 * i)) in
        v AND PTE_V \<noteq> 0 \<and> PTE_FLAGS v \<noteq> PTE_V \<and> PTE2PA v = fs ! i)"

lemma user_frames_tail:
  assumes uf: "user_frames pt a (f # fs) s" and al: "aligned a"
    and rng: "unat a + 4096 * Suc (length fs) \<le> 2 ^ 38"
    and u: "kend u = kend s" "tables (pmem u) pt = tables (pmem s) pt"
    and one: "\<And>vb. vb < MAXVA \<Longrightarrow> pte_of (pmem u) pt vb = (if page_of vb = page_of a then 0 else pte_of (pmem s) pt vb)"
  shows "user_frames pt (a + 4096) fs u"
proof -
  have "let v = pte_of (pmem u) pt (a + 4096 + of_nat (4096 * i)) in
      v AND PTE_V \<noteq> 0 \<and> PTE_FLAGS v \<noteq> PTE_V \<and> PTE2PA v = fs ! i" if i: "i < length fs" for i
  proof -
    let ?b = "a + of_nat (4096 * Suc i)"
    have "unat (of_nat (4096 * Suc i) :: u64) = 4096 * Suc i" using i rng by (intro unat_of_nat_small) simp
    then have ub: "unat ?b = unat a + 4096 * Suc i"
      using i rng by (subst unat_add_lem [THEN iffD1]) simp_all
    then have "?b < MAXVA" using i rng by (simp add: layout_defs word_less_nat_alt)
    moreover have "page_of ?b \<noteq> page_of a"
      using ub by (simp only: page_of_aligned [OF al] in_page_range [OF al]) simp
    ultimately have "pte_of (pmem u) pt ?b = pte_of (pmem s) pt ?b" using one by simp
    moreover have "a + 4096 + of_nat (4096 * i) = ?b" by (simp add: algebra_simps)
    moreover have "\<forall>j<length (f # fs). let v = pte_of (pmem s) pt (a + of_nat (4096 * j)) in
        v AND PTE_V \<noteq> 0 \<and> PTE_FLAGS v \<noteq> PTE_V \<and> PTE2PA v = (f # fs) ! j"
      using uf unfolding user_frames_def by blast
    ultimately show ?thesis using i by (auto simp: Let_def add.assoc dest!: spec [of _ "Suc i"])
  qed
  then show ?thesis using uf u by (auto simp: user_frames_def frame_ok_def)
qed

lemma uvmunmap_loop_frees:
  assumes "pt_inv pt s ps" and "aligned a" and "unat a + 4096 * length fs \<le> 2 ^ 38"
    and "user_frames pt a fs s" and "set fs \<inter> set ps = {}"
  shows "\<exists>t. uvmunmap_loop pt a (a + of_nat (4096 * length fs)) True s = Ok () t \<and>
    pt_inv pt t (rev fs @ ps) \<and> kend t = kend s \<and> machine.more t = machine.more s \<and>
    tables (pmem t) pt = tables (pmem s) pt \<and>
    (\<forall>x. page_of x \<notin> set fs \<union> tables (pmem s) pt \<longrightarrow> pmem t x = pmem s x) \<and>
    unmapped_range pt a (length fs) (pmem s) (pmem t)"
  using assms
proof (induction fs arbitrary: a s ps)
  case Nil
  then show ?case by (auto simp: uvmunmap_loop.simps [of pt a] unmapped_range_def)
next
  case (Cons f fs)
  let ?b = "a + of_nat (4096 * length (f # fs))"
  have a: "a < MAXVA" using Cons.prems(3) by (simp add: layout_defs word_less_nat_alt)
  have up: "unat (a + 4096) = unat a + 4096" using Cons.prems(3) by (subst unat_add_lem [THEN iffD1]) simp_all
  have "unat (of_nat (4096 * length (f # fs)) :: u64) = 4096 * length (f # fs)"
    using Cons.prems(3) by (intro unat_of_nat_small) simp
  then have "unat ?b = unat a + 4096 * length (f # fs)"
    using Cons.prems(3) by (subst unat_add_lem [THEN iffD1]) simp_all
  then have lt: "a < ?b" by (simp add: word_less_nat_alt)
  have uf0: "let v = pte_of (pmem s) pt (a + of_nat (4096 * 0)) in
      v AND PTE_V \<noteq> 0 \<and> PTE_FLAGS v \<noteq> PTE_V \<and> PTE2PA v = (f # fs) ! 0"
    using Cons.prems(4) unfolding user_frames_def by blast
  then have v: "pte_of (pmem s) pt a AND PTE_V \<noteq> 0" "PTE_FLAGS (pte_of (pmem s) pt a) \<noteq> PTE_V"
    "PTE2PA (pte_of (pmem s) pt a) = f" by (simp_all add: Let_def)
  have f: "frame_ok s f" "f \<notin> set ps" "f \<notin> tables (pmem s) pt"
    using Cons.prems(4,5) by (auto simp: user_frames_def)
  obtain r t u where O: "walk pt a False s = Ok r s" "r \<noteq> 0" "load64 (pmem s) r = pte_of (pmem s) pt a"
    "kfree f s = Ok () t" "u = t\<lparr>pmem := store64 (pmem t) r 0\<rparr>" "pt_inv pt u (f # ps)"
    "kend u = kend s" "machine.more u = machine.more s" "tables (pmem u) pt = tables (pmem s) pt"
    "\<forall>x. page_of x \<noteq> f \<and> page_of x \<notin> tables (pmem s) pt \<longrightarrow> pmem u x = pmem s x"
    "\<forall>vb<MAXVA. pte_of (pmem u) pt vb = (if page_of vb = page_of a then 0 else pte_of (pmem s) pt vb)"
    using unmap_one [OF Cons.prems(1) a v(1) f] by metis
  have al: "aligned (a + 4096)" using Cons.prems(2) by (simp add: aligned_iff_unat up)
  have uf: "user_frames pt (a + 4096) fs u"
    using Cons.prems(3) by (intro user_frames_tail [OF Cons.prems(4,2) _ O(7,9)]) (simp_all add: O(11))
  have "set fs \<inter> set (f # ps) = {}" using Cons.prems(4,5) by (auto simp: user_frames_def)
  then obtain w where W: "uvmunmap_loop pt (a + 4096) (a + 4096 + of_nat (4096 * length fs)) True u = Ok () w"
    "pt_inv pt w (rev fs @ f # ps)" "kend w = kend u" "machine.more w = machine.more u"
    "tables (pmem w) pt = tables (pmem u) pt"
    "\<forall>x. page_of x \<notin> set fs \<union> tables (pmem u) pt \<longrightarrow> pmem w x = pmem u x"
    "unmapped_range pt (a + 4096) (length fs) (pmem u) (pmem w)"
    using Cons.IH [OF O(6) al _ uf] Cons.prems(3) up by auto
  have e: "a + 4096 + of_nat (4096 * length fs) = ?b" by (simp add: algebra_simps)
  have "uvmunmap_loop pt a ?b True s = Ok () w"
    using O(1-5) v W(1) lt unfolding e
    by (simp add: uvmunmap_loop.simps [of pt a] PGSIZE_def Let_def)
  moreover have "unmapped_range pt a (length (f # fs)) (pmem s) (pmem w)"
    using unmapped_range_step [OF Cons.prems(2) up _ W(7)] O(11) by simp
  ultimately show ?case using W O(7-10) by (intro exI [of _ w]) auto
qed

end
