(* ===== verification/Vm_Copy.thy ===== *)
theory Vm_Copy
  imports Vm_Map
begin

text \<open>
  copyin(), copyout() and copyinstr() of kernel/vm.c against a byte-wise view of user memory:
  \<open>user_byte m pt va\<close> is the byte at the user address \<open>va\<close>. The last section states the properties of
  the virtual-memory code.
\<close>

section \<open>User memory, byte by byte\<close>

definition user_byte :: "mem \<Rightarrow> u64 \<Rightarrow> u64 \<Rightarrow> u8" where
  "user_byte m pt va = m (PTE2PA (pte_of m pt va) + va mod 4096)"

definition readable :: "mem \<Rightarrow> u64 \<Rightarrow> u64 \<Rightarrow> bool" where
  "readable m pt va \<longleftrightarrow> user_pa m pt va \<noteq> 0"

definition writable :: "mem \<Rightarrow> u64 \<Rightarrow> u64 \<Rightarrow> bool" where
  "writable m pt va \<longleftrightarrow> va < MAXVA \<and> pte_of m pt va AND PTE_V \<noteq> 0 \<and> pte_of m pt va AND PTE_U \<noteq> 0 \<and>
     pte_of m pt va AND PTE_W \<noteq> 0"

text \<open>User pages have frames of their own: not free, not table pages, not page 0, not shared.\<close>

definition user_ok :: "u64 \<Rightarrow> 'z machine_scheme \<Rightarrow> u64 list \<Rightarrow> bool" where
  "user_ok pt s ps \<longleftrightarrow>
     (\<forall>va. va < MAXVA \<and> pte_of (pmem s) pt va AND PTE_V \<noteq> 0 \<and> pte_of (pmem s) pt va AND PTE_U \<noteq> 0 \<longrightarrow>
        PTE2PA (pte_of (pmem s) pt va) \<notin> insert 0 (set ps \<union> tables (pmem s) pt) \<and>
        (\<forall>vb. vb < MAXVA \<and> pte_of (pmem s) pt vb AND PTE_V \<noteq> 0 \<and> pte_of (pmem s) pt vb AND PTE_U \<noteq> 0 \<and>
           PTE2PA (pte_of (pmem s) pt vb) = PTE2PA (pte_of (pmem s) pt va) \<longrightarrow> page_of vb = page_of va))"

lemma aligned_PTE2PA [simp]: "aligned (PTE2PA v)"
proof -
  have "take_bit 12 (PTE2PA v) = 0" by (rule bit_word_eqI) (auto simp: PTE2PA_def bit_simps)
  then show ?thesis by (simp add: aligned_def PGSIZE_def take_bit_eq_mod)
qed

lemma page_of_lt_MAXVA: "page_of va < MAXVA \<longleftrightarrow> va < MAXVA"
proof -
  have "unat (page_of va) < 4096 * 2 ^ 26 \<longleftrightarrow> unat va div 4096 < 2 ^ 26"
    by (simp add: unat_page_of minus_mod_eq_mult_div)
  also have "\<dots> \<longleftrightarrow> unat va < 2 ^ 26 * 4096" by (rule div_less_iff_less_mult) simp
  finally show ?thesis by (simp add: layout_defs word_less_nat_alt)
qed

lemma page_of_idem [simp]: "page_of (page_of va) = page_of va"
  by (rule page_of_aligned) simp

lemma pte_of_page: "va < MAXVA \<Longrightarrow> vb < MAXVA \<Longrightarrow> page_of va = page_of vb \<Longrightarrow> pte_of m pt va = pte_of m pt vb"
  using ix_eq_iff [of va vb] by (auto simp: pte_of_def ix_def)

lemma pte_of_page_of: "va < MAXVA \<Longrightarrow> pte_of m pt (page_of va) = pte_of m pt va"
  by (rule pte_of_page) (simp_all add: page_of_lt_MAXVA)

lemma user_pa_page_of: "user_pa m pt (page_of va) = user_pa m pt va"
  by (auto simp: user_pa_def pte_of_page_of not_le page_of_lt_MAXVA simp flip: not_less)

text \<open>Moving along a page.\<close>

lemma page_step:
  assumes "i < 4096 - unat va mod 4096"
  shows "page_of (va + of_nat i) = page_of va" and "(va + of_nat i) mod 4096 = va mod 4096 + of_nat i"
proof -
  let ?o = "unat va mod 4096"
  have lt: "?o + i < 4096" using assms by simp
  have e: "va + of_nat i = page_of va + of_nat (?o + i)" using page_decomp [of va] by (simp add: add.assoc)
  show pg: "page_of (va + of_nat i) = page_of va" unfolding e using lt by (intro page_of_in_page) simp_all
  have off: "x mod 4096 = x - page_of x" for x :: u64 by (simp add: page_of_eq_minus)
  show "(va + of_nat i) mod 4096 = va mod 4096 + of_nat i" unfolding off pg by simp
qed

lemma same_page_diff: "page_of vb = page_of va \<Longrightarrow> vb mod 4096 - va mod 4096 = vb - va"
  by (simp add: page_of_eq_minus algebra_simps)

section \<open>copyin()\<close>

lemma load_bytes_user:
  assumes "n \<le> 4096 - unat va mod 4096" and "user_pa m pt va \<noteq> 0"
  shows "load_bytes m (user_pa m pt va + (va - page_of va)) n = map (\<lambda>i. user_byte m pt (va + of_nat i)) [0..<n]"
proof (rule nth_equalityI)
  fix i assume "i < length (load_bytes m (user_pa m pt va + (va - page_of va)) n)"
  then have i: "i < n" by (simp add: load_bytes_def)
  have va: "va < MAXVA" using assms(2) by (auto simp: user_pa_def split: if_splits)
  have pg: "page_of (va + of_nat i) = page_of va" "(va + of_nat i) mod 4096 = va mod 4096 + of_nat i"
    using i assms(1) page_step [of i va] by auto
  then have "va + of_nat i < MAXVA" using va page_of_lt_MAXVA by metis
  then have "pte_of m pt (va + of_nat i) = pte_of m pt va" using va pg(1) by (intro pte_of_page)
  then show "load_bytes m (user_pa m pt va + (va - page_of va)) n ! i =
      map (\<lambda>i. user_byte m pt (va + of_nat i)) [0..<n] ! i"
    using i pg assms(2) by (auto simp: load_bytes_def user_byte_def user_pa_def page_of_eq_minus add.assoc split: if_splits)
qed (simp add: load_bytes_def)

lemma next_page: "page_of va + 4096 = va + of_nat (4096 - unat va mod 4096)"
proof -
  have "of_nat (4096 - unat va mod 4096) = 4096 - (of_nat (unat va mod 4096) :: u64)"
    by (simp add: of_nat_diff)
  then show ?thesis using page_decomp [of va] by (simp add: algebra_simps)
qed


lemma map_shift: "map f [0..<n] @ map (\<lambda>i. f (n + i)) [0..<k] = map f [0..<n + k]"
  by (rule nth_equalityI) (auto simp: nth_append)

text \<open>copyin() reads the user's bytes and fails exactly when one of them is not readable.\<close>

lemma copyin_ok:
  assumes "pt_inv pt s ps" and "\<And>i. i < len \<Longrightarrow> readable (pmem s) pt (va + of_nat i)"
  shows "copyin pt va len s = Ok (0, map (\<lambda>i. user_byte (pmem s) pt (va + of_nat i)) [0..<len]) s"
  using assms(2)
proof (induction len arbitrary: va rule: less_induct)
  case (less len)
  show ?case
  proof (cases "len = 0")
    case True
    then show ?thesis by (simp add: copyin.simps)
  next
    case False
    let ?n = "chunk_len va len"
    have n: "0 < ?n" "?n \<le> len" "?n \<le> 4096 - unat va mod 4096"
      using False by (simp_all add: chunk_len_pos chunk_len_le) (simp add: chunk_len_eq)
    have r0: "user_pa (pmem s) pt va \<noteq> 0" using less.prems [of 0] False by (simp add: readable_def)
    have rest: "copyin pt (page_of va + PGSIZE) (len - ?n) s =
        Ok (0, map (\<lambda>i. user_byte (pmem s) pt (va + of_nat (?n + i))) [0..<len - ?n]) s"
    proof (cases "len = ?n")
      case True
      then show ?thesis by (simp add: copyin.simps)
    next
      case False
      then have "?n = 4096 - unat va mod 4096" by (simp add: chunk_len_eq min_def split: if_splits)
      then have va': "page_of va + PGSIZE = va + of_nat ?n" using next_page [of va] by (simp add: PGSIZE_def)
      have "copyin pt (va + of_nat ?n) (len - ?n) s =
          Ok (0, map (\<lambda>i. user_byte (pmem s) pt (va + of_nat ?n + of_nat i)) [0..<len - ?n]) s"
      proof (rule less.IH)
        show "len - ?n < len" using n by simp
        show "readable (pmem s) pt (va + of_nat ?n + of_nat i)" if "i < len - ?n" for i
          using less.prems [of "?n + i"] that by (simp add: add.assoc)
      qed
      then show ?thesis unfolding va' by (simp add: add.assoc)
    qed
    have "copyin pt va len s = Ok (0, map (\<lambda>i. user_byte (pmem s) pt (va + of_nat i)) [0..<?n] @
        map (\<lambda>i. user_byte (pmem s) pt (va + of_nat (?n + i))) [0..<len - ?n]) s"
      using False r0 rest load_bytes_user [OF n(3) r0]
      by (simp add: copyin.simps [of pt va] walkaddr_user_pa [OF assms(1)] PGROUNDDOWN_page_of
          user_pa_page_of Let_def)
    then show ?thesis
      using map_shift [of "\<lambda>i. user_byte (pmem s) pt (va + of_nat i)" ?n "len - ?n"] n(2) by simp
  qed
qed

lemma copyin_fault:
  assumes "pt_inv pt s ps" and "i < len" and "\<not> readable (pmem s) pt (va + of_nat i)"
  shows "\<exists>bs. copyin pt va len s = Ok (-1, bs) s"
  using assms(2,3)
proof (induction len arbitrary: va i rule: less_induct)
  case (less len)
  let ?n = "chunk_len va len"
  have pos: "0 < len" using less.prems(1) by simp
  have n: "0 < ?n" "?n \<le> len" "?n \<le> 4096 - unat va mod 4096"
    using pos by (simp_all add: chunk_len_pos chunk_len_le) (simp add: chunk_len_eq)
  show ?case
  proof (cases "user_pa (pmem s) pt va = 0")
    case True
    then show ?thesis
      using pos by (simp add: copyin.simps [of pt va] walkaddr_user_pa [OF assms(1)] PGROUNDDOWN_page_of
          user_pa_page_of Let_def)
  next
    case False
    have ge: "?n \<le> i"
    proof (rule ccontr)
      assume "\<not> ?n \<le> i"
      then have "page_of (va + of_nat i) = page_of va" using n(3) by (intro page_step) simp
      then have "user_pa (pmem s) pt (va + of_nat i) = user_pa (pmem s) pt va"
        using user_pa_page_of by metis
      then show False using less.prems(2) False by (simp add: readable_def)
    qed
    then have "?n < len" using less.prems(1) by simp
    then have "?n = 4096 - unat va mod 4096" by (simp add: chunk_len_eq min_def split: if_splits)
    then have va': "page_of va + PGSIZE = va + of_nat ?n" using next_page [of va] by (simp add: PGSIZE_def)
    have "\<exists>bs. copyin pt (va + of_nat ?n) (len - ?n) s = Ok (-1, bs) s"
    proof (rule less.IH)
      show "\<not> readable (pmem s) pt (va + of_nat ?n + of_nat (i - ?n))"
        using less.prems(2) ge by (simp add: add.assoc flip: of_nat_add)
    qed (use n ge less.prems(1) in simp_all)
    then show ?thesis
      using pos False unfolding va' [symmetric]
      by (auto simp: copyin.simps [of pt va] walkaddr_user_pa [OF assms(1)] PGROUNDDOWN_page_of
          user_pa_page_of Let_def)
  qed
qed


section \<open>copyout()\<close>

lemma copyout_unfold:
  assumes "pt_inv pt s ps"
  shows "copyout pt va src s =
    (if src = [] then Ok 0 s else if \<not> writable (pmem s) pt va then Ok (-1) s
     else copyout pt (page_of va + 4096) (drop (chunk_len va (length src)) src)
       (s\<lparr>pmem := store_bytes (pmem s) (PTE2PA (pte_of (pmem s) pt va) + va mod 4096)
          (take (chunk_len va (length src)) src)\<rparr>))"
proof (cases "va < MAXVA")
  case True
  then have lt: "page_of va < MAXVA" by (simp add: page_of_lt_MAXVA)
  have off: "va - page_of va = va mod 4096" by (simp add: page_of_eq_minus)
  show ?thesis
  proof (cases "node (pmem s) pt (take 2 (ix (page_of va)))")
    case None
    then have "pte_of (pmem s) pt va = 0" using pte_of_page_of [OF True, of "pmem s" pt] by (simp add: pte_of_def pte_at_def)
    then show ?thesis
      using True lt None
      by (simp add: copyout.simps [of pt va] PGROUNDDOWN_page_of walk_no_alloc writable_def not_le Let_def)
  next
    case (Some p)
    have e: "load64 (pmem s) (slot p (unat (PX 0 (page_of va)))) = pte_of (pmem s) pt va"
      using pte_of_node [OF Some] pte_of_page_of [OF True, of "pmem s" pt] by simp
    show ?thesis
      using True lt Some pte_slot_nonzero [OF assms Some]
      by (simp add: copyout.simps [of pt va] PGROUNDDOWN_page_of walk_no_alloc e writable_def not_le Let_def
          off PGSIZE_def)
  qed
next
  case False
  then have "\<not> page_of va < MAXVA" by (simp add: page_of_lt_MAXVA)
  then show ?thesis
    using False by (simp add: copyout.simps [of pt va] PGROUNDDOWN_page_of writable_def not_less Let_def)
qed

lemma store_in_page:
  assumes "aligned f" and "unat o' + length bs \<le> 4096" and "page_of x \<noteq> f"
  shows "store_bytes m (f + o') bs x = m x"
proof -
  have "\<not> unat (x - (f + o')) < length bs"
  proof
    assume lt: "unat (x - (f + o')) < length bs"
    define k where "k = unat (x - (f + o'))"
    have "x = f + of_nat (unat o' + k)" by (simp add: k_def)
    moreover have "page_of (f + of_nat (unat o' + k)) = f"
      using assms(1,2) lt unfolding k_def [symmetric] by (intro page_of_in_page) auto
    ultimately show False using assms(3) by simp
  qed
  then show ?thesis by (simp add: store_bytes_def)
qed

text \<open>Storing into a user page keeps the tables and all other user pages.\<close>

lemma user_store:
  assumes inv: "pt_inv pt s ps" and ok: "user_ok pt s ps" and w: "writable (pmem s) pt va"
    and len: "length bs \<le> 4096 - unat va mod 4096"
  defines "t \<equiv> s\<lparr>pmem := store_bytes (pmem s) (PTE2PA (pte_of (pmem s) pt va) + va mod 4096) bs\<rparr>"
  shows "pt_inv pt t ps" and "user_ok pt t ps" and "pte_of (pmem t) pt vb = pte_of (pmem s) pt vb"
    and "readable (pmem s) pt vb \<Longrightarrow> user_byte (pmem t) pt vb =
      (if page_of vb = page_of va \<and> unat (vb - va) < length bs then bs ! unat (vb - va) else user_byte (pmem s) pt vb)"
proof -
  let ?f = "PTE2PA (pte_of (pmem s) pt va)"
  have f: "?f \<notin> insert 0 (set ps \<union> tables (pmem s) pt)"
    using ok w by (auto simp: user_ok_def writable_def)
  have le: "unat (va mod 4096) + length bs \<le> 4096"
  proof -
    have "unat va mod 4096 < 4096" by simp
    then show ?thesis using len by (simp only: unat_offset)
  qed
  have out: "pmem t x = pmem s x" if "page_of x \<noteq> ?f" for x
    using store_in_page [OF aligned_PTE2PA le that] by (simp add: t_def)
  have "\<forall>x. page_of x \<in> tables (pmem s) pt \<longrightarrow> pmem t x = pmem s x"
    using f by (intro allI impI out) auto
  note T = tables_frame [OF pt_inv_aligned [OF inv] this]
  show pte: "pte_of (pmem t) pt vb = pte_of (pmem s) pt vb" for vb by (rule T(3))
  have "free_pages t ps"
  proof (rule free_pages_frame [of s])
    fix x assume "page_of x \<in> set ps"
    then show "pmem t x = pmem s x" using f by (intro out) auto
  qed (use inv in \<open>simp_all add: t_def pt_inv_def\<close>)
  then show "pt_inv pt t ps"
    using inv T(1,2) by (auto simp: pt_inv_def tree_inj_def frame_ok_def t_def)
  show "user_ok pt t ps" using ok unfolding user_ok_def T(2) T(3) .
  assume r: "readable (pmem s) pt vb"
  then have vb: "vb < MAXVA" "pte_of (pmem s) pt vb AND PTE_V \<noteq> 0" "pte_of (pmem s) pt vb AND PTE_U \<noteq> 0"
    by (auto simp: readable_def user_pa_def split: if_splits)
  let ?x = "PTE2PA (pte_of (pmem s) pt vb) + vb mod 4096"
  have pgx: "page_of ?x = PTE2PA (pte_of (pmem s) pt vb)"
  proof -
    have "vb mod 4096 = of_nat (unat vb mod 4096)"
      by (simp add: word_unat_eq_iff unat_offset unat_of_nat_small)
    then show ?thesis by (simp only:) (rule page_of_in_page, simp_all)
  qed
  have ub: "user_byte (pmem t) pt vb = pmem t ?x" "user_byte (pmem s) pt vb = pmem s ?x"
    by (simp_all only: user_byte_def pte)
  show "user_byte (pmem t) pt vb =
      (if page_of vb = page_of va \<and> unat (vb - va) < length bs then bs ! unat (vb - va) else user_byte (pmem s) pt vb)"
  proof (cases "page_of vb = page_of va")
    case True
    then have e: "pte_of (pmem s) pt vb = pte_of (pmem s) pt va"
      using vb(1) w by (intro pte_of_page) (auto simp: writable_def)
    have "?x - (?f + va mod 4096) = vb - va" using same_page_diff [OF True] e by simp
    then have "pmem t ?x = (if unat (vb - va) < length bs then bs ! unat (vb - va) else pmem s ?x)"
      by (simp add: t_def store_bytes_def)
    then show ?thesis using True by (simp only: ub) simp
  next
    case False
    have va: "va < MAXVA \<and> pte_of (pmem s) pt va AND PTE_V \<noteq> 0 \<and> pte_of (pmem s) pt va AND PTE_U \<noteq> 0"
      using w by (simp add: writable_def)
    have "PTE2PA (pte_of (pmem s) pt vb) \<noteq> ?f"
      using ok [unfolded user_ok_def, rule_format, OF va] vb False by blast
    then have "page_of ?x \<noteq> ?f" by (simp only: pgx not_False_eq_True)
    then have "pmem t ?x = pmem s ?x" by (rule out)
    then show ?thesis using False by (simp only: ub) simp
  qed
qed


lemma unat_diff_split:
  fixes x y :: u64
  assumes "n < 2 ^ 63" and "k < 2 ^ 63"
  shows "unat (x - y) < n + k \<longleftrightarrow> unat (x - y) < n \<or> n \<le> unat (x - y) \<and> unat (x - (y + of_nat n)) < k"
    and "n \<le> unat (x - y) \<Longrightarrow> unat (x - (y + of_nat n)) = unat (x - y) - n"
    and "unat (x - y) < n \<Longrightarrow> \<not> unat (x - (y + of_nat n)) < k"
proof -
  let ?d = "x - y"
  have e: "x - (y + of_nat n) = ?d - of_nat n" by (simp add: algebra_simps)
  have n: "unat (of_nat n :: u64) = n" using assms(1) by (intro unat_of_nat_small) simp
  show big: "unat (x - (y + of_nat n)) = unat ?d - n" if "n \<le> unat ?d"
    unfolding e using that n by (subst unat_sub) (auto simp: word_le_nat_alt)
  show small: "\<not> unat (x - (y + of_nat n)) < k" if lt: "unat ?d < n"
  proof -
    have "unat (?d - of_nat n) = unat ?d + 2 ^ 64 - n"
      using lt n by (simp add: unat_sub_if_size word_size)
    then show ?thesis unfolding e using lt assms by simp
  qed
  show "unat ?d < n + k \<longleftrightarrow> unat ?d < n \<or> n \<le> unat ?d \<and> unat (x - (y + of_nat n)) < k"
    using big by auto
qed

lemma writable_readable: "user_ok pt s ps \<Longrightarrow> writable (pmem s) pt va \<Longrightarrow> readable (pmem s) pt va"
  by (auto simp: user_ok_def writable_def readable_def user_pa_def not_le [symmetric])

lemma readable_cong: "(\<And>va. pte_of m' pt va = pte_of m pt va) \<Longrightarrow> readable m' pt va = readable m pt va"
  by (simp add: readable_def user_pa_def)

lemma writable_page: "page_of vb = page_of va \<Longrightarrow> writable m pt vb = writable m pt va"
  using pte_of_page [of vb va m pt] page_of_lt_MAXVA [of va] page_of_lt_MAXVA [of vb]
  by (auto simp: writable_def)

lemma copyout_ok:
  assumes "pt_inv pt s ps" and "user_ok pt s ps" and "length src < 2 ^ 63"
    and "\<forall>i<length src. writable (pmem s) pt (va + of_nat i)"
  shows "\<exists>t. copyout pt va src s = Ok 0 t \<and> pt_inv pt t ps \<and> user_ok pt t ps \<and>
    (\<forall>vb. pte_of (pmem t) pt vb = pte_of (pmem s) pt vb) \<and>
    (\<forall>vb. readable (pmem s) pt vb \<longrightarrow> user_byte (pmem t) pt vb =
      (if unat (vb - va) < length src then src ! unat (vb - va) else user_byte (pmem s) pt vb))"
  using assms
proof (induction "length src" arbitrary: va src s rule: less_induct)
  case less
  show ?case
  proof (cases "src = []")
    case True
    then show ?thesis using less.prems by (simp add: copyout.simps)
  next
    case False
    let ?n = "chunk_len va (length src)"
    have n: "0 < ?n" "?n \<le> length src" "?n \<le> 4096 - unat va mod 4096"
      using False by (simp_all add: chunk_len_pos chunk_len_le) (simp add: chunk_len_eq)
    have w: "writable (pmem s) pt va" using less.prems(4) False by (auto dest: spec [of _ 0])
    define t where "t = s\<lparr>pmem := store_bytes (pmem s) (PTE2PA (pte_of (pmem s) pt va) + va mod 4096) (take ?n src)\<rparr>"
    have len: "length (take ?n src) = ?n" "length (take ?n src) \<le> 4096 - unat va mod 4096" using n by auto
    note U = user_store [OF less.prems(1,2) w len(2), folded t_def]
    have step: "copyout pt va src s = copyout pt (page_of va + 4096) (drop ?n src) t"
      using copyout_unfold [OF less.prems(1)] False w by (simp add: t_def)
    have first: "user_byte (pmem t) pt vb =
        (if unat (vb - va) < ?n then src ! unat (vb - va) else user_byte (pmem s) pt vb)"
      if "readable (pmem s) pt vb" for vb
    proof -
      have "page_of vb = page_of va" if "unat (vb - va) < ?n"
        using page_step(1) [of "unat (vb - va)" va] that n(3) by simp
      then show ?thesis using U(4) [OF that] n(2) by auto
    qed
    show ?thesis
    proof (cases "?n = length src")
      case True
      then show ?thesis using step U(1-3) first by (simp add: copyout.simps)
    next
      case False
      then have "?n = 4096 - unat va mod 4096" by (simp add: chunk_len_eq min_def split: if_splits)
      then have va': "page_of va + 4096 = va + of_nat ?n" using next_page [of va] by simp
      have wr: "\<forall>i<length (drop ?n src). writable (pmem t) pt (va + of_nat ?n + of_nat i)"
      proof (intro allI impI)
        fix i assume "i < length (drop ?n src)"
        then have "writable (pmem s) pt (va + of_nat (?n + i))" by (intro less.prems(4) [rule_format]) simp
        then show "writable (pmem t) pt (va + of_nat ?n + of_nat i)"
          by (simp add: writable_def U(3) add.assoc)
      qed
      have lt: "length (drop ?n src) < length src" using n(1,2) by simp
      have l63: "length (drop ?n src) < 2 ^ 63" using less.prems(3) lt by simp
      obtain u where u: "copyout pt (va + of_nat ?n) (drop ?n src) t = Ok 0 u" "pt_inv pt u ps" "user_ok pt u ps"
        "\<forall>vb. pte_of (pmem u) pt vb = pte_of (pmem t) pt vb"
        "\<forall>vb. readable (pmem t) pt vb \<longrightarrow> user_byte (pmem u) pt vb =
          (if unat (vb - (va + of_nat ?n)) < length (drop ?n src) then drop ?n src ! unat (vb - (va + of_nat ?n))
           else user_byte (pmem t) pt vb)"
        using less.hyps [OF lt U(1,2) l63 wr] by blast
      have "user_byte (pmem u) pt vb =
          (if unat (vb - va) < length src then src ! unat (vb - va) else user_byte (pmem s) pt vb)"
        if r: "readable (pmem s) pt vb" for vb
      proof -
        have rt: "readable (pmem t) pt vb" using r readable_cong [OF U(3)] by simp
        have n63: "?n < 2 ^ 63" "length src - ?n < 2 ^ 63" using n less.prems(3) by auto
        note D = unat_diff_split [OF n63, of vb va]
        show ?thesis
          using u(5) [rule_format, OF rt] first [OF r] D n(2) by auto
      qed
      then show ?thesis using step u U(3) unfolding va' by (intro exI [of _ u]) auto
    qed
  qed
qed


section \<open>A small address space\<close>

lemma empty_table:
  assumes "free_pages s ps" and "frame_ok s pt" and "pt \<notin> set ps"
    and zero: "\<forall>j<512. load64 (pmem s) (slot pt j) = 0"
  shows "pt_inv pt s ps" and "tables (pmem s) pt = {pt}" and "pte_of (pmem s) pt va = 0"
proof -
  have nd: "node (pmem s) pt xs = (if xs = [] then Some pt else None)" if "tpath xs" for xs
    using that zero by (cases xs) (auto simp: tpath_def Let_def)
  show tb: "tables (pmem s) pt = {pt}"
    using nd tables_I [of "[]" "pmem s" pt pt] by (auto simp: tables_def tpath_def split: if_splits)
  have "tree_inj (pmem s) pt" using nd by (auto simp: tree_inj_def split: if_splits)
  then show "pt_inv pt s ps" using assms(1-3) tb by (simp add: pt_inv_def)
  have "tpath (take 2 (ix va))" "take 2 (ix va) \<noteq> []" by simp (simp add: ix_def)
  then show "pte_of (pmem s) pt va = 0" using nd by (simp add: pte_of_def pte_at_def)
qed

text \<open>
  The examples below use the table page \<open>0x87FFF000\<close>, two free pages for the lower levels, and
  memory that is otherwise zero.
\<close>

definition ex_machine :: machine where
  "ex_machine = \<lparr>pmem = store64 (\<lambda>_. 0) 0x87FFE000 0x87FFD000, freelist = 0x87FFE000, kend = 0x80001000\<rparr>"

lemma load64_zero [simp]: "load64 (\<lambda>_. 0) a = 0"
  by (simp add: load64_def upt_rec)

lemma ex_aligned: "aligned 0x87FFF000" "aligned 0x87FFE000" "aligned 0x87FFD000" "aligned 0x80200000" "aligned 0"
  by (simp_all add: aligned_iff_unat)

lemma ex_load64:
  assumes "aligned p" and "p \<noteq> 0x87FFE000" and "j < 512"
  shows "load64 (pmem ex_machine) (slot p j) = 0"
proof -
  have "load64 (store64 (\<lambda>_. 0) (0x87FFE000 + of_nat 0) 0x87FFD000) (p + of_nat (8 * j)) = load64 (\<lambda>_. 0) (p + of_nat (8 * j))"
    using assms ex_aligned by (intro load_store64_other_page) auto
  then show ?thesis by (simp add: slot_def ex_machine_def)
qed

lemma ex_table:
  shows "pt_inv 0x87FFF000 ex_machine [0x87FFE000, 0x87FFD000]"
    and "pte_of (pmem ex_machine) 0x87FFF000 va = 0"
    and "tables (pmem ex_machine) 0x87FFF000 = {0x87FFF000}"
proof -
  have "load64 (pmem ex_machine) 0x87FFD000 = 0" using ex_load64 [of "0x87FFD000" 0] ex_aligned by (simp add: slot_def)
  then have "free_pages ex_machine [0x87FFE000, 0x87FFD000]"
    using ex_aligned by (simp add: free_pages_def frame_ok_def layout_defs) (simp add: ex_machine_def)
  moreover have "frame_ok ex_machine 0x87FFF000"
    using ex_aligned by (simp add: frame_ok_def layout_defs) (simp add: ex_machine_def)
  moreover have "(0x87FFF000 :: u64) \<notin> set [0x87FFE000, 0x87FFD000]" by simp
  moreover have "\<forall>j<512. load64 (pmem ex_machine) (slot 0x87FFF000 j) = 0"
    using ex_aligned by (auto intro: ex_load64)
  ultimately show "pt_inv 0x87FFF000 ex_machine [0x87FFE000, 0x87FFD000]"
    and "pte_of (pmem ex_machine) 0x87FFF000 va = 0"
    and "tables (pmem ex_machine) 0x87FFF000 = {0x87FFF000}"
    by (rule empty_table)+
qed

text \<open>One user page at address 0, with the frame \<open>0x80200000\<close>.\<close>

lemma ex_user_page:
  "\<exists>(t :: machine) qs.
    pt_inv 0x87FFF000 t qs \<and> user_ok 0x87FFF000 t qs \<and> set qs \<subseteq> {0x87FFE000, 0x87FFD000} \<and> kend t = 0x80001000 \<and>
    tables (pmem t) 0x87FFF000 \<subseteq> {0x87FFF000, 0x87FFE000, 0x87FFD000} \<and>
    (\<forall>va<MAXVA. pte_of (pmem t) 0x87FFF000 va =
       (if page_of va = 0 then PA2PTE 0x80200000 OR (PTE_R OR PTE_W OR PTE_U) OR PTE_V else 0))"
proof -
  let ?perm = "PTE_R OR PTE_W OR PTE_U"
  have un: "unmapped 0x87FFF000 0 (Suc 0) (pmem ex_machine)" by (simp add: unmapped_def ex_table(2))
  have "\<exists>r t qs k. mappages_loop 0x87FFF000 0 (0 + of_nat (4096 * 0)) 0x80200000 ?perm ex_machine = Ok r t \<and>
    vm_ext 0x87FFF000 ex_machine [0x87FFE000, 0x87FFD000] t qs \<and>
    (r = 0 \<and> k = Suc 0 \<or> r = -1 \<and> k \<le> 0 \<and> qs = [] \<and> length [0x87FFE000 :: u64, 0x87FFD000] < 2 * Suc 0) \<and>
    mapped_range 0x87FFF000 0 k 0x80200000 ?perm (pmem ex_machine) (pmem t)"
    by (rule mappages_loop_maps [OF ex_table(1) ex_aligned(5) _ un]) simp
  then obtain t qs where t: "vm_ext 0x87FFF000 ex_machine [0x87FFE000, 0x87FFD000] t qs"
    "mapped_range 0x87FFF000 0 (Suc 0) 0x80200000 ?perm (pmem ex_machine) (pmem t)" by auto
  have pte: "pte_of (pmem t) 0x87FFF000 va =
       (if page_of va = 0 then PA2PTE 0x80200000 OR ?perm OR PTE_V else 0)" if "va < MAXVA" for va
    using t(2) that in_page_range [OF ex_aligned(5), of va]
    by (auto simp: mapped_range_def ex_table(2))
  have sub: "tables (pmem t) 0x87FFF000 \<subseteq> {0x87FFF000, 0x87FFE000, 0x87FFD000}" "set qs \<subseteq> {0x87FFE000, 0x87FFD000}"
    using t(1) ex_table(3) set_mono_suffix [of qs "[0x87FFE000, 0x87FFD000]"] by (auto simp: vm_ext_def)
  have fr: "PTE2PA (PA2PTE 0x80200000 OR ?perm OR PTE_V) = 0x80200000"
    by (simp add: PTE2PA_def PA2PTE_def pte_bits)
  have notin: "(0x80200000 :: u64) \<notin> insert 0 (set qs \<union> tables (pmem t) 0x87FFF000)" using sub by auto
  have "user_ok 0x87FFF000 t qs"
    unfolding user_ok_def
  proof (intro allI impI conjI)
    fix va assume a: "va < MAXVA \<and> pte_of (pmem t) 0x87FFF000 va AND PTE_V \<noteq> 0 \<and> pte_of (pmem t) 0x87FFF000 va AND PTE_U \<noteq> 0"
    then have va: "page_of va = 0" "va < MAXVA" using pte by (auto split: if_splits)
    then show "PTE2PA (pte_of (pmem t) 0x87FFF000 va) \<notin> insert 0 (set qs \<union> tables (pmem t) 0x87FFF000)"
      using pte [OF va(2)] fr notin by simp
    fix vb assume "vb < MAXVA \<and> pte_of (pmem t) 0x87FFF000 vb AND PTE_V \<noteq> 0 \<and> pte_of (pmem t) 0x87FFF000 vb AND PTE_U \<noteq> 0 \<and>
        PTE2PA (pte_of (pmem t) 0x87FFF000 vb) = PTE2PA (pte_of (pmem t) 0x87FFF000 va)"
    then show "page_of vb = page_of va" using va pte by (auto split: if_splits)
  qed
  moreover have "kend t = 0x80001000" using t(1) by (simp add: vm_ext_def ex_machine_def)
  ultimately show ?thesis using vm_ext_inv [OF t(1)] sub pte by blast
qed


section \<open>Properties\<close>

text \<open>C1: mappages() implements an update of the address space as a map. On a well-formed page table
  whose pages in the range are unmapped, it never panics; with at least \<open>2n\<close> free pages it returns 0
  and exactly the \<open>n\<close> pages of the range get the entries for \<open>pa\<close>, \<open>pa + 4096\<close>, ... with the given
  permissions; it returns -1 only when the free list has run out, and then a prefix of the range is
  mapped. All other entries, and all memory outside table pages and free pages, are kept.\<close>

theorem mappages_refines_map:
  assumes "pt_inv pt s ps" and "aligned va" and "0 < n" and "unat va + 4096 * n \<le> 2 ^ 38"
    and "unmapped pt va n (pmem s)"
  shows "\<exists>r t qs k. mappages pt va (of_nat (4096 * n)) pa perm s = Ok r t \<and> pt_inv pt t qs \<and>
    (r = 0 \<and> k = n \<or> r = -1 \<and> k < n \<and> qs = [] \<and> length ps < 2 * n) \<and>
    (\<forall>vb<MAXVA. pte_of (pmem t) pt vb =
       (if unat va \<le> unat vb \<and> unat vb < unat va + 4096 * k
        then PA2PTE (pa + (page_of vb - va)) OR perm OR PTE_V else pte_of (pmem s) pt vb)) \<and>
    (\<forall>x. page_of x \<notin> set ps \<union> tables (pmem s) pt \<longrightarrow> pmem t x = pmem s x)"
proof -
  obtain m where m: "n = Suc m" using assms(3) by (cases n) auto
  have sz: "unat (of_nat (4096 * n) :: u64) = 4096 * n" using assms(4) by (intro unat_of_nat_small) simp
  have s0: "of_nat (4096 * n) \<noteq> (0 :: u64)" 
  proof
    assume "of_nat (4096 * n) = (0 :: u64)"
    then have "unat (of_nat (4096 * n) :: u64) = 0" by (simp only: unat_0)
    then show False using sz assms(3) by simp
  qed
  have s1: "of_nat (4096 * n) mod PGSIZE = (0 :: u64)"
    using sz by (simp add: PGSIZE_def word_unat_eq_iff unat_mod_distrib del: of_nat_mult)
  have lst: "va + of_nat (4096 * n) - PGSIZE = va + of_nat (4096 * m)"
    by (simp add: m PGSIZE_def algebra_simps)
  have "mappages pt va (of_nat (4096 * n)) pa perm s = mappages_loop pt va (va + of_nat (4096 * m)) pa perm s"
    using assms(2) s0 s1 unfolding mappages_def lst by (simp add: aligned_def)
  moreover have "\<exists>r t qs k. mappages_loop pt va (va + of_nat (4096 * m)) pa perm s = Ok r t \<and> vm_ext pt s ps t qs \<and>
    (r = 0 \<and> k = Suc m \<or> r = -1 \<and> k \<le> m \<and> qs = [] \<and> length ps < 2 * Suc m) \<and>
    mapped_range pt va k pa perm (pmem s) (pmem t)"
    using assms m by (intro mappages_loop_maps) simp_all
  ultimately obtain r t qs k where o: "mappages pt va (of_nat (4096 * n)) pa perm s = Ok r t" "vm_ext pt s ps t qs"
    "r = 0 \<and> k = Suc m \<or> r = -1 \<and> k \<le> m \<and> qs = [] \<and> length ps < 2 * Suc m"
    "mapped_range pt va k pa perm (pmem s) (pmem t)" by auto
  then show ?thesis
    using m by (intro exI [of _ r] exI [of _ t] exI [of _ qs] exI [of _ k])
      (auto simp: vm_ext_def mapped_range_def)
qed

theorem mappages_refines_map_witness:
  "\<exists>t. mappages 0x87FFF000 0x5000 (of_nat (4096 * 1)) 0x80200000 PTE_U ex_machine = Ok 0 t \<and>
     pte_of (pmem t) 0x87FFF000 0x5008 = PA2PTE 0x80200000 OR PTE_U OR PTE_V"
proof -
  have al: "aligned 0x5000" by (simp add: aligned_iff_unat)
  have un: "unmapped 0x87FFF000 0x5000 1 (pmem ex_machine)" by (simp add: unmapped_def ex_table(2))
  have lt: "(0x5008 :: u64) < MAXVA" by (simp add: layout_defs)
  have pg: "page_of 0x5008 = 0x5000" by (simp add: page_of_def)
  from mappages_refines_map [OF ex_table(1) al _ _ un, of "0x80200000" PTE_U] obtain t where
    "mappages 0x87FFF000 0x5000 (of_nat (4096 * 1)) 0x80200000 PTE_U ex_machine = Ok 0 t"
    "\<forall>vb<MAXVA. pte_of (pmem t) 0x87FFF000 vb =
       (if unat (0x5000 :: u64) \<le> unat vb \<and> unat vb < unat (0x5000 :: u64) + 4096 * 1
        then PA2PTE (0x80200000 + (page_of vb - 0x5000)) OR PTE_U OR PTE_V else pte_of (pmem ex_machine) 0x87FFF000 vb)"
    by auto
  then show ?thesis using lt pg by (intro exI [of _ t]) simp
qed

text \<open>C7: uvmunmap() with do_free gives every frame of the range back to the allocator exactly once and
  clears exactly the entries of the range; it does not panic when the pages are mapped as leaves.\<close>

theorem uvmunmap_frees_frames:
  assumes "pt_inv pt s ps" and "aligned va" and "unat va + 4096 * length fs \<le> 2 ^ 38"
    and "user_frames pt va fs s" and "set fs \<inter> set ps = {}"
  shows "\<exists>t. uvmunmap pt va (of_nat (length fs)) True s = Ok () t \<and> free_pages t (rev fs @ ps) \<and>
    pt_inv pt t (rev fs @ ps) \<and>
    (\<forall>vb<MAXVA. pte_of (pmem t) pt vb =
       (if unat va \<le> unat vb \<and> unat vb < unat va + 4096 * length fs then 0 else pte_of (pmem s) pt vb))"
proof -
  have "va + of_nat (length fs) * PGSIZE = va + of_nat (4096 * length fs)" by (simp add: PGSIZE_def)
  then have "uvmunmap pt va (of_nat (length fs)) True s = uvmunmap_loop pt va (va + of_nat (4096 * length fs)) True s"
    using assms(2) unfolding uvmunmap_def aligned_def by simp
  then show ?thesis
    using uvmunmap_loop_frees [OF assms] by (auto simp: unmapped_range_def pt_inv_def)
qed

theorem uvmunmap_frees_frames_witness:
  "\<exists>(s :: machine) t ps. uvmunmap 0x87FFF000 0 1 True s = Ok () t \<and> free_pages t (0x80200000 # ps)"
proof -
  obtain s :: machine and ps where s: "pt_inv 0x87FFF000 s ps" "set ps \<subseteq> {0x87FFE000, 0x87FFD000}" "kend s = 0x80001000"
    "tables (pmem s) 0x87FFF000 \<subseteq> {0x87FFF000, 0x87FFE000, 0x87FFD000}"
    "\<forall>va<MAXVA. pte_of (pmem s) 0x87FFF000 va =
       (if page_of va = 0 then PA2PTE 0x80200000 OR (PTE_R OR PTE_W OR PTE_U) OR PTE_V else 0)"
    using ex_user_page by blast
  have "pte_of (pmem s) 0x87FFF000 0 = PA2PTE 0x80200000 OR (PTE_R OR PTE_W OR PTE_U) OR PTE_V"
    using s(5) [rule_format, of 0] by (simp add: page_of_def layout_defs)
  then have "user_frames 0x87FFF000 0 [0x80200000] s"
    using s(3,4) ex_aligned
    by (auto simp: user_frames_def frame_ok_def PTE2PA_def PA2PTE_def PTE_FLAGS_def pte_bits layout_defs)
  moreover have notin: "0x80200000 \<notin> set ps" using s(2) by auto
  ultimately have "\<exists>t. uvmunmap 0x87FFF000 0 (of_nat (length [0x80200000 :: u64])) True s = Ok () t \<and> free_pages t (rev [0x80200000] @ ps)"
    using uvmunmap_frees_frames [OF s(1) ex_aligned(5), of "[0x80200000]"] notin by auto
  then show ?thesis by auto
qed

text \<open>C2: What the kernel copies out to a user address it reads back: if all bytes of the target range
  lie in writable user pages, copyout() succeeds, a following copyin() of the same range returns
  exactly the bytes written, every other user byte and every page-table entry is kept.\<close>

theorem copyout_copyin_roundtrip:
  assumes "pt_inv pt s ps" and "user_ok pt s ps" and "length src < 2 ^ 63"
    and "\<forall>i<length src. writable (pmem s) pt (va + of_nat i)"
  shows "\<exists>t. copyout pt va src s = Ok 0 t \<and> copyin pt va (length src) t = Ok (0, src) t \<and>
    (\<forall>vb. pte_of (pmem t) pt vb = pte_of (pmem s) pt vb) \<and>
    (\<forall>vb. readable (pmem s) pt vb \<and> length src \<le> unat (vb - va) \<longrightarrow>
       user_byte (pmem t) pt vb = user_byte (pmem s) pt vb)"
proof -
  obtain t where t: "copyout pt va src s = Ok 0 t" "pt_inv pt t ps"
    "\<forall>vb. pte_of (pmem t) pt vb = pte_of (pmem s) pt vb"
    "\<forall>vb. readable (pmem s) pt vb \<longrightarrow> user_byte (pmem t) pt vb =
      (if unat (vb - va) < length src then src ! unat (vb - va) else user_byte (pmem s) pt vb)"
    using copyout_ok [OF assms] by blast
  have r: "readable (pmem s) pt (va + of_nat i)" if "i < length src" for i
    using writable_readable [OF assms(2)] assms(4) that by blast
  have "copyin pt va (length src) t = Ok (0, map (\<lambda>i. user_byte (pmem t) pt (va + of_nat i)) [0..<length src]) t"
  proof (rule copyin_ok [OF t(2)])
    fix i assume "i < length src"
    then show "readable (pmem t) pt (va + of_nat i)" using r readable_cong [of "pmem t" pt "pmem s"] t(3) by auto
  qed
  also have "map (\<lambda>i. user_byte (pmem t) pt (va + of_nat i)) [0..<length src] = src"
  proof (rule nth_equalityI)
    fix i assume "i < length (map (\<lambda>i. user_byte (pmem t) pt (va + of_nat i)) [0..<length src])"
    then have i: "i < length src" by simp
    then have "unat (of_nat i :: u64) = i" using assms(3) by (intro unat_of_nat_small) simp
    then show "map (\<lambda>i. user_byte (pmem t) pt (va + of_nat i)) [0..<length src] ! i = src ! i"
      using i t(4) r [OF i] by simp
  qed simp
  finally show ?thesis using t by (intro exI [of _ t]) auto
qed

theorem copyout_copyin_roundtrip_witness:
  "\<exists>(s :: machine) t. copyout 0x87FFF000 16 [7, 8, 9] s = Ok 0 t \<and> copyin 0x87FFF000 16 3 t = Ok (0, [7, 8, 9]) t"
proof -
  obtain s :: machine and ps where s: "pt_inv 0x87FFF000 s ps" "user_ok 0x87FFF000 s ps"
    "\<forall>va<MAXVA. pte_of (pmem s) 0x87FFF000 va =
       (if page_of va = 0 then PA2PTE 0x80200000 OR (PTE_R OR PTE_W OR PTE_U) OR PTE_V else 0)"
    using ex_user_page by blast
  have "\<forall>i<length [7 :: u8, 8, 9]. writable (pmem s) 0x87FFF000 (16 + of_nat i)"
    using s(3) by (auto simp: writable_def All_less_Suc layout_defs page_of_def PA2PTE_def pte_bits)
  from copyout_copyin_roundtrip [OF s(1,2) _ this] show ?thesis by (auto simp: numeral_3_eq_3)
qed

end
