(* ===== verification/Spinlock.thy ===== *)
theory Spinlock
  imports Xv6_Prelude
begin

text \<open>
  Spin locks, kernel/spinlock.c, on a machine with several harts. \<open>push_off\<close>, \<open>pop_off\<close>, \<open>holding\<close> and
  the parts of \<open>acquire\<close> and \<open>release\<close> between two atomic memory accesses are functions of the shared
  state; \<open>lock_step\<close> interleaves them. The other theories model code that runs inside a critical section
  as one atomic operation; mutual exclusion, proved here, is what justifies that.
\<close>

section \<open>State\<close>

record spinlock =
  locked :: bool
  cpu :: "nat option"

record cpu_state =
  noff :: int
  intena :: bool
  sie :: bool    \<comment> \<open>the SIE bit of sstatus: intr_get(), intr_on() and intr_off()\<close>

record smp =
  locks :: "nat \<Rightarrow> spinlock"
  cpus :: "nat \<Rightarrow> cpu_state"

abbreviation upd_cpu :: "nat \<Rightarrow> (cpu_state \<Rightarrow> cpu_state) \<Rightarrow> 'z smp_scheme \<Rightarrow> 'z smp_scheme" where
  "upd_cpu h f s \<equiv> s\<lparr>cpus := (cpus s)(h := f (cpus s h))\<rparr>"

abbreviation upd_lock :: "nat \<Rightarrow> (spinlock \<Rightarrow> spinlock) \<Rightarrow> 'z smp_scheme \<Rightarrow> 'z smp_scheme" where
  "upd_lock l f s \<equiv> s\<lparr>locks := (locks s)(l := f (locks s l))\<rparr>"

section \<open>Operations\<close>

definition initlock :: "nat \<Rightarrow> 'z smp_scheme \<Rightarrow> 'z smp_scheme" where
  "initlock l s = upd_lock l (\<lambda>k. k\<lparr>locked := False, cpu := None\<rparr>) s"

definition holding :: "nat \<Rightarrow> nat \<Rightarrow> 'z smp_scheme \<Rightarrow> bool" where
  "holding h l s \<longleftrightarrow> locked (locks s l) \<and> cpu (locks s l) = Some h"

definition push_off :: "nat \<Rightarrow> 'z smp_scheme \<Rightarrow> 'z smp_scheme" where
  "push_off h s =
     (let old = sie (cpus s h);
          s = upd_cpu h (\<lambda>c. c\<lparr>sie := False\<rparr>) s;
          s = (if noff (cpus s h) = 0 then upd_cpu h (\<lambda>c. c\<lparr>intena := old\<rparr>) s else s)
      in upd_cpu h (\<lambda>c. c\<lparr>noff := noff c + 1\<rparr>) s)"

definition pop_off :: "nat \<Rightarrow> 'z smp_scheme \<Rightarrow> ('z smp_scheme, unit) result" where
  "pop_off h s =
     (if sie (cpus s h) then Panic ''pop_off - interruptible''
      else if noff (cpus s h) < 1 then Panic ''pop_off''
      else
        let s = upd_cpu h (\<lambda>c. c\<lparr>noff := noff c - 1\<rparr>) s in
        if noff (cpus s h) = 0 \<and> intena (cpus s h) then Ok () (upd_cpu h (\<lambda>c. c\<lparr>sie := True\<rparr>) s)
        else Ok () s)"

text \<open>acquire() up to its loop, one round of the loop (the atomic swap), and its last statement.\<close>

definition acquire_enter :: "nat \<Rightarrow> nat \<Rightarrow> 'z smp_scheme \<Rightarrow> ('z smp_scheme, unit) result" where
  "acquire_enter h l s =
     (let s = push_off h s in if holding h l s then Panic ''acquire'' else Ok () s)"

definition test_and_set :: "nat \<Rightarrow> 'z smp_scheme \<Rightarrow> bool \<times> 'z smp_scheme" where
  "test_and_set l s = (locked (locks s l), upd_lock l (\<lambda>k. k\<lparr>locked := True\<rparr>) s)"

definition acquire_own :: "nat \<Rightarrow> nat \<Rightarrow> 'z smp_scheme \<Rightarrow> 'z smp_scheme" where
  "acquire_own h l s = upd_lock l (\<lambda>k. k\<lparr>cpu := Some h\<rparr>) s"

text \<open>acquire() when no other hart interferes: it spins for ever on a lock that is held.\<close>

definition acquire :: "nat \<Rightarrow> nat \<Rightarrow> 'z smp_scheme \<Rightarrow> ('z smp_scheme, unit) result" where
  "acquire h l s =
     then_do (acquire_enter h l s) (\<lambda>_ s.
       let (busy, s) = test_and_set l s in
       if busy then Hang else Ok () (acquire_own h l s))"

text \<open>release(): the check and the clearing of the owner, the atomic store, and pop_off().\<close>

definition release_enter :: "nat \<Rightarrow> nat \<Rightarrow> 'z smp_scheme \<Rightarrow> ('z smp_scheme, unit) result" where
  "release_enter h l s =
     (if \<not> holding h l s then Panic ''release''
      else Ok () (upd_lock l (\<lambda>k. k\<lparr>cpu := None\<rparr>) s))"

definition lock_release :: "nat \<Rightarrow> 'z smp_scheme \<Rightarrow> 'z smp_scheme" where
  "lock_release l s = upd_lock l (\<lambda>k. k\<lparr>locked := False\<rparr>) s"

definition release :: "nat \<Rightarrow> nat \<Rightarrow> 'z smp_scheme \<Rightarrow> ('z smp_scheme, unit) result" where
  "release h l s =
     then_do (release_enter h l s) (\<lambda>_ s. pop_off h (lock_release l s))"

section \<open>Interleaved execution\<close>

text \<open>
  Where a hart is: in ordinary code, spinning in acquire(), between the swap and the assignment to
  \<open>lk->cpu\<close>, between the clearing of \<open>lk->cpu\<close> and the store that frees the lock, or before the pop_off()
  of release(). \<open>held\<close> is a ghost: the locks whose critical sections the hart is in.
\<close>

datatype ctl = Running | Spinning nat | Won nat | Dropping nat | Dropped nat

record hart_state = smp +
  ctl :: "nat \<Rightarrow> ctl"
  held :: "nat \<Rightarrow> nat set"

inductive lock_step :: "hart_state \<Rightarrow> hart_state \<Rightarrow> bool" where
  enter: "ctl s h = Running \<Longrightarrow> acquire_enter h l s = Ok () t \<Longrightarrow>
    lock_step s (t\<lparr>ctl := (ctl t)(h := Spinning l)\<rparr>)"
| spin: "ctl s h = Spinning l \<Longrightarrow> test_and_set l s = (True, t) \<Longrightarrow> lock_step s t"
| win: "ctl s h = Spinning l \<Longrightarrow> test_and_set l s = (False, t) \<Longrightarrow>
    lock_step s (t\<lparr>ctl := (ctl t)(h := Won l)\<rparr>)"
| own: "ctl s h = Won l \<Longrightarrow> t = acquire_own h l s \<Longrightarrow>
    lock_step s (t\<lparr>ctl := (ctl t)(h := Running), held := (held t)(h := insert l (held t h))\<rparr>)"
| drop: "ctl s h = Running \<Longrightarrow> release_enter h l s = Ok () t \<Longrightarrow>
    lock_step s (t\<lparr>ctl := (ctl t)(h := Dropping l), held := (held t)(h := held t h - {l})\<rparr>)"
| unlock: "ctl s h = Dropping l \<Longrightarrow> t = lock_release l s \<Longrightarrow>
    lock_step s (t\<lparr>ctl := (ctl t)(h := Dropped l)\<rparr>)"
| pop: "ctl s h = Dropped l \<Longrightarrow> pop_off h s = Ok () t \<Longrightarrow>
    lock_step s (t\<lparr>ctl := (ctl t)(h := Running)\<rparr>)"
| intr_on: "ctl s h = Running \<Longrightarrow> noff (cpus s h) = 0 \<Longrightarrow> lock_step s (upd_cpu h (\<lambda>c. c\<lparr>sie := True\<rparr>) s)"
| intr_off: "ctl s h = Running \<Longrightarrow> noff (cpus s h) = 0 \<Longrightarrow> lock_step s (upd_cpu h (\<lambda>c. c\<lparr>sie := False\<rparr>) s)"

inductive_cases lock_stepE: "lock_step s t"








lemmas lock_ops = acquire_enter_def push_off_def pop_off_def test_and_set_def acquire_own_def
  release_enter_def lock_release_def holding_def Let_def

text \<open>What the operations leave alone.\<close>

lemma push_off_frame [simp]:
  "locks (push_off h s) = locks s" "ctl (push_off h u) = ctl u" "held (push_off h u) = held u"
  by (simp_all add: push_off_def Let_def)








section \<open>Properties\<close>



text \<open>Uncontended use. On a free lock, acquire() returns with the lock held and interrupts off;
  acquiring it again on the same hart panics; release() gives back the lock and the interrupt state and
  nesting depth from before; and releasing a lock that the hart does not hold panics.\<close>

theorem acquire_release_restores:
  assumes "\<not> locked (locks s l)" and "0 \<le> noff (cpus s h)"
    and "0 < noff (cpus s h) \<longrightarrow> \<not> sie (cpus s h)"
  shows "\<exists>t u. acquire h l s = Ok () t \<and> holding h l t \<and> \<not> sie (cpus t h) \<and>
    acquire h l t = Panic ''acquire'' \<and> release h l t = Ok () u \<and>
    \<not> locked (locks u l) \<and> noff (cpus u h) = noff (cpus s h) \<and> sie (cpus u h) = sie (cpus s h) \<and>
    release h l u = Panic ''release''"
proof -
  let ?t = "acquire_own h l (snd (test_and_set l (push_off h s)))"
  have a: "acquire h l s = Ok () ?t"
    using assms(1) by (simp add: acquire_def lock_ops)
  have h: "holding h l ?t" "\<not> sie (cpus ?t h)" "noff (cpus ?t h) = noff (cpus s h) + 1"
    "noff (cpus s h) = 0 \<Longrightarrow> intena (cpus ?t h) = sie (cpus s h)" "locked (locks ?t l)" "cpu (locks ?t l) = Some h"
    by (auto simp: lock_ops)
  have p: "acquire h l ?t = Panic ''acquire''"
    using h(5,6) by (simp add: acquire_def acquire_enter_def Let_def) (simp add: holding_def push_off_def Let_def)
  have "\<exists>u. release h l ?t = Ok () u \<and> \<not> locked (locks u l) \<and> noff (cpus u h) = noff (cpus s h) \<and>
    sie (cpus u h) = sie (cpus s h)"
    using h assms(2,3)
    by (cases "noff (cpus s h) = 0 \<and> sie (cpus s h)")
      (auto simp: release_def release_enter_def pop_off_def lock_release_def Let_def)
  then obtain u where u: "release h l ?t = Ok () u" "\<not> locked (locks u l)" "noff (cpus u h) = noff (cpus s h)"
    "sie (cpus u h) = sie (cpus s h)" by blast
  then have "release h l u = Panic ''release''" by (simp add: release_def release_enter_def holding_def)
  then show ?thesis using a h p u by blast
qed

theorem acquire_release_restores_witness:
  "\<exists>t u. acquire 1 3 \<lparr>locks = \<lambda>_. \<lparr>locked = False, cpu = None\<rparr>, cpus = \<lambda>_. \<lparr>noff = 0, intena = False, sie = True\<rparr>\<rparr> = Ok () t \<and>
     release 1 3 t = Ok () u \<and> sie (cpus u 1)"
proof -
  let ?s = "\<lparr>locks = \<lambda>_. \<lparr>locked = False, cpu = None\<rparr>, cpus = \<lambda>_. \<lparr>noff = 0, intena = False, sie = True\<rparr>\<rparr>"
  obtain t u where "acquire 1 3 ?s = Ok () t" "release 1 3 t = Ok () u" "sie (cpus u 1) = sie (cpus ?s 1)"
    using acquire_release_restores [of ?s 3 1] by auto
  then show ?thesis by auto
qed

end
