(* ===== verification/Vm_Frame.thy ===== *)
theory Vm_Frame
  imports Vm
begin

text \<open>
  What the memory code leaves alone: no operation of kernel/kalloc.c or kernel/vm.c sleeps or changes
  any part of the state outside physical memory and the free list.
\<close>

definition quiet :: "('z machine_scheme, 'a) result \<Rightarrow> 'z machine_scheme \<Rightarrow> bool" where
  "quiet r s \<longleftrightarrow>
     (case r of Ok x t \<Rightarrow> machine.more t = machine.more s \<and> kend t = kend s
      | Sleeps c t \<Rightarrow> False | Exits t \<Rightarrow> False | Panic e \<Rightarrow> True | Hang \<Rightarrow> True)"

named_theorems quiet_intros \<open>operations that only change memory\<close>

lemma quiet_simps [simp]:
  "quiet (Panic e) s" "quiet Hang s" "\<not> quiet (Sleeps c t) s" "\<not> quiet (Exits t) s"
  "quiet (Ok x t) s \<longleftrightarrow> machine.more t = machine.more s \<and> kend t = kend s"
  by (simp_all add: quiet_def)

lemma quiet_update [simp]:
  "quiet r (s\<lparr>pmem := m\<rparr>) = quiet r s" "quiet r (s\<lparr>freelist := f\<rparr>) = quiet r s"
  by (cases r; simp add: quiet_def)+

lemma quiet_then_do [quiet_intros]:
  assumes "quiet m s" and "\<And>x t. m = Ok x t \<Longrightarrow> quiet (f x t) t"
  shows "quiet (then_do m f) s"
proof (cases m)
  case (Ok x t)
  then show ?thesis using assms assms(2) [of x t] by (auto simp: quiet_def split: result.splits)
qed (use assms in auto)

lemma quiet_Let [quiet_intros]: "(\<And>x. x = a \<Longrightarrow> quiet (f x) s) \<Longrightarrow> quiet (Let a f) s"
  by (simp add: Let_def)

lemma quiet_if [quiet_intros]: "(b \<Longrightarrow> quiet x s) \<Longrightarrow> (\<not> b \<Longrightarrow> quiet y s) \<Longrightarrow> quiet (if b then x else y) s"
  by simp

lemma quiet_OkD: "quiet r s \<Longrightarrow> r = Ok x t \<Longrightarrow> machine.more t = machine.more s \<and> kend t = kend s"
  by simp

lemma quiet_kalloc [quiet_intros]: "quiet (kalloc s) s"
  by (simp add: kalloc_def Let_def)

lemma quiet_kfree [quiet_intros]: "quiet (kfree p s) s"
  by (simp add: kfree_def Let_def)

lemma quiet_walk_levels [quiet_intros]: "quiet (walk_levels l pt va alloc s) s"
proof (induction l arbitrary: pt s)
  case (Suc l)
  have "quiet (walk_levels l x va alloc (t\<lparr>pmem := m\<rparr>)) t" for x m and t :: "'a machine_scheme"
    using Suc [of x "t\<lparr>pmem := m\<rparr>"] by simp
  with Suc show ?case by (auto simp: Let_def intro!: quiet_intros)
qed simp

lemma quiet_walk [quiet_intros]: "quiet (walk pt va alloc s) s"
  by (auto simp: walk_def intro!: quiet_intros)

lemmas quiet_walk_upd [quiet_intros] = quiet_walk [where s = "s\<lparr>pmem := m\<rparr>", unfolded quiet_update] for s m

lemma quiet_walkaddr [quiet_intros]: "quiet (walkaddr pt va s) s"
  by (auto simp: walkaddr_def Let_def intro!: quiet_intros)

lemma quiet_mappages_loop [quiet_intros]: "quiet (mappages_loop pt a b pa perm s) s"
proof (induction pt a b pa perm s rule: mappages_loop.induct)
  case (1 pt a b pa perm s)
  then show ?case
    by (subst mappages_loop.simps) (auto simp: Let_def intro!: quiet_intros)
qed

lemma quiet_mappages [quiet_intros]: "quiet (mappages pt va n pa perm s) s"
  by (auto simp: mappages_def intro!: quiet_intros)

lemmas quiet_mappages_upd [quiet_intros] = quiet_mappages [where s = "s\<lparr>pmem := m\<rparr>", unfolded quiet_update] for s m

lemma quiet_kvmmap [quiet_intros]: "quiet (kvmmap pt va n pa perm s) s"
  by (auto simp: kvmmap_def intro!: quiet_intros)

lemma quiet_uvmunmap_loop [quiet_intros]: "quiet (uvmunmap_loop pt a b f s) s"
proof (induction pt a b f s rule: uvmunmap_loop.induct)
  case (1 pt a b f s)
  then show ?case
    by (subst uvmunmap_loop.simps) (auto simp: Let_def intro!: quiet_intros)
qed

lemma quiet_uvmunmap [quiet_intros]: "quiet (uvmunmap pt va n f s) s"
  by (auto simp: uvmunmap_def intro!: quiet_intros)

lemmas quiet_uvmunmap_upd [quiet_intros] = quiet_uvmunmap [where s = "s\<lparr>pmem := m\<rparr>", unfolded quiet_update] for s m

lemma quiet_uvmcreate [quiet_intros]: "quiet (uvmcreate s) s"
  by (auto simp: uvmcreate_def intro!: quiet_intros)

lemma quiet_uvmfirst [quiet_intros]: "quiet (uvmfirst pt src s) s"
  by (auto simp: uvmfirst_def Let_def intro!: quiet_intros)

lemma quiet_uvmdealloc [quiet_intros]: "quiet (uvmdealloc pt a b s) s"
  by (auto simp: uvmdealloc_def Let_def intro!: quiet_intros)

lemma quiet_uvmalloc_loop [quiet_intros]: "quiet (uvmalloc_loop pt o' a n x s) s"
proof (induction pt o' a n x s rule: uvmalloc_loop.induct)
  case (1 pt o' a n x s)
  then show ?case
    by (subst uvmalloc_loop.simps) (auto simp: Let_def intro!: quiet_intros)
qed

lemma quiet_uvmalloc [quiet_intros]: "quiet (uvmalloc pt a b x s) s"
  by (auto simp: uvmalloc_def Let_def intro!: quiet_intros)

lemma quiet_freewalk_entries:
  assumes "\<And>p s. quiet (f p s) s"
  shows "quiet (freewalk_entries f pt n s) s"
proof (induction n arbitrary: s)
  case (Suc n)
  have "quiet (freewalk_entries f pt n (t\<lparr>pmem := m\<rparr>)) t" for m and t :: "'a machine_scheme"
    using Suc [of "t\<lparr>pmem := m\<rparr>"] by simp
  with Suc show ?case by (auto simp: Let_def intro!: quiet_intros assms)
qed simp

lemma quiet_freewalk [quiet_intros]: "quiet (freewalk pt s) s"
proof -
  have "quiet (freewalk_depth d pt s) s" for d pt and s :: "'a machine_scheme"
    by (induction d arbitrary: pt s) (auto intro!: quiet_intros quiet_freewalk_entries)
  then show ?thesis by (simp add: freewalk_def)
qed

lemma quiet_uvmfree [quiet_intros]: "quiet (uvmfree pt n s) s"
  by (auto simp: uvmfree_def intro!: quiet_intros)

lemma quiet_uvmcopy_loop [quiet_intros]: "quiet (uvmcopy_loop old new i n s) s"
proof (induction old new i n s rule: uvmcopy_loop.induct)
  case (1 old new i n s)
  then show ?case
    by (subst uvmcopy_loop.simps) (auto simp: Let_def intro!: quiet_intros)
qed

lemma quiet_uvmcopy [quiet_intros]: "quiet (uvmcopy old new n s) s"
  by (auto simp: uvmcopy_def intro!: quiet_intros)

lemma quiet_uvmclear [quiet_intros]: "quiet (uvmclear pt va s) s"
  by (auto simp: uvmclear_def intro!: quiet_intros)

lemma quiet_copyout [quiet_intros]: "quiet (copyout pt va src s) s"
proof (induction "length src" arbitrary: va src s rule: less_induct)
  case less
  have IH: "quiet (copyout pt vb (drop (chunk_len va (length src)) src) (t\<lparr>pmem := m\<rparr>)) t" if "src \<noteq> []"
    for m vb and t :: "'a machine_scheme"
    using less [of "drop (chunk_len va (length src)) src" vb "t\<lparr>pmem := m\<rparr>"] that by (simp add: chunk_len_pos)
  show ?case
    by (subst copyout.simps, unfold Let_def)
      (intro quiet_if quiet_then_do quiet_walk, simp_all add: IH)
qed

lemma quiet_copyin [quiet_intros]: "quiet (copyin pt va n s) s"
proof (induction pt va n s rule: copyin.induct)
  case (1 pt va n s)
  then show ?case
    by (subst copyin.simps) (auto simp: Let_def intro!: quiet_intros)
qed

lemma quiet_copyinstr [quiet_intros]: "quiet (copyinstr pt va n s) s"
proof (induction pt va n s rule: copyinstr.induct)
  case (1 pt va n s)
  then show ?case
    by (subst copyinstr.simps) (auto simp: Let_def split: prod.splits intro!: quiet_intros)
qed

end
