(* ===== verification/Proc.thy ===== *)
theory Proc
  imports Vm_Frame
begin

text \<open>
  The process table, kernel/proc.c: allocation and freeing of slots, user page tables of processes,
  sleep and wakeup, wait, kill, and one pass of the scheduler. fork(), exit() and userinit() also use
  the file system and are in theory Procfs.

  Every operation runs with the locks it takes in the source held throughout, so it is one atomic
  step. \<open>myproc\<close> is \<^verbatim>\<open>mycpu()->proc\<close> of the hart that executes. Code that dereferences myproc() when
  it is null faults in the kernel, and kerneltrap() panics.
\<close>

section \<open>State\<close>

datatype procstate = UNUSED | USED | SLEEPING | RUNNABLE | RUNNING | ZOMBIE

record swtch_context =
  ctx_ra :: u64
  ctx_sp :: u64
  ctx_s :: "u64 list"    \<comment> \<open>s0 to s11\<close>

record proc =
  p_state :: procstate
  p_chan :: "chan option"
  p_killed :: bool
  p_xstate :: u32
  p_pid :: int
  p_parent :: "nat option"
  p_kstack :: u64
  p_sz :: u64
  p_pagetable :: u64
  p_trapframe :: u64
  p_context :: swtch_context
  p_ofile :: "nat \<Rightarrow> nat option"
  p_cwd :: "nat option"
  p_name :: "u8 list"

text \<open>\<open>trampoline\<close> and \<open>forkret_pc\<close> are the addresses of trampoline.S and of forkret().\<close>

record procs = machine +
  procs :: "nat \<Rightarrow> proc"
  nextpid :: int
  initproc :: "nat option"
  myproc :: "nat option"
  trampoline :: u64
  forkret_pc :: u64

definition NOFILE :: nat where "NOFILE = 16"

abbreviation upd_proc :: "nat \<Rightarrow> (proc \<Rightarrow> proc) \<Rightarrow> 'z procs_scheme \<Rightarrow> 'z procs_scheme" where
  "upd_proc p f s \<equiv> s\<lparr>procs := (procs s)(p := f (procs s p))\<rparr>"

definition with_proc :: "(nat \<Rightarrow> 'z procs_scheme \<Rightarrow> ('z procs_scheme, 'a) result) \<Rightarrow> 'z procs_scheme \<Rightarrow>
    ('z procs_scheme, 'a) result" where
  "with_proc f s = (case myproc s of None \<Rightarrow> Panic ''kerneltrap'' | Some p \<Rightarrow> f p s)"

definition procinit :: "'z procs_scheme \<Rightarrow> 'z procs_scheme" where
  "procinit s = s\<lparr>procs := (\<lambda>p. if p < NPROC then (procs s p)\<lparr>p_state := UNUSED, p_kstack := KSTACK p\<rparr> else procs s p)\<rparr>"

definition allocpid :: "'z procs_scheme \<Rightarrow> ('z procs_scheme, int) result" where
  "allocpid s = Ok (nextpid s) (s\<lparr>nextpid := nextpid s + 1\<rparr>)"

section \<open>Page tables of processes\<close>

definition proc_pagetable :: "nat \<Rightarrow> 'z procs_scheme \<Rightarrow> ('z procs_scheme, u64) result" where
  "proc_pagetable p s =
     then_do (uvmcreate s) (\<lambda>pagetable s.
       if pagetable = 0 then Ok 0 s
       else
         then_do (mappages pagetable TRAMPOLINE PGSIZE (trampoline s) (PTE_R OR PTE_X) s) (\<lambda>r s.
         if r < 0 then then_do (uvmfree pagetable 0 s) (\<lambda>_ s. Ok 0 s)
         else
           then_do (mappages pagetable TRAPFRAME PGSIZE (p_trapframe (procs s p)) (PTE_R OR PTE_W) s) (\<lambda>r s.
           if r < 0 then
             then_do (uvmunmap pagetable TRAMPOLINE 1 False s) (\<lambda>_ s.
             then_do (uvmfree pagetable 0 s) (\<lambda>_ s. Ok 0 s))
           else Ok pagetable s)))"

definition proc_freepagetable :: "u64 \<Rightarrow> u64 \<Rightarrow> 'z procs_scheme \<Rightarrow> ('z procs_scheme, unit) result" where
  "proc_freepagetable pagetable sz s =
     then_do (uvmunmap pagetable TRAMPOLINE 1 False s) (\<lambda>_ s.
     then_do (uvmunmap pagetable TRAPFRAME 1 False s) (\<lambda>_ s.
     uvmfree pagetable sz s))"

section \<open>Slots of the process table\<close>

definition freeproc :: "nat \<Rightarrow> 'z procs_scheme \<Rightarrow> ('z procs_scheme, unit) result" where
  "freeproc p s =
     then_do (if p_trapframe (procs s p) \<noteq> 0 then kfree (p_trapframe (procs s p)) s else Ok () s) (\<lambda>_ s.
     let s = upd_proc p (\<lambda>q. q\<lparr>p_trapframe := 0\<rparr>) s in
     then_do (if p_pagetable (procs s p) \<noteq> 0
              then proc_freepagetable (p_pagetable (procs s p)) (p_sz (procs s p)) s else Ok () s) (\<lambda>_ s.
     Ok () (upd_proc p (\<lambda>q. q\<lparr>p_pagetable := 0, p_sz := 0, p_pid := 0, p_parent := None,
        p_name := (p_name q)[0 := 0], p_chan := None, p_killed := False, p_xstate := 0, p_state := UNUSED\<rparr>) s)))"

definition find_unused :: "'z procs_scheme \<Rightarrow> nat option" where
  "find_unused s = List.find (\<lambda>p. p_state (procs s p) = UNUSED) [0..<NPROC]"

definition allocproc :: "'z procs_scheme \<Rightarrow> ('z procs_scheme, nat option) result" where
  "allocproc s =
     (case find_unused s of
        None \<Rightarrow> Ok None s
      | Some p \<Rightarrow>
          then_do (allocpid s) (\<lambda>pid s.
          let s = upd_proc p (\<lambda>q. q\<lparr>p_pid := pid, p_state := USED\<rparr>) s in
          then_do (kalloc s) (\<lambda>tf s.
          let s = upd_proc p (\<lambda>q. q\<lparr>p_trapframe := tf\<rparr>) s in
          if tf = 0 then then_do (freeproc p s) (\<lambda>_ s. Ok None s)
          else
            then_do (proc_pagetable p s) (\<lambda>pt s.
            let s = upd_proc p (\<lambda>q. q\<lparr>p_pagetable := pt\<rparr>) s in
            if pt = 0 then then_do (freeproc p s) (\<lambda>_ s. Ok None s)
            else
              Ok (Some p) (upd_proc p (\<lambda>q. q\<lparr>p_context :=
                \<lparr>ctx_ra = forkret_pc s, ctx_sp = p_kstack q + PGSIZE, ctx_s = replicate 12 0\<rparr>\<rparr>) s)))))"

definition growproc :: "int \<Rightarrow> 'z procs_scheme \<Rightarrow> ('z procs_scheme, int) result" where
  "growproc n = with_proc (\<lambda>p s.
     let sz = p_sz (procs s p); pt = p_pagetable (procs s p) in
     if n > 0 then
       then_do (uvmalloc pt sz (sz + of_int n) PTE_W s) (\<lambda>sz s.
         if sz = 0 then Ok (-1) s else Ok 0 (upd_proc p (\<lambda>q. q\<lparr>p_sz := sz\<rparr>) s))
     else if n < 0 then
       then_do (uvmdealloc pt sz (sz + of_int n) s) (\<lambda>sz s. Ok 0 (upd_proc p (\<lambda>q. q\<lparr>p_sz := sz\<rparr>) s))
     else Ok 0 (upd_proc p (\<lambda>q. q\<lparr>p_sz := sz\<rparr>) s))"

section \<open>Sleeping and waking\<close>

definition sleep :: "chan \<Rightarrow> 'z procs_scheme \<Rightarrow> ('z procs_scheme, 'a) result" where
  "sleep c = with_proc (\<lambda>p s. Sleeps c (upd_proc p (\<lambda>q. q\<lparr>p_chan := Some c, p_state := SLEEPING\<rparr>) s))"

text \<open>The part of sleep() after sched() returns.\<close>

definition sleep_return :: "nat \<Rightarrow> 'z procs_scheme \<Rightarrow> 'z procs_scheme" where
  "sleep_return p s = upd_proc p (\<lambda>q. q\<lparr>p_chan := None\<rparr>) s"

definition wakeup :: "chan \<Rightarrow> 'z procs_scheme \<Rightarrow> 'z procs_scheme" where
  "wakeup c s = s\<lparr>procs := (\<lambda>p.
     if p < NPROC \<and> myproc s \<noteq> Some p \<and> p_state (procs s p) = SLEEPING \<and> p_chan (procs s p) = Some c
     then (procs s p)\<lparr>p_state := RUNNABLE\<rparr> else procs s p)\<rparr>"

definition kill :: "int \<Rightarrow> 'z procs_scheme \<Rightarrow> ('z procs_scheme, int) result" where
  "kill pid s =
     (case List.find (\<lambda>p. p_pid (procs s p) = pid) [0..<NPROC] of
        None \<Rightarrow> Ok (-1) s
      | Some p \<Rightarrow> Ok 0 (upd_proc p (\<lambda>q. q\<lparr>p_killed := True,
          p_state := (if p_state q = SLEEPING then RUNNABLE else p_state q)\<rparr>) s))"

definition setkilled :: "nat \<Rightarrow> 'z procs_scheme \<Rightarrow> 'z procs_scheme" where
  "setkilled p s = upd_proc p (\<lambda>q. q\<lparr>p_killed := True\<rparr>) s"

definition killed :: "nat \<Rightarrow> 'z procs_scheme \<Rightarrow> bool" where
  "killed p s = p_killed (procs s p)"

section \<open>Parents and children\<close>

text \<open>reparent() compares and sets pointers; \<open>initproc\<close> may be the null pointer before userinit().\<close>

fun reparent_from :: "nat \<Rightarrow> nat list \<Rightarrow> 'z procs_scheme \<Rightarrow> 'z procs_scheme" where
  "reparent_from p [] s = s"
| "reparent_from p (pp # rest) s =
     (if p_parent (procs s pp) = Some p then
        let s = upd_proc pp (\<lambda>q. q\<lparr>p_parent := initproc s\<rparr>) s;
            s = (case initproc s of Some i \<Rightarrow> wakeup (ChanProc i) s | None \<Rightarrow> s)
        in reparent_from p rest s
      else reparent_from p rest s)"

definition reparent :: "nat \<Rightarrow> 'z procs_scheme \<Rightarrow> 'z procs_scheme" where
  "reparent p s = reparent_from p [0..<NPROC] s"

text \<open>One scan of wait(): the first ZOMBIE child, and whether there is any child.\<close>

definition wait_scan :: "nat \<Rightarrow> 'z procs_scheme \<Rightarrow> nat option \<times> bool" where
  "wait_scan p s =
     (List.find (\<lambda>pp. p_parent (procs s pp) = Some p \<and> p_state (procs s pp) = ZOMBIE) [0..<NPROC],
      List.list_ex (\<lambda>pp. p_parent (procs s pp) = Some p) [0..<NPROC])"

definition wait :: "u64 \<Rightarrow> 'z procs_scheme \<Rightarrow> ('z procs_scheme, int) result" where
  "wait addr = with_proc (\<lambda>p s.
     case wait_scan p s of
       (Some pp, _) \<Rightarrow>
         let pid = p_pid (procs s pp) in
         then_do (if addr \<noteq> 0 then copyout (p_pagetable (procs s p)) addr (le_bytes 4 (p_xstate (procs s pp))) s
                  else Ok 0 s) (\<lambda>r s.
           if addr \<noteq> 0 \<and> r < 0 then Ok (-1) s
           else then_do (freeproc pp s) (\<lambda>_ s. Ok pid s))
     | (None, havekids) \<Rightarrow>
         if \<not> havekids \<or> killed p s then Ok (-1) s else sleep (ChanProc p) s)"

section \<open>Scheduling\<close>

text \<open>
  One pass of the scheduler's inner loop. \<open>run p\<close> stands for what happens between the two swtch() calls:
  process \<open>p\<close> runs until it switches back. The second result lists the processes that were run.
\<close>

fun scheduler_pass :: "(nat \<Rightarrow> 'z procs_scheme \<Rightarrow> 'z procs_scheme) \<Rightarrow> nat list \<Rightarrow> 'z procs_scheme \<Rightarrow>
    'z procs_scheme \<times> nat list" where
  "scheduler_pass run [] s = (s, [])"
| "scheduler_pass run (p # rest) s =
     (if p_state (procs s p) = RUNNABLE then
        let s = upd_proc p (\<lambda>q. q\<lparr>p_state := RUNNING\<rparr>) s;
            s = run p (s\<lparr>myproc := Some p\<rparr>);
            (t, rs) = scheduler_pass run rest (s\<lparr>myproc := None\<rparr>)
        in (t, p # rs)
      else scheduler_pass run rest s)"

definition scheduler_round :: "(nat \<Rightarrow> 'z procs_scheme \<Rightarrow> 'z procs_scheme) \<Rightarrow> 'z procs_scheme \<Rightarrow>
    'z procs_scheme \<times> nat list" where
  "scheduler_round run s = scheduler_pass run [0..<NPROC] (s\<lparr>myproc := None\<rparr>)"

text \<open>The checks of sched(): whether p->lock is held, the nesting depth, p->state and intr_get().\<close>

definition sched_check :: "bool \<Rightarrow> int \<Rightarrow> procstate \<Rightarrow> bool \<Rightarrow> string option" where
  "sched_check holding_lock noff st intr =
     (if \<not> holding_lock then Some ''sched p->lock''
      else if noff \<noteq> 1 then Some ''sched locks''
      else if st = RUNNING then Some ''sched running''
      else if intr then Some ''sched interruptible''
      else None)"

definition yield :: "'z procs_scheme \<Rightarrow> ('z procs_scheme, unit) result" where
  "yield = with_proc (\<lambda>p s. Ok () (upd_proc p (\<lambda>q. q\<lparr>p_state := RUNNABLE\<rparr>) s))"

section \<open>Copying for user or kernel addresses\<close>

text \<open>A destination or source that may be a user address, or a kernel address.\<close>

definition either_copyout :: "bool \<Rightarrow> u64 \<Rightarrow> u8 list \<Rightarrow> 'z procs_scheme \<Rightarrow> ('z procs_scheme, int) result" where
  "either_copyout user_dst dst src s =
     (if user_dst then with_proc (\<lambda>p s. copyout (p_pagetable (procs s p)) dst src s) s
      else Ok 0 (s\<lparr>pmem := store_bytes (pmem s) dst src\<rparr>))"

definition either_copyin :: "bool \<Rightarrow> u64 \<Rightarrow> nat \<Rightarrow> 'z procs_scheme \<Rightarrow> ('z procs_scheme, int \<times> u8 list) result" where
  "either_copyin user_src src len s =
     (if user_src then with_proc (\<lambda>p s. copyin (p_pagetable (procs s p)) src len s) s
      else Ok (0, load_bytes (pmem s) src len) s)"

text \<open>The lines that procdump() prints.\<close>

definition state_name :: "procstate \<Rightarrow> string" where
  "state_name st = (case st of UNUSED \<Rightarrow> ''unused'' | USED \<Rightarrow> ''used'' | SLEEPING \<Rightarrow> ''sleep ''
     | RUNNABLE \<Rightarrow> ''runble'' | RUNNING \<Rightarrow> ''run   '' | ZOMBIE \<Rightarrow> ''zombie'')"

definition procdump :: "'z procs_scheme \<Rightarrow> (int \<times> string \<times> u8 list) list" where
  "procdump s =
     map (\<lambda>p. (p_pid (procs s p), state_name (p_state (procs s p)), p_name (procs s p)))
       (filter (\<lambda>p. p_state (procs s p) \<noteq> UNUSED) [0..<NPROC])"

end
