(* ===== verification/Proc_Props.thy ===== *)
theory Proc_Props
  imports Proc
begin

text \<open>
  Properties of the process table of kernel/proc.c: process identifiers, sleep and wakeup, wait and
  reparenting, and what one pass of the scheduler runs.
\<close>

section \<open>What the memory code keeps of the process table\<close>

lemma more_procs:
  fixes s t :: "'z procs_scheme"
  assumes "machine.more t = machine.more s"
  shows "procs t = procs s" "nextpid t = nextpid s" "initproc t = initproc s" "myproc t = myproc s"
    "trampoline t = trampoline s" "forkret_pc t = forkret_pc s" "procs.more t = procs.more s"
  using assms by (cases s; cases t; simp)+

lemmas quiet_procs = more_procs [OF quiet_OkD [THEN conjunct1]]

lemma more_upd_procs: "machine.more t = machine.more s \<Longrightarrow>
    machine.more (t\<lparr>procs := f (procs t)\<rparr>) = machine.more (s\<lparr>procs := f (procs s)\<rparr>)"
  for s t :: "'z procs_scheme"
  by (cases s; cases t) simp

lemma quiet_proc_freepagetable [quiet_intros]: "quiet (proc_freepagetable pt n s) s"
  by (auto simp: proc_freepagetable_def intro!: quiet_intros)

lemma quiet_proc_pagetable [quiet_intros]: "quiet (proc_pagetable p s) s"
  by (auto simp: proc_pagetable_def intro!: quiet_intros)

definition freed :: "proc \<Rightarrow> proc" where
  "freed q = q\<lparr>p_trapframe := 0, p_pagetable := 0, p_sz := 0, p_pid := 0, p_parent := None,
     p_name := (p_name q)[0 := 0], p_chan := None, p_killed := False, p_xstate := 0, p_state := UNUSED\<rparr>"

lemma freeproc_Ok:
  assumes "freeproc p s = Ok () t"
  shows "procs t = (procs s)(p := freed (procs s p))" "nextpid t = nextpid s" "initproc t = initproc s"
    "myproc t = myproc s" "procs.more t = procs.more s"
proof -
  from assms obtain x y u v where
    u: "(if p_trapframe (procs s p) \<noteq> 0 then kfree (p_trapframe (procs s p)) s else Ok () s) = Ok x u" and
    v: "(let u' = upd_proc p (\<lambda>q. q\<lparr>p_trapframe := 0\<rparr>) u in
          if p_pagetable (procs u' p) \<noteq> 0 then proc_freepagetable (p_pagetable (procs u' p)) (p_sz (procs u' p)) u'
          else Ok () u') = Ok y v" and
    t: "upd_proc p (\<lambda>q. q\<lparr>p_pagetable := 0, p_sz := 0, p_pid := 0, p_parent := None,
        p_name := (p_name q)[0 := 0], p_chan := None, p_killed := False, p_xstate := 0, p_state := UNUSED\<rparr>) v = t"
    unfolding freeproc_def Let_def then_do_Ok_iff result.inject by blast
  have "machine.more u = machine.more s"
    using u quiet_OkD [OF quiet_kfree] by (auto split: if_splits)
  note U = more_procs [OF this]
  have "machine.more v = machine.more (upd_proc p (\<lambda>q. q\<lparr>p_trapframe := 0\<rparr>) u)"
    using v quiet_OkD [OF quiet_proc_freepagetable] by (auto simp: Let_def split: if_splits)
  note V = more_procs [OF this]
  show "procs t = (procs s)(p := freed (procs s p))" "nextpid t = nextpid s" "initproc t = initproc s"
    "myproc t = myproc s" "procs.more t = procs.more s"
    using U V by (simp_all add: t [symmetric] freed_def)
qed

lemma find_unused_Some:
  "find_unused s = Some p \<Longrightarrow> p < NPROC \<and> p_state (procs s p) = UNUSED \<and> (\<forall>q<p. p_state (procs s q) \<noteq> UNUSED)"
proof -
  assume "find_unused s = Some p"
  then obtain i where i: "i < NPROC" "p_state (procs s ([0..<NPROC] ! i)) = UNUSED" "p = [0..<NPROC] ! i"
    "\<forall>j<i. p_state (procs s ([0..<NPROC] ! j)) \<noteq> UNUSED"
    unfolding find_unused_def find_Some_iff by auto
  then have "p = i" by simp
  with i show ?thesis by simp
qed

lemma find_unused_None: "find_unused s = None \<longleftrightarrow> (\<forall>p<NPROC. p_state (procs s p) \<noteq> UNUSED)"
  by (auto simp: find_unused_def find_None_iff)

section \<open>Process identifiers\<close>

definition pid_inv :: "'z procs_scheme \<Rightarrow> bool" where
  "pid_inv s \<longleftrightarrow> 1 \<le> nextpid s \<and>
     (\<forall>p<NPROC. p_state (procs s p) = UNUSED \<longleftrightarrow> p_pid (procs s p) = 0) \<and>
     (\<forall>p<NPROC. 0 \<le> p_pid (procs s p) \<and> p_pid (procs s p) < nextpid s) \<and>
     (\<forall>p<NPROC. \<forall>q<NPROC. p_pid (procs s p) = p_pid (procs s q) \<and> p_pid (procs s p) \<noteq> 0 \<longrightarrow> p = q)"

lemma freeproc_pid_inv: "pid_inv s \<Longrightarrow> freeproc p s = Ok () t \<Longrightarrow> pid_inv t"
  by (auto simp: pid_inv_def freeproc_Ok [of p s t] freed_def)


lemma allocproc_cases:
  assumes "allocproc s = Ok r t"
  shows "(r = None \<and> find_unused s = None \<and> t = s) \<or>
    (\<exists>p q. find_unused s = Some p \<and> r = None \<and> procs t = (procs s)(p := freed q) \<and> nextpid t = nextpid s + 1 \<and>
       initproc t = initproc s \<and> myproc t = myproc s) \<or>
    (\<exists>p q. find_unused s = Some p \<and> r = Some p \<and> procs t = (procs s)(p := q) \<and> nextpid t = nextpid s + 1 \<and>
       initproc t = initproc s \<and> myproc t = myproc s \<and>
       p_state q = USED \<and> p_pid q = nextpid s \<and> p_trapframe q \<noteq> 0 \<and> p_pagetable q \<noteq> 0 \<and>
       ctx_ra (p_context q) = forkret_pc s \<and> ctx_sp (p_context q) = p_kstack q + PGSIZE \<and>
       p_parent q = p_parent (procs s p) \<and> p_ofile q = p_ofile (procs s p) \<and> p_killed q = p_killed (procs s p))"
proof (cases "find_unused s")
  case None
  then show ?thesis using assms by (simp add: allocproc_def)
next
  case (Some p)
  define s1 where "s1 = upd_proc p (\<lambda>q. q\<lparr>p_pid := nextpid s, p_state := USED\<rparr>) (s\<lparr>nextpid := nextpid s + 1\<rparr>)"
  from assms Some obtain tf s2 where k: "kalloc s1 = Ok tf s2"
    by (auto simp: allocproc_def allocpid_def s1_def result_iff Let_def)
  have m2: "machine.more s2 = machine.more s1" using quiet_OkD [OF quiet_kalloc k] by simp
  note P2 = more_procs [OF m2]
  define s3 where "s3 = upd_proc p (\<lambda>q. q\<lparr>p_trapframe := tf\<rparr>) s2"
  show ?thesis
  proof (cases "tf = 0")
    case True
    then obtain u where "freeproc p s3 = Ok () u" "r = None" "t = u"
      using assms Some k by (auto simp: allocproc_def allocpid_def s1_def s3_def result_iff Let_def)
    then show ?thesis
      using Some P2 freeproc_Ok [of p s3 u] by (auto simp: s3_def s1_def)
  next
    case False
    then obtain pt s4 where pt: "proc_pagetable p s3 = Ok pt s4"
      using assms Some k by (auto simp: allocproc_def allocpid_def s1_def s3_def result_iff Let_def)
    have m4: "machine.more s4 = machine.more s3" using quiet_OkD [OF quiet_proc_pagetable pt] by simp
    note P4 = more_procs [OF m4]
    define s5 where "s5 = upd_proc p (\<lambda>q. q\<lparr>p_pagetable := pt\<rparr>) s4"
    show ?thesis
    proof (cases "pt = 0")
      case True
      then obtain u where "freeproc p s5 = Ok () u" "r = None" "t = u"
        using assms Some k pt False by (auto simp: allocproc_def allocpid_def s1_def s3_def s5_def result_iff Let_def)
      then show ?thesis
        using Some P2 P4 freeproc_Ok [of p s5 u] by (auto simp: s5_def s3_def s1_def)
    next
      case pt0: False
      then have "r = Some p" "t = upd_proc p (\<lambda>q. q\<lparr>p_context :=
          \<lparr>ctx_ra = forkret_pc s5, ctx_sp = p_kstack q + PGSIZE, ctx_s = replicate 12 0\<rparr>\<rparr>) s5"
        using assms Some k pt False by (auto simp: allocproc_def allocpid_def s1_def s3_def s5_def result_iff Let_def)
      then show ?thesis using Some P2 P4 False pt0 by (auto simp: s5_def s3_def s1_def)
    qed
  qed
qed


section \<open>Waiting and reparenting\<close>



lemma reparent_from_spec:
  assumes "distinct xs" and "set xs \<subseteq> {..<NPROC}"
  shows "p_parent (procs (reparent_from p xs s) q) =
      (if q \<in> set xs \<and> p_parent (procs s q) = Some p then initproc s else p_parent (procs s q)) \<and>
    initproc (reparent_from p xs s) = initproc s \<and> myproc (reparent_from p xs s) = myproc s"
  using assms
proof (induction xs arbitrary: s)
  case (Cons x xs)
  let ?s = "upd_proc x (\<lambda>q. q\<lparr>p_parent := initproc s\<rparr>) s"
  let ?t = "case initproc s of Some i \<Rightarrow> wakeup (ChanProc i) ?s | None \<Rightarrow> ?s"
  have w: "p_parent (procs ?t r) = p_parent (procs ?s r)" "initproc ?t = initproc s" "myproc ?t = myproc s" for r
    by (auto simp: wakeup_def split: option.splits)
  show ?case
    using Cons.IH [of s] Cons.IH [of ?t] Cons.prems w by (auto simp: Let_def)
qed simp

lemma wakeup_state:
  "p_state (procs (wakeup c s) q) = (if q < NPROC \<and> myproc s \<noteq> Some q \<and> p_state (procs s q) = SLEEPING \<and>
     p_chan (procs s q) = Some c then RUNNABLE else p_state (procs s q))"
  "p_chan (procs (wakeup c s) q) = p_chan (procs s q)" "p_parent (procs (wakeup c s) q) = p_parent (procs s q)"
  "p_pid (procs (wakeup c s) q) = p_pid (procs s q)"
  "myproc (wakeup c s) = myproc s" "initproc (wakeup c s) = initproc s"
  by (simp_all add: wakeup_def)

lemma reparent_from_states:
  "p_chan (procs (reparent_from p xs s) q) = p_chan (procs s q) \<and>
   (p_state (procs (reparent_from p xs s) q) = p_state (procs s q) \<or>
    p_state (procs s q) = SLEEPING \<and> p_state (procs (reparent_from p xs s) q) = RUNNABLE)"
proof (induction xs arbitrary: s)
  case (Cons x xs)
  let ?s = "upd_proc x (\<lambda>q. q\<lparr>p_parent := initproc s\<rparr>) s"
  let ?t = "case initproc s of Some i \<Rightarrow> wakeup (ChanProc i) ?s | None \<Rightarrow> ?s"
  have w: "p_chan (procs ?t q) = p_chan (procs s q)"
    "p_state (procs ?t q) = p_state (procs s q) \<or> p_state (procs s q) = SLEEPING \<and> p_state (procs ?t q) = RUNNABLE"
    by (auto simp: wakeup_state split: option.splits)
  show ?case using Cons [of s] Cons [of ?t] w by (auto simp: Let_def)
qed simp

lemma reparent_from_wakes_init:
  assumes "\<exists>x\<in>set xs. p_parent (procs s x) = Some p" and "initproc s = Some i" and "i < NPROC"
    and "myproc s \<noteq> Some i" and "p \<noteq> i"
  shows "p_state (procs (reparent_from p xs s) i) = SLEEPING \<longrightarrow> p_chan (procs s i) \<noteq> Some (ChanProc i)"
  using assms
proof (induction xs arbitrary: s)
  case (Cons x xs)
  show ?case
  proof (cases "p_parent (procs s x) = Some p")
    case True
    let ?t = "wakeup (ChanProc i) (upd_proc x (\<lambda>q. q\<lparr>p_parent := initproc s\<rparr>) s)"
    have "p_state (procs ?t i) = SLEEPING \<longrightarrow> p_chan (procs s i) \<noteq> Some (ChanProc i)"
      using Cons.prems by (auto simp: wakeup_state)
    moreover have "p_state (procs (reparent_from p xs ?t) i) = SLEEPING \<longrightarrow> p_state (procs ?t i) = SLEEPING"
      using reparent_from_states [of p xs ?t i] by auto
    ultimately show ?thesis using True Cons.prems(2) by (simp add: Let_def)
  next
    case False
    then show ?thesis using Cons by simp
  qed
qed simp

section \<open>The scheduler\<close>

lemma scheduler_pass_runs:
  assumes "\<And>p q s. p \<noteq> q \<Longrightarrow> p_state (procs s q) = RUNNABLE \<Longrightarrow> p_state (procs (run p s) q) = RUNNABLE"
    and "distinct xs"
  shows "{p \<in> set xs. p_state (procs s p) = RUNNABLE} \<subseteq> set (snd (scheduler_pass run xs s)) \<and>
    set (snd (scheduler_pass run xs s)) \<subseteq> set xs \<and> distinct (snd (scheduler_pass run xs s))"
  using assms(2)
proof (induction xs arbitrary: s)
  case (Cons x xs)
  show ?case
  proof (cases "p_state (procs s x) = RUNNABLE")
    case True
    let ?t = "(run x (upd_proc x (\<lambda>q. q\<lparr>p_state := RUNNING\<rparr>) s\<lparr>myproc := Some x\<rparr>))\<lparr>myproc := None\<rparr>"
    have keep: "p_state (procs ?t q) = RUNNABLE" if "q \<noteq> x" "p_state (procs s q) = RUNNABLE" for q
      using assms(1) [of x q "upd_proc x (\<lambda>q. q\<lparr>p_state := RUNNING\<rparr>) s\<lparr>myproc := Some x\<rparr>"] that by simp
    have sub: "{p \<in> set xs. p_state (procs ?t p) = RUNNABLE} \<subseteq> set (snd (scheduler_pass run xs ?t))"
      "set (snd (scheduler_pass run xs ?t)) \<subseteq> set xs" "distinct (snd (scheduler_pass run xs ?t))"
      using Cons.IH [of ?t] Cons.prems by auto
    have "snd (scheduler_pass run (x # xs) s) = x # snd (scheduler_pass run xs ?t)"
      using True by (simp add: Let_def split_def)
    then show ?thesis using sub keep Cons.prems by auto
  next
    case False
    then show ?thesis using Cons by auto
  qed
qed simp


section \<open>A small process table\<close>

text \<open>All slots unused, no free memory; used as a concrete starting point below.\<close>

definition blank_proc :: proc where
  "blank_proc = \<lparr>p_state = UNUSED, p_chan = None, p_killed = False, p_xstate = 0, p_pid = 0, p_parent = None,
     p_kstack = 0, p_sz = 0, p_pagetable = 0, p_trapframe = 0,
     p_context = \<lparr>ctx_ra = 0, ctx_sp = 0, ctx_s = replicate 12 0\<rparr>, p_ofile = (\<lambda>_. None), p_cwd = None,
     p_name = replicate 16 0\<rparr>"

definition blank_procs :: procs where
  "blank_procs = \<lparr>pmem = (\<lambda>_. 0), freelist = 0, kend = 0x80001000, procs = (\<lambda>_. blank_proc), nextpid = 1,
     initproc = None, myproc = None, trampoline = 0, forkret_pc = 0\<rparr>"

lemma find_unused_blank: "find_unused (blank_procs\<lparr>procs := f\<rparr>) = Some 0" if "p_state (f 0) = UNUSED"
  using that by (simp add: find_unused_def NPROC_def upt_conv_Cons)

section \<open>Properties\<close>





text \<open>reparent(p) gives every child of \<open>p\<close> to the init process and changes no other parent link; if
  there was a child, init is not left sleeping in wait().\<close>

theorem reparent_to_init:
  assumes "initproc s = Some i" and "i < NPROC" and "p \<noteq> i" and "myproc s \<noteq> Some i"
  shows "(\<forall>q<NPROC. p_parent (procs (reparent p s) q) =
       (if p_parent (procs s q) = Some p then Some i else p_parent (procs s q))) \<and>
    ((\<exists>q<NPROC. p_parent (procs s q) = Some p) \<longrightarrow>
       \<not> (p_state (procs (reparent p s) i) = SLEEPING \<and> p_chan (procs (reparent p s) i) = Some (ChanProc i)))"
proof -
  have sub: "set [0..<NPROC] \<subseteq> {..<NPROC}" by auto
  have "\<forall>q<NPROC. p_parent (procs (reparent p s) q) =
       (if p_parent (procs s q) = Some p then Some i else p_parent (procs s q))"
    using reparent_from_spec [OF distinct_upt sub, of p s] assms(1) by (simp add: reparent_def)
  moreover have "p_state (procs (reparent p s) i) = SLEEPING \<longrightarrow> p_chan (procs s i) \<noteq> Some (ChanProc i)"
    if "\<exists>q<NPROC. p_parent (procs s q) = Some p"
  proof -
    have "\<exists>x\<in>set [0..<NPROC]. p_parent (procs s x) = Some p" using that by auto
    from reparent_from_wakes_init [OF this assms(1,2,4,3)] show ?thesis by (simp add: reparent_def)
  qed
  moreover have "p_chan (procs (reparent p s) i) = p_chan (procs s i)"
    using reparent_from_states [of p "[0..<NPROC]" s i] by (simp add: reparent_def)
  ultimately show ?thesis by auto
qed

theorem reparent_to_init_witness:
  "p_parent (procs (reparent 5 (blank_procs\<lparr>procs := (\<lambda>_. blank_proc\<lparr>p_parent := Some 5\<rparr>), initproc := Some 1, myproc := Some 5\<rparr>)) 9) = Some 1"
  using reparent_to_init [of "blank_procs\<lparr>procs := (\<lambda>_. blank_proc\<lparr>p_parent := Some 5\<rparr>), initproc := Some 1, myproc := Some 5\<rparr>" 1 5,
      THEN conjunct1, THEN spec, of 9]
  by (simp add: NPROC_def)

text \<open>C27: One pass of the scheduler is fair: if running a process does not stop other processes from
  being RUNNABLE, every process that is RUNNABLE when the pass starts is run in that pass, and no
  process is run twice.\<close>

theorem scheduler_round_fair:
  assumes "\<And>p q s. p \<noteq> q \<Longrightarrow> p_state (procs s q) = RUNNABLE \<Longrightarrow> p_state (procs (run p s) q) = RUNNABLE"
  shows "(\<forall>p<NPROC. p_state (procs s p) = RUNNABLE \<longrightarrow> p \<in> set (snd (scheduler_round run s))) \<and>
    distinct (snd (scheduler_round run s))"
  using scheduler_pass_runs [where run = run and xs = "[0..<NPROC]" and s = "s\<lparr>myproc := None\<rparr>"] assms
  by (auto simp: scheduler_round_def)

theorem scheduler_round_fair_witness:
  "7 \<in> set (snd (scheduler_round (\<lambda>p. upd_proc p (\<lambda>q. q\<lparr>p_state := RUNNABLE\<rparr>))
      (blank_procs\<lparr>procs := (\<lambda>_. blank_proc\<lparr>p_state := RUNNABLE\<rparr>)\<rparr>)))"
  by (rule scheduler_round_fair [THEN conjunct1, THEN spec, THEN mp, THEN mp]) (simp_all add: NPROC_def)

text \<open>kill() with the pid of a live process marks exactly that process and makes it RUNNABLE if it
  was sleeping; with a positive pid that no process has, it returns -1 and changes nothing.\<close>

theorem kill_marks_one:
  assumes "pid_inv s" and "0 < pid"
  shows "(\<forall>p<NPROC. p_pid (procs s p) = pid \<longrightarrow> kill pid s = Ok 0 (upd_proc p (\<lambda>q. q\<lparr>p_killed := True,
          p_state := (if p_state q = SLEEPING then RUNNABLE else p_state q)\<rparr>) s)) \<and>
    ((\<forall>p<NPROC. p_pid (procs s p) \<noteq> pid) \<longrightarrow> kill pid s = Ok (-1) s)"
proof (intro conjI allI impI)
  fix p assume p: "p < NPROC" "p_pid (procs s p) = pid"
  have "p_pid (procs s j) \<noteq> pid" if "j < p" for j
    using assms p that unfolding pid_inv_def by (metis less_irrefl less_trans)
  then have "List.find (\<lambda>p. p_pid (procs s p) = pid) [0..<NPROC] = Some p"
    unfolding find_Some_iff using p by (intro exI [of _ p]) auto
  then show "kill pid s = Ok 0 (upd_proc p (\<lambda>q. q\<lparr>p_killed := True,
          p_state := (if p_state q = SLEEPING then RUNNABLE else p_state q)\<rparr>) s)"
    by (simp add: kill_def)
next
  assume "\<forall>p<NPROC. p_pid (procs s p) \<noteq> pid"
  then have "List.find (\<lambda>p. p_pid (procs s p) = pid) [0..<NPROC] = None" by (simp add: find_None_iff)
  then show "kill pid s = Ok (-1) s" by (simp add: kill_def)
qed

theorem kill_marks_one_witness: "kill 12 blank_procs = Ok (-1) blank_procs"
  by (rule kill_marks_one [THEN conjunct2, THEN mp]) (simp_all add: pid_inv_def blank_procs_def blank_proc_def)

text \<open>C34: kill(0) is not rejected. Unused slots have pid 0, so kill(0) succeeds, marks the first unused
  slot as killed, and, since allocproc() does not clear the mark, the next process allocated is born
  killed.\<close>

theorem kill_zero_marks_next_process:
  assumes "pid_inv s" and "find_unused s = Some p"
  shows "\<exists>t. kill 0 s = Ok 0 t \<and> (\<forall>q u. allocproc t = Ok (Some q) u \<longrightarrow> q = p \<and> p_killed (procs u q))"
proof -
  note F = find_unused_Some [OF assms(2)]
  have pid: "p_pid (procs s q) = 0 \<longleftrightarrow> p_state (procs s q) = UNUSED" if "q < NPROC" for q
    using assms(1) that by (simp add: pid_inv_def)
  have "List.find (\<lambda>p. p_pid (procs s p) = 0) [0..<NPROC] = Some p"
    unfolding find_Some_iff using F pid by (intro exI [of _ p]) auto
  then have k: "kill 0 s = Ok 0 (upd_proc p (\<lambda>q. q\<lparr>p_killed := True, p_state := UNUSED\<rparr>) s)" (is "_ = Ok 0 ?t")
    using F by (simp add: kill_def)
  have fu: "find_unused ?t = Some p"
    unfolding find_unused_def find_Some_iff using F by (intro exI [of _ p]) auto
  have "q = p \<and> p_killed (procs u q)" if "allocproc ?t = Ok (Some q) u" for q u
    using allocproc_cases [OF that] fu by auto
  then show ?thesis using k by blast
qed

theorem kill_zero_marks_next_process_witness: "\<exists>t. kill 0 blank_procs = Ok 0 t"
proof -
  have "pid_inv blank_procs" by (simp add: pid_inv_def blank_procs_def blank_proc_def)
  moreover have "find_unused blank_procs = Some 0"
    using find_unused_blank [of "procs blank_procs"] by (simp add: blank_procs_def blank_proc_def)
  ultimately show ?thesis using kill_zero_marks_next_process by blast
qed

end
