(* ===== verification/Sleeplock.thy ===== *)
theory Sleeplock
  imports Proc_Props
begin

text \<open>
  Sleep locks, kernel/sleeplock.c. A sleep lock is embedded in a buffer or an inode; the operations
  take the functions that read and update the lock inside the state, and the channel (the address of
  the lock) that waiters sleep on. The locale \<open>sleeplock_field\<close> states what such a pair of functions
  must satisfy; buffers and inodes interpret it.
\<close>

record sleeplock =
  sl_locked :: bool
  sl_pid :: int

definition unlocked :: sleeplock where
  "unlocked = \<lparr>sl_locked = False, sl_pid = 0\<rparr>"

text \<open>
  When the lock is held, acquiresleep() goes to sleep; it is called again from the top of its loop
  after a wakeup.
\<close>

definition acquiresleep :: "chan \<Rightarrow> ('z procs_scheme \<Rightarrow> sleeplock) \<Rightarrow>
    ((sleeplock \<Rightarrow> sleeplock) \<Rightarrow> 'z procs_scheme \<Rightarrow> 'z procs_scheme) \<Rightarrow>
    'z procs_scheme \<Rightarrow> ('z procs_scheme, unit) result" where
  "acquiresleep c lk_of upd_lk s =
     (if sl_locked (lk_of s) then sleep c s
      else with_proc (\<lambda>p s. Ok () (upd_lk (\<lambda>k. \<lparr>sl_locked = True, sl_pid = p_pid (procs s p)\<rparr>) s)) s)"

definition releasesleep :: "chan \<Rightarrow>
    ((sleeplock \<Rightarrow> sleeplock) \<Rightarrow> 'z procs_scheme \<Rightarrow> 'z procs_scheme) \<Rightarrow>
    'z procs_scheme \<Rightarrow> ('z procs_scheme, unit) result" where
  "releasesleep c upd_lk s = Ok () (wakeup c (upd_lk (\<lambda>k. unlocked) s))"

definition holdingsleep :: "('z procs_scheme \<Rightarrow> sleeplock) \<Rightarrow> 'z procs_scheme \<Rightarrow> ('z procs_scheme, bool) result" where
  "holdingsleep lk_of s =
     (if sl_locked (lk_of s)
      then with_proc (\<lambda>p s. Ok (sl_pid (lk_of s) = p_pid (procs s p)) s) s
      else Ok False s)"

text \<open>The contract of a lock field, and what acquiring and releasing it achieves.\<close>

locale sleeplock_field =
  fixes lk_of :: "'z procs_scheme \<Rightarrow> sleeplock"
    and upd_lk :: "(sleeplock \<Rightarrow> sleeplock) \<Rightarrow> 'z procs_scheme \<Rightarrow> 'z procs_scheme"
    and lk_chan :: chan
  assumes lk_upd: "lk_of (upd_lk f s) = f (lk_of s)"
    and upd_procs: "procs (upd_lk f s) = procs s" "myproc (upd_lk f s) = myproc s"
    and lk_wakeup: "lk_of (wakeup c s) = lk_of s"
begin

lemma acquire_free:
  assumes "myproc s = Some p" and "\<not> sl_locked (lk_of s)"
  obtains t where "acquiresleep lk_chan lk_of upd_lk s = Ok () t" "holdingsleep lk_of t = Ok True t"
  using assms by (auto simp: acquiresleep_def holdingsleep_def with_proc_def lk_upd upd_procs)

lemma acquire_held_sleeps:
  assumes "myproc s = Some p" and "sl_locked (lk_of s)"
  shows "acquiresleep lk_chan lk_of upd_lk s =
    Sleeps lk_chan (upd_proc p (\<lambda>q. q\<lparr>p_chan := Some lk_chan, p_state := SLEEPING\<rparr>) s)"
  using assms by (simp add: acquiresleep_def sleep_def with_proc_def)

text \<open>Releasing the lock makes every waiter runnable and the lock free.\<close>

lemma release_wakes:
  assumes "w < NPROC" and "myproc s \<noteq> Some w" and "p_state (procs s w) = SLEEPING"
    and "p_chan (procs s w) = Some lk_chan"
  obtains t where "releasesleep lk_chan upd_lk s = Ok () t" "\<not> sl_locked (lk_of t)"
    "p_state (procs t w) = RUNNABLE"
  using assms
  by (auto simp: releasesleep_def lk_wakeup lk_upd unlocked_def upd_procs wakeup_state)

lemma holding_iff:
  assumes "myproc s = Some p"
  shows "holdingsleep lk_of s = Ok (sl_locked (lk_of s) \<and> sl_pid (lk_of s) = p_pid (procs s p)) s"
  using assms by (simp add: holdingsleep_def with_proc_def)

end

end
