(* ===== verification/Bio.thy ===== *)
theory Bio
  imports Sleeplock
begin

text \<open>
  The buffer cache, kernel/bio.c: a ring of NBUF buffers linked by prev and next, in order of use, with
  a head that is no buffer. Buffer \<open>i < NBUF\<close> is \<open>bcache.buf[i]\<close> and \<open>BHEAD\<close> is \<open>bcache.head\<close>.

  \<open>disk\<close> is the contents of the disk by block number, and \<open>dtrace\<close> is a ghost: the sequence of block
  writes that have reached the disk. \<open>disk_rw\<close> is the effect of a completed virtio_disk_rw() (theory
  Virtio models the driver). The device number does not take part in the transfer.
\<close>

section \<open>State\<close>

record buf =
  b_valid :: bool
  b_dev :: u32
  b_blockno :: u32
  b_lock :: sleeplock
  b_refcnt :: u32
  b_prev :: nat
  b_next :: nat
  b_data :: "u8 list"

record bio = procs +
  bufs :: "nat \<Rightarrow> buf"
  disk :: "u32 \<Rightarrow> u8 list"
  dtrace :: "(u32 \<times> u8 list) list"

definition NBUF :: nat where "NBUF = 30"
definition BHEAD :: nat where "BHEAD = NBUF"
definition BSIZE :: nat where "BSIZE = 1024"

abbreviation upd_buf :: "nat \<Rightarrow> (buf \<Rightarrow> buf) \<Rightarrow> 'z bio_scheme \<Rightarrow> 'z bio_scheme" where
  "upd_buf b f s \<equiv> s\<lparr>bufs := (bufs s)(b := f (bufs s b))\<rparr>"

abbreviation buf_lock :: "nat \<Rightarrow> 'z bio_scheme \<Rightarrow> sleeplock" where
  "buf_lock b s \<equiv> b_lock (bufs s b)"

abbreviation upd_buf_lock :: "nat \<Rightarrow> (sleeplock \<Rightarrow> sleeplock) \<Rightarrow> 'z bio_scheme \<Rightarrow> 'z bio_scheme" where
  "upd_buf_lock b f s \<equiv> upd_buf b (\<lambda>k. k\<lparr>b_lock := f (b_lock k)\<rparr>) s"

section \<open>Operations\<close>

text \<open>Updates of one buffer of the table.\<close>

abbreviation set_next :: "nat \<Rightarrow> nat \<Rightarrow> (nat \<Rightarrow> buf) \<Rightarrow> nat \<Rightarrow> buf" where
  "set_next b v f \<equiv> f(b := (f b)\<lparr>b_next := v\<rparr>)"

abbreviation set_prev :: "nat \<Rightarrow> nat \<Rightarrow> (nat \<Rightarrow> buf) \<Rightarrow> nat \<Rightarrow> buf" where
  "set_prev b v f \<equiv> f(b := (f b)\<lparr>b_prev := v\<rparr>)"

definition binit_link :: "nat \<Rightarrow> (nat \<Rightarrow> buf) \<Rightarrow> nat \<Rightarrow> buf" where
  "binit_link b f =
     (let f = set_next b (b_next (f BHEAD)) f;
          f = set_prev b BHEAD f;
          f = f(b := (f b)\<lparr>b_lock := unlocked\<rparr>);
          f = set_prev (b_next (f BHEAD)) b f
      in set_next BHEAD b f)"

fun binit_loop :: "nat list \<Rightarrow> (nat \<Rightarrow> buf) \<Rightarrow> nat \<Rightarrow> buf" where
  "binit_loop [] f = f"
| "binit_loop (b # rest) f = binit_loop rest (binit_link b f)"

definition binit :: "'z bio_scheme \<Rightarrow> 'z bio_scheme" where
  "binit s = s\<lparr>bufs := binit_loop [0..<NBUF] (set_next BHEAD BHEAD (set_prev BHEAD BHEAD (bufs s)))\<rparr>"

text \<open>
  A walk around the ring from \<open>b\<close>: the first buffer with \<open>P\<close>, or none when the head is reached. The
  first argument bounds the number of steps; \<open>None\<close> means that the walk did not end within it.
\<close>

fun ring_find :: "nat \<Rightarrow> (nat \<Rightarrow> nat) \<Rightarrow> (nat \<Rightarrow> bool) \<Rightarrow> nat \<Rightarrow> nat option option" where
  "ring_find 0 step P b = None"
| "ring_find (Suc k) step P b =
     (if b = BHEAD then Some None else if P b then Some (Some b) else ring_find k step P (step b))"

definition bget_find :: "u32 \<Rightarrow> u32 \<Rightarrow> 'z bio_scheme \<Rightarrow> ('z bio_scheme, nat) result" where
  "bget_find dev blockno s =
     (case ring_find (Suc NBUF) (\<lambda>b. b_next (bufs s b))
             (\<lambda>b. b_dev (bufs s b) = dev \<and> b_blockno (bufs s b) = blockno) (b_next (bufs s BHEAD)) of
        None \<Rightarrow> Hang
      | Some (Some b) \<Rightarrow> Ok b (upd_buf b (\<lambda>k. k\<lparr>b_refcnt := b_refcnt k + 1\<rparr>) s)
      | Some None \<Rightarrow>
          (case ring_find (Suc NBUF) (\<lambda>b. b_prev (bufs s b)) (\<lambda>b. b_refcnt (bufs s b) = 0) (b_prev (bufs s BHEAD)) of
             None \<Rightarrow> Hang
           | Some None \<Rightarrow> Panic ''bget: no buffers''
           | Some (Some b) \<Rightarrow>
               Ok b (upd_buf b (\<lambda>k. k\<lparr>b_dev := dev, b_blockno := blockno, b_valid := False, b_refcnt := 1\<rparr>) s)))"

definition bget :: "u32 \<Rightarrow> u32 \<Rightarrow> 'z bio_scheme \<Rightarrow> ('z bio_scheme, nat) result" where
  "bget dev blockno s =
     then_do (bget_find dev blockno s) (\<lambda>b s.
     then_do (acquiresleep (ChanBufLock b) (buf_lock b) (upd_buf_lock b) s) (\<lambda>_ s. Ok b s))"

definition disk_rw :: "nat \<Rightarrow> bool \<Rightarrow> 'z bio_scheme \<Rightarrow> 'z bio_scheme" where
  "disk_rw b to_disk s =
     (let k = bufs s b in
      if to_disk then s\<lparr>disk := (disk s)(b_blockno k := b_data k), dtrace := dtrace s @ [(b_blockno k, b_data k)]\<rparr>
      else upd_buf b (\<lambda>k. k\<lparr>b_data := disk s (b_blockno k)\<rparr>) s)"

definition bread :: "u32 \<Rightarrow> u32 \<Rightarrow> 'z bio_scheme \<Rightarrow> ('z bio_scheme, nat) result" where
  "bread dev blockno s =
     then_do (bget dev blockno s) (\<lambda>b s.
       if \<not> b_valid (bufs s b) then Ok b (upd_buf b (\<lambda>k. k\<lparr>b_valid := True\<rparr>) (disk_rw b False s))
       else Ok b s)"

definition bwrite :: "nat \<Rightarrow> 'z bio_scheme \<Rightarrow> ('z bio_scheme, unit) result" where
  "bwrite b s =
     then_do (holdingsleep (buf_lock b) s) (\<lambda>h s.
       if \<not> h then Panic ''bwrite'' else Ok () (disk_rw b True s))"

text \<open>Taking a buffer out of the ring and putting it at the front.\<close>

definition move_front :: "nat \<Rightarrow> (nat \<Rightarrow> buf) \<Rightarrow> nat \<Rightarrow> buf" where
  "move_front b f =
     (let f = set_prev (b_next (f b)) (b_prev (f b)) f;
          f = set_next (b_prev (f b)) (b_next (f b)) f;
          f = set_next b (b_next (f BHEAD)) f;
          f = set_prev b BHEAD f;
          f = set_prev (b_next (f BHEAD)) b f
      in set_next BHEAD b f)"

definition brelse :: "nat \<Rightarrow> 'z bio_scheme \<Rightarrow> ('z bio_scheme, unit) result" where
  "brelse b s =
     then_do (holdingsleep (buf_lock b) s) (\<lambda>h s.
       if \<not> h then Panic ''brelse''
       else
         then_do (releasesleep (ChanBufLock b) (upd_buf_lock b) s) (\<lambda>_ s.
         let s = upd_buf b (\<lambda>k. k\<lparr>b_refcnt := b_refcnt k - 1\<rparr>) s in
         if b_refcnt (bufs s b) = 0 then Ok () (s\<lparr>bufs := move_front b (bufs s)\<rparr>) else Ok () s))"

definition bpin :: "nat \<Rightarrow> 'z bio_scheme \<Rightarrow> 'z bio_scheme" where
  "bpin b s = upd_buf b (\<lambda>k. k\<lparr>b_refcnt := b_refcnt k + 1\<rparr>) s"

definition bunpin :: "nat \<Rightarrow> 'z bio_scheme \<Rightarrow> 'z bio_scheme" where
  "bunpin b s = upd_buf b (\<lambda>k. k\<lparr>b_refcnt := b_refcnt k - 1\<rparr>) s"

interpretation buf_sleeplock: sleeplock_field "buf_lock b" "upd_buf_lock b" "ChanBufLock b" for b
  by unfold_locales (simp_all add: wakeup_def)

end
