(* ===== verification/Bio_Cache.thy ===== *)
theory Bio_Cache
  imports Bio
begin

text \<open>
  Correctness of the buffer cache. \<open>ring (bufs s) xs\<close>: the buffers are linked in the order \<open>xs\<close>, both ways
  round; \<open>cache_ok H s\<close>: the invariant of the cache while the calling process holds exactly the buffers
  \<open>H\<close>; \<open>view s dev n\<close>: the contents of block \<open>n\<close> as the kernel sees it, that is, the cached copy if there
  is one and the disk block otherwise. The locale \<open>block_cache\<close> is the contract that the file system
  relies on.
\<close>

section \<open>The ring\<close>

lemma ring_find_path:
  "path step b xs BHEAD \<Longrightarrow> BHEAD \<notin> set xs \<Longrightarrow> length xs < k \<Longrightarrow> ring_find k step P b = Some (List.find P xs)"
proof (induction xs arbitrary: b k)
  case Nil
  then show ?case by (cases k) auto
next
  case (Cons x xs)
  then obtain k' where "k = Suc k'" by (cases k) auto
  then show ?case using Cons by auto
qed

lemma path_remove:
  assumes "path f (f h) (xs @ b # ys) h" and "distinct (h # xs @ b # ys)"
    and "u = (if xs = [] then h else last xs)"
  shows "path (f(u := f b)) ((f(u := f b)) h) (xs @ ys) h"
proof (cases xs rule: rev_cases)
  case Nil
  have "path f (f b) ys h" using assms(1) Nil by simp
  then show ?thesis using assms(2,3) Nil by simp
next
  case (snoc zs z)
  have u: "u = z" using assms(3) snoc by simp
  have "path f (f h) zs z" "path f (f b) ys h" using assms(1) snoc by auto
  then show ?thesis using assms(2) snoc unfolding u by simp
qed

lemma path_push_front:
  "path f (f h) xs h \<Longrightarrow> b \<notin> set xs \<Longrightarrow> h \<notin> set xs \<Longrightarrow> b \<noteq> h \<Longrightarrow>
     path (f(b := f h, h := b)) ((f(b := f h, h := b)) h) (b # xs) h"
  by simp

lemma path_push_back:
  assumes "path f (f h) xs h" and "distinct (h # b # xs)" and "w = (if xs = [] then h else last xs)"
  shows "path (f(b := h, w := b)) ((f(b := h, w := b)) h) (xs @ [b]) h"
proof (cases xs rule: rev_cases)
  case Nil
  then show ?thesis using assms by auto
next
  case (snoc zs z)
  then have "w = z" using assms(3) by simp
  then show ?thesis using assms(1,2) snoc by auto
qed

definition nexts :: "(nat \<Rightarrow> buf) \<Rightarrow> nat \<Rightarrow> nat" where "nexts f = (\<lambda>b. b_next (f b))"
definition prevs :: "(nat \<Rightarrow> buf) \<Rightarrow> nat \<Rightarrow> nat" where "prevs f = (\<lambda>b. b_prev (f b))"

definition ring :: "(nat \<Rightarrow> buf) \<Rightarrow> nat list \<Rightarrow> bool" where
  "ring f xs \<longleftrightarrow> path (nexts f) (nexts f BHEAD) xs BHEAD \<and> path (prevs f) (prevs f BHEAD) (rev xs) BHEAD \<and>
     distinct xs \<and> set xs = {..<NBUF}"

lemma ring_distinct: "ring f xs \<Longrightarrow> distinct (BHEAD # xs)"
  by (simp add: ring_def BHEAD_def)

lemma ring_length: "ring f xs \<Longrightarrow> length xs = NBUF"
  using distinct_card [of xs] by (simp add: ring_def)

lemma ring_next: "ring f (ys @ b # zs) \<Longrightarrow> nexts f b = (if zs = [] then BHEAD else hd zs)"
  by (cases zs) (auto simp: ring_def)

lemma ring_prev: "ring f (ys @ b # zs) \<Longrightarrow> prevs f b = (if ys = [] then BHEAD else last ys)"
proof -
  assume "ring f (ys @ b # zs)"
  then have "path (prevs f) (prevs f b) (rev ys) BHEAD" by (auto simp: ring_def)
  then show ?thesis by (cases ys rule: rev_cases) auto
qed

lemma links_upd:
  "b_next (f b) = nexts f b" "b_prev (f b) = prevs f b"
  "nexts (set_next i v f) = (nexts f)(i := v)" "nexts (set_prev i v f) = nexts f"
  "prevs (set_prev i v f) = (prevs f)(i := v)" "prevs (set_next i v f) = prevs f"
  by (auto simp: nexts_def prevs_def)

lemma move_front_links:
  assumes "b \<noteq> BHEAD" "nexts f b \<noteq> b" "prevs f b \<noteq> b"
  defines "n' \<equiv> (nexts f)(prevs f b := nexts f b)"
  shows "nexts (move_front b f) = n'(b := n' BHEAD, BHEAD := b)"
    and "prevs (move_front b f) = ((prevs f)(nexts f b := prevs f b))(b := BHEAD, n' BHEAD := b)"
proof -
  have e: "((prevs f)(nexts f b := prevs f b)) b = prevs f b" "(n'(b := v)) BHEAD = n' BHEAD" for v
    using assms by simp_all
  show "nexts (move_front b f) = n'(b := n' BHEAD, BHEAD := b)"
    by (simp only: move_front_def Let_def links_upd e(1) n'_def [symmetric])
  show "prevs (move_front b f) = ((prevs f)(nexts f b := prevs f b))(b := BHEAD, n' BHEAD := b)"
    by (simp only: move_front_def Let_def links_upd e n'_def [symmetric])
qed

text \<open>Everything in a buffer but its links.\<close>

definition payload :: "buf \<Rightarrow> bool \<times> u32 \<times> u32 \<times> sleeplock \<times> u32 \<times> u8 list" where
  "payload k = (b_valid k, b_dev k, b_blockno k, b_lock k, b_refcnt k, b_data k)"

lemma payload_upd:
  "payload (set_next i v f j) = payload (f j)" "payload (set_prev i v f j) = payload (f j)"
  by (auto simp: payload_def)

lemma move_front_payload: "payload (move_front b f i) = payload (f i)"
  by (simp only: move_front_def Let_def payload_upd)

lemma payload_eqD:
  "payload k = payload k' \<Longrightarrow> b_dev k = b_dev k'" "payload k = payload k' \<Longrightarrow> b_blockno k = b_blockno k'"
  "payload k = payload k' \<Longrightarrow> b_valid k = b_valid k'" "payload k = payload k' \<Longrightarrow> b_data k = b_data k'"
  "payload k = payload k' \<Longrightarrow> b_lock k = b_lock k'" "payload k = payload k' \<Longrightarrow> b_refcnt k = b_refcnt k'"
  by (simp_all add: payload_def)

lemmas move_front_other = payload_eqD [OF move_front_payload]

lemma ring_move_front:
  assumes r: "ring f (ys @ b # zs)"
  shows "ring (move_front b f) (b # ys @ zs)"
proof -
  let ?n = "nexts f" and ?p = "prevs f"
  have d: "distinct (BHEAD # ys @ b # zs)" using ring_distinct [OF r] .
  have nb: "?n b = (if zs = [] then BHEAD else hd zs)" by (rule ring_next [OF r])
  have pb: "?p b = (if ys = [] then BHEAD else last ys)" by (rule ring_prev [OF r])
  have ne: "b \<noteq> BHEAD" "?n b \<noteq> b" "?p b \<noteq> b"
    using d nb pb by (auto split: if_splits)
  define n' where "n' = ?n(?p b := ?n b)"
  define p' where "p' = ?p(?n b := ?p b)"
  have n: "path n' (n' BHEAD) (ys @ zs) BHEAD"
    unfolding n'_def using r d pb by (intro path_remove) (simp_all add: ring_def)
  have "path p' (p' BHEAD) (rev zs @ rev ys) BHEAD"
    unfolding p'_def using r d nb by (intro path_remove) (auto simp: ring_def last_rev)
  then have p: "path p' (p' BHEAD) (rev (ys @ zs)) BHEAD" by simp
  have w: "n' BHEAD = (if rev (ys @ zs) = [] then BHEAD else last (rev (ys @ zs)))"
    using n by (cases "ys @ zs") (auto simp: last_rev)
  note L = move_front_links [OF ne, folded n'_def]
  have "path (nexts (move_front b f)) (nexts (move_front b f) BHEAD) (b # ys @ zs) BHEAD"
    unfolding L(1) using n d by (intro path_push_front) auto
  moreover have "path (prevs (move_front b f)) (prevs (move_front b f) BHEAD) (rev (ys @ zs) @ [b]) BHEAD"
    unfolding L(2) [folded p'_def] using p d w by (intro path_push_back) auto
  ultimately show ?thesis using r by (auto simp: ring_def)
qed

lemma ring_cong: "nexts g = nexts f \<Longrightarrow> prevs g = prevs f \<Longrightarrow> ring g xs = ring f xs"
  by (simp add: ring_def)

lemma ring_upd: "b_next k = b_next (f b) \<Longrightarrow> b_prev k = b_prev (f b) \<Longrightarrow> ring (f(b := k)) xs = ring f xs"
  by (rule ring_cong) (auto simp: nexts_def prevs_def)

section \<open>The invariant\<close>

definition key_unique :: "'z bio_scheme \<Rightarrow> bool" where
  "key_unique s \<longleftrightarrow> (\<forall>i<NBUF. \<forall>j<NBUF. b_dev (bufs s i) \<noteq> 0 \<and> b_dev (bufs s i) = b_dev (bufs s j) \<and>
     b_blockno (bufs s i) = b_blockno (bufs s j) \<longrightarrow> i = j)"

text \<open>
  \<open>H\<close> are the buffers that the calling process holds; every other buffer is free. A valid buffer belongs
  to the device \<open>d\<close>, and one that is not held has the contents of the disk.
\<close>

definition cache_ok :: "u32 \<Rightarrow> nat set \<Rightarrow> 'z bio_scheme \<Rightarrow> bool" where
  "cache_ok d H s \<longleftrightarrow>
     (\<exists>xs. ring (bufs s) xs) \<and> key_unique s \<and> d \<noteq> 0 \<and> H \<subseteq> {..<NBUF} \<and>
     (\<exists>p. myproc s = Some p \<and> (\<forall>i\<in>H. sl_pid (b_lock (bufs s i)) = p_pid (procs s p))) \<and>
     (\<forall>i<NBUF. b_refcnt (bufs s i) = (if i \<in> H then 1 else 0) \<and> (sl_locked (b_lock (bufs s i)) \<longleftrightarrow> i \<in> H)) \<and>
     (\<forall>i<NBUF. b_valid (bufs s i) \<longrightarrow> b_dev (bufs s i) = d \<and> length (b_data (bufs s i)) = BSIZE) \<and>
     (\<forall>i<NBUF. b_valid (bufs s i) \<and> i \<notin> H \<longrightarrow> b_data (bufs s i) = disk s (b_blockno (bufs s i))) \<and>
     (\<forall>i\<in>H. b_valid (bufs s i)) \<and> (\<forall>n. length (disk s n) = BSIZE)"

lemma cache_okD:
  assumes "cache_ok d H s"
  shows "\<exists>xs. ring (bufs s) xs" "key_unique s" "d \<noteq> 0" "H \<subseteq> {..<NBUF}"
    "\<exists>p. myproc s = Some p \<and> (\<forall>i\<in>H. sl_pid (b_lock (bufs s i)) = p_pid (procs s p))"
    "i < NBUF \<Longrightarrow> b_refcnt (bufs s i) = (if i \<in> H then 1 else 0)"
    "i < NBUF \<Longrightarrow> sl_locked (b_lock (bufs s i)) \<longleftrightarrow> i \<in> H"
    "i < NBUF \<Longrightarrow> b_valid (bufs s i) \<Longrightarrow> b_dev (bufs s i) = d"
    "i < NBUF \<Longrightarrow> b_valid (bufs s i) \<Longrightarrow> length (b_data (bufs s i)) = BSIZE"
    "i < NBUF \<Longrightarrow> b_valid (bufs s i) \<Longrightarrow> i \<notin> H \<Longrightarrow> b_data (bufs s i) = disk s (b_blockno (bufs s i))"
    "i \<in> H \<Longrightarrow> b_valid (bufs s i)" "length (disk s n) = BSIZE" "i \<in> H \<Longrightarrow> i < NBUF"
proof -
  note c = assms [unfolded cache_ok_def]
  show "\<exists>xs. ring (bufs s) xs" by (rule c [THEN conjunct1])
  show "key_unique s" by (rule c [THEN conjunct2, THEN conjunct1])
  show "d \<noteq> 0" by (rule c [THEN conjunct2, THEN conjunct2, THEN conjunct1])
  show sub: "H \<subseteq> {..<NBUF}" by (rule c [THEN conjunct2, THEN conjunct2, THEN conjunct2, THEN conjunct1])
  show "\<exists>p. myproc s = Some p \<and> (\<forall>i\<in>H. sl_pid (b_lock (bufs s i)) = p_pid (procs s p))" by (rule c [THEN conjunct2, THEN conjunct2, THEN conjunct2, THEN conjunct2, THEN conjunct1])
  show "i < NBUF \<Longrightarrow> b_refcnt (bufs s i) = (if i \<in> H then 1 else 0)"
    by (rule c [THEN conjunct2, THEN conjunct2, THEN conjunct2, THEN conjunct2, THEN conjunct2, THEN conjunct1, rule_format, THEN conjunct1])
  show "i < NBUF \<Longrightarrow> sl_locked (b_lock (bufs s i)) \<longleftrightarrow> i \<in> H"
    by (rule c [THEN conjunct2, THEN conjunct2, THEN conjunct2, THEN conjunct2, THEN conjunct2, THEN conjunct1, rule_format, THEN conjunct2])
  show "i < NBUF \<Longrightarrow> b_valid (bufs s i) \<Longrightarrow> b_dev (bufs s i) = d"
    by (rule c [THEN conjunct2, THEN conjunct2, THEN conjunct2, THEN conjunct2, THEN conjunct2, THEN conjunct2, THEN conjunct1, rule_format, THEN conjunct1])
  show "i < NBUF \<Longrightarrow> b_valid (bufs s i) \<Longrightarrow> length (b_data (bufs s i)) = BSIZE"
    by (rule c [THEN conjunct2, THEN conjunct2, THEN conjunct2, THEN conjunct2, THEN conjunct2, THEN conjunct2, THEN conjunct1, rule_format, THEN conjunct2])
  show "i < NBUF \<Longrightarrow> b_valid (bufs s i) \<Longrightarrow> i \<notin> H \<Longrightarrow> b_data (bufs s i) = disk s (b_blockno (bufs s i))"
    by (rule c [THEN conjunct2, THEN conjunct2, THEN conjunct2, THEN conjunct2, THEN conjunct2, THEN conjunct2, THEN conjunct2, THEN conjunct1, rule_format]) simp_all
  show "i \<in> H \<Longrightarrow> b_valid (bufs s i)" by (rule c [THEN conjunct2, THEN conjunct2, THEN conjunct2, THEN conjunct2, THEN conjunct2, THEN conjunct2, THEN conjunct2, THEN conjunct2, THEN conjunct1, rule_format])
  show "length (disk s n) = BSIZE" by (rule c [THEN conjunct2, THEN conjunct2, THEN conjunct2, THEN conjunct2, THEN conjunct2, THEN conjunct2, THEN conjunct2, THEN conjunct2, THEN conjunct2, rule_format])
  show "i \<in> H \<Longrightarrow> i < NBUF" using sub by blast
qed

lemma key_uniqueD:
  assumes "key_unique s" "i < NBUF" "j < NBUF" "b_dev (bufs s i) \<noteq> 0" "b_dev (bufs s j) = b_dev (bufs s i)"
    "b_blockno (bufs s j) = b_blockno (bufs s i)"
  shows "j = i"
proof -
  have "b_dev (bufs s i) \<noteq> 0 \<and> b_dev (bufs s i) = b_dev (bufs s j) \<and> b_blockno (bufs s i) = b_blockno (bufs s j)"
    using assms(4-6) by simp
  from assms(1) [unfolded key_unique_def, rule_format, OF assms(2,3) this] show ?thesis by simp
qed

definition cached :: "u32 \<Rightarrow> u32 \<Rightarrow> 'z bio_scheme \<Rightarrow> nat \<Rightarrow> bool" where
  "cached d n s i \<longleftrightarrow> b_valid (bufs s i) \<and> b_dev (bufs s i) = d \<and> b_blockno (bufs s i) = n"

definition view :: "u32 \<Rightarrow> 'z bio_scheme \<Rightarrow> u32 \<Rightarrow> u8 list" where
  "view d s n = (case List.find (cached d n s) [0..<NBUF] of Some i \<Rightarrow> b_data (bufs s i) | None \<Rightarrow> disk s n)"

lemma view_cached:
  assumes "key_unique s" and "d \<noteq> 0" and "i < NBUF" and "cached d n s i"
  shows "view d s n = b_data (bufs s i)"
proof -
  have "List.find (cached d n s) [0..<NBUF] = Some i"
    unfolding find_Some_iff
  proof (intro exI [of _ i] conjI allI impI)
    fix j assume "j < i"
    then show "\<not> cached d n s ([0..<NBUF] ! j)"
      using key_uniqueD [OF assms(1,3), of j] assms by (auto simp: cached_def)
  qed (use assms in auto)
  then show ?thesis by (simp add: view_def)
qed

lemma view_uncached: "(\<And>i. i < NBUF \<Longrightarrow> \<not> cached d n s i) \<Longrightarrow> view d s n = disk s n"
  by (auto simp: view_def find_Some_iff split: option.split)

text \<open>For a buffer that is not held the view is the disk; so it is for a block that is not cached.\<close>

lemma view_disk:
  assumes "cache_ok d H s" and "\<forall>i\<in>H. b_blockno (bufs s i) \<noteq> n"
  shows "view d s n = disk s n"
proof (cases "\<exists>i<NBUF. cached d n s i")
  case True
  then obtain i where i: "i < NBUF" "cached d n s i" by blast
  then have "i \<notin> H" using assms(2) by (auto simp: cached_def)
  then have "b_data (bufs s i) = disk s n" using cache_okD(10) [OF assms(1), of i] i by (auto simp: cached_def)
  moreover have "view d s n = b_data (bufs s i)"
    using cache_okD(2,3) [OF assms(1)] i by (intro view_cached)
  ultimately show ?thesis by simp
next
  case False
  then show ?thesis by (intro view_uncached) auto
qed

lemma view_held:
  "cache_ok d H s \<Longrightarrow> i \<in> H \<Longrightarrow> view d s (b_blockno (bufs s i)) = b_data (bufs s i)"
  using cache_okD(2,3) [of d H s] cache_okD(8,11,13) [of d H s i] by (intro view_cached) (simp_all add: cached_def)

text \<open>The view is determined by the disk and the held buffers.\<close>

lemma view_eqI:
  assumes "cache_ok d H s" and "cache_ok d H' t"
    and "\<forall>i\<in>H'. b_data (bufs t i) = view d s (b_blockno (bufs t i))"
    and "\<forall>i\<in>H. \<exists>j\<in>H'. b_blockno (bufs t j) = b_blockno (bufs s i)"
    and "disk t = disk s"
  shows "view d t = view d s"
proof
  fix n
  show "view d t n = view d s n"
  proof (cases "\<exists>j\<in>H'. b_blockno (bufs t j) = n")
    case True
    then show ?thesis using view_held [OF assms(2)] assms(3) by auto
  next
    case False
    then have "view d t n = disk t n" by (intro view_disk [OF assms(2)]) auto
    moreover have "view d s n = disk s n" using False assms(4) by (intro view_disk [OF assms(1)]) force
    ultimately show ?thesis using assms(5) by simp
  qed
qed

lemma bget_find_spec:
  assumes ok: "cache_ok d H s" and fin: "card H < NBUF" and nh: "\<forall>i\<in>H. b_blockno (bufs s i) \<noteq> n"
  obtains b k where "b < NBUF" "b \<notin> H" "bget_find d n s = Ok b (s\<lparr>bufs := (bufs s)(b := k)\<rparr>)"
    "b_dev k = d" "b_blockno k = n" "b_refcnt k = 1" "b_lock k = b_lock (bufs s b)"
    "b_next k = b_next (bufs s b)" "b_prev k = b_prev (bufs s b)"
    "b_valid k \<Longrightarrow> b_data k = disk s n"
    "\<And>j. j < NBUF \<Longrightarrow> j \<noteq> b \<Longrightarrow> b_dev (bufs s j) = d \<Longrightarrow> b_blockno (bufs s j) \<noteq> n"
proof -
  note C = cache_okD [OF ok]
  obtain xs where r: "ring (bufs s) xs" using C(1) by blast
  have hd: "BHEAD \<notin> set xs" "BHEAD \<notin> set (rev xs)" "length xs < Suc NBUF" "length (rev xs) < Suc NBUF" "set xs = {..<NBUF}"
    using r ring_length [OF r] by (auto simp: ring_def BHEAD_def)
  let ?P = "\<lambda>b. b_dev (bufs s b) = d \<and> b_blockno (bufs s b) = n"
  have f1: "ring_find (Suc NBUF) (\<lambda>b. b_next (bufs s b)) ?P (b_next (bufs s BHEAD)) = Some (List.find ?P xs)"
    using r hd by (intro ring_find_path) (simp_all add: ring_def nexts_def)
  have f2: "ring_find (Suc NBUF) (\<lambda>b. b_prev (bufs s b)) (\<lambda>b. b_refcnt (bufs s b) = 0) (b_prev (bufs s BHEAD)) =
      Some (List.find (\<lambda>b. b_refcnt (bufs s b) = 0) (rev xs))"
    using r hd by (intro ring_find_path) (simp_all add: ring_def prevs_def)
  show thesis
  proof (cases "List.find ?P xs")
    case (Some b)
    have b: "b < NBUF" "?P b" using find_SomeD [OF Some] hd(5) by simp_all
    then have bH: "b \<notin> H" using nh by auto
    show thesis
    proof (rule that [of b "(bufs s b)\<lparr>b_refcnt := b_refcnt (bufs s b) + 1\<rparr>"])
      show "bget_find d n s = Ok b (s\<lparr>bufs := (bufs s)(b := (bufs s b)\<lparr>b_refcnt := b_refcnt (bufs s b) + 1\<rparr>)\<rparr>)"
        using f1 Some by (simp add: bget_find_def)
      show "b_blockno (bufs s j) \<noteq> n" if "j < NBUF" "j \<noteq> b" "b_dev (bufs s j) = d" for j
        using key_uniqueD [OF C(2) b(1) that(1)] that(2,3) b(2) C(3) by auto
      show "b_data ((bufs s b)\<lparr>b_refcnt := b_refcnt (bufs s b) + 1\<rparr>) = disk s n"
        if "b_valid ((bufs s b)\<lparr>b_refcnt := b_refcnt (bufs s b) + 1\<rparr>)"
        using C(10) [OF b(1) _ bH] that b(2) by simp
      show "b_refcnt ((bufs s b)\<lparr>b_refcnt := b_refcnt (bufs s b) + 1\<rparr>) = 1"
        using C(6) [OF b(1)] bH by simp
    qed (use b bH in simp_all)
  next
    case None
    then have none: "\<And>j. j < NBUF \<Longrightarrow> \<not> ?P j" using hd(5) by (auto simp: find_None_iff)
    have "\<exists>b<NBUF. b \<notin> H"
    proof (rule ccontr)
      assume "\<not> (\<exists>b<NBUF. b \<notin> H)"
      then have "{..<NBUF} \<subseteq> H" by auto
      then have "H = {..<NBUF}" using C(4) by blast
      then show False using fin by simp
    qed
    then have "List.find (\<lambda>b. b_refcnt (bufs s b) = 0) (rev xs) \<noteq> None"
      using C(6) hd(5) by (auto simp: find_None_iff)
    then obtain b where fb: "List.find (\<lambda>b. b_refcnt (bufs s b) = 0) (rev xs) = Some b" by auto
    have b: "b < NBUF" "b_refcnt (bufs s b) = 0" using find_SomeD [OF fb] hd(5) by simp_all
    show thesis
    proof (rule that [of b "(bufs s b)\<lparr>b_dev := d, b_blockno := n, b_valid := False, b_refcnt := 1\<rparr>"])
      show "b \<notin> H" using C(6) [OF b(1)] b(2) by auto
      show "bget_find d n s = Ok b (s\<lparr>bufs := (bufs s)(b := (bufs s b)\<lparr>b_dev := d, b_blockno := n, b_valid := False, b_refcnt := 1\<rparr>)\<rparr>)"
        using f1 f2 None fb by (simp add: bget_find_def)
    qed (use b none in simp_all)
  qed
qed


lemma cache_okI:
  assumes "ring (bufs s) xs" "key_unique s" "d \<noteq> 0" "H \<subseteq> {..<NBUF}" "myproc s = Some p"
    "\<And>i. i \<in> H \<Longrightarrow> sl_pid (b_lock (bufs s i)) = p_pid (procs s p)"
    "\<And>i. i < NBUF \<Longrightarrow> b_refcnt (bufs s i) = (if i \<in> H then 1 else 0)"
    "\<And>i. i < NBUF \<Longrightarrow> sl_locked (b_lock (bufs s i)) \<longleftrightarrow> i \<in> H"
    "\<And>i. i < NBUF \<Longrightarrow> b_valid (bufs s i) \<Longrightarrow> b_dev (bufs s i) = d \<and> length (b_data (bufs s i)) = BSIZE"
    "\<And>i. i < NBUF \<Longrightarrow> b_valid (bufs s i) \<Longrightarrow> i \<notin> H \<Longrightarrow> b_data (bufs s i) = disk s (b_blockno (bufs s i))"
    "\<And>i. i \<in> H \<Longrightarrow> b_valid (bufs s i)" "\<And>n. length (disk s n) = BSIZE"
  shows "cache_ok d H s"
  unfolding cache_ok_def
proof (intro conjI)
  show "\<exists>xs. ring (bufs s) xs" using assms(1) by (rule exI)
  show "\<exists>p. myproc s = Some p \<and> (\<forall>i\<in>H. sl_pid (b_lock (bufs s i)) = p_pid (procs s p))"
    using assms(5,6) by (intro exI [of _ p] conjI ballI)
  show "\<forall>i<NBUF. b_valid (bufs s i) \<and> i \<notin> H \<longrightarrow> b_data (bufs s i) = disk s (b_blockno (bufs s i))"
    using assms(10) by (intro allI impI, elim conjE)
  show "key_unique s" "d \<noteq> 0" "H \<subseteq> {..<NBUF}" by (fact assms)+
  show "\<forall>i<NBUF. b_refcnt (bufs s i) = (if i \<in> H then 1 else 0) \<and> (sl_locked (b_lock (bufs s i)) \<longleftrightarrow> i \<in> H)"
    using assms(7,8) by (intro allI impI conjI)
  show "\<forall>i<NBUF. b_valid (bufs s i) \<longrightarrow> b_dev (bufs s i) = d \<and> length (b_data (bufs s i)) = BSIZE"
    using assms(9) by (intro allI impI)
  show "\<forall>i\<in>H. b_valid (bufs s i)" using assms(11) by (intro ballI)
  show "\<forall>n. length (disk s n) = BSIZE" using assms(12) by (intro allI)
qed

text \<open>Reading a block that the process does not already hold.\<close>

lemma bread_ok:
  assumes ok: "cache_ok d H s" and fin: "card H < NBUF" and nh: "\<forall>i\<in>H. b_blockno (bufs s i) \<noteq> n"
  obtains b k where "b < NBUF" "b \<notin> H" "bread d n s = Ok b (s\<lparr>bufs := (bufs s)(b := k)\<rparr>)"
    "b_blockno k = n" "b_data k = view d s n" "cache_ok d (insert b H) (s\<lparr>bufs := (bufs s)(b := k)\<rparr>)"
    "view d (s\<lparr>bufs := (bufs s)(b := k)\<rparr>) = view d s"
proof -
  note C = cache_okD [OF ok]
  obtain b k0 where K: "b < NBUF" "b \<notin> H" "bget_find d n s = Ok b (s\<lparr>bufs := (bufs s)(b := k0)\<rparr>)"
    "b_dev k0 = d" "b_blockno k0 = n" "b_refcnt k0 = 1" "b_lock k0 = b_lock (bufs s b)"
    "b_next k0 = b_next (bufs s b)" "b_prev k0 = b_prev (bufs s b)" "b_valid k0 \<Longrightarrow> b_data k0 = disk s n"
    "\<And>j. j < NBUF \<Longrightarrow> j \<noteq> b \<Longrightarrow> b_dev (bufs s j) = d \<Longrightarrow> b_blockno (bufs s j) \<noteq> n"
    using bget_find_spec [OF ok fin nh] by blast
  obtain p where p: "myproc s = Some p" "\<forall>i\<in>H. sl_pid (b_lock (bufs s i)) = p_pid (procs s p)" using C(5) by blast
  obtain xs where r: "ring (bufs s) xs" using C(1) by blast
  define k where "k = k0\<lparr>b_lock := \<lparr>sl_locked = True, sl_pid = p_pid (procs s p)\<rparr>, b_valid := True, b_data := disk s n\<rparr>"
  let ?t = "s\<lparr>bufs := (bufs s)(b := k)\<rparr>"
  have free: "\<not> sl_locked (b_lock (bufs s b))" using C(7) [OF K(1)] K(2) by simp
  have k1: "k0\<lparr>b_lock := \<lparr>sl_locked = True, sl_pid = p_pid (procs s p)\<rparr>\<rparr> = k" if "b_valid k0"
    using that K(10) by (cases k0) (simp add: k_def)
  have k2: "k0\<lparr>b_lock := \<lparr>sl_locked = True, sl_pid = p_pid (procs s p)\<rparr>, b_data := disk s n, b_valid := True\<rparr> = k"
    by (cases k0) (simp add: k_def)
  have kv: "b_valid k" by (simp add: k_def)
  have b: "bread d n s = Ok b ?t"
    using K(3,5,7) free p(1) k1 k2 kv
    by (cases "b_valid k0")
      (simp_all add: bread_def bget_def acquiresleep_def with_proc_def disk_rw_def Let_def)
  have ok': "cache_ok d (insert b H) ?t"
  proof (rule cache_okI)
    show "ring (bufs ?t) xs" using r ring_upd [of k "bufs s" b xs] K(8,9) by (simp add: k_def)
    show "key_unique ?t"
      unfolding key_unique_def
    proof (intro allI impI)
      fix i j assume ij: "i < NBUF" "j < NBUF" and e: "b_dev (bufs ?t i) \<noteq> 0 \<and> b_dev (bufs ?t i) = b_dev (bufs ?t j) \<and>
        b_blockno (bufs ?t i) = b_blockno (bufs ?t j)"
      have kk: "b_dev k = d" "b_blockno k = n" using K(4,5) by (simp_all add: k_def)
      consider "i = j" | "i = b" "j \<noteq> b" | "j = b" "i \<noteq> b" | "i \<noteq> b" "j \<noteq> b" by blast
      then show "i = j"
      proof cases
        case 2
        then show ?thesis using K(11) [of j] ij e kk by simp
      next
        case 3
        then show ?thesis using K(11) [of i] ij e kk by simp
      next
        case 4
        then have "j = i" using e by (intro key_uniqueD [OF C(2) ij]) auto
        then show ?thesis by simp
      qed
    qed
    show "sl_pid (b_lock (bufs ?t i)) = p_pid (procs ?t p)" if "i \<in> insert b H" for i
      using p(2) that by (cases "i = b") (simp_all add: k_def)
    show "b_valid (bufs ?t i)" if "i \<in> insert b H" for i
      using C(11) [of i] that by (cases "i = b") (simp_all add: k_def)
    show "b_dev (bufs ?t i) = d \<and> length (b_data (bufs ?t i)) = BSIZE" if "i < NBUF" "b_valid (bufs ?t i)" for i
      using C(8,9) [of i] C(12) that K(4) by (cases "i = b") (simp_all add: k_def)
    show "b_data (bufs ?t i) = disk ?t (b_blockno (bufs ?t i))" if "i < NBUF" "b_valid (bufs ?t i)" "i \<notin> insert b H" for i
      using C(10) [of i] that by simp
  qed (use C(3,4,6,7,11,12) p K(1,6) in \<open>simp_all add: k_def\<close>)
  have v: "view d s n = disk s n" by (rule view_disk [OF ok nh])
  show thesis
  proof (rule that [OF K(1,2) b])
    show "b_data k = view d s n" by (simp add: k_def v)
    show "view d ?t = view d s"
    proof (rule view_eqI [OF ok ok'])
      show "\<forall>i\<in>insert b H. b_data (bufs ?t i) = view d s (b_blockno (bufs ?t i))"
        using view_held [OF ok] K(2,5) v by (auto simp: k_def)
      show "\<forall>i\<in>H. \<exists>j\<in>insert b H. b_blockno (bufs ?t j) = b_blockno (bufs s i)"
        using K(2) by (auto intro!: bexI)
    qed simp
  qed (use K(5) ok' in \<open>simp_all add: k_def\<close>)
qed


text \<open>What the cache operations leave alone: everything but buffers, the disk, and which processes sleep.\<close>

definition proc_same :: "'z procs_scheme \<Rightarrow> 'z procs_scheme \<Rightarrow> bool" where
  "proc_same s t \<longleftrightarrow> (\<forall>q. (procs t q)\<lparr>p_state := UNUSED\<rparr> = (procs s q)\<lparr>p_state := UNUSED\<rparr>)"

definition bio_frame :: "'z bio_scheme \<Rightarrow> 'z bio_scheme \<Rightarrow> bool" where
  "bio_frame s t \<longleftrightarrow> proc_same s t \<and> pmem t = pmem s \<and> freelist t = freelist s \<and> kend t = kend s \<and>
     nextpid t = nextpid s \<and> initproc t = initproc s \<and> myproc t = myproc s \<and> bio.more t = bio.more s"

lemma bio_frame_refl [simp]: "bio_frame s s"
  by (simp add: bio_frame_def proc_same_def)

lemma bio_frame_trans: "bio_frame s t \<Longrightarrow> bio_frame t u \<Longrightarrow> bio_frame s u"
  by (simp add: bio_frame_def proc_same_def)

lemma bio_frame_bufs [simp]: "bio_frame s (s\<lparr>bufs := f\<rparr>)"
  by (simp add: bio_frame_def proc_same_def)

lemma bio_frame_disk [simp]: "bio_frame s (disk_rw b True s)"
  by (simp add: bio_frame_def proc_same_def disk_rw_def Let_def)

lemma proc_sameD: "proc_same s t \<Longrightarrow> p_pid (procs t q) = p_pid (procs s q)"
proof -
  assume "proc_same s t"
  then have "(procs t q)\<lparr>p_state := UNUSED\<rparr> = (procs s q)\<lparr>p_state := UNUSED\<rparr>" unfolding proc_same_def by (rule spec)
  then have "p_pid ((procs t q)\<lparr>p_state := UNUSED\<rparr>) = p_pid ((procs s q)\<lparr>p_state := UNUSED\<rparr>)" by (rule arg_cong)
  then show ?thesis by simp
qed

lemma wakeup_same: "proc_same s (wakeup c s)"
  by (simp add: proc_same_def wakeup_def)

lemma brelse_ok:
  assumes ok: "cache_ok d H s" and b: "b \<in> H" and clean: "b_data (bufs s b) = disk s (b_blockno (bufs s b))"
  obtains t where "brelse b s = Ok () t" "cache_ok d (H - {b}) t" "view d t = view d s" "disk t = disk s"
    "dtrace t = dtrace s" "bio_frame s t"
    "\<forall>i\<in>H - {b}. b_blockno (bufs t i) = b_blockno (bufs s i) \<and> b_data (bufs t i) = b_data (bufs s i)"
proof -
  note C = cache_okD [OF ok]
  have bN: "b < NBUF" using C(13) b by blast
  obtain p where p: "myproc s = Some p" "\<forall>i\<in>H. sl_pid (b_lock (bufs s i)) = p_pid (procs s p)" using C(5) by blast
  obtain xs where r: "ring (bufs s) xs" using C(1) by blast
  then obtain ys zs where xs: "xs = ys @ b # zs" using bN split_list [of b xs] by (auto simp: ring_def)
  define k where "k = (bufs s b)\<lparr>b_lock := unlocked, b_refcnt := 0\<rparr>"
  define f where "f = (bufs s)(b := k)"
  define t where "t = (wakeup (ChanBufLock b) s)\<lparr>bufs := move_front b f\<rparr>"
  have rel: "brelse b s = Ok () t"
  proof -
    have h: "holdingsleep (buf_lock b) s = Ok True s"
      using p b C(7) [OF bN] by (simp add: holdingsleep_def with_proc_def)
    have "(wakeup (ChanBufLock b) (upd_buf_lock b (\<lambda>k. unlocked) s))\<lparr>bufs := g\<rparr> = (wakeup (ChanBufLock b) s)\<lparr>bufs := g\<rparr>" for g
      by (simp add: wakeup_def cong: if_cong)
    moreover have "bufs (wakeup c s') = bufs s'" for c and s' :: "'a bio_scheme" by (simp add: wakeup_def)
    ultimately show ?thesis
      using h C(6) [OF bN] b by (simp add: brelse_def releasesleep_def Let_def t_def f_def k_def)
  qed
  have pay: "payload (bufs t i) = payload (if i = b then k else bufs s i)" for i
    by (simp add: t_def f_def move_front_payload)
  note P = payload_eqD [OF pay]
  have fr: "bio_frame s t" using wakeup_same [of s "ChanBufLock b"] by (simp add: bio_frame_def t_def proc_same_def wakeup_def)
  have dk: "disk t = disk s" "dtrace t = dtrace s" by (simp_all add: t_def wakeup_def)
  have ok': "cache_ok d (H - {b}) t"
  proof (rule cache_okI)
    have "ring f xs" using r ring_upd [of k "bufs s" b xs] by (simp add: f_def k_def)
    then show "ring (bufs t) (b # ys @ zs)" using ring_move_front xs by (simp add: t_def)
    have eq: "b_dev (bufs t i) = b_dev (bufs s i)" "b_blockno (bufs t i) = b_blockno (bufs s i)" for i
      by (simp_all add: P k_def)
    show "key_unique t" using C(2) unfolding key_unique_def eq .
    show "myproc t = Some p" using fr p(1) by (simp add: bio_frame_def)
    show "sl_pid (b_lock (bufs t i)) = p_pid (procs t p)" if "i \<in> H - {b}" for i
      using p(2) that proc_sameD [of s t p] fr by (simp add: P bio_frame_def)
    show "b_dev (bufs t i) = d \<and> length (b_data (bufs t i)) = BSIZE" if "i < NBUF" "b_valid (bufs t i)" for i
      using C(8,9) [of i] that by (cases "i = b") (simp_all add: P k_def)
    show "b_data (bufs t i) = disk t (b_blockno (bufs t i))" if "i < NBUF" "b_valid (bufs t i)" "i \<notin> H - {b}" for i
      using C(10) [of i] that clean by (cases "i = b") (simp_all add: P k_def dk)
    show "b_valid (bufs t i)" if "i \<in> H - {b}" for i using C(11) [of i] that by (simp add: P)
    show "b_refcnt (bufs t i) = (if i \<in> H - {b} then 1 else 0)" if "i < NBUF" for i
      using C(6) [OF that] by (simp add: P k_def)
    show "sl_locked (b_lock (bufs t i)) \<longleftrightarrow> i \<in> H - {b}" if "i < NBUF" for i
      using C(7) [OF that] by (simp add: P k_def unlocked_def)
  qed (use C(3,4,12) dk in auto)
  have "view d t n = view d s n" for n
  proof (cases "\<exists>i\<in>H - {b}. b_blockno (bufs s i) = n")
    case True
    then obtain i where i: "i \<in> H" "i \<noteq> b" "b_blockno (bufs s i) = n" by blast
    then show ?thesis
      using view_held [OF ok i(1)] view_held [OF ok', of i] by (simp add: P)
  next
    case False
    then have vt: "view d t n = disk t n" by (intro view_disk [OF ok']) (auto simp: P)
    show ?thesis
    proof (cases "b_blockno (bufs s b) = n")
      case True
      then show ?thesis using view_held [OF ok b] clean vt dk by simp
    next
      case F2: False
      then have "view d s n = disk s n" using False by (intro view_disk [OF ok]) auto
      then show ?thesis using vt dk by simp
    qed
  qed
  then have v: "view d t = view d s" by (rule ext)
  have "\<forall>i\<in>H - {b}. b_blockno (bufs t i) = b_blockno (bufs s i) \<and> b_data (bufs t i) = b_data (bufs s i)"
    by (simp add: P)
  then show thesis by (rule that [OF rel ok' v dk fr])
qed


lemma set_data_ok:
  assumes ok: "cache_ok d H s" and b: "b \<in> H" and len: "length x = BSIZE"
  defines "t \<equiv> upd_buf b (\<lambda>k. k\<lparr>b_data := x\<rparr>) s"
  shows "cache_ok d H t" and "view d t = (view d s)(b_blockno (bufs s b) := x)"
proof -
  note C = cache_okD [OF ok]
  obtain p where p: "myproc s = Some p" "\<forall>i\<in>H. sl_pid (b_lock (bufs s i)) = p_pid (procs s p)" using C(5) by blast
  obtain xs where r: "ring (bufs s) xs" using C(1) by blast
  have eq: "b_dev (bufs t i) = b_dev (bufs s i)" "b_blockno (bufs t i) = b_blockno (bufs s i)"
    "b_valid (bufs t i) = b_valid (bufs s i)" "b_lock (bufs t i) = b_lock (bufs s i)"
    "b_refcnt (bufs t i) = b_refcnt (bufs s i)" "i \<noteq> b \<Longrightarrow> b_data (bufs t i) = b_data (bufs s i)"
    "b_data (bufs t b) = x" "disk t = disk s" "myproc t = myproc s" "procs t = procs s" for i
    by (simp_all add: t_def)
  show ok': "cache_ok d H t"
  proof (rule cache_okI)
    show "ring (bufs t) xs" using r ring_upd [of _ "bufs s" b xs] by (simp add: t_def)
    show "key_unique t" using C(2) unfolding key_unique_def eq .
    show "b_dev (bufs t i) = d \<and> length (b_data (bufs t i)) = BSIZE" if "i < NBUF" "b_valid (bufs t i)" for i
      using C(8,9) [of i] that len by (cases "i = b") (simp_all add: eq)
    show "b_data (bufs t i) = disk t (b_blockno (bufs t i))" if "i < NBUF" "b_valid (bufs t i)" "i \<notin> H" for i
    proof -
      have "i \<noteq> b" using that(3) b by auto
      then show ?thesis using C(10) [of i] that by (simp add: eq)
    qed
  qed (use C(3,4,6,7,11,12) p in \<open>simp_all add: eq\<close>)
  show "view d t = (view d s)(b_blockno (bufs s b) := x)"
  proof
    fix n
    show "view d t n = ((view d s)(b_blockno (bufs s b) := x)) n"
    proof (cases "\<exists>i\<in>H. b_blockno (bufs s i) = n")
      case True
      then obtain i where i: "i \<in> H" "b_blockno (bufs s i) = n" by blast
      have dv: "b_dev (bufs s j) = d" if "j \<in> H" for j using C(8) [of j] C(11) [OF that] C(13) [OF that] by simp
      have "i = b" if "b_blockno (bufs s b) = n"
        using i that b dv C(3) by (intro key_uniqueD [OF C(2) C(13) C(13)]) simp_all
      then show ?thesis
        using view_held [OF ok' i(1)] view_held [OF ok i(1)] i(2) by (cases "i = b") (auto simp: eq)
    next
      case False
      then have "view d t n = disk t n" by (intro view_disk [OF ok']) (simp add: eq)
      moreover have "view d s n = disk s n" using False by (intro view_disk [OF ok]) simp
      moreover have "b_blockno (bufs s b) \<noteq> n" using False b by blast
      ultimately show ?thesis by (simp add: eq)
    qed
  qed
qed

lemma bwrite_ok:
  assumes ok: "cache_ok d H s" and b: "b \<in> H"
  shows "bwrite b s = Ok () (disk_rw b True s)" and "cache_ok d H (disk_rw b True s)"
    and "view d (disk_rw b True s) = view d s"
    and "disk (disk_rw b True s) = (disk s)(b_blockno (bufs s b) := b_data (bufs s b))"
    and "dtrace (disk_rw b True s) = dtrace s @ [(b_blockno (bufs s b), b_data (bufs s b))]"
    and "bufs (disk_rw b True s) = bufs s"
proof -
  note C = cache_okD [OF ok]
  let ?t = "disk_rw b True s"
  obtain p where p: "myproc s = Some p" "\<forall>i\<in>H. sl_pid (b_lock (bufs s i)) = p_pid (procs s p)" using C(5) by blast
  obtain xs where r: "ring (bufs s) xs" using C(1) by blast
  have eq: "bufs ?t = bufs s" "myproc ?t = myproc s" "procs ?t = procs s" by (simp_all add: disk_rw_def Let_def)
  show bt: "bufs ?t = bufs s" by (rule eq)
  show dk: "disk ?t = (disk s)(b_blockno (bufs s b) := b_data (bufs s b))"
    and "dtrace ?t = dtrace s @ [(b_blockno (bufs s b), b_data (bufs s b))]" by (simp_all add: disk_rw_def Let_def)
  have bN: "b < NBUF" "b_valid (bufs s b)" using C(13) [OF b] C(11) [OF b] by simp_all
  show "bwrite b s = Ok () ?t" using p b C(7) [OF bN(1)] by (simp add: bwrite_def holdingsleep_def with_proc_def)
  have other: "b_blockno (bufs s i) \<noteq> b_blockno (bufs s b)" if "i < NBUF" "b_valid (bufs s i)" "i \<noteq> b" for i
    using key_uniqueD [OF C(2) bN(1) that(1)] C(8) [OF that(1,2)] C(8) [OF bN] C(3) that(3) by auto
  show ok': "cache_ok d H ?t"
  proof (rule cache_okI)
    show "ring (bufs ?t) xs" using r by (simp add: eq)
    show "key_unique ?t" using C(2) unfolding key_unique_def eq .
    show "b_dev (bufs ?t i) = d \<and> length (b_data (bufs ?t i)) = BSIZE" if "i < NBUF" "b_valid (bufs ?t i)" for i
      using C(8,9) [of i] that by (simp add: eq)
    show "b_data (bufs ?t i) = disk ?t (b_blockno (bufs ?t i))" if "i < NBUF" "b_valid (bufs ?t i)" "i \<notin> H" for i
    proof -
      have "i \<noteq> b" using that(3) b by auto
      then show ?thesis using C(10) [of i] other [of i] that by (simp add: eq dk)
    qed
    show "length (disk ?t n) = BSIZE" for n using C(12) [of n] C(9) [OF bN] by (simp add: dk)
  qed (use C(3,4,6,7,11) p in \<open>simp_all add: eq\<close>)
  show "view d ?t = view d s"
  proof
    fix n
    show "view d ?t n = view d s n"
    proof (cases "\<exists>i\<in>H. b_blockno (bufs s i) = n")
      case True
      then show ?thesis using view_held [OF ok'] view_held [OF ok] by (auto simp: eq)
    next
      case False
      then have "view d ?t n = disk ?t n" by (intro view_disk [OF ok']) (simp add: eq)
      moreover have "view d s n = disk s n" using False by (intro view_disk [OF ok]) simp
      moreover have "b_blockno (bufs s b) \<noteq> n" using False b by blast
      ultimately show ?thesis by (simp add: dk)
    qed
  qed
qed

lemma view_length: "cache_ok d H s \<Longrightarrow> length (view d s n) = BSIZE"
proof (cases "\<exists>i\<in>H. b_blockno (bufs s i) = n")
  case True
  assume ok: "cache_ok d H s"
  from True obtain i where i: "i \<in> H" "b_blockno (bufs s i) = n" by blast
  then show ?thesis using view_held [OF ok i(1)] cache_okD(9,11,13) [OF ok, of i] by simp
next
  case False
  assume ok: "cache_ok d H s"
  from False show ?thesis using view_disk [OF ok, of n] cache_okD(12) [OF ok, of n] by simp
qed

end
