(* ===== verification/Bio_Props.thy ===== *)
theory Bio_Props
  imports Bio_Cache
begin

text \<open>
  The contract of the buffer cache as a locale, its interpretation on the operations of kernel/bio.c,
  and the properties of the cache.
\<close>

section \<open>The contract\<close>

text \<open>
  \<open>ok H s\<close>: the caller holds the buffers \<open>H\<close>; \<open>blk\<close> is the contents of a block as the caller sees it,
  \<open>stored\<close> its contents on the disk; \<open>bno\<close> and \<open>dat\<close> are the block number and the data of a buffer.
\<close>

locale block_cache =
  fixes ok :: "nat set \<Rightarrow> 's \<Rightarrow> bool"
    and blk :: "'s \<Rightarrow> u32 \<Rightarrow> u8 list"
    and stored :: "'s \<Rightarrow> u32 \<Rightarrow> u8 list"
    and bno :: "'s \<Rightarrow> nat \<Rightarrow> u32"
    and dat :: "'s \<Rightarrow> nat \<Rightarrow> u8 list"
    and put :: "nat \<Rightarrow> u8 list \<Rightarrow> 's \<Rightarrow> 's"
    and rd :: "u32 \<Rightarrow> 's \<Rightarrow> ('s, nat) result"
    and wr :: "nat \<Rightarrow> 's \<Rightarrow> ('s, unit) result"
    and rel :: "nat \<Rightarrow> 's \<Rightarrow> ('s, unit) result"
    and frame :: "'s \<Rightarrow> 's \<Rightarrow> bool"
  assumes rd_ok: "ok H s \<Longrightarrow> card H < NBUF \<Longrightarrow> \<forall>i\<in>H. bno s i \<noteq> n \<Longrightarrow>
      \<exists>b t. rd n s = Ok b t \<and> b \<notin> H \<and> ok (insert b H) t \<and> bno t b = n \<and> dat t b = blk s n \<and> blk t = blk s \<and>
        stored t = stored s \<and> (\<forall>i\<in>H. bno t i = bno s i \<and> dat t i = dat s i) \<and> frame s t"
    and put_ok: "ok H s \<Longrightarrow> b \<in> H \<Longrightarrow> length x = BSIZE \<Longrightarrow> ok H (put b x s)"
    and put_blk: "ok H s \<Longrightarrow> b \<in> H \<Longrightarrow> length x = BSIZE \<Longrightarrow> blk (put b x s) = (blk s)(bno s b := x)"
    and put_simps: "stored (put b x s) = stored s" "bno (put b x s) = bno s" "dat (put b x s) = (dat s)(b := x)"
      "frame s (put b x s)"
    and wr_ok: "ok H s \<Longrightarrow> b \<in> H \<Longrightarrow> \<exists>t. wr b s = Ok () t \<and> ok H t \<and> blk t = blk s \<and>
        stored t = (stored s)(bno s b := dat s b) \<and> bno t = bno s \<and> dat t = dat s \<and> frame s t"
    and rel_ok: "ok H s \<Longrightarrow> b \<in> H \<Longrightarrow> dat s b = stored s (bno s b) \<Longrightarrow>
      \<exists>t. rel b s = Ok () t \<and> ok (H - {b}) t \<and> blk t = blk s \<and> stored t = stored s \<and>
        (\<forall>i\<in>H - {b}. bno t i = bno s i \<and> dat t i = dat s i) \<and> frame s t"
    and blk_length: "ok H s \<Longrightarrow> length (blk s n) = BSIZE"
    and blk_held: "ok H s \<Longrightarrow> b \<in> H \<Longrightarrow> blk s (bno s b) = dat s b"
    and blk_stored: "ok H s \<Longrightarrow> \<forall>i\<in>H. bno s i \<noteq> n \<Longrightarrow> blk s n = stored s n"
    and frame_refl: "frame s s"
    and frame_trans: "frame s t \<Longrightarrow> frame t u \<Longrightarrow> frame s u"
begin

text \<open>Reading a block and releasing it changes nothing.\<close>

lemma read_release:
  assumes "ok H s" "card H < NBUF" "\<forall>i\<in>H. bno s i \<noteq> n"
  shows "\<exists>b t u. rd n s = Ok b t \<and> dat t b = blk s n \<and> rel b t = Ok () u \<and> ok H u \<and> blk u = blk s \<and>
    stored u = stored s \<and> (\<forall>i\<in>H. bno u i = bno s i \<and> dat u i = dat s i) \<and> frame s u"
proof -
  obtain b t where r: "rd n s = Ok b t" "b \<notin> H" "ok (insert b H) t" "bno t b = n" "dat t b = blk s n" "blk t = blk s"
    "stored t = stored s" "\<forall>i\<in>H. bno t i = bno s i \<and> dat t i = dat s i" "frame s t"
    using rd_ok [OF assms] by blast
  have "blk s n = stored s n" using blk_stored [OF assms(1,3)] .
  then have cl: "dat t b = stored t (bno t b)" using r by simp
  obtain u where u: "rel b t = Ok () u" "ok (insert b H - {b}) u" "blk u = blk t" "stored u = stored t"
    "\<forall>i\<in>insert b H - {b}. bno u i = bno t i \<and> dat u i = dat t i" "frame t u"
    using rel_ok [OF r(3) _ cl] by auto
  have e: "insert b H - {b} = H" using r(2) by simp
  have "frame s u" using frame_trans [OF r(9) u(6)] .
  then show ?thesis using r u unfolding e by (intro exI [of _ b] exI [of _ t] exI [of _ u]) simp
qed

text \<open>Reading a block, changing it, writing it to disk and releasing it.\<close>

lemma read_modify_write:
  assumes "ok H s" "card H < NBUF" "\<forall>i\<in>H. bno s i \<noteq> n" "length x = BSIZE"
  shows "\<exists>b t t' u. rd n s = Ok b t \<and> dat t b = blk s n \<and> wr b (put b x t) = Ok () t' \<and> rel b t' = Ok () u \<and>
    ok H u \<and> blk u = (blk s)(n := x) \<and> stored u = (stored s)(n := x) \<and>
    (\<forall>i\<in>H. bno u i = bno s i \<and> dat u i = dat s i) \<and> frame s u"
proof -
  obtain b t where r: "rd n s = Ok b t" "b \<notin> H" "ok (insert b H) t" "bno t b = n" "dat t b = blk s n" "blk t = blk s"
    "stored t = stored s" "\<forall>i\<in>H. bno t i = bno s i \<and> dat t i = dat s i" "frame s t"
    using rd_ok [OF assms(1-3)] by blast
  let ?p = "put b x t"
  have p: "ok (insert b H) ?p" "blk ?p = (blk s)(n := x)"
    using put_ok [OF r(3) _ assms(4)] put_blk [OF r(3) _ assms(4)] r(4,6) by simp_all
  obtain t' where w: "wr b ?p = Ok () t'" "ok (insert b H) t'" "blk t' = blk ?p"
    "stored t' = (stored ?p)(bno ?p b := dat ?p b)" "bno t' = bno ?p" "dat t' = dat ?p" "frame ?p t'"
    using wr_ok [OF p(1)] by blast
  have cl: "dat t' b = stored t' (bno t' b)" using w r(4) by (simp add: put_simps)
  obtain u where u: "rel b t' = Ok () u" "ok (insert b H - {b}) u" "blk u = blk t'" "stored u = stored t'"
    "\<forall>i\<in>insert b H - {b}. bno u i = bno t' i \<and> dat u i = dat t' i" "frame t' u"
    using rel_ok [OF w(2) _ cl] by auto
  have e: "insert b H - {b} = H" using r(2) by simp
  have "frame s u"
    using frame_trans [OF frame_trans [OF frame_trans [OF r(9) put_simps(4)] w(7)] u(6)] .
  moreover have "\<forall>i\<in>H. bno u i = bno s i \<and> dat u i = dat s i"
  proof
    fix i assume "i \<in> H"
    then have "i \<noteq> b" using r(2) by auto
    then show "bno u i = bno s i \<and> dat u i = dat s i"
      using u(5) r(8) w(5,6) \<open>i \<in> H\<close> by (simp add: put_simps)
  qed
  ultimately show ?thesis
    using r u w p unfolding e
    by (intro exI [of _ b] exI [of _ t] exI [of _ t'] exI [of _ u]) (simp add: put_simps)
qed

end

interpretation bcache: block_cache "cache_ok d" "view d" disk "\<lambda>s b. b_blockno (bufs s b)" "\<lambda>s b. b_data (bufs s b)"
  "\<lambda>b x. upd_buf b (\<lambda>k. k\<lparr>b_data := x\<rparr>)" "bread d" bwrite brelse bio_frame for d
proof (unfold_locales, goal_cases)
  case (1 H s n)
  obtain b k where B: "b < NBUF" "b \<notin> H" "bread d n s = Ok b (s\<lparr>bufs := (bufs s)(b := k)\<rparr>)"
    "b_blockno k = n" "b_data k = view d s n" "cache_ok d (insert b H) (s\<lparr>bufs := (bufs s)(b := k)\<rparr>)"
    "view d (s\<lparr>bufs := (bufs s)(b := k)\<rparr>) = view d s"
    by (rule bread_ok [OF 1])
  have "\<forall>i\<in>H. i \<noteq> b" using B(2) by auto
  then show ?case using B by (intro exI [of _ b] exI [of _ "s\<lparr>bufs := (bufs s)(b := k)\<rparr>"]) simp
next
  case (2 H s b x)
  then show ?case by (rule set_data_ok)
next
  case (3 H s b x)
  then show ?case by (rule set_data_ok)
next
  case (8 H s b)
  show ?case using bwrite_ok [OF 8] by (intro exI [of _ "disk_rw b True s"]) simp
next
  case (9 H s b)
  obtain t where "brelse b s = Ok () t" "cache_ok d (H - {b}) t" "view d t = view d s" "disk t = disk s"
    "dtrace t = dtrace s" "bio_frame s t"
    "\<forall>i\<in>H - {b}. b_blockno (bufs t i) = b_blockno (bufs s i) \<and> b_data (bufs t i) = b_data (bufs s i)"
    by (rule brelse_ok [OF 9])
  then show ?case by (intro exI [of _ t]) simp
next
  case (10 H s n)
  then show ?case by (rule view_length)
next
  case (11 H s b)
  then show ?case by (rule view_held)
next
  case (12 H s n)
  then show ?case by (rule view_disk)
next
  case (14 s t u)
  then show ?case by (rule bio_frame_trans)
qed auto


section \<open>Initialisation\<close>

definition links :: "(nat \<Rightarrow> buf) \<Rightarrow> nat list \<Rightarrow> bool" where
  "links f xs \<longleftrightarrow> path (nexts f) (nexts f BHEAD) xs BHEAD \<and> path (prevs f) (prevs f BHEAD) (rev xs) BHEAD"

lemma links_lock: "nexts (f(b := (f b)\<lparr>b_lock := l\<rparr>)) = nexts f" "prevs (f(b := (f b)\<lparr>b_lock := l\<rparr>)) = prevs f"
  by (auto simp: nexts_def prevs_def)

lemma binit_link_links:
  assumes "b \<noteq> BHEAD"
  shows "nexts (binit_link b f) = (nexts f)(b := nexts f BHEAD, BHEAD := b)"
    and "prevs (binit_link b f) = (prevs f)(b := BHEAD, nexts f BHEAD := b)"
proof -
  have e: "((nexts f)(b := v)) BHEAD = nexts f BHEAD" for v using assms by simp
  show "nexts (binit_link b f) = (nexts f)(b := nexts f BHEAD, BHEAD := b)"
    by (simp only: binit_link_def Let_def links_upd links_lock)
  show "prevs (binit_link b f) = (prevs f)(b := BHEAD, nexts f BHEAD := b)"
    by (simp only: binit_link_def Let_def links_upd links_lock e)
qed

lemma binit_link_push:
  assumes l: "links f xs" and d: "distinct (BHEAD # b # xs)"
  shows "links (binit_link b f) (b # xs)"
proof -
  have ne: "b \<noteq> BHEAD" using d by auto
  note L = binit_link_links [OF ne]
  have w: "nexts f BHEAD = (if rev xs = [] then BHEAD else last (rev xs))"
    using l by (cases xs) (auto simp: links_def last_rev)
  have "path (nexts (binit_link b f)) (nexts (binit_link b f) BHEAD) (b # xs) BHEAD"
    unfolding L using l d by (intro path_push_front) (auto simp: links_def)
  moreover have "path (prevs (binit_link b f)) (prevs (binit_link b f) BHEAD) (rev xs @ [b]) BHEAD"
    unfolding L using l d w by (intro path_push_back) (auto simp: links_def)
  ultimately show ?thesis by (simp add: links_def)
qed

lemma binit_loop_links:
  "links f xs \<Longrightarrow> distinct (BHEAD # bs @ xs) \<Longrightarrow> links (binit_loop bs f) (rev bs @ xs)"
proof (induction bs arbitrary: f xs)
  case (Cons b bs)
  have "links (binit_link b f) (b # xs)" using Cons.prems by (intro binit_link_push) auto
  then have "links (binit_loop bs (binit_link b f)) (rev bs @ b # xs)"
    using Cons.prems(2) by (intro Cons.IH) auto
  then show ?case by simp
qed simp

lemma binit_link_payload: "b_lock k = unlocked \<Longrightarrow> \<forall>j. payload (f j) = payload k \<Longrightarrow> payload (binit_link b f j) = payload k"
  by (simp only: binit_link_def Let_def payload_upd) (simp add: payload_def)

lemma binit_loop_payload:
  "b_lock k = unlocked \<Longrightarrow> \<forall>j. payload (f j) = payload k \<Longrightarrow> payload (binit_loop bs f j) = payload k"
  by (induction bs arbitrary: f) (simp_all add: binit_link_payload)

lemma bufs_binit: "bufs (binit s) = binit_loop [0..<NBUF] (set_next BHEAD BHEAD (set_prev BHEAD BHEAD (bufs s)))"
  by (simp add: binit_def)

lemma binit_ring: "ring (bufs (binit s)) (rev [0..<NBUF])"
proof -
  let ?f = "set_next BHEAD BHEAD (set_prev BHEAD BHEAD (bufs s))"
  have "links ?f []" by (simp add: links_def nexts_def prevs_def)
  then have "links (binit_loop [0..<NBUF] ?f) (rev [0..<NBUF] @ [])"
    by (rule binit_loop_links) (simp add: BHEAD_def)
  then show ?thesis by (auto simp: ring_def links_def binit_def)
qed

definition blank_buf :: buf where
  "blank_buf = \<lparr>b_valid = False, b_dev = 0, b_blockno = 0, b_lock = unlocked, b_refcnt = 0, b_prev = 0, b_next = 0,
     b_data = replicate BSIZE 0\<rparr>"

definition blank_bio :: bio where
  "blank_bio = procs.extend (blank_procs\<lparr>myproc := Some 0\<rparr>)
     \<lparr>bufs = (\<lambda>_. blank_buf), disk = (\<lambda>_. replicate BSIZE 0), dtrace = []\<rparr>"

lemma blank_bio_simps [simp]:
  "bufs blank_bio = (\<lambda>_. blank_buf)" "disk blank_bio = (\<lambda>_. replicate BSIZE 0)" "myproc blank_bio = Some 0"
  "dtrace blank_bio = []" "procs blank_bio = (\<lambda>_. blank_proc)"
  by (simp_all add: blank_bio_def procs.defs blank_procs_def)

lemma binit_blank_payload: "payload (bufs (binit blank_bio) i) = payload blank_buf"
  unfolding bufs_binit
  by (rule binit_loop_payload) (simp_all only: payload_upd blank_bio_simps, simp_all add: blank_buf_def payload_def)

lemma cache_ok_blank: "d \<noteq> 0 \<Longrightarrow> cache_ok d {} (binit blank_bio)"
proof (rule cache_okI [OF binit_ring])
  note P = payload_eqD [OF binit_blank_payload]
  show "key_unique (binit blank_bio)" by (simp add: key_unique_def P blank_buf_def)
  show "\<And>i. i < NBUF \<Longrightarrow> b_refcnt (bufs (binit blank_bio) i) = (if i \<in> {} then 1 else 0)" by (simp add: P blank_buf_def)
  show "\<And>i. i < NBUF \<Longrightarrow> sl_locked (b_lock (bufs (binit blank_bio) i)) = (i \<in> {})" by (simp add: P blank_buf_def unlocked_def)
  show "\<And>i. i < NBUF \<Longrightarrow> b_valid (bufs (binit blank_bio) i) \<Longrightarrow> b_dev (bufs (binit blank_bio) i) = d \<and> length (b_data (bufs (binit blank_bio) i)) = BSIZE"
    by (simp add: P blank_buf_def)
  show "\<And>i. i < NBUF \<Longrightarrow> b_valid (bufs (binit blank_bio) i) \<Longrightarrow> i \<notin> {} \<Longrightarrow> b_data (bufs (binit blank_bio) i) = disk (binit blank_bio) (b_blockno (bufs (binit blank_bio) i))"
    by (simp add: P blank_buf_def)
qed (simp_all add: binit_def)

section \<open>Properties\<close>

text \<open>The buffer that the cache chooses for a block when its buffers are in the order \<open>xs\<close>, most recently used first.\<close>

definition lru_choice :: "u32 \<Rightarrow> u32 \<Rightarrow> nat list \<Rightarrow> 'z bio_scheme \<Rightarrow> nat option" where
  "lru_choice d n xs s =
     (case List.find (\<lambda>b. b_dev (bufs s b) = d \<and> b_blockno (bufs s b) = n) xs of
        Some b \<Rightarrow> Some b
      | None \<Rightarrow> List.find (\<lambda>b. b_refcnt (bufs s b) = 0) (rev xs))"

lemma bget_find_ring:
  assumes r: "ring (bufs s) xs"
  shows "bget_find d n s =
    (case lru_choice d n xs s of
       None \<Rightarrow> Panic ''bget: no buffers''
     | Some b \<Rightarrow> Ok b (if b_dev (bufs s b) = d \<and> b_blockno (bufs s b) = n
         then upd_buf b (\<lambda>k. k\<lparr>b_refcnt := b_refcnt k + 1\<rparr>) s
         else upd_buf b (\<lambda>k. k\<lparr>b_dev := d, b_blockno := n, b_valid := False, b_refcnt := 1\<rparr>) s))"
proof -
  have hd: "BHEAD \<notin> set xs" "BHEAD \<notin> set (rev xs)" "length xs < Suc NBUF" "length (rev xs) < Suc NBUF"
    using r ring_length [OF r] by (auto simp: ring_def BHEAD_def)
  let ?P = "\<lambda>b. b_dev (bufs s b) = d \<and> b_blockno (bufs s b) = n"
  have f1: "ring_find (Suc NBUF) (\<lambda>b. b_next (bufs s b)) ?P (b_next (bufs s BHEAD)) = Some (List.find ?P xs)"
    using r hd by (intro ring_find_path) (simp_all add: ring_def nexts_def)
  have f2: "ring_find (Suc NBUF) (\<lambda>b. b_prev (bufs s b)) (\<lambda>b. b_refcnt (bufs s b) = 0) (b_prev (bufs s BHEAD)) =
      Some (List.find (\<lambda>b. b_refcnt (bufs s b) = 0) (rev xs))"
    using r hd by (intro ring_find_path) (simp_all add: ring_def prevs_def)
  show ?thesis
  proof (cases "List.find ?P xs")
    case (Some b)
    then show ?thesis using f1 find_SomeD [OF Some] by (simp add: bget_find_def lru_choice_def)
  next
    case None
    show ?thesis
    proof (cases "List.find (\<lambda>b. b_refcnt (bufs s b) = 0) (rev xs)")
      case (Some b)
      then have "b \<in> set xs" using find_SomeD [OF Some] by simp
      then have "\<not> ?P b" using None by (simp add: find_None_iff)
      then show ?thesis by (simp only: bget_find_def lru_choice_def f1 f2 None Some option.case if_False)
    next
      case None2: None
      show ?thesis by (simp only: bget_find_def lru_choice_def f1 f2 None None2 option.case)
    qed
  qed
qed

lemma brelse_ring:
  assumes r: "ring (bufs s) xs" and b: "b < NBUF" and ok: "brelse b s = Ok x t"
  shows "ring (bufs t) (if b_refcnt (bufs s b) = 1 then b # remove1 b xs else xs)"
proof -
  have h: "holdingsleep (buf_lock b) s = Ok True s"
    using ok by (auto simp: brelse_def holdingsleep_def with_proc_def then_do_Ok_iff split: option.splits if_splits)
  define v where "v = wakeup (ChanBufLock b) (upd_buf_lock b (\<lambda>k. unlocked) s)"
  have v: "releasesleep (ChanBufLock b) (upd_buf_lock b) s = Ok () v"
    by (simp add: releasesleep_def v_def)
  have bv: "bufs v = (bufs s)(b := (bufs s b)\<lparr>b_lock := unlocked\<rparr>)"
    by (simp add: v_def wakeup_def)
  let ?k = "(bufs v b)\<lparr>b_refcnt := b_refcnt (bufs v b) - 1\<rparr>"
  have t: "bufs t = (if b_refcnt (bufs s b) = 1 then move_front b ((bufs v)(b := ?k)) else (bufs v)(b := ?k))"
    using ok h v by (auto simp: brelse_def then_do_Ok_iff Let_def bv split: if_splits)
  have r2: "ring ((bufs v)(b := ?k)) xs"
    unfolding bv using r by (simp add: ring_upd)
  have "b \<in> set xs" "distinct xs" using r b by (auto simp: ring_def)
  then obtain ys zs where xs: "xs = ys @ b # zs" "remove1 b xs = ys @ zs"
    using split_list_first [of b xs] by (auto simp: remove1_append)
  have "ring (move_front b ((bufs v)(b := ?k))) (b # remove1 b xs)"
    using ring_move_front [of _ ys b zs] r2 xs by simp
  then show ?thesis using t r2 by simp
qed

text \<open>
  C13: The buffer cache is a least-recently-used cache. With the buffers linked in the order xs, most recent
  first, bget() picks the buffer that already holds the block, and otherwise the last unreferenced
  buffer of xs; it panics exactly when the block is not cached and every buffer is referenced. A
  brelse() that drops the last reference moves the buffer to the front of xs and leaves the order of
  the others, and any other brelse() leaves xs.
\<close>

theorem buffer_cache_lru:
  assumes r: "ring (bufs s) xs"
  shows "bget_find d n s =
      (case lru_choice d n xs s of
         None \<Rightarrow> Panic ''bget: no buffers''
       | Some b \<Rightarrow> Ok b (if b_dev (bufs s b) = d \<and> b_blockno (bufs s b) = n
           then upd_buf b (\<lambda>k. k\<lparr>b_refcnt := b_refcnt k + 1\<rparr>) s
           else upd_buf b (\<lambda>k. k\<lparr>b_dev := d, b_blockno := n, b_valid := False, b_refcnt := 1\<rparr>) s)) \<and>
    (\<forall>b t. b < NBUF \<longrightarrow> brelse b s = Ok () t \<longrightarrow>
       ring (bufs t) (if b_refcnt (bufs s b) = 1 then b # remove1 b xs else xs))"
  using bget_find_ring [OF r] brelse_ring [OF r] by blast

theorem buffer_cache_lru_witness: "lru_choice 1 7 (rev [0..<NBUF]) (binit blank_bio) = Some 0 \<and>
    (\<exists>t. bget_find 1 7 (binit blank_bio) = Ok 0 t)"
proof -
  have e: "b_refcnt (bufs (binit blank_bio) b) = 0" "b_dev (bufs (binit blank_bio) b) = 0" for b
    using payload_eqD [OF binit_blank_payload [of b]] by (simp_all add: blank_buf_def)
  have "lru_choice 1 7 (rev [0..<NBUF]) (binit blank_bio) = Some 0"
    by (simp add: lru_choice_def e find_None_iff [THEN iffD2] NBUF_def upt_rec)
  then show ?thesis using buffer_cache_lru [OF binit_ring [of blank_bio], of 1 7] by simp
qed

text \<open>
  C14: A block that is read, changed, written with bwrite() and released is what a later bread() returns, also
  when another block has been read and released in between and may have taken over buffers; the disk
  holds the new contents and every other block is as before. It holds from every state in which the
  process holds fewer than NBUF buffers and none of the two blocks.
\<close>

theorem block_write_read:
  assumes "cache_ok d H s" "card H < NBUF" "\<forall>i\<in>H. b_blockno (bufs s i) \<noteq> n \<and> b_blockno (bufs s i) \<noteq> m"
    "length x = BSIZE"
  shows "\<exists>b s1 s2 s3 b' s4 s5 b2 t.
    bread d n s = Ok b s1 \<and> bwrite b (upd_buf b (\<lambda>k. k\<lparr>b_data := x\<rparr>) s1) = Ok () s2 \<and> brelse b s2 = Ok () s3 \<and>
    bread d m s3 = Ok b' s4 \<and> brelse b' s4 = Ok () s5 \<and>
    bread d n s5 = Ok b2 t \<and> b_data (bufs t b2) = x \<and> disk t = (disk s)(n := x) \<and> view d t = (view d s)(n := x)"
proof -
  have nh: "\<forall>i\<in>H. b_blockno (bufs s i) \<noteq> n" "\<forall>i\<in>H. b_blockno (bufs s i) \<noteq> m" using assms(3) by auto
  obtain b s1 s2 s3 where 1: "bread d n s = Ok b s1" "bwrite b (upd_buf b (\<lambda>k. k\<lparr>b_data := x\<rparr>) s1) = Ok () s2"
    "brelse b s2 = Ok () s3" "cache_ok d H s3" "view d s3 = (view d s)(n := x)" "disk s3 = (disk s)(n := x)"
    "\<forall>i\<in>H. b_blockno (bufs s3 i) = b_blockno (bufs s i) \<and> b_data (bufs s3 i) = b_data (bufs s i)"
    using bcache.read_modify_write [OF assms(1,2) nh(1) assms(4)] by blast
  have "\<forall>i\<in>H. b_blockno (bufs s3 i) \<noteq> m" using 1(7) nh(2) by simp
  then obtain b' s4 s5 where 2: "bread d m s3 = Ok b' s4" "brelse b' s4 = Ok () s5" "cache_ok d H s5"
    "view d s5 = view d s3" "disk s5 = disk s3" "\<forall>i\<in>H. b_blockno (bufs s5 i) = b_blockno (bufs s3 i) \<and> b_data (bufs s5 i) = b_data (bufs s3 i)"
    using bcache.read_release [OF 1(4) assms(2)] by blast
  have "\<forall>i\<in>H. b_blockno (bufs s5 i) \<noteq> n" using 1(7) 2(6) nh(1) by simp
  then obtain b2 t where 3: "bread d n s5 = Ok b2 t" "b_data (bufs t b2) = view d s5 n" "view d t = view d s5" "disk t = disk s5"
    using bcache.rd_ok [OF 2(3) assms(2)] by blast
  have "b_data (bufs t b2) = x" "disk t = (disk s)(n := x)" "view d t = (view d s)(n := x)"
    using 1(5,6) 2(4,5) 3 by simp_all
  then show ?thesis using 1(1-3) 2(1,2) 3(1) by blast
qed

theorem block_write_read_witness:
  "\<exists>b s1 s2 s3. bread 1 5 (binit blank_bio) = Ok b s1 \<and>
     bwrite b (upd_buf b (\<lambda>k. k\<lparr>b_data := replicate BSIZE 7\<rparr>) s1) = Ok () s2 \<and> brelse b s2 = Ok () s3"
  using block_write_read [OF cache_ok_blank, of 1 5 9 "replicate BSIZE 7"] by (auto simp: NBUF_def)

text \<open>
  C35: A change that only reaches the cache does not survive: when the least recently used buffer holds a
  block and is unreferenced, a bread() of a block that is not cached takes the buffer over without
  writing it back, and the first block reads as the disk has it. (bmap(), writei() and itrunc() change
  buffers that they release without bwrite().)
\<close>

theorem unwritten_block_lost:
  assumes r: "ring (bufs s) (xs @ [b])" and k: "key_unique s" and d: "d \<noteq> 0"
    and c: "cached d n s b" and f: "b_refcnt (bufs s b) = 0" "\<not> sl_locked (b_lock (bufs s b))"
    and m: "\<forall>i<NBUF. \<not> (b_dev (bufs s i) = d \<and> b_blockno (bufs s i) = m)" and p: "myproc s = Some p"
  shows "\<exists>t. bread d m s = Ok b t \<and> view d t n = disk s n \<and> disk t = disk s"
proof -
  have set: "set (xs @ [b]) = {..<NBUF}" using r by (simp add: ring_def)
  then have b: "b < NBUF" by auto
  have "List.find (\<lambda>b. b_dev (bufs s b) = d \<and> b_blockno (bufs s b) = m) (xs @ [b]) = None"
    unfolding find_None_iff using m set by blast
  then have "lru_choice d m (xs @ [b]) s = Some b" using f(1) by (simp add: lru_choice_def)
  moreover have nk: "\<not> (b_dev (bufs s b) = d \<and> b_blockno (bufs s b) = m)" using m b by blast
  ultimately have g: "bget_find d m s =
      Ok b (upd_buf b (\<lambda>k. k\<lparr>b_dev := d, b_blockno := m, b_valid := False, b_refcnt := 1\<rparr>) s)"
    using bget_find_ring [OF r, of d m] by (simp only: option.case if_False)
  define kb where "kb = (bufs s b)\<lparr>b_dev := d, b_blockno := m, b_refcnt := 1,
      b_lock := \<lparr>sl_locked = True, sl_pid = p_pid (procs s p)\<rparr>, b_data := disk s m, b_valid := True\<rparr>"
  let ?t = "s\<lparr>bufs := (bufs s)(b := kb)\<rparr>"
  have t: "bread d m s = Ok b ?t"
    using g f(2) p by (simp add: bread_def bget_def acquiresleep_def with_proc_def disk_rw_def kb_def)
  have nm: "n \<noteq> m" and nb: "b_dev (bufs s b) = d" "b_blockno (bufs s b) = n" using c nk by (auto simp: cached_def)
  have "\<not> cached d n ?t i" if "i < NBUF" for i
  proof (cases "i = b")
    case False
    have "b_dev (bufs s i) = d \<Longrightarrow> b_blockno (bufs s i) = n \<Longrightarrow> b = i"
      by (rule key_uniqueD [OF k that b]) (simp_all add: nb d)
    then show ?thesis using False by (auto simp: cached_def)
  qed (use nm in \<open>simp add: cached_def kb_def\<close>)
  then have "view d ?t n = disk ?t n" by (rule view_uncached)
  then show ?thesis using t by simp
qed

theorem unwritten_block_lost_witness:
  "let k = (bufs (binit blank_bio) 0)\<lparr>b_valid := True, b_dev := 1, b_blockno := 5, b_data := replicate BSIZE 7\<rparr>;
       s = (binit blank_bio)\<lparr>bufs := (bufs (binit blank_bio))(0 := k)\<rparr>
   in view 1 s 5 = replicate BSIZE 7 \<and> (\<exists>t. bread 1 6 s = Ok 0 t \<and> view 1 t 5 = replicate BSIZE 0)"
proof -
  define k where "k = (bufs (binit blank_bio) 0)\<lparr>b_valid := True, b_dev := 1, b_blockno := 5, b_data := replicate BSIZE 7\<rparr>"
  define s where "s = (binit blank_bio)\<lparr>bufs := (bufs (binit blank_bio))(0 := k)\<rparr>"
  note P = payload_eqD [OF binit_blank_payload]
  have "rev [0..<NBUF] = rev [1..<NBUF] @ [0]" by (simp add: NBUF_def upt_rec)
  then have 1: "ring (bufs s) (rev [1..<NBUF] @ [0])"
    using binit_ring [of blank_bio] by (simp add: s_def k_def ring_upd)
  have 2: "key_unique s" by (simp add: key_unique_def s_def k_def P blank_buf_def)
  have 3: "cached 1 5 s 0" "b_refcnt (bufs s 0) = 0" "\<not> sl_locked (b_lock (bufs s 0))"
    by (simp_all add: cached_def s_def k_def P blank_buf_def unlocked_def)
  have 4: "\<forall>i<NBUF. \<not> (b_dev (bufs s i) = 1 \<and> b_blockno (bufs s i) = 6)" "myproc s = Some 0" "disk s 5 = replicate BSIZE 0"
  proof -
    show "\<forall>i<NBUF. \<not> (b_dev (bufs s i) = 1 \<and> b_blockno (bufs s i) = 6)"
      by (simp add: s_def k_def P blank_buf_def)
  qed (simp_all add: s_def binit_def)
  have "view 1 s 5 = replicate BSIZE 7"
    using view_cached [OF 2 _ _ 3(1)] by (simp add: s_def k_def NBUF_def)
  moreover have "\<exists>t. bread 1 6 s = Ok 0 t \<and> view 1 t 5 = replicate BSIZE 0"
    using unwritten_block_lost [OF 1 2 _ 3 4(1,2)] 4(3) by auto
  ultimately show ?thesis by (simp add: Let_def s_def k_def)
qed

end
