(* ===== verification/Log.thy ===== *)
theory Log
  imports Bio_Props
begin

text \<open>
  The redo log, kernel/log.c. The header of the log, in memory and on disk, is a count and an array of
  LOGSIZE block numbers; \<open>lh_block\<close> maps an index to the number. A log header on disk with a count outside
  0..LOGSIZE makes read_head() write past the array, which the model reports as a panic of its own.

  fsinit() does not call initlog() and no code under kernel/ calls log_write(), so the log of the running
  system stays empty; begin_op() and end_op() still delimit the file system calls.
\<close>

section \<open>State\<close>

definition MAXOPBLOCKS :: nat where "MAXOPBLOCKS = 10"
definition LOGSIZE :: nat where "LOGSIZE = MAXOPBLOCKS * 3"

record logstate =
  lg_start :: u32
  lg_size :: int
  lg_outstanding :: int
  lg_committing :: bool
  lg_dev :: u32
  lh_n :: int
  lh_block :: "nat \<Rightarrow> u32"

record logs = bio +
  log :: logstate

abbreviation upd_log :: "(logstate \<Rightarrow> logstate) \<Rightarrow> 'z logs_scheme \<Rightarrow> 'z logs_scheme" where
  "upd_log f s \<equiv> s\<lparr>log := f (log s)\<rparr>"

abbreviation set_data :: "nat \<Rightarrow> u8 list \<Rightarrow> 'z bio_scheme \<Rightarrow> 'z bio_scheme" where
  "set_data b x \<equiv> upd_buf b (\<lambda>k. k\<lparr>b_data := x\<rparr>)"

text \<open>The \<open>i\<close>-th 32-bit word of a block, and its update.\<close>

definition word_of :: "u8 list \<Rightarrow> nat \<Rightarrow> u32" where
  "word_of xs i = le_word (take 4 (drop (4 * i) xs))"

definition put_bytes :: "nat \<Rightarrow> u8 list \<Rightarrow> u8 list \<Rightarrow> u8 list" where
  "put_bytes off bs xs = take off xs @ bs @ drop (off + length bs) xs"

definition set_word :: "nat \<Rightarrow> u32 \<Rightarrow> u8 list \<Rightarrow> u8 list" where
  "set_word i w xs = put_bytes (4 * i) (le_bytes 4 w) xs"

section \<open>The header block\<close>

definition read_head :: "'z logs_scheme \<Rightarrow> ('z logs_scheme, unit) result" where
  "read_head s =
     then_do (bread (lg_dev (log s)) (lg_start (log s)) s) (\<lambda>buf s.
     let data = b_data (bufs s buf); n = sint (word_of data 0) in
     if n > int LOGSIZE then Panic ''read_head: log.lh.block overflows''
     else
       then_do (brelse buf (upd_log (\<lambda>l. l\<lparr>lh_n := n,
           lh_block := (\<lambda>i. if int i < n then word_of data (i + 1) else lh_block l i)\<rparr>) s)) (\<lambda>_ s.
       Ok () s))"

primrec head_blocks :: "nat \<Rightarrow> (nat \<Rightarrow> u32) \<Rightarrow> u8 list \<Rightarrow> u8 list" where
  "head_blocks 0 f xs = xs"
| "head_blocks (Suc n) f xs = set_word (n + 1) (f n) (head_blocks n f xs)"

definition write_head :: "'z logs_scheme \<Rightarrow> ('z logs_scheme, unit) result" where
  "write_head s =
     then_do (bread (lg_dev (log s)) (lg_start (log s)) s) (\<lambda>buf s.
     let hb = set_word 0 (of_int (lh_n (log s))) (b_data (bufs s buf));
         hb = head_blocks (nat (lh_n (log s))) (lh_block (log s)) hb in
     then_do (bwrite buf (set_data buf hb s)) (\<lambda>_ s.
     brelse buf s))"

section \<open>Installing and logging blocks\<close>

fun install_loop :: "bool \<Rightarrow> nat list \<Rightarrow> 'z logs_scheme \<Rightarrow> ('z logs_scheme, unit) result" where
  "install_loop recovering [] s = Ok () s"
| "install_loop recovering (i # rest) s =
     then_do (bread (lg_dev (log s)) (lg_start (log s) + of_nat i + 1) s) (\<lambda>lbuf s.
     then_do (bread (lg_dev (log s)) (lh_block (log s) i) s) (\<lambda>dbuf s.
     then_do (bwrite dbuf (set_data dbuf (b_data (bufs s lbuf)) s)) (\<lambda>_ s.
     let s = (if recovering then s else bunpin dbuf s) in
     then_do (brelse lbuf s) (\<lambda>_ s.
     then_do (brelse dbuf s) (\<lambda>_ s.
     install_loop recovering rest s)))))"

definition install_trans :: "bool \<Rightarrow> 'z logs_scheme \<Rightarrow> ('z logs_scheme, unit) result" where
  "install_trans recovering s = install_loop recovering [0..<nat (lh_n (log s))] s"

fun write_log_loop :: "nat list \<Rightarrow> 'z logs_scheme \<Rightarrow> ('z logs_scheme, unit) result" where
  "write_log_loop [] s = Ok () s"
| "write_log_loop (i # rest) s =
     then_do (bread (lg_dev (log s)) (lg_start (log s) + of_nat i + 1) s) (\<lambda>to s.
     then_do (bread (lg_dev (log s)) (lh_block (log s) i) s) (\<lambda>from s.
     then_do (bwrite to (set_data to (b_data (bufs s from)) s)) (\<lambda>_ s.
     then_do (brelse from s) (\<lambda>_ s.
     then_do (brelse to s) (\<lambda>_ s.
     write_log_loop rest s)))))"

definition write_log :: "'z logs_scheme \<Rightarrow> ('z logs_scheme, unit) result" where
  "write_log s = write_log_loop [0..<nat (lh_n (log s))] s"

definition recover_from_log :: "'z logs_scheme \<Rightarrow> ('z logs_scheme, unit) result" where
  "recover_from_log s =
     then_do (read_head s) (\<lambda>_ s.
     then_do (install_trans True s) (\<lambda>_ s.
     write_head (upd_log (\<lambda>l. l\<lparr>lh_n := 0\<rparr>) s)))"

text \<open>sizeof(struct logheader) is 4 + 4 * LOGSIZE bytes.\<close>

definition initlog :: "u32 \<Rightarrow> u32 \<Rightarrow> u32 \<Rightarrow> 'z logs_scheme \<Rightarrow> ('z logs_scheme, unit) result" where
  "initlog dev logstart nlog s =
     (if 4 + 4 * LOGSIZE \<ge> BSIZE then Panic ''initlog: too big logheader''
      else recover_from_log (upd_log (\<lambda>l. l\<lparr>lg_start := logstart, lg_size := sint nlog, lg_dev := dev\<rparr>) s))"

section \<open>Transactions\<close>

definition begin_op :: "'z logs_scheme \<Rightarrow> ('z logs_scheme, unit) result" where
  "begin_op s =
     (if lg_committing (log s) then sleep ChanLog s
      else if lh_n (log s) + (lg_outstanding (log s) + 1) * int MAXOPBLOCKS > int LOGSIZE then sleep ChanLog s
      else Ok () (upd_log (\<lambda>l. l\<lparr>lg_outstanding := lg_outstanding l + 1\<rparr>) s))"

definition commit :: "'z logs_scheme \<Rightarrow> ('z logs_scheme, unit) result" where
  "commit s =
     (if lh_n (log s) > 0 then
        then_do (write_log s) (\<lambda>_ s.
        then_do (write_head s) (\<lambda>_ s.
        then_do (install_trans False s) (\<lambda>_ s.
        write_head (upd_log (\<lambda>l. l\<lparr>lh_n := 0\<rparr>) s))))
      else Ok () s)"

definition end_op :: "'z logs_scheme \<Rightarrow> ('z logs_scheme, unit) result" where
  "end_op s =
     (let s = upd_log (\<lambda>l. l\<lparr>lg_outstanding := lg_outstanding l - 1\<rparr>) s in
      if lg_committing (log s) then Panic ''log.committing''
      else if lg_outstanding (log s) = 0 then
        then_do (commit (upd_log (\<lambda>l. l\<lparr>lg_committing := True\<rparr>) s)) (\<lambda>_ s.
        Ok () (wakeup ChanLog (upd_log (\<lambda>l. l\<lparr>lg_committing := False\<rparr>) s)))
      else Ok () (wakeup ChanLog s))"

text \<open>The index of a block number in the header, or the count when it is not there.\<close>

fun log_slot :: "(nat \<Rightarrow> u32) \<Rightarrow> u32 \<Rightarrow> nat list \<Rightarrow> nat \<Rightarrow> nat" where
  "log_slot f n [] m = m"
| "log_slot f n (i # rest) m = (if f i = n then i else log_slot f n rest m)"

definition log_write :: "nat \<Rightarrow> 'z logs_scheme \<Rightarrow> ('z logs_scheme, unit) result" where
  "log_write b s =
     (let l = log s; n = lh_n l in
      if n \<ge> int LOGSIZE \<or> n \<ge> lg_size l - 1 then Panic ''too big a transaction''
      else if lg_outstanding l < 1 then Panic ''log_write outside of trans''
      else
        let i = log_slot (lh_block l) (b_blockno (bufs s b)) [0..<nat n] (nat n);
            s = upd_log (\<lambda>l. l\<lparr>lh_block := (lh_block l)(i := b_blockno (bufs s b))\<rparr>) s in
        if int i = n then Ok () (upd_log (\<lambda>l. l\<lparr>lh_n := n + 1\<rparr>) (bpin b s)) else Ok () s)"

end
