(* ===== verification/Fs_Block.thy ===== *)
theory Fs_Block
  imports Log
begin

text \<open>
  The block layer of kernel/fs.c: the superblock and the group descriptor, the search of a bitmap for
  a free bit, and the allocation and release of blocks. A bitmap is the data of a buffer, BSIZE bytes;
  an access past the end of it is reported as a panic of the model.
\<close>

section \<open>Structures on disk\<close>

definition half_at :: "u8 list \<Rightarrow> nat \<Rightarrow> u16" where
  "half_at xs off = le_word (take 2 (drop off xs))"

definition word_at :: "u8 list \<Rightarrow> nat \<Rightarrow> u32" where
  "word_at xs off = le_word (take 4 (drop off xs))"

record ext2_superblock =
  s_ninodes :: u32
  s_nblocks :: u32
  s_first_data_block :: u32
  s_blocks_per_group :: u32
  s_inodes_per_group :: u32
  s_magic :: u16

definition superblock_of :: "u8 list \<Rightarrow> ext2_superblock" where
  "superblock_of xs = \<lparr>s_ninodes = word_at xs 0, s_nblocks = word_at xs 4, s_first_data_block = word_at xs 20,
     s_blocks_per_group = word_at xs 32, s_inodes_per_group = word_at xs 40, s_magic = half_at xs 56\<rparr>"

record group_desc =
  block_bitmap :: u32
  inode_bitmap :: u32
  inode_table :: u32
  free_blocks_count :: u16
  free_inodes_count :: u16
  used_dirs_count :: u16

definition group_desc_of :: "u8 list \<Rightarrow> group_desc" where
  "group_desc_of xs = \<lparr>block_bitmap = word_at xs 0, inode_bitmap = word_at xs 4, inode_table = word_at xs 8,
     free_blocks_count = half_at xs 12, free_inodes_count = half_at xs 14, used_dirs_count = half_at xs 16\<rparr>"

record inode =
  i_dev :: u32
  i_inum :: u32
  i_ref :: int
  i_lock :: sleeplock
  i_valid :: bool
  i_type :: u16
  i_major :: u16
  i_minor :: u16
  i_nlink :: u16
  i_size :: u32
  i_addrs :: "u32 list"

record fs = logs +
  sb :: ext2_superblock
  itable :: "nat \<Rightarrow> inode"

definition EXT2_FSMAGIC :: u16 where "EXT2_FSMAGIC = 0xEF53"

section \<open>The superblock\<close>

definition readsb :: "u32 \<Rightarrow> 'z fs_scheme \<Rightarrow> ('z fs_scheme, unit) result" where
  "readsb dev s =
     then_do (bread dev 1 s) (\<lambda>bp s.
     then_do (brelse bp (s\<lparr>sb := superblock_of (b_data (bufs s bp))\<rparr>)) (\<lambda>_ s.
     Ok () s))"

definition fsinit :: "u32 \<Rightarrow> 'z fs_scheme \<Rightarrow> ('z fs_scheme, unit) result" where
  "fsinit dev s =
     then_do (readsb dev s) (\<lambda>_ s.
     if s_magic (sb s) \<noteq> EXT2_FSMAGIC then Panic ''invalid file system'' else Ok () s)"

definition bzero :: "u32 \<Rightarrow> u32 \<Rightarrow> 'z fs_scheme \<Rightarrow> ('z fs_scheme, unit) result" where
  "bzero dev bno s =
     then_do (bread dev bno s) (\<lambda>bp s.
     then_do (bwrite bp (set_data bp (replicate BSIZE 0) s)) (\<lambda>_ s.
     brelse bp s))"

section \<open>Searching a bitmap\<close>

text \<open>
  The bits of a byte are tried from the most significant one; the scan stops at \<open>limit\<close> bytes, and
  overruns when that is more than the bitmap has.
\<close>

datatype scan = Found nat "u8 list" | Full | Overrun

definition bit_mask :: "nat \<Rightarrow> u8" where "bit_mask j = push_bit (7 - j) 1"

definition free_bit :: "u8 \<Rightarrow> nat option" where
  "free_bit x = List.find (\<lambda>j. x AND bit_mask j = 0) [0..<8]"

function free_block_from :: "nat \<Rightarrow> nat \<Rightarrow> u8 list \<Rightarrow> scan" where
  "free_block_from limit i bitmap =
     (if i \<ge> limit then Full
      else if i \<ge> length bitmap then Overrun
      else case free_bit (bitmap ! i) of
          Some j \<Rightarrow> Found (i * 8 + j) (bitmap[i := bitmap ! i OR bit_mask j])
        | None \<Rightarrow> free_block_from limit (i + 1) bitmap)"
  by pat_completeness auto
termination by (relation "measure (\<lambda>(limit, i, _). limit - i)") auto

declare free_block_from.simps [simp del]

definition ext2fs_free_block :: "u8 list \<Rightarrow> 'z fs_scheme \<Rightarrow> scan" where
  "ext2fs_free_block bitmap s = free_block_from (unat (s_blocks_per_group (sb s) * 8)) 0 bitmap"

section \<open>Allocating and freeing blocks\<close>

definition read_group :: "u32 \<Rightarrow> 'z fs_scheme \<Rightarrow> ('z fs_scheme, group_desc) result" where
  "read_group dev s =
     then_do (bread dev 2 s) (\<lambda>bp s.
     let g = group_desc_of (b_data (bufs s bp)) in
     then_do (brelse bp s) (\<lambda>_ s. Ok g s))"

definition balloc :: "u32 \<Rightarrow> 'z fs_scheme \<Rightarrow> ('z fs_scheme, u32) result" where
  "balloc dev s =
     then_do (read_group dev s) (\<lambda>gdesc s.
     then_do (bread dev (block_bitmap gdesc) s) (\<lambda>bp2 s.
     case ext2fs_free_block (b_data (bufs s bp2)) s of
       Overrun \<Rightarrow> Panic ''ext2fs_free_block: past the bitmap''
     | Full \<Rightarrow> then_do (brelse bp2 s) (\<lambda>_ s. Panic ''ext2_balloc: out of blocks'')
     | Found fbit bitmap \<Rightarrow>
         let zbno = block_bitmap gdesc + of_nat fbit in
         then_do (bwrite bp2 (set_data bp2 bitmap s)) (\<lambda>_ s.
         then_do (bzero dev zbno s) (\<lambda>_ s.
         then_do (brelse bp2 s) (\<lambda>_ s.
         Ok zbno s)))))"

definition bfree :: "u32 \<Rightarrow> u32 \<Rightarrow> 'z fs_scheme \<Rightarrow> ('z fs_scheme, unit) result" where
  "bfree dev b s =
     then_do (bread dev 2 s) (\<lambda>bp1 s.
     let bgdesc = group_desc_of (b_data (bufs s bp1)) in
     then_do (bread dev (block_bitmap bgdesc) s) (\<lambda>bp2 s.
     let b = b - block_bitmap bgdesc; mask = push_bit (unat (b mod 8)) 1; i = unat (b div 8);
         data = b_data (bufs s bp2) in
     if i \<ge> length data then Panic ''ext2fs_bfree: past the bitmap''
     else if data ! i AND mask = 0 then Panic ''ext2fs_bfree: block already free''
     else
       then_do (bwrite bp2 (set_data bp2 (data[i := data ! i AND NOT mask]) s)) (\<lambda>_ s.
       then_do (brelse bp2 s) (\<lambda>_ s.
       brelse bp1 s))))"

end
