(* ===== verification/Fs_Inode.thy ===== *)
theory Fs_Inode
  imports Fs_Block "HOL-Library.Signed_Division"
begin

text \<open>
  The inode layer of kernel/fs.c: inodes on disk and in the inode table, their allocation, references
  and locks, the truncation of a file, and the translation of file block numbers by bmap().
\<close>

section \<open>Inodes on disk\<close>

definition INODESIZE :: nat where "INODESIZE = 128"
definition DINODE_SIZE :: nat where "DINODE_SIZE = 116"   \<comment> \<open>sizeof(struct ext2_dinode)\<close>
definition EXT2_N_BLOCKS :: nat where "EXT2_N_BLOCKS = 15"
definition NINODE :: nat where "NINODE = 50"

definition EXT2_T_DIR :: u16 where "EXT2_T_DIR = 0x4000"
definition EXT2_T_FILE :: u16 where "EXT2_T_FILE = 0x8000"
definition EXT2_FILE_MODE_MASK :: u16 where "EXT2_FILE_MODE_MASK = 0xF000"
definition T_DIR :: u16 where "T_DIR = 1"
definition T_FILE :: u16 where "T_FILE = 2"
definition T_DEVICE :: u16 where "T_DEVICE = 3"

definition GET_FILE_MODE :: "u16 \<Rightarrow> u16" where
  "GET_FILE_MODE x = x AND EXT2_FILE_MODE_MASK"

record ext2_dinode =
  d_mode :: u16
  d_uid :: u16
  d_size :: u32
  d_atime :: u32
  d_ctime :: u32
  d_mtime :: u32
  d_dtime :: u32
  d_gid :: u16
  d_links_count :: u16
  d_blocks :: u32
  d_flags :: u32
  d_osd1 :: u32
  d_block :: "u32 list"
  d_generation :: u32
  d_file_acl :: u32
  d_dir_acl :: u32
  d_faddr :: u32

definition dinode_of :: "u8 list \<Rightarrow> ext2_dinode" where
  "dinode_of xs = \<lparr>d_mode = half_at xs 0, d_uid = half_at xs 2, d_size = word_at xs 4, d_atime = word_at xs 8,
     d_ctime = word_at xs 12, d_mtime = word_at xs 16, d_dtime = word_at xs 20, d_gid = half_at xs 24,
     d_links_count = half_at xs 26, d_blocks = word_at xs 28, d_flags = word_at xs 32, d_osd1 = word_at xs 36,
     d_block = map (\<lambda>i. word_at xs (40 + 4 * i)) [0..<EXT2_N_BLOCKS],
     d_generation = word_at xs 100, d_file_acl = word_at xs 104, d_dir_acl = word_at xs 108, d_faddr = word_at xs 112\<rparr>"

definition dinode_bytes :: "ext2_dinode \<Rightarrow> u8 list" where
  "dinode_bytes d = concat
     ([le_bytes 2 (d_mode d), le_bytes 2 (d_uid d), le_bytes 4 (d_size d), le_bytes 4 (d_atime d),
       le_bytes 4 (d_ctime d), le_bytes 4 (d_mtime d), le_bytes 4 (d_dtime d), le_bytes 2 (d_gid d),
       le_bytes 2 (d_links_count d), le_bytes 4 (d_blocks d), le_bytes 4 (d_flags d), le_bytes 4 (d_osd1 d)] @
      map (le_bytes 4) (d_block d) @
      [le_bytes 4 (d_generation d), le_bytes 4 (d_file_acl d), le_bytes 4 (d_dir_acl d), le_bytes 4 (d_faddr d)])"

section \<open>The inode table\<close>

abbreviation upd_inode :: "nat \<Rightarrow> (inode \<Rightarrow> inode) \<Rightarrow> 'z fs_scheme \<Rightarrow> 'z fs_scheme" where
  "upd_inode ip f s \<equiv> s\<lparr>itable := (itable s)(ip := f (itable s ip))\<rparr>"

abbreviation inode_lock :: "nat \<Rightarrow> 'z fs_scheme \<Rightarrow> sleeplock" where
  "inode_lock ip s \<equiv> i_lock (itable s ip)"

abbreviation upd_inode_lock :: "nat \<Rightarrow> (sleeplock \<Rightarrow> sleeplock) \<Rightarrow> 'z fs_scheme \<Rightarrow> 'z fs_scheme" where
  "upd_inode_lock ip f \<equiv> upd_inode ip (\<lambda>k. k\<lparr>i_lock := f (i_lock k)\<rparr>)"

interpretation inode_sleeplock: sleeplock_field "inode_lock ip" "upd_inode_lock ip" "ChanInodeLock ip" for ip
  by unfold_locales (simp_all add: wakeup_def)

definition iinit :: "'z fs_scheme \<Rightarrow> 'z fs_scheme" where
  "iinit s = s\<lparr>itable := (\<lambda>i. if i < NINODE then (itable s i)\<lparr>i_lock := unlocked\<rparr> else itable s i)\<rparr>"

text \<open>The loop of iget(): the entry that matches, and the first empty entry before it.\<close>

fun iget_scan :: "u32 \<Rightarrow> u32 \<Rightarrow> nat list \<Rightarrow> nat option \<Rightarrow> (nat \<Rightarrow> inode) \<Rightarrow> nat option \<times> nat option" where
  "iget_scan dev inum [] unused f = (None, unused)"
| "iget_scan dev inum (ip # rest) unused f =
     (if i_ref (f ip) > 0 \<and> i_dev (f ip) = dev \<and> i_inum (f ip) = inum then (Some ip, unused)
      else iget_scan dev inum rest (if unused = None \<and> i_ref (f ip) = 0 then Some ip else unused) f)"

definition iget :: "u32 \<Rightarrow> u32 \<Rightarrow> 'z fs_scheme \<Rightarrow> ('z fs_scheme, nat) result" where
  "iget dev inum s =
     (case iget_scan dev inum [0..<NINODE] None (itable s) of
        (Some ip, _) \<Rightarrow> Ok ip (upd_inode ip (\<lambda>k. k\<lparr>i_ref := i_ref k + 1\<rparr>) s)
      | (None, None) \<Rightarrow> Panic ''iget: no inodes''
      | (None, Some ip) \<Rightarrow>
          Ok ip (upd_inode ip (\<lambda>k. k\<lparr>i_dev := dev, i_inum := inum, i_ref := 1, i_valid := False\<rparr>) s))"

definition idup :: "nat \<Rightarrow> 'z fs_scheme \<Rightarrow> ('z fs_scheme, nat) result" where
  "idup ip s = Ok ip (upd_inode ip (\<lambda>k. k\<lparr>i_ref := i_ref k + 1\<rparr>) s)"

text \<open>
  ialloc() takes the record with index \<open>fbit\<close> from the inode table: it finds the place in the block with
  the size of struct ext2_dinode, while ilock() and iupdate() use INODESIZE.
\<close>

definition ialloc :: "u32 \<Rightarrow> u16 \<Rightarrow> 'z fs_scheme \<Rightarrow> ('z fs_scheme, nat) result" where
  "ialloc dev type s =
     then_do (read_group dev s) (\<lambda>bgdesc s.
     then_do (bread dev (inode_bitmap bgdesc) s) (\<lambda>bp2 s.
     case ext2fs_free_block (b_data (bufs s bp2)) s of
       Overrun \<Rightarrow> Panic ''ext2fs_free_block: past the bitmap''
     | Full \<Rightarrow> then_do (brelse bp2 s) (\<lambda>_ s. Panic ''ext2_ialloc: no inodes'')
     | Found fbit bitmap \<Rightarrow>
         let s = set_data bp2 bitmap s;
             bno = inode_table bgdesc + of_nat (fbit div (BSIZE div DINODE_SIZE));
             iindex = fbit mod (BSIZE div DINODE_SIZE) in
         then_do (bread dev bno s) (\<lambda>bp3 s.
         let din = put_bytes (iindex * DINODE_SIZE) (replicate DINODE_SIZE 0) (b_data (bufs s bp3));
             din = (if type = T_DIR then put_bytes (iindex * DINODE_SIZE) (le_bytes 2 EXT2_T_DIR) din
                    else if type = T_FILE then put_bytes (iindex * DINODE_SIZE) (le_bytes 2 EXT2_T_FILE) din
                    else din) in
         then_do (bwrite bp3 (set_data bp3 din s)) (\<lambda>_ s.
         then_do (bwrite bp2 s) (\<lambda>_ s.
         then_do (brelse bp3 s) (\<lambda>_ s.
         then_do (brelse bp2 s) (\<lambda>_ s.
         iget dev (of_nat (fbit + 1)) s)))))))"

definition dinode_at :: "nat \<Rightarrow> u8 list \<Rightarrow> ext2_dinode" where
  "dinode_at iindex data = dinode_of (take DINODE_SIZE (drop (iindex * INODESIZE) data))"

text \<open>\<^verbatim>\<open>sizeof(ad)\<close> is the size of a pointer: only the first two block numbers are copied.\<close>

definition dinode_update :: "inode \<Rightarrow> ext2_dinode \<Rightarrow> ext2_dinode" where
  "dinode_update ip d =
     (let d = (if i_type ip = T_DIR then d\<lparr>d_mode := EXT2_T_DIR\<rparr> else d);
          d = (if i_type ip = T_FILE then d\<lparr>d_mode := EXT2_T_FILE\<rparr> else d) in
      d\<lparr>d_links_count := i_nlink ip, d_size := i_size ip, d_dtime := 0, d_faddr := 0, d_file_acl := 0,
        d_flags := 0, d_generation := 0, d_gid := 0, d_mtime := 0, d_uid := 0, d_atime := 0,
        d_block := take 2 (i_addrs ip) @ drop 2 (d_block d)\<rparr>)"

definition iupdate :: "nat \<Rightarrow> 'z fs_scheme \<Rightarrow> ('z fs_scheme, unit) result" where
  "iupdate ip s =
     then_do (read_group (i_dev (itable s ip)) s) (\<lambda>gdes s.
     let k = itable s ip;
         bno = inode_table gdes + (i_inum k - 1) div 8;
         iindex = unat ((i_inum k - 1) mod 8) in
     then_do (bread (i_dev k) bno s) (\<lambda>bp s.
     let data = b_data (bufs s bp);
         din = dinode_update k (dinode_at iindex data) in
     then_do (bwrite bp (set_data bp (put_bytes (iindex * INODESIZE) (dinode_bytes din) data) s)) (\<lambda>_ s.
     brelse bp s)))"

section \<open>Locks\<close>

text \<open>What ilock() fills in from the inode on disk.\<close>

definition inode_load :: "ext2_dinode \<Rightarrow> inode \<Rightarrow> inode" where
  "inode_load din k = k\<lparr>
     i_type := (if GET_FILE_MODE (d_mode din) = EXT2_T_DIR \<or> d_mode din = T_DIR then T_DIR else T_FILE),
     i_major := 0, i_minor := 0, i_nlink := d_links_count din, i_size := d_size din,
     i_addrs := d_block din, i_valid := True\<rparr>"

definition rootilock :: "nat option \<Rightarrow> 'z fs_scheme \<Rightarrow> ('z fs_scheme, unit) result" where
  "rootilock ipo s =
     (case ipo of
        None \<Rightarrow> Panic ''ilock''
      | Some ip \<Rightarrow>
          if i_ref (itable s ip) < 1 then Panic ''ilock''
          else if i_valid (itable s ip) then Ok () s
          else
            then_do (read_group (i_dev (itable s ip)) s) (\<lambda>group s.
            then_do (bread (i_dev (itable s ip)) (inode_table group) s) (\<lambda>bp s.
            let din = dinode_at 1 (b_data (bufs s bp)) in
            then_do (brelse bp s) (\<lambda>_ s.
            let s = upd_inode ip (inode_load din) s in
            if i_type (itable s ip) = 0 then Panic ''ilock: no type'' else Ok () s))))"

text \<open>
  \<^verbatim>\<open>offset\<close> is a signed int, so that for inode number 0 the remainder is negative and the copy starts
  before the data of the buffer.
\<close>

definition ilock :: "nat option \<Rightarrow> 'z fs_scheme \<Rightarrow> ('z fs_scheme, unit) result" where
  "ilock ipo s =
     (case ipo of
        None \<Rightarrow> Panic ''ilock''
      | Some ip \<Rightarrow>
          if i_ref (itable s ip) < 1 then Panic ''ilock''
          else
            then_do (acquiresleep (ChanInodeLock ip) (inode_lock ip) (upd_inode_lock ip) s) (\<lambda>_ s.
            if i_valid (itable s ip) then Ok () s
            else
              let offset = sint (i_inum (itable s ip) - 1) in
              then_do (read_group (i_dev (itable s ip)) s) (\<lambda>group s.
              then_do (bread (i_dev (itable s ip)) (inode_table group + of_int (offset sdiv 8)) s) (\<lambda>bp1 s.
              if offset smod 8 < 0 then Panic ''ilock: before the block''
              else
                let din = dinode_at (nat (offset smod 8)) (b_data (bufs s bp1)) in
                then_do (brelse bp1 s) (\<lambda>_ s.
                let s = upd_inode ip (inode_load din) s in
                if i_type (itable s ip) = 0 then Panic ''ilock: no type'' else Ok () s)))))"

definition iunlock :: "nat option \<Rightarrow> 'z fs_scheme \<Rightarrow> ('z fs_scheme, unit) result" where
  "iunlock ipo s =
     (case ipo of
        None \<Rightarrow> Panic ''iunlock''
      | Some ip \<Rightarrow>
          then_do (holdingsleep (inode_lock ip) s) (\<lambda>h s.
          if \<not> h \<or> i_ref (itable s ip) < 1 then Panic ''iunlock''
          else releasesleep (ChanInodeLock ip) (upd_inode_lock ip) s))"

section \<open>Truncation and release\<close>

definition EXT2_NDIRECT :: nat where "EXT2_NDIRECT = 12"
definition EXT2_NINDIRECT :: nat where "EXT2_NINDIRECT = 256"
definition EXT2_NDINDIRECT :: nat where "EXT2_NDINDIRECT = EXT2_NINDIRECT * EXT2_NINDIRECT"
definition EXT2_NTINDIRECT :: nat where "EXT2_NTINDIRECT = EXT2_NINDIRECT * EXT2_NDINDIRECT"

text \<open>
  The loop over the entries of an indirect block: every entry that is not zero is freed by \<open>free\<close> and
  cleared in the buffer.
\<close>

fun free_entries :: "(u32 \<Rightarrow> 'z fs_scheme \<Rightarrow> ('z fs_scheme, unit) result) \<Rightarrow> nat \<Rightarrow> nat list \<Rightarrow>
    'z fs_scheme \<Rightarrow> ('z fs_scheme, unit) result" where
  "free_entries free bp [] s = Ok () s"
| "free_entries free bp (i # rest) s =
     (let a = word_of (b_data (bufs s bp)) i in
      if a \<noteq> 0 then
        then_do (free a s) (\<lambda>_ s.
        free_entries free bp rest (set_data bp (set_word i 0 (b_data (bufs s bp))) s))
      else free_entries free bp rest s)"

text \<open>The three nested loops of itrunc(): level 0 is a data block, level 1 an indirect block, and so on.\<close>

primrec free_level :: "nat \<Rightarrow> u32 \<Rightarrow> u32 \<Rightarrow> 'z fs_scheme \<Rightarrow> ('z fs_scheme, unit) result" where
  "free_level 0 dev = bfree dev"
| "free_level (Suc l) dev = (\<lambda>b s.
     then_do (bread dev b s) (\<lambda>bp s.
     then_do (free_entries (free_level l dev) bp [0..<EXT2_NINDIRECT] s) (\<lambda>_ s.
     then_do (brelse bp s) (\<lambda>_ s.
     bfree dev b s))))"

definition trunc_slot :: "nat \<Rightarrow> nat \<Rightarrow> nat \<Rightarrow> 'z fs_scheme \<Rightarrow> ('z fs_scheme, unit) result" where
  "trunc_slot ip l i s =
     (let a = i_addrs (itable s ip) ! i in
      if a \<noteq> 0 then
        then_do (free_level l (i_dev (itable s ip)) a s) (\<lambda>_ s.
        Ok () (upd_inode ip (\<lambda>k. k\<lparr>i_addrs := (i_addrs k)[i := 0]\<rparr>) s))
      else Ok () s)"

fun trunc_slots :: "nat \<Rightarrow> (nat \<times> nat) list \<Rightarrow> 'z fs_scheme \<Rightarrow> ('z fs_scheme, unit) result" where
  "trunc_slots ip [] s = Ok () s"
| "trunc_slots ip ((l, i) # rest) s = then_do (trunc_slot ip l i s) (\<lambda>_ s. trunc_slots ip rest s)"

definition itrunc :: "nat \<Rightarrow> 'z fs_scheme \<Rightarrow> ('z fs_scheme, unit) result" where
  "itrunc ip s =
     then_do (trunc_slots ip (map (Pair 0) [0..<EXT2_NDIRECT] @ [(1, 12), (2, 13), (3, 14)]) s) (\<lambda>_ s.
     iupdate ip (upd_inode ip (\<lambda>k. k\<lparr>i_size := 0\<rparr>) s))"

definition iput :: "nat \<Rightarrow> 'z fs_scheme \<Rightarrow> ('z fs_scheme, unit) result" where
  "iput ip s =
     then_do
       (if i_ref (itable s ip) = 1 \<and> i_valid (itable s ip) \<and> i_nlink (itable s ip) = 0 then
          then_do (acquiresleep (ChanInodeLock ip) (inode_lock ip) (upd_inode_lock ip) s) (\<lambda>_ s.
          then_do (itrunc ip s) (\<lambda>_ s.
          then_do (iupdate ip (upd_inode ip (\<lambda>k. k\<lparr>i_type := 0\<rparr>) s)) (\<lambda>_ s.
          releasesleep (ChanInodeLock ip) (upd_inode_lock ip) (upd_inode ip (\<lambda>k. k\<lparr>i_valid := False\<rparr>) s))))
        else Ok () s) (\<lambda>_ s.
     Ok () (upd_inode ip (\<lambda>k. k\<lparr>i_ref := i_ref k - 1\<rparr>) s))"

definition iunlockput :: "nat \<Rightarrow> 'z fs_scheme \<Rightarrow> ('z fs_scheme, unit) result" where
  "iunlockput ip s = then_do (iunlock (Some ip) s) (\<lambda>_ s. iput ip s)"

section \<open>Blocks of a file\<close>

text \<open>An entry of \<open>ip->addrs\<close> and of an indirect block; an entry that is zero is allocated.\<close>

definition addr_slot :: "nat \<Rightarrow> nat \<Rightarrow> 'z fs_scheme \<Rightarrow> ('z fs_scheme, u32) result" where
  "addr_slot ip i s =
     (let addr = i_addrs (itable s ip) ! i in
      if addr = 0 then
        then_do (balloc (i_dev (itable s ip)) s) (\<lambda>addr s.
        Ok addr (upd_inode ip (\<lambda>k. k\<lparr>i_addrs := (i_addrs k)[i := addr]\<rparr>) s))
      else Ok addr s)"

definition indirect_slot :: "u32 \<Rightarrow> nat \<Rightarrow> nat \<Rightarrow> 'z fs_scheme \<Rightarrow> ('z fs_scheme, u32) result" where
  "indirect_slot dev bp i s =
     (let addr = word_of (b_data (bufs s bp)) i in
      if addr = 0 then
        then_do (balloc dev s) (\<lambda>addr s.
        Ok addr (set_data bp (set_word i addr (b_data (bufs s bp))) s))
      else Ok addr s)"

definition bmap :: "nat \<Rightarrow> u32 \<Rightarrow> 'z fs_scheme \<Rightarrow> ('z fs_scheme, u32) result" where
  "bmap ip bno s =
     (let dev = i_dev (itable s ip); bn = unat bno in
      if bn < EXT2_NDIRECT then addr_slot ip bn s
      else let bn = bn - EXT2_NDIRECT in
      if bn < EXT2_NINDIRECT then
        then_do (addr_slot ip 12 s) (\<lambda>addr s.
        then_do (bread dev addr s) (\<lambda>bp s.
        then_do (indirect_slot dev bp bn s) (\<lambda>addr s.
        then_do (brelse bp s) (\<lambda>_ s. Ok addr s))))
      else let bn = bn - EXT2_NINDIRECT in
      if bn < EXT2_NDINDIRECT then
        then_do (addr_slot ip 13 s) (\<lambda>addr s.
        then_do (bread dev addr s) (\<lambda>bp s.
        then_do (indirect_slot dev bp (bn div EXT2_NINDIRECT) s) (\<lambda>addr s.
        then_do (bread dev addr s) (\<lambda>bp1 s.
        then_do (indirect_slot dev bp1 (bn mod EXT2_NINDIRECT) s) (\<lambda>addr s.
        then_do (brelse bp s) (\<lambda>_ s.
        then_do (brelse bp1 s) (\<lambda>_ s. Ok addr s)))))))
      else let bn = bn - EXT2_NDINDIRECT in
      if bn < EXT2_NTINDIRECT then
        then_do (addr_slot ip 14 s) (\<lambda>addr s.
        then_do (bread dev addr s) (\<lambda>bp s.
        then_do (indirect_slot dev bp (bn div EXT2_NDINDIRECT) s) (\<lambda>addr s.
        then_do (bread dev addr s) (\<lambda>bp1 s.
        let bn = bn mod EXT2_NDINDIRECT in
        then_do (indirect_slot dev bp1 (bn div EXT2_NINDIRECT) s) (\<lambda>addr s.
        then_do (bread dev addr s) (\<lambda>bp2 s.
        then_do (indirect_slot dev bp2 (bn mod EXT2_NINDIRECT) s) (\<lambda>addr s.
        then_do (brelse bp s) (\<lambda>_ s.
        then_do (brelse bp1 s) (\<lambda>_ s.
        then_do (brelse bp2 s) (\<lambda>_ s. Ok addr s))))))))))
      else Panic ''ext2_bmap: block number out of range'')"

end
