(* ===== verification/Fs_Dir.thy ===== *)
theory Fs_Dir
  imports Fs_Inode Kstring
begin

text \<open>
  File contents, directories and path names, kernel/fs.c. The destination of readi() and the source of
  writei() are a user address, a kernel address in physical memory, or a local variable of the caller
  (\<open>LocalDst\<close>, \<open>LocalSrc\<close>), whose bytes are returned or given. Names are the bytes that skipelem() writes:
  DIRSIZ bytes, or fewer with a terminating zero.
\<close>

section \<open>Reading and writing files\<close>

record stat =
  st_dev :: u32
  st_ino :: u32
  st_type :: u16
  st_nlink :: u16
  st_size :: u64

definition stati :: "nat \<Rightarrow> 'z fs_scheme \<Rightarrow> stat" where
  "stati ip s = (let k = itable s ip in
     \<lparr>st_dev = i_dev k, st_ino = i_inum k, st_type = i_type k, st_nlink = i_nlink k, st_size = ucast (i_size k)\<rparr>)"

datatype dst = UserDst u64 | KernDst u64 | LocalDst

definition copy_to :: "dst \<Rightarrow> u64 \<Rightarrow> u8 list \<Rightarrow> 'z procs_scheme \<Rightarrow> ('z procs_scheme, int) result" where
  "copy_to dst off bs s =
     (case dst of
        UserDst a \<Rightarrow> either_copyout True (a + off) bs s
      | KernDst a \<Rightarrow> either_copyout False (a + off) bs s
      | LocalDst \<Rightarrow> Ok 0 s)"

definition chunk :: "nat \<Rightarrow> u32 \<Rightarrow> nat" where
  "chunk left off = min left (BSIZE - unat off mod BSIZE)"

lemma chunk_bounds: "left \<noteq> 0 \<Longrightarrow> 0 < chunk left off \<and> chunk left off \<le> left \<and> unat off mod BSIZE + chunk left off \<le> BSIZE"
proof -
  have "unat off mod BSIZE < BSIZE" by (rule mod_less_divisor) (simp add: BSIZE_def)
  then show "left \<noteq> 0 \<Longrightarrow> ?thesis" by (simp add: chunk_def)
qed

text \<open>\<open>tot\<close> bytes are done and \<open>left\<close> are still to be read. The result of either_copyout() is not looked at.\<close>

function readi_loop :: "nat \<Rightarrow> dst \<Rightarrow> u32 \<Rightarrow> nat \<Rightarrow> nat \<Rightarrow> 'z fs_scheme \<Rightarrow> ('z fs_scheme, u8 list) result" where
  "readi_loop ip dst off tot left s =
     (if left = 0 then Ok [] s
      else
        then_do (bmap ip (off div of_nat BSIZE) s) (\<lambda>addr s.
        then_do (bread (i_dev (itable s ip)) addr s) (\<lambda>bp s.
        let m = chunk left off;
            bs = take m (drop (unat off mod BSIZE) (b_data (bufs s bp))) in
        then_do (copy_to dst (of_nat tot) bs s) (\<lambda>_ s.
        then_do (brelse bp s) (\<lambda>_ s.
        then_do (readi_loop ip dst (off + of_nat m) (tot + m) (left - m) s) (\<lambda>rest s.
        Ok (bs @ rest) s))))))"
  by pat_completeness auto
termination
  by (relation "measure (\<lambda>(ip, dst, off, tot, left, s). left)") (use chunk_bounds in \<open>auto simp: Let_def\<close>)

declare readi_loop.simps [simp del]

definition readi :: "nat \<Rightarrow> dst \<Rightarrow> u32 \<Rightarrow> u32 \<Rightarrow> 'z fs_scheme \<Rightarrow> ('z fs_scheme, int \<times> u8 list) result" where
  "readi ip dst off n s =
     (let size = i_size (itable s ip) in
      if off > size \<or> off + n < off then Ok (-1, []) s
      else
        let n = (if off + n > size then size - off else n) in
        then_do (readi_loop ip dst off 0 (unat n) s) (\<lambda>bs s. Ok (sint n, bs) s))"

datatype src = UserSrc u64 | KernSrc u64 | LocalSrc "u8 list"

definition copy_from :: "src \<Rightarrow> nat \<Rightarrow> nat \<Rightarrow> 'z procs_scheme \<Rightarrow> ('z procs_scheme, int \<times> u8 list) result" where
  "copy_from src off n s =
     (case src of
        UserSrc a \<Rightarrow> either_copyin True (a + of_nat off) n s
      | KernSrc a \<Rightarrow> either_copyin False (a + of_nat off) n s
      | LocalSrc bs \<Rightarrow> Ok (0, take n (drop off bs)) s)"

definition MAXFILE :: nat where "MAXFILE = 268"

text \<open>The result is the number of bytes written and the offset reached.\<close>

function writei_loop :: "nat \<Rightarrow> src \<Rightarrow> u32 \<Rightarrow> nat \<Rightarrow> nat \<Rightarrow> 'z fs_scheme \<Rightarrow> ('z fs_scheme, nat \<times> u32) result" where
  "writei_loop ip src off tot left s =
     (if left = 0 then Ok (tot, off) s
      else
        then_do (bmap ip (off div of_nat BSIZE) s) (\<lambda>addr s.
        if addr = 0 then Ok (tot, off) s
        else
          then_do (bread (i_dev (itable s ip)) addr s) (\<lambda>bp s.
          let m = chunk left off in
          then_do (copy_from src tot m s) (\<lambda>(r, bs) s.
          let s = set_data bp (put_bytes (unat off mod BSIZE) bs (b_data (bufs s bp))) s in
          then_do (brelse bp s) (\<lambda>_ s.
          if r = -1 then Ok (tot, off) s
          else writei_loop ip src (off + of_nat m) (tot + m) (left - m) s)))))"
  by pat_completeness auto
termination
  by (relation "measure (\<lambda>(ip, src, off, tot, left, s). left)") (use chunk_bounds in \<open>auto simp: Let_def\<close>)

declare writei_loop.simps [simp del]

definition writei :: "nat \<Rightarrow> src \<Rightarrow> u32 \<Rightarrow> u32 \<Rightarrow> 'z fs_scheme \<Rightarrow> ('z fs_scheme, int) result" where
  "writei ip src off n s =
     (if off > i_size (itable s ip) \<or> off + n < off then Ok (-1) s
      else if unat (off + n) > MAXFILE * BSIZE then Ok (-1) s
      else
        then_do (writei_loop ip src off 0 (unat n) s) (\<lambda>(tot, off) s.
        let s = (if off > i_size (itable s ip) then upd_inode ip (\<lambda>k. k\<lparr>i_size := off\<rparr>) s else s) in
        then_do (iupdate ip s) (\<lambda>_ s. Ok (int tot) s)))"

section \<open>Directories\<close>

definition DIRSIZ :: nat where "DIRSIZ = 14"
definition DIRENT2_SIZE :: nat where "DIRENT2_SIZE = 264"   \<comment> \<open>sizeof(struct ext2_dirent)\<close>

definition namecmp :: "u8 list \<Rightarrow> u8 list \<Rightarrow> int" where
  "namecmp s t = strncmp (cstr_of_list s) (cstr_of_list t) DIRSIZ"

record ext2_dirent =
  de_inode :: u32
  de_rec_len :: u16
  de_name_len :: u8
  de_file_type :: u8
  de_name :: "u8 list"

definition dirent_of :: "u8 list \<Rightarrow> ext2_dirent" where
  "dirent_of xs = \<lparr>de_inode = word_at xs 0, de_rec_len = half_at xs 4, de_name_len = xs ! 6, de_file_type = xs ! 7,
     de_name = take 255 (drop 8 xs)\<rparr>"

text \<open>strncpy() into a local array: the bytes up to a zero, filled up with zeros.\<close>

definition strncpy_bytes :: "nat \<Rightarrow> u8 list \<Rightarrow> u8 list" where
  "strncpy_bytes n xs = (let t = takeWhile (\<lambda>c. c \<noteq> 0) (take n xs) in t @ replicate (n - length t) 0)"

definition entry_name :: "ext2_dirent \<Rightarrow> u8 list" where
  "entry_name de = strncpy_bytes (unat (de_name_len de)) (de_name de) @ [0]"

definition entry_matches :: "u8 list \<Rightarrow> ext2_dirent \<Rightarrow> bool" where
  "entry_matches name de \<longleftrightarrow>
     (namecmp name (drop 1 (entry_name de)) = 0 \<and> de_name de ! 0 = 0x5F) \<or> namecmp name (entry_name de) = 0"

text \<open>
  The offset wraps around at 32 bits. There are 2 ^ 32 offsets, so a scan that takes more steps has
  come back to one of them and never ends.
\<close>

function dirlookup_loop :: "nat \<Rightarrow> nat \<Rightarrow> u8 list \<Rightarrow> u32 \<Rightarrow> 'z fs_scheme \<Rightarrow>
    ('z fs_scheme, (u32 \<times> u32) option) result" where
  "dirlookup_loop fuel dp name off s =
     (if off < i_size (itable s dp) then
        if fuel = 0 then Hang
        else
          then_do (readi dp LocalDst off (of_nat DIRENT2_SIZE) s) (\<lambda>(r, bs) s.
          if r \<noteq> int DIRENT2_SIZE then Panic ''dirlookup read''
          else
            let de = dirent_of bs in
            if de_inode de = 0 then dirlookup_loop (fuel - 1) dp name (off + ucast (de_rec_len de)) s
            else if entry_matches name de then Ok (Some (de_inode de, off)) s
            else dirlookup_loop (fuel - 1) dp name (off + ucast (de_rec_len de)) s)
      else Ok None s)"
  by pat_completeness auto
termination by (relation "measure (\<lambda>(fuel, dp, name, off, s). fuel)") auto

declare dirlookup_loop.simps [simp del]

definition dirlookup :: "nat \<Rightarrow> u8 list \<Rightarrow> 'z fs_scheme \<Rightarrow> ('z fs_scheme, (nat \<times> u32) option) result" where
  "dirlookup dp name s =
     (if i_type (itable s dp) \<noteq> T_DIR then Panic ''dirlookup not DIR''
      else
        then_do (dirlookup_loop (2 ^ 32) dp name 0 s) (\<lambda>r s.
        case r of
          None \<Rightarrow> Ok None s
        | Some (inum, off) \<Rightarrow> then_do (iget (i_dev (itable s dp)) inum s) (\<lambda>ip s. Ok (Some (ip, off)) s)))"

text \<open>The loop of print_root_files() and print_cwd_files(): the lines are the names and inode numbers printed.\<close>

function list_files :: "nat \<Rightarrow> nat \<Rightarrow> u32 \<Rightarrow> 'z fs_scheme \<Rightarrow> ('z fs_scheme, (u8 list \<times> u32) list) result" where
  "list_files fuel dp off s =
     (if off < i_size (itable s dp) then
        if fuel = 0 then Hang
        else
          then_do (readi dp LocalDst off (of_nat DIRENT2_SIZE) s) (\<lambda>(r, bs) s.
          if r \<noteq> int DIRENT2_SIZE then Panic ''dirlookup read''
          else
            let de = dirent_of bs in
            then_do (list_files (fuel - 1) dp (off + ucast (de_rec_len de)) s) (\<lambda>rest s.
            Ok (if de_inode de = 0 then rest else (takeWhile (\<lambda>c. c \<noteq> 0) (de_name de), de_inode de) # rest) s))
      else Ok [] s)"
  by pat_completeness auto
termination by (relation "measure (\<lambda>(fuel, dp, off, s). fuel)") auto

declare list_files.simps [simp del]

definition ROOTDEV :: u32 where "ROOTDEV = 1"
definition EXT2_ROOTDEV :: u32 where "EXT2_ROOTDEV = 2"
definition EXT2_ROOTINO :: u32 where "EXT2_ROOTINO = 2"

text \<open>These three end with exit(0), which theory Procfs adds.\<close>

definition print_root_files :: "'z fs_scheme \<Rightarrow> ('z fs_scheme, (u8 list \<times> u32) list) result" where
  "print_root_files s =
     then_do (iget ROOTDEV EXT2_ROOTINO s) (\<lambda>dp s.
     then_do (ilock (Some dp) s) (\<lambda>_ s.
     then_do (list_files (2 ^ 32) dp 0 s) (\<lambda>ls s.
     then_do (iunlockput dp s) (\<lambda>_ s. Ok ls s))))"

definition print_cwd_files :: "'z fs_scheme \<Rightarrow> ('z fs_scheme, (u8 list \<times> u32) list) result" where
  "print_cwd_files s = with_proc (\<lambda>p s.
     then_do (ilock (p_cwd (procs s p)) s) (\<lambda>_ s.
     case p_cwd (procs s p) of
       None \<Rightarrow> Panic ''ilock''
     | Some dp \<Rightarrow>
         then_do (list_files (2 ^ 32) dp 0 s) (\<lambda>ls s.
         then_do (iunlockput dp s) (\<lambda>_ s. Ok ls s)))) s"

definition print_cat_file :: "u8 list \<Rightarrow> 'z fs_scheme \<Rightarrow> ('z fs_scheme, u8 list) result" where
  "print_cat_file name s = with_proc (\<lambda>p s.
     case p_cwd (procs s p) of
       None \<Rightarrow> Panic ''kerneltrap''
     | Some dp \<Rightarrow>
         then_do (dirlookup dp name s) (\<lambda>r s.
         case r of
           None \<Rightarrow> Panic ''kerneltrap''
         | Some (fi, poff) \<Rightarrow>
             then_do (readi fi LocalDst 0 (i_size (itable s fi)) s) (\<lambda>(n, bs) s. Ok bs s))) s"

section \<open>Adding an entry\<close>

text \<open>dirlink() works with the 16-byte entries of struct dirent. readi() leaves \<open>dp->size\<close> alone.\<close>

function dirlink_scan :: "nat \<Rightarrow> nat \<Rightarrow> nat \<Rightarrow> 'z fs_scheme \<Rightarrow> ('z fs_scheme, nat) result" where
  "dirlink_scan dp sz off s =
     (if off < sz then
        then_do (readi dp LocalDst (of_nat off) 16 s) (\<lambda>(r, bs) s.
        if r \<noteq> 16 then Panic ''dirlink read''
        else if half_at bs 0 = 0 then Ok off s
        else dirlink_scan dp sz (off + 16) s)
      else Ok off s)"
  by pat_completeness auto
termination by (relation "measure (\<lambda>(dp, sz, off, s). sz - off)") auto

declare dirlink_scan.simps [simp del]

definition dirlink :: "nat \<Rightarrow> u8 list \<Rightarrow> u32 \<Rightarrow> 'z fs_scheme \<Rightarrow> ('z fs_scheme, int) result" where
  "dirlink dp name inum s =
     then_do (dirlookup dp name s) (\<lambda>r s.
     case r of
       Some (ip, _) \<Rightarrow> then_do (iput ip s) (\<lambda>_ s. Ok (-1) s)
     | None \<Rightarrow>
         then_do (dirlink_scan dp (unat (i_size (itable s dp))) 0 s) (\<lambda>off s.
         let de = le_bytes 2 (ucast inum :: u16) @ strncpy_bytes DIRSIZ name in
         then_do (writei dp (LocalSrc de) (of_nat off) 16 s) (\<lambda>r s.
         if r \<noteq> 16 then Ok (-1) s else Ok 0 s)))"

section \<open>Paths\<close>

text \<open>
  A path is the bytes before its terminating zero. skipelem() returns the rest of the path and the
  bytes that it writes to \<^verbatim>\<open>name\<close>.
\<close>

definition SLASH :: u8 where "SLASH = 0x2F"

definition skipelem :: "u8 list \<Rightarrow> (u8 list \<times> u8 list) option" where
  "skipelem pth =
     (let pth = dropWhile (\<lambda>c. c = SLASH) pth in
      if pth = [] then None
      else
        let s = takeWhile (\<lambda>c. c \<noteq> SLASH) pth;
            rest = dropWhile (\<lambda>c. c \<noteq> SLASH) pth;
            name = (if length s \<ge> DIRSIZ then take DIRSIZ s else s @ [0])
        in Some (dropWhile (\<lambda>c. c = SLASH) rest, name))"

lemma skipelem_shorter: "skipelem pth = Some (rest, name) \<Longrightarrow> length rest < length pth"
proof -
  assume a: "skipelem pth = Some (rest, name)"
  let ?p = "dropWhile (\<lambda>c. c = SLASH) pth"
  have ne: "?p \<noteq> []" and r: "rest = dropWhile (\<lambda>c. c = SLASH) (dropWhile (\<lambda>c. c \<noteq> SLASH) ?p)"
    using a by (auto simp: skipelem_def Let_def split: if_splits)
  have "hd ?p \<noteq> SLASH" using hd_dropWhile [OF ne] .
  then have "length (dropWhile (\<lambda>c. c \<noteq> SLASH) ?p) < length ?p"
    using ne by (cases ?p) (auto intro: le_imp_less_Suc length_dropWhile_le)
  moreover have "length rest \<le> length (dropWhile (\<lambda>c. c \<noteq> SLASH) ?p)" unfolding r by (rule length_dropWhile_le)
  moreover have "length ?p \<le> length pth" by (rule length_dropWhile_le)
  ultimately show ?thesis by simp
qed

text \<open>The loop of namex(): the inode, or the null pointer, and the last name.\<close>

function namex_loop :: "bool \<Rightarrow> nat \<Rightarrow> u8 list \<Rightarrow> u8 list \<Rightarrow> 'z fs_scheme \<Rightarrow>
    ('z fs_scheme, nat option \<times> u8 list) result" where
  "namex_loop parent ip pth name s =
     (case skipelem pth of
        None \<Rightarrow> if parent then then_do (iput ip s) (\<lambda>_ s. Ok (None, name) s) else Ok (Some ip, name) s
      | Some (pth', name) \<Rightarrow>
          then_do (ilock (Some ip) s) (\<lambda>_ s.
          if i_type (itable s ip) \<noteq> T_DIR then then_do (iunlockput ip s) (\<lambda>_ s. Ok (None, name) s)
          else if parent \<and> pth' = [] then then_do (iunlock (Some ip) s) (\<lambda>_ s. Ok (Some ip, name) s)
          else
            then_do (dirlookup ip name s) (\<lambda>r s.
            case r of
              None \<Rightarrow> then_do (iunlockput ip s) (\<lambda>_ s. Ok (None, name) s)
            | Some (next, _) \<Rightarrow> then_do (iunlockput ip s) (\<lambda>_ s. namex_loop parent next pth' name s))))"
  by pat_completeness auto
termination
  by (relation "measure (\<lambda>(parent, ip, pth, name, s). length pth)") (auto dest: skipelem_shorter)

declare namex_loop.simps [simp del]

text \<open>
  namex() looks at \<^verbatim>\<open>*(path+1)\<close>: for the empty pth that is the byte after the terminating zero, which
  the argument \<open>junk\<close> stands for.
\<close>

definition namex :: "bool \<Rightarrow> u8 list \<Rightarrow> bool \<Rightarrow> 'z fs_scheme \<Rightarrow> ('z fs_scheme, nat option \<times> u8 list) result" where
  "namex junk pth parent s =
     then_do
       (if pth \<noteq> [] \<and> hd pth = SLASH then iget ROOTDEV EXT2_ROOTINO s
        else with_proc (\<lambda>p s. case p_cwd (procs s p) of None \<Rightarrow> Panic ''kerneltrap'' | Some c \<Rightarrow> idup c s) s) (\<lambda>ip s.
     then_do
       (if (if pth = [] then junk else length pth > 1) then
          if \<not> i_valid (itable s ip) \<and> i_inum (itable s ip) = EXT2_ROOTINO then rootilock (Some ip) s else Ok () s
        else Ok () s) (\<lambda>_ s.
     namex_loop parent ip pth [] s))"

definition namei :: "bool \<Rightarrow> u8 list \<Rightarrow> 'z fs_scheme \<Rightarrow> ('z fs_scheme, nat option) result" where
  "namei junk pth s = then_do (namex junk pth False s) (\<lambda>(ip, name) s. Ok ip s)"

definition nameiparent :: "bool \<Rightarrow> u8 list \<Rightarrow> 'z fs_scheme \<Rightarrow> ('z fs_scheme, nat option \<times> u8 list) result" where
  "nameiparent junk pth s = namex junk pth True s"

end
