(* ===== verification/Ring_Buffer.thy ===== *)
theory Ring_Buffer
  imports Xv6_Prelude
begin

text \<open>
  Ring buffers with free-running indices, as pipes, the console and the UART driver have them: an array
  of \<open>cap\<close> bytes, a read index and a write index that only ever increase and wrap around at the width of
  the machine word. \<open>ring_list cap data r w\<close> is the contents as a list, oldest byte first. The locale
  \<open>bounded_fifo\<close> states what the users of such a buffer rely on.
\<close>

definition ring_list :: "nat \<Rightarrow> (nat \<Rightarrow> u8) \<Rightarrow> 'a::len word \<Rightarrow> 'a word \<Rightarrow> u8 list" where
  "ring_list cap data r w = map (\<lambda>i. data (unat (r + of_nat i) mod cap)) [0..<unat (w - r)]"

lemma length_ring_list [simp]: "length (ring_list cap data r w) = unat (w - r)"
  by (simp add: ring_list_def)

lemma ring_list_empty [simp]: "ring_list cap data r r = []"
  by (simp add: ring_list_def)

lemma ring_list_Nil_iff: "ring_list cap data r w = [] \<longleftrightarrow> r = w"
proof -
  have "ring_list cap data r w = [] \<longleftrightarrow> unat (w - r) = 0" by (simp only: length_0_conv [symmetric] length_ring_list)
  then show ?thesis by (auto simp: unat_eq_0)
qed

lemma unat_add_mod:
  fixes x y :: "'a::len word"
  assumes "cap dvd 2 ^ LENGTH('a)"
  shows "unat (x + y) mod cap = (unat x + unat y) mod cap"
  using assms by (simp add: unat_word_ariths mod_mod_cancel)

lemma slot_distinct:
  fixes r :: "'a::len word"
  assumes "cap dvd 2 ^ LENGTH('a)" and "i < j" and "j < cap" and "cap \<le> 2 ^ LENGTH('a)"
  shows "unat (r + of_nat i) mod cap \<noteq> unat (r + of_nat j) mod cap"
proof
  assume eq: "unat (r + of_nat i) mod cap = unat (r + of_nat j) mod cap"
  have u: "unat (of_nat i :: 'a word) = i" "unat (of_nat j :: 'a word) = j"
    using assms by (simp_all add: unat_of_nat_small)
  have "(unat r + i) mod cap = (unat r + j) mod cap"
    using eq by (simp add: unat_add_mod [OF assms(1)] u)
  then have "cap dvd (unat r + j) - (unat r + i)" using mod_eq_dvd_iff_nat [of "unat r + i" "unat r + j" cap] assms(2) by simp
  then have "cap dvd j - i" by simp
  then show False using assms(2,3) nat_dvd_not_less [of "j - i" cap] by auto
qed

lemma unat_succ_diff:
  fixes r w :: "'a::len word"
  assumes "unat (w - r) < n" and "n < 2 ^ LENGTH('a)"
  shows "unat (w + 1 - r) = Suc (unat (w - r))"
proof -
  have e: "w + 1 - r = (w - r) + 1" by simp
  have "unat (w - r) + unat (1 :: 'a word) < 2 ^ LENGTH('a)" using assms by simp
  then have "unat ((w - r) + 1) = unat (w - r) + unat (1 :: 'a word)" by (simp only: unat_add_lem)
  then show ?thesis unfolding e by simp
qed

lemma ring_push:
  fixes r w :: "'a::len word"
  assumes d: "cap dvd 2 ^ LENGTH('a)" and c: "cap < 2 ^ LENGTH('a)" and n: "unat (w - r) < cap"
  shows "ring_list cap (data(unat w mod cap := x)) r (w + 1) = ring_list cap data r w @ [x]"
proof -
  let ?n = "unat (w - r)"
  have s: "unat (w + 1 - r) = Suc ?n" using n c by (rule unat_succ_diff)
  have w: "r + of_nat ?n = w" by simp
  have ne: "unat (r + of_nat i) mod cap \<noteq> unat w mod cap" if "i < ?n" for i
    using slot_distinct [OF d that n less_imp_le [OF c], of r] by simp
  have "map (\<lambda>i. (data(unat w mod cap := x)) (unat (r + of_nat i) mod cap)) [0..<?n] =
      map (\<lambda>i. data (unat (r + of_nat i) mod cap)) [0..<?n]"
    using ne by (intro map_cong) auto
  then show ?thesis by (simp add: ring_list_def s)
qed

lemma ring_pop:
  fixes r w :: "'a::len word"
  assumes "r \<noteq> w"
  shows "ring_list cap data r w = data (unat r mod cap) # ring_list cap data (r + 1) w"
proof -
  let ?n = "unat (w - r)"
  have "w - r \<noteq> 0" using assms by simp
  then have e: "unat (w - (r + 1)) = ?n - 1" and p: "0 < ?n"
    using unat_minus_one [of "w - r"] by (simp_all add: algebra_simps unat_gt_0)
  have l: "[0..<?n] = 0 # map Suc [0..<?n - 1]"
    using p by (cases ?n) (simp_all add: upt_conv_Cons map_Suc_upt del: upt_Suc)
  show ?thesis unfolding ring_list_def e l by (simp add: comp_def ac_simps)
qed

lemma ring_unpush:
  fixes r w :: "'a::len word"
  assumes "r \<noteq> w"
  shows "ring_list cap data r (w - 1) = butlast (ring_list cap data r w)"
proof -
  have "w - r \<noteq> 0" using assms by simp
  then have "unat (w - 1 - r) = unat (w - r) - 1" and "0 < unat (w - r)"
    using unat_minus_one [of "w - r"] by (simp_all add: algebra_simps unat_gt_0)
  then obtain m where "unat (w - r) = Suc m" "unat (w - 1 - r) = m" by (cases "unat (w - r)") auto
  then show ?thesis by (simp add: ring_list_def)
qed

section \<open>The contract of a bounded queue\<close>

text \<open>
  \<open>run\<close> performs a sequence of operations, \<open>Inl x\<close> to put \<open>x\<close> and \<open>Inr ()\<close> to take a byte, and returns the
  bytes taken. An operation that is not enabled (a put when full, a take when empty) is skipped, as
  the callers skip it by sleeping.
\<close>

locale bounded_fifo =
  fixes inv :: "'s \<Rightarrow> bool"
    and contents :: "'s \<Rightarrow> u8 list"
    and cap :: nat
    and put :: "u8 \<Rightarrow> 's \<Rightarrow> 's"
    and get :: "'s \<Rightarrow> u8 \<times> 's"
  assumes bound: "inv s \<Longrightarrow> length (contents s) \<le> cap"
    and put_inv: "inv s \<Longrightarrow> length (contents s) < cap \<Longrightarrow> inv (put x s)"
    and put_contents: "inv s \<Longrightarrow> length (contents s) < cap \<Longrightarrow> contents (put x s) = contents s @ [x]"
    and get_inv: "inv s \<Longrightarrow> contents s \<noteq> [] \<Longrightarrow> inv (snd (get s))"
    and get_contents: "inv s \<Longrightarrow> contents s \<noteq> [] \<Longrightarrow> contents s = fst (get s) # contents (snd (get s))"
begin

fun run :: "(u8 + unit) list \<Rightarrow> 's \<Rightarrow> u8 list \<times> u8 list \<times> 's" where
  "run [] s = ([], [], s)"
| "run (Inl x # ops) s =
     (if length (contents s) < cap
      then let (ps, gs, t) = run ops (put x s) in (x # ps, gs, t)
      else run ops s)"
| "run (Inr _ # ops) s =
     (if contents s \<noteq> []
      then let (ps, gs, t) = run ops (snd (get s)) in (ps, fst (get s) # gs, t)
      else run ops s)"

lemma fifo:
  assumes "inv s" and "run ops s = (ps, gs, t)"
  shows "inv t \<and> contents s @ ps = gs @ contents t"
  using assms
proof (induction ops arbitrary: s ps gs)
  case (Cons p ops)
  show ?case
  proof (cases p)
    case (Inl x)
    show ?thesis
    proof (cases "length (contents s) < cap")
      case True
      then obtain ps' where r: "run ops (put x s) = (ps', gs, t)" "ps = x # ps'"
        using Cons.prems(2) Inl by (auto split: prod.splits)
      then have "inv t \<and> contents (put x s) @ ps' = gs @ contents t"
        using Cons.IH put_inv [OF Cons.prems(1) True] by blast
      then show ?thesis using put_contents [OF Cons.prems(1) True] r(2) by simp
    qed (use Cons Inl in simp)
  next
    case (Inr u)
    show ?thesis
    proof (cases "contents s = []")
      case False
      then obtain gs' where r: "run ops (snd (get s)) = (ps, gs', t)" "gs = fst (get s) # gs'"
        using Cons.prems(2) Inr by (auto split: prod.splits)
      then have "inv t \<and> contents (snd (get s)) @ ps = gs' @ contents t"
        using Cons.IH get_inv [OF Cons.prems(1) False] by blast
      then show ?thesis using get_contents [OF Cons.prems(1) False] r(2) by (metis append_Cons)
    next
      case True
      then have "run ops s = (ps, gs, t)" using Cons.prems(2) Inr by simp
      then show ?thesis using Cons.IH Cons.prems(1) by blast
    qed
  qed
qed simp

end

end
