(* ===== verification/Kprintf.thy ===== *)
theory Kprintf
  imports Xv6_Prelude
begin

text \<open>
  Formatted output of the kernel, kernel/printf.c. \<open>kprintf fmt args\<close> is the sequence of bytes that
  printf() hands to consputc(). \<open>fmt\<close> is the format without its terminating zero; an argument is the
  64-bit value of its slot or a string. \<open>None\<close> stands for undefined behaviour: an argument that is missing
  or of the wrong kind, or a number with more characters than the array \<^verbatim>\<open>buf\<close> of printint() holds.
\<close>

abbreviation chr :: "char \<Rightarrow> u8" where "chr c \<equiv> of_char c"

definition digits :: "u8 list" where
  "digits = bytes_of ''0123456789abcdef''"

text \<open>The digits of a number, least significant first; there is at least one.\<close>

function digit_list :: "nat \<Rightarrow> nat \<Rightarrow> u8 list" where
  "digit_list base x =
     digits ! (x mod base) # (if base \<le> 1 \<or> x div base = 0 then [] else digit_list base (x div base))"
  by pat_completeness auto
termination by (relation "measure snd") (auto simp: div_eq_0_iff)

declare digit_list.simps [simp del]

definition PRINTINT_BUF :: nat where "PRINTINT_BUF = 16"

definition printint :: "u64 \<Rightarrow> nat \<Rightarrow> bool \<Rightarrow> u8 list option" where
  "printint xx base sign =
     (let neg = (sign \<and> sint xx < 0);
          x = (if neg then - xx else xx);
          buf = digit_list base (unat x) @ (if neg then [chr CHR ''-''] else [])
      in if length buf > PRINTINT_BUF then None else Some (rev buf))"

primrec printptr_loop :: "nat \<Rightarrow> u64 \<Rightarrow> u8 list" where
  "printptr_loop 0 x = []"
| "printptr_loop (Suc n) x = digits ! unat (drop_bit 60 x) # printptr_loop n (push_bit 4 x)"

definition printptr :: "u64 \<Rightarrow> u8 list" where
  "printptr x = [chr CHR ''0'', chr CHR ''x''] @ printptr_loop 16 x"

datatype parg = PNum u64 | PStr "u8 list option"

definition int_arg :: "u64 \<Rightarrow> u64" where
  "int_arg v = scast (ucast v :: u32)"

definition num_conv :: "parg list \<Rightarrow> (u64 \<Rightarrow> u8 list option) \<Rightarrow> nat \<Rightarrow> (u8 list \<times> parg list \<times> nat) option" where
  "num_conv args f k =
     (case args of
        PNum v # rest \<Rightarrow> map_option (\<lambda>out. (out, rest, k)) (f v)
      | _ \<Rightarrow> None)"

text \<open>
  One conversion: the output, the arguments left, and how many characters of the format after \<open>c0\<close> it
  takes.
\<close>

definition conversion :: "u8 \<Rightarrow> u8 \<Rightarrow> u8 \<Rightarrow> parg list \<Rightarrow> (u8 list \<times> parg list \<times> nat) option" where
  "conversion c0 c1 c2 args =
     (if c0 = chr CHR ''d'' then num_conv args (\<lambda>v. printint (int_arg v) 10 True) 0
      else if c0 = chr CHR ''l'' \<and> c1 = chr CHR ''d'' then num_conv args (\<lambda>v. printint v 10 True) 1
      else if c0 = chr CHR ''l'' \<and> c1 = chr CHR ''l'' \<and> c2 = chr CHR ''d'' then num_conv args (\<lambda>v. printint v 10 True) 2
      else if c0 = chr CHR ''u'' then num_conv args (\<lambda>v. printint (int_arg v) 10 False) 0
      else if c0 = chr CHR ''l'' \<and> c1 = chr CHR ''u'' then num_conv args (\<lambda>v. printint v 10 False) 1
      else if c0 = chr CHR ''l'' \<and> c1 = chr CHR ''l'' \<and> c2 = chr CHR ''u'' then num_conv args (\<lambda>v. printint v 10 False) 2
      else if c0 = chr CHR ''x'' then num_conv args (\<lambda>v. printint (int_arg v) 16 False) 0
      else if c0 = chr CHR ''l'' \<and> c1 = chr CHR ''x'' then num_conv args (\<lambda>v. printint v 16 False) 1
      else if c0 = chr CHR ''l'' \<and> c1 = chr CHR ''l'' \<and> c2 = chr CHR ''x'' then num_conv args (\<lambda>v. printint v 16 False) 2
      else if c0 = chr CHR ''p'' then num_conv args (\<lambda>v. Some (printptr v)) 0
      else if c0 = chr CHR ''s'' then
        (case args of
           PStr str # rest \<Rightarrow> Some (case str of None \<Rightarrow> bytes_of ''(null)'' | Some bs \<Rightarrow> bs, rest, 0)
         | _ \<Rightarrow> None)
      else if c0 = chr CHR ''%'' then Some ([chr CHR ''%''], args, 0)
      else Some ([chr CHR ''%'', c0], args, 0))"

definition byte_or_0 :: "nat \<Rightarrow> u8 list \<Rightarrow> u8" where
  "byte_or_0 i xs = (if i < length xs then xs ! i else 0)"

function kprintf :: "u8 list \<Rightarrow> parg list \<Rightarrow> u8 list option" where
  "kprintf fmt args =
     (case fmt of
        [] \<Rightarrow> Some []
      | cx # rest \<Rightarrow>
          if cx \<noteq> chr CHR ''%'' then map_option (Cons cx) (kprintf rest args)
          else
            (case rest of
               [] \<Rightarrow> Some []
             | c0 # rest' \<Rightarrow>
                 (case conversion c0 (byte_or_0 0 rest') (byte_or_0 1 rest') args of
                    None \<Rightarrow> None
                  | Some (out, args', k) \<Rightarrow> map_option (append out) (kprintf (drop k rest') args'))))"
  by pat_completeness auto
termination by (relation "measure (\<lambda>(fmt, args). length fmt)") auto

declare kprintf.simps [simp del]

text \<open>What panic() prints before it stops the machine; the stop itself is the outcome \<open>Panic\<close>.\<close>

definition panic_text :: "u8 list \<Rightarrow> u8 list option" where
  "panic_text s =
     (case (kprintf (bytes_of ''panic: '') [], kprintf (bytes_of ''%s'' @ [10]) [PStr (Some s)]) of
        (Some a, Some b) \<Rightarrow> Some (a @ b)
      | _ \<Rightarrow> None)"

section \<open>Numbers\<close>

definition digit_value :: "u8 \<Rightarrow> nat" where
  "digit_value c = (if c < 58 then unat c - 48 else unat c - 87)"

definition num_value :: "nat \<Rightarrow> u8 list \<Rightarrow> nat" where
  "num_value base ds = foldl (\<lambda>a c. a * base + digit_value c) 0 ds"

lemma digits_simps: "digits = [48, 49, 50, 51, 52, 53, 54, 55, 56, 57, 97, 98, 99, 100, 101, 102]"
  by (simp add: digits_def bytes_of_def)

lemma digit_value_nth: "d < 16 \<Longrightarrow> digit_value (digits ! d) = d"
proof -
  have "\<forall>d \<in> set [0..<16]. digit_value (digits ! d) = d" by code_simp
  then show "d < 16 \<Longrightarrow> digit_value (digits ! d) = d" by simp
qed

lemma num_value_snoc: "num_value base (ds @ [c]) = num_value base ds * base + digit_value c"
  by (simp add: num_value_def)

lemma num_value_digit_list:
  "1 < base \<Longrightarrow> base \<le> 16 \<Longrightarrow> num_value base (rev (digit_list base x)) = x"
proof (induction base x rule: digit_list.induct)
  case (1 base x)
  have m: "digit_value (digits ! (x mod base)) = x mod base"
    using 1 by (intro digit_value_nth) (auto intro: less_le_trans [OF mod_less_divisor])
  show ?case
  proof (cases "x div base = 0")
    case True
    then show ?thesis using 1 m by (subst digit_list.simps) (simp add: num_value_def div_eq_0_iff)
  next
    case False
    then have "num_value base (rev (digit_list base (x div base))) = x div base" using 1 by simp
    then show ?thesis using 1 m False by (subst digit_list.simps) (simp add: num_value_snoc)
  qed
qed

lemma length_digit_list:
  "1 < base \<Longrightarrow> 0 < k \<Longrightarrow> length (digit_list base x) \<le> k \<longleftrightarrow> x < base ^ k"
proof (induction k arbitrary: x)
  case (Suc k)
  show ?case
  proof (cases "x div base = 0")
    case True
    then have "x < base" using Suc.prems by (simp add: div_eq_0_iff)
    also have "base \<le> base ^ Suc k" using Suc.prems by (intro self_le_power) auto
    finally have "x < base ^ Suc k" .
    then show ?thesis using True by (subst digit_list.simps) simp
  next
    case False
    then have ge: "base \<le> x" using Suc.prems by (simp add: div_eq_0_iff)
    show ?thesis
    proof (cases k)
      case 0
      have "0 < length (digit_list base (x div base))" by (subst digit_list.simps) simp
      then show ?thesis using False ge Suc.prems 0 by (subst digit_list.simps) simp
    next
      case (Suc j)
      have "length (digit_list base (x div base)) \<le> k \<longleftrightarrow> x div base < base ^ k"
        using Suc.IH [of "x div base"] Suc.prems Suc by simp
      also have "\<dots> \<longleftrightarrow> x < base ^ Suc k"
        using Suc.prems by (simp add: less_mult_imp_div_less div_less_iff_less_mult mult.commute)
      finally show ?thesis using False Suc.prems by (subst digit_list.simps) simp
    qed
  qed
qed simp

lemma digit_nonzero: "0 < d \<Longrightarrow> d < 16 \<Longrightarrow> digits ! d \<noteq> chr CHR ''0''"
proof -
  have "\<forall>d \<in> set [1..<16]. digits ! d \<noteq> chr CHR ''0''" by code_simp
  then show "0 < d \<Longrightarrow> d < 16 \<Longrightarrow> digits ! d \<noteq> chr CHR ''0''" by simp
qed

lemma digit_list_ne: "digit_list base x \<noteq> []"
  by (subst digit_list.simps) simp

lemma digit_list_no_leading_zero:
  "1 < base \<Longrightarrow> base \<le> 16 \<Longrightarrow> x \<noteq> 0 \<Longrightarrow> last (digit_list base x) \<noteq> chr CHR ''0''"
proof (induction base x rule: digit_list.induct)
  case (1 base x)
  show ?case
  proof (cases "x div base = 0")
    case True
    then have "x mod base = x" "x < 16" using 1 by (auto simp: div_eq_0_iff)
    then show ?thesis using 1 True digit_nonzero [of x] by (subst digit_list.simps) simp
  next
    case False
    then show ?thesis using 1 digit_list_ne by (subst digit_list.simps) simp
  qed
qed

lemma unat_abs:
  fixes xx :: u64
  shows "sint xx < 0 \<Longrightarrow> unat (- xx) = nat (- sint xx)" and "0 \<le> sint xx \<Longrightarrow> unat xx = nat (sint xx)"
proof -
  have b: "unat xx < 2 ^ 64" using unat_bound [of xx] by simp
  show "unat (- xx) = nat (- sint xx)" if "sint xx < 0"
  proof -
    have s: "sint xx = int (unat xx) - 2 ^ 64" "2 ^ 63 \<le> unat xx" using that by (auto simp: sint_cases simp del: of_nat_unat split: if_splits)
    have "(unat (- xx) + unat xx) mod 2 ^ 64 = unat (- xx + xx)" by (simp only: unat_word_ariths) simp
    then have "2 ^ 64 dvd unat (- xx) + unat xx" by (simp add: dvd_eq_mod_eq_0)
    moreover have "unat (- xx) + unat xx < 2 * 2 ^ 64" "0 < unat (- xx) + unat xx" using unat_bound [of "- xx"] b s by simp_all
    ultimately have "unat (- xx) + unat xx = 2 ^ 64" by (auto elim!: dvdE)
    then show ?thesis using s b by (simp del: of_nat_unat)
  qed
  show "unat xx = nat (sint xx)" if "0 \<le> sint xx"
    using that b by (auto simp: sint_cases simp del: of_nat_unat split: if_splits)
qed

section \<open>Properties\<close>

text \<open>
  C33: Numbers are printed correctly. When printint() stays inside its buffer the output is an optional
  minus sign, present exactly for a negative signed value, and digits whose value in the base is the
  absolute value; there is no leading zero. For a 32-bit signed argument in decimal, and for every
  64-bit argument in hexadecimal without sign, it stays inside the buffer.
\<close>

theorem printint_correct:
  assumes b: "1 < base" "base \<le> 16"
  shows "(\<forall>out. printint xx base sign = Some out \<longrightarrow>
      (\<exists>ds. out = (if sign \<and> sint xx < 0 then [chr CHR ''-''] else []) @ ds \<and>
         num_value base ds = (if sign then nat \<bar>sint xx\<bar> else unat xx) \<and>
         (ds = [chr CHR ''0''] \<or> hd ds \<noteq> chr CHR ''0''))) \<and>
    (\<forall>w :: u32. printint (scast w) 10 True \<noteq> None) \<and> printint xx 16 False \<noteq> None"
proof (intro conjI allI impI)
  fix out assume "printint xx base sign = Some out"
  let ?neg = "sign \<and> sint xx < 0" and ?x = "if sign \<and> sint xx < 0 then - xx else xx"
  have out: "out = (if ?neg then [chr CHR ''-''] else []) @ rev (digit_list base (unat ?x))"
    using \<open>printint xx base sign = Some out\<close> by (auto simp: printint_def Let_def split: if_splits)
  have x: "unat ?x = (if sign then nat \<bar>sint xx\<bar> else unat xx)"
    using unat_abs [of xx] by auto
  have z: "rev (digit_list base (unat ?x)) = [chr CHR ''0''] \<or> hd (rev (digit_list base (unat ?x))) \<noteq> chr CHR ''0''"
  proof (cases "unat ?x = 0")
    case True
    then show ?thesis by (subst digit_list.simps) (simp add: digits_simps)
  next
    case False
    then show ?thesis using digit_list_no_leading_zero [OF b] digit_list_ne by (simp add: hd_rev)
  qed
  show "\<exists>ds. out = (if ?neg then [chr CHR ''-''] else []) @ ds \<and>
      num_value base ds = (if sign then nat \<bar>sint xx\<bar> else unat xx) \<and> (ds = [chr CHR ''0''] \<or> hd ds \<noteq> chr CHR ''0'')"
    using out num_value_digit_list [OF b] z unfolding x [symmetric] by blast
next
  fix w :: u32
  let ?xx = "scast w :: u64"
  have "unat (if sint ?xx < 0 then - ?xx else ?xx) = nat \<bar>sint ?xx\<bar>" using unat_abs [of ?xx] by auto
  also have "\<dots> < 10 ^ 10" using sint_range32 [of w] by simp
  finally have "length (digit_list 10 (unat (if sint ?xx < 0 then - ?xx else ?xx))) \<le> 10"
    by (simp add: length_digit_list)
  then show "printint ?xx 10 True \<noteq> None" by (auto simp: printint_def PRINTINT_BUF_def Let_def)
next
  have "unat xx < 16 ^ 16" using unat_bound [of xx] by simp
  then have "length (digit_list 16 (unat xx)) \<le> 16" by (simp add: length_digit_list)
  then show "printint xx 16 False \<noteq> None" by (simp add: printint_def PRINTINT_BUF_def)
qed

theorem printint_correct_witness:
  "printint (- 42) 10 True = Some (bytes_of ''-42'') \<and> num_value 10 (bytes_of ''42'') = 42 \<and>
   (\<forall>w :: u32. printint (scast w) 10 True \<noteq> None)"
proof (intro conjI)
  show "printint (- 42) 10 True = Some (bytes_of ''-42'')" by code_simp
  show "num_value 10 (bytes_of ''42'') = 42" by code_simp
  show "\<forall>w :: u32. printint (scast w) 10 True \<noteq> None" using printint_correct [of 10 0 True] by simp
qed

text \<open>
  C36: The conversion %u widens its argument as a signed int: for every argument of 2 ^ 31 or more the number
  has twenty digits and runs over the sixteen bytes of the buffer.
\<close>

theorem printf_unsigned_overflows:
  fixes w :: u32
  assumes "2 ^ 31 \<le> unat w"
  shows "kprintf (bytes_of ''%u'') [PNum (ucast w)] = None"
proof -
  have i: "int_arg (ucast w) = (scast w :: u64)" by (simp add: int_arg_def)
  have "sint w < 0" using assms unat_bound [of w] by (simp add: sint_cases del: of_nat_unat)
  then have "sint (scast w :: u64) < 0" by simp
  then have "2 ^ 63 \<le> unat (scast w :: u64)" by (auto simp: sint_cases [of "scast w :: u64"] simp del: sint_scast split: if_splits)
  then have "\<not> length (digit_list 10 (unat (scast w :: u64))) \<le> 16" by (simp add: length_digit_list)
  then have "printint (int_arg (ucast w)) 10 False = None" by (simp add: i printint_def PRINTINT_BUF_def)
  then show ?thesis
    by (simp add: kprintf.simps [of "_ # _"] bytes_of_def conversion_def num_conv_def)
qed

theorem printf_unsigned_overflows_witness: "kprintf (bytes_of ''%u'') [PNum (ucast (0xFFFFFFFF :: u32))] = None"
  using printf_unsigned_overflows [of "0xFFFFFFFF"] by simp

end
