(* ===== verification/Console.thy ===== *)
theory Console
  imports Fs_Dir Ring_Buffer Kprintf
begin

text \<open>
  The UART driver kernel/uart.c and the console kernel/console.c. The device is described by what it
  answers: \<open>lsr\<close> and \<open>rhr\<close> are the sequences of values that successive reads of the line status register
  and of the receive register return, \<open>lsr_i\<close> and \<open>rhr_i\<close> how many reads there were. \<open>uart_regs\<close> is the trace
  of register writes. Reading the interrupt status register has no effect on the driver and is left out.
  A loop that polls the device for ever is \<open>Hang\<close>.
\<close>

section \<open>State\<close>

record devs = fs +
  uart_tx_buf :: "nat \<Rightarrow> u8"
  uart_tx_w :: u64
  uart_tx_r :: u64
  uart_regs :: "(nat \<times> u8) list"
  lsr :: "nat \<Rightarrow> u8"
  lsr_i :: nat
  rhr :: "nat \<Rightarrow> u8"
  rhr_i :: nat
  panicked :: bool
  cons_buf :: "nat \<Rightarrow> u8"
  cons_r :: u32
  cons_w :: u32
  cons_e :: u32

definition UART_TX_BUF_SIZE :: nat where "UART_TX_BUF_SIZE = 32"
definition INPUT_BUF_SIZE :: nat where "INPUT_BUF_SIZE = 128"
definition LSR_RX_READY :: u8 where "LSR_RX_READY = 1"
definition LSR_TX_IDLE :: u8 where "LSR_TX_IDLE = 32"

definition WriteReg :: "nat \<Rightarrow> u8 \<Rightarrow> 'z devs_scheme \<Rightarrow> 'z devs_scheme" where
  "WriteReg reg v s = s\<lparr>uart_regs := uart_regs s @ [(reg, v)]\<rparr>"

definition ReadLSR :: "'z devs_scheme \<Rightarrow> u8 \<times> 'z devs_scheme" where
  "ReadLSR s = (lsr s (lsr_i s), s\<lparr>lsr_i := lsr_i s + 1\<rparr>)"

section \<open>The UART\<close>

definition uartinit :: "'z devs_scheme \<Rightarrow> 'z devs_scheme" where
  "uartinit s =
     (let s = WriteReg 1 0 s;          \<comment> \<open>IER\<close>
          s = WriteReg 3 0x80 s;       \<comment> \<open>LCR, LCR_BAUD_LATCH\<close>
          s = WriteReg 0 3 s;
          s = WriteReg 1 0 s;
          s = WriteReg 3 3 s;          \<comment> \<open>LCR, LCR_EIGHT_BITS\<close>
          s = WriteReg 2 (1 OR 6) s    \<comment> \<open>FCR, FCR_FIFO_ENABLE and FCR_FIFO_CLEAR\<close>
      in WriteReg 1 (2 OR 1) s)"

lemma unat_pred_less: "w \<noteq> r \<Longrightarrow> unat (w - (r + 1)) < unat (w - r)" for w r :: "'a::len word"
  using unat_minus_one [of "w - r"] by (simp add: algebra_simps unat_gt_0)

function uartstart :: "'z devs_scheme \<Rightarrow> 'z devs_scheme" where
  "uartstart s =
     (if uart_tx_w s = uart_tx_r s then s
      else
        let (v, s) = ReadLSR s in
        if v AND LSR_TX_IDLE = 0 then s
        else
          let c = uart_tx_buf s (unat (uart_tx_r s) mod UART_TX_BUF_SIZE);
              s = s\<lparr>uart_tx_r := uart_tx_r s + 1\<rparr>;
              s = wakeup ChanUartTx s
          in uartstart (WriteReg 0 c s))"
  by pat_completeness auto
termination
  by (relation "measure (\<lambda>s. unat (uart_tx_w s - uart_tx_r s))")
     (auto simp: ReadLSR_def WriteReg_def wakeup_def unat_pred_less)

declare uartstart.simps [simp del]

definition uartputc :: "u8 \<Rightarrow> 'z devs_scheme \<Rightarrow> ('z devs_scheme, unit) result" where
  "uartputc c s =
     (if panicked s then Hang
      else if uart_tx_w s = uart_tx_r s + of_nat UART_TX_BUF_SIZE then sleep ChanUartTx s
      else Ok () (uartstart (s\<lparr>uart_tx_buf := (uart_tx_buf s)(unat (uart_tx_w s) mod UART_TX_BUF_SIZE := c),
                                uart_tx_w := uart_tx_w s + 1\<rparr>)))"

text \<open>Polling for an idle transmitter: the number of reads when it stops.\<close>

partial_function (option) wait_idle :: "(nat \<Rightarrow> u8) \<Rightarrow> nat \<Rightarrow> nat option" where
  "wait_idle f i = (if f i AND LSR_TX_IDLE = 0 then wait_idle f (i + 1) else Some (i + 1))"

definition uartputc_sync :: "u8 \<Rightarrow> 'z devs_scheme \<Rightarrow> ('z devs_scheme, unit) result" where
  "uartputc_sync c s =
     (if panicked s then Hang
      else case wait_idle (lsr s) (lsr_i s) of
          None \<Rightarrow> Hang
        | Some i \<Rightarrow> Ok () (WriteReg 0 c (s\<lparr>lsr_i := i\<rparr>)))"

definition uartgetc :: "'z devs_scheme \<Rightarrow> u8 option \<times> 'z devs_scheme" where
  "uartgetc s =
     (let (v, s) = ReadLSR s in
      if v AND LSR_RX_READY \<noteq> 0 then (Some (rhr s (rhr_i s)), s\<lparr>rhr_i := rhr_i s + 1\<rparr>) else (None, s))"

section \<open>Output of the console\<close>

definition consputc :: "u8 \<Rightarrow> 'z devs_scheme \<Rightarrow> ('z devs_scheme, unit) result" where
  "consputc c s = uartputc_sync c s"

definition consputc_backspace :: "'z devs_scheme \<Rightarrow> ('z devs_scheme, unit) result" where
  "consputc_backspace s =
     then_do (uartputc_sync 8 s) (\<lambda>_ s. then_do (uartputc_sync 32 s) (\<lambda>_ s. uartputc_sync 8 s))"

fun kputs :: "u8 list \<Rightarrow> 'z devs_scheme \<Rightarrow> ('z devs_scheme, unit) result" where
  "kputs [] s = Ok () s"
| "kputs (c # cs) s = then_do (consputc c s) (\<lambda>_ s. kputs cs s)"

text \<open>The bytes that procdump() prints.\<close>

definition procdump_text :: "'z devs_scheme \<Rightarrow> u8 list" where
  "procdump_text s = 10 # concat (map (\<lambda>(pid, st, name).
     (case kprintf (bytes_of ''%d %s %s'') [PNum (of_int pid), PStr (Some (bytes_of st)),
         PStr (Some (takeWhile (\<lambda>c. c \<noteq> 0) name))] of None \<Rightarrow> [] | Some out \<Rightarrow> out) @ [10]) (procdump s))"

function consolewrite_loop :: "bool \<Rightarrow> u64 \<Rightarrow> nat \<Rightarrow> nat \<Rightarrow> 'z devs_scheme \<Rightarrow> ('z devs_scheme, int) result" where
  "consolewrite_loop user_src src i n s =
     (if i < n then
        then_do (either_copyin user_src (src + of_nat i) 1 s) (\<lambda>(r, bs) s.
        if r = -1 then Ok (int i) s
        else then_do (uartputc (bs ! 0) s) (\<lambda>_ s. consolewrite_loop user_src src (i + 1) n s))
      else Ok (int i) s)"
  by pat_completeness auto
termination by (relation "measure (\<lambda>(user_src, src, i, n, s). n - i)") auto

declare consolewrite_loop.simps [simp del]

definition consolewrite :: "bool \<Rightarrow> u64 \<Rightarrow> int \<Rightarrow> 'z devs_scheme \<Rightarrow> ('z devs_scheme, int) result" where
  "consolewrite user_src src n s = consolewrite_loop user_src src 0 (nat n) s"

section \<open>Input of the console\<close>

definition CTRL_D :: u8 where "CTRL_D = 4"
definition CTRL_P :: u8 where "CTRL_P = 16"
definition CTRL_U :: u8 where "CTRL_U = 21"
definition CTRL_H :: u8 where "CTRL_H = 8"
definition NEWLINE :: u8 where "NEWLINE = 10"

text \<open>
  \<open>n\<close> bytes are still wanted of \<open>target\<close>. When the loop sleeps, the bytes it has taken are the difference
  of \<open>cons_r\<close>, so that it goes on from there.
\<close>

fun consoleread_loop :: "bool \<Rightarrow> u64 \<Rightarrow> nat \<Rightarrow> nat \<Rightarrow> 'z devs_scheme \<Rightarrow> ('z devs_scheme, int) result" where
  "consoleread_loop user_dst dst target 0 s = Ok (int target) s"
| "consoleread_loop user_dst dst target (Suc n) s =
     (if cons_r s = cons_w s then
        with_proc (\<lambda>p s. if killed p s then Ok (-1) s else sleep ChanConsR s) s
      else
        let c = cons_buf s (unat (cons_r s) mod INPUT_BUF_SIZE);
            s = s\<lparr>cons_r := cons_r s + 1\<rparr> in
        if c = CTRL_D then
          Ok (int target - int (Suc n)) (if Suc n < target then s\<lparr>cons_r := cons_r s - 1\<rparr> else s)
        else
          then_do (either_copyout user_dst dst [c] s) (\<lambda>r s.
          if r = -1 then Ok (int target - int (Suc n)) s
          else if c = NEWLINE then Ok (int target - int n) s
          else consoleread_loop user_dst (dst + 1) target n s))"

definition consoleread :: "bool \<Rightarrow> u64 \<Rightarrow> int \<Rightarrow> 'z devs_scheme \<Rightarrow> ('z devs_scheme, int) result" where
  "consoleread user_dst dst n s = (if n > 0 then consoleread_loop user_dst dst (nat n) (nat n) s else Ok 0 s)"

lemma uartputc_sync_cons:
  "uartputc_sync c s = Ok x t \<Longrightarrow> cons_e t = cons_e s \<and> cons_w t = cons_w s \<and> cons_r t = cons_r s \<and> cons_buf t = cons_buf s"
  by (auto simp: uartputc_sync_def WriteReg_def split: if_splits option.splits)

lemma consputc_backspace_cons:
  "consputc_backspace s = Ok x t \<Longrightarrow> cons_e t = cons_e s \<and> cons_w t = cons_w s \<and> cons_r t = cons_r s \<and> cons_buf t = cons_buf s"
  by (auto simp: consputc_backspace_def then_do_Ok_iff dest!: uartputc_sync_cons)

function kill_line :: "'z devs_scheme \<Rightarrow> ('z devs_scheme, unit) result" where
  "kill_line s =
     (if cons_e s \<noteq> cons_w s \<and> cons_buf s (unat (cons_e s - 1) mod INPUT_BUF_SIZE) \<noteq> NEWLINE then
        then_do (consputc_backspace (s\<lparr>cons_e := cons_e s - 1\<rparr>)) (\<lambda>_ s. kill_line s)
      else Ok () s)"
  by pat_completeness auto
termination
proof (relation "measure (\<lambda>s. unat (cons_e s - cons_w s))")
  fix s :: "'z devs_scheme" and x and t
  assume "cons_e s \<noteq> cons_w s \<and> cons_buf s (unat (cons_e s - 1) mod INPUT_BUF_SIZE) \<noteq> NEWLINE"
    and "consputc_backspace (s\<lparr>cons_e := cons_e s - 1\<rparr>) = Ok x t"
  then have "cons_e s \<noteq> cons_w s" "cons_e t = cons_e s - 1" "cons_w t = cons_w s"
    using consputc_backspace_cons [of "s\<lparr>cons_e := cons_e s - 1\<rparr>"] by auto
  then have "cons_e t - cons_w t = (cons_e s - cons_w s) - 1" "cons_e s - cons_w s \<noteq> 0" by simp_all
  then have "unat (cons_e t - cons_w t) = unat (cons_e s - cons_w s) - 1" "0 < unat (cons_e s - cons_w s)"
    using unat_minus_one [of "cons_e s - cons_w s"] unat_gt_0 [of "cons_e s - cons_w s"] by metis+
  then show "(t, s) \<in> measure (\<lambda>s. unat (cons_e s - cons_w s))" by simp
qed simp

declare kill_line.simps [simp del]

definition consoleintr :: "u8 \<Rightarrow> 'z devs_scheme \<Rightarrow> ('z devs_scheme, unit) result" where
  "consoleintr c s =
     (if c = CTRL_P then kputs (procdump_text s) s
      else if c = CTRL_U then kill_line s
      else if c = CTRL_H \<or> c = 0x7F then
        if cons_e s \<noteq> cons_w s then consputc_backspace (s\<lparr>cons_e := cons_e s - 1\<rparr>) else Ok () s
      else if c \<noteq> 0 \<and> unat (cons_e s - cons_r s) < INPUT_BUF_SIZE then
        let c = (if c = 13 then NEWLINE else c) in
        then_do (consputc c s) (\<lambda>_ s.
        let s = s\<lparr>cons_buf := (cons_buf s)(unat (cons_e s) mod INPUT_BUF_SIZE := c), cons_e := cons_e s + 1\<rparr> in
        if c = NEWLINE \<or> c = CTRL_D \<or> unat (cons_e s - cons_r s) = INPUT_BUF_SIZE
        then Ok () (wakeup ChanConsR (s\<lparr>cons_w := cons_e s\<rparr>))
        else Ok () s)
      else Ok () s)"

text \<open>uartintr() takes input until the device has none; a device that always has some keeps it for ever.\<close>

partial_function (option) uartintr_loop :: "'z devs_scheme \<Rightarrow> ('z devs_scheme, unit) result option" where
  "uartintr_loop s =
     (case uartgetc s of
        (None, s') \<Rightarrow> Some (Ok () s')
      | (Some c, s') \<Rightarrow>
          (case consoleintr c s' of
             Ok u t \<Rightarrow> uartintr_loop t
           | Panic e \<Rightarrow> Some (Panic e)
           | Hang \<Rightarrow> Some Hang
           | Sleeps ch t \<Rightarrow> Some (Sleeps ch t)
           | Exits t \<Rightarrow> Some (Exits t)))"

definition uartintr :: "'z devs_scheme \<Rightarrow> ('z devs_scheme, unit) result" where
  "uartintr s =
     (case uartintr_loop s of
        None \<Rightarrow> Hang
      | Some r \<Rightarrow> then_do r (\<lambda>_ s. Ok () (uartstart s)))"

text \<open>consoleinit() also enters the two functions in the table of devices; theory File_Table has it.\<close>

definition consoleinit :: "'z devs_scheme \<Rightarrow> 'z devs_scheme" where
  "consoleinit s = uartinit s"

end
