(* ===== verification/File_Table.thy ===== *)
theory File_Table
  imports Console
begin

text \<open>
  Open files and pipes, kernel/file.c and kernel/pipe.c. A pipe lives in a page from kalloc(); \<open>pipes\<close> maps
  the address of the page to the structure in it. \<open>devsw\<close> tells for which major numbers the table of
  devices has entries; consoleinit() enters the console, the only driver. \<open>path_junk\<close> and \<open>stat_pad\<close> are bytes
  of the kernel stack that the code reads without having written them: the byte after the terminator
  of an empty path, and the padding of struct stat.
\<close>

section \<open>State\<close>

datatype filetype = FD_NONE | FD_PIPE | FD_INODE | FD_DEVICE

record open_file =
  f_type :: filetype
  f_ref :: int
  f_readable :: bool
  f_writable :: bool
  f_pipe :: u64
  f_ip :: "nat option"
  f_off :: u32
  f_major :: u16

record pipe =
  pi_data :: "nat \<Rightarrow> u8"
  pi_nread :: u32
  pi_nwrite :: u32
  pi_readopen :: bool
  pi_writeopen :: bool

record files = devs +
  ftable :: "nat \<Rightarrow> open_file"
  pipes :: "u64 \<Rightarrow> pipe"
  devsw :: "nat \<Rightarrow> bool"
  console_f :: "nat option"
  ticks :: u32
  path_junk :: bool
  stat_pad :: "u8 list"

definition NFILE :: nat where "NFILE = 100"
definition NDEV :: nat where "NDEV = 10"
definition CONSOLE :: u16 where "CONSOLE = 1"
definition PIPESIZE :: nat where "PIPESIZE = 512"

abbreviation upd_file :: "nat \<Rightarrow> (open_file \<Rightarrow> open_file) \<Rightarrow> 'z files_scheme \<Rightarrow> 'z files_scheme" where
  "upd_file f g s \<equiv> s\<lparr>ftable := (ftable s)(f := g (ftable s f))\<rparr>"

abbreviation upd_pipe :: "u64 \<Rightarrow> (pipe \<Rightarrow> pipe) \<Rightarrow> 'z files_scheme \<Rightarrow> 'z files_scheme" where
  "upd_pipe p g s \<equiv> s\<lparr>pipes := (pipes s)(p := g (pipes s p))\<rparr>"

definition console_devsw :: "'z files_scheme \<Rightarrow> 'z files_scheme" where
  "console_devsw s = consoleinit (s\<lparr>devsw := (devsw s)(unat CONSOLE := True)\<rparr>)"

section \<open>Pipes\<close>

definition pipe_put :: "u8 \<Rightarrow> pipe \<Rightarrow> pipe" where
  "pipe_put c p = p\<lparr>pi_data := (pi_data p)(unat (pi_nwrite p) mod PIPESIZE := c), pi_nwrite := pi_nwrite p + 1\<rparr>"

definition pipe_get :: "pipe \<Rightarrow> u8 \<times> pipe" where
  "pipe_get p = (pi_data p (unat (pi_nread p) mod PIPESIZE), p\<lparr>pi_nread := pi_nread p + 1\<rparr>)"

definition pipeclose :: "u64 \<Rightarrow> bool \<Rightarrow> 'z files_scheme \<Rightarrow> ('z files_scheme, unit) result" where
  "pipeclose pi writable s =
     (let s = (if writable then wakeup (ChanPipeRead pi) (upd_pipe pi (\<lambda>p. p\<lparr>pi_writeopen := False\<rparr>) s)
               else wakeup (ChanPipeWrite pi) (upd_pipe pi (\<lambda>p. p\<lparr>pi_readopen := False\<rparr>) s)) in
      if \<not> pi_readopen (pipes s pi) \<and> \<not> pi_writeopen (pipes s pi) then kfree pi s else Ok () s)"

text \<open>
  The loops of pipewrite() and piperead() from byte \<open>i\<close>. When pipewrite() sleeps, the bytes that it has
  written are the difference of \<open>pi_nwrite\<close>.
\<close>

function pipewrite_loop :: "u64 \<Rightarrow> nat \<Rightarrow> u64 \<Rightarrow> nat \<Rightarrow> nat \<Rightarrow> 'z files_scheme \<Rightarrow> ('z files_scheme, int) result" where
  "pipewrite_loop pi pr addr i n s =
     (if i < n then
        if \<not> pi_readopen (pipes s pi) \<or> killed pr s then Ok (-1) s
        else if pi_nwrite (pipes s pi) = pi_nread (pipes s pi) + of_nat PIPESIZE then
          sleep (ChanPipeWrite pi) (wakeup (ChanPipeRead pi) s)
        else
          then_do (copyin (p_pagetable (procs s pr)) (addr + of_nat i) 1 s) (\<lambda>(r, bs) s.
          if r = -1 then Ok (int i) (wakeup (ChanPipeRead pi) s)
          else pipewrite_loop pi pr addr (i + 1) n (upd_pipe pi (pipe_put (bs ! 0)) s))
      else Ok (int i) (wakeup (ChanPipeRead pi) s))"
  by pat_completeness auto
termination by (relation "measure (\<lambda>(pi, pr, addr, i, n, s). n - i)") auto

declare pipewrite_loop.simps [simp del]

definition pipewrite :: "u64 \<Rightarrow> u64 \<Rightarrow> int \<Rightarrow> 'z files_scheme \<Rightarrow> ('z files_scheme, int) result" where
  "pipewrite pi addr n = with_proc (\<lambda>pr s. pipewrite_loop pi pr addr 0 (nat n) s)"

function piperead_loop :: "u64 \<Rightarrow> nat \<Rightarrow> u64 \<Rightarrow> nat \<Rightarrow> nat \<Rightarrow> 'z files_scheme \<Rightarrow> ('z files_scheme, int) result" where
  "piperead_loop pi pr addr i n s =
     (if i < n then
        if pi_nread (pipes s pi) = pi_nwrite (pipes s pi) then Ok (int i) (wakeup (ChanPipeWrite pi) s)
        else
          let (ch, p) = pipe_get (pipes s pi); s = upd_pipe pi (\<lambda>_. p) s in
          then_do (copyout (p_pagetable (procs s pr)) (addr + of_nat i) [ch] s) (\<lambda>r s.
          if r = -1 then Ok (int i) (wakeup (ChanPipeWrite pi) s)
          else piperead_loop pi pr addr (i + 1) n s)
      else Ok (int i) (wakeup (ChanPipeWrite pi) s))"
  by pat_completeness auto
termination by (relation "measure (\<lambda>(pi, pr, addr, i, n, s). n - i)") auto

declare piperead_loop.simps [simp del]

definition piperead :: "u64 \<Rightarrow> u64 \<Rightarrow> int \<Rightarrow> 'z files_scheme \<Rightarrow> ('z files_scheme, int) result" where
  "piperead pi addr n = with_proc (\<lambda>pr s.
     if pi_nread (pipes s pi) = pi_nwrite (pipes s pi) \<and> pi_writeopen (pipes s pi) then
       if killed pr s then Ok (-1) s else sleep (ChanPipeRead pi) s
     else piperead_loop pi pr addr 0 (nat n) s)"

section \<open>Open files\<close>

definition filealloc :: "'z files_scheme \<Rightarrow> ('z files_scheme, nat option) result" where
  "filealloc s =
     (case List.find (\<lambda>f. f_ref (ftable s f) = 0) [0..<NFILE] of
        None \<Rightarrow> Ok None s
      | Some f \<Rightarrow> Ok (Some f) (upd_file f (\<lambda>k. k\<lparr>f_ref := 1\<rparr>) s))"

definition filedup :: "nat \<Rightarrow> 'z files_scheme \<Rightarrow> ('z files_scheme, nat) result" where
  "filedup f s =
     (if f_ref (ftable s f) < 1 then Panic ''filedup''
      else Ok f (upd_file f (\<lambda>k. k\<lparr>f_ref := f_ref k + 1\<rparr>) s))"

definition fileclose :: "nat \<Rightarrow> 'z files_scheme \<Rightarrow> ('z files_scheme, unit) result" where
  "fileclose f s =
     (if f_ref (ftable s f) < 1 then Panic ''fileclose''
      else
        let s = upd_file f (\<lambda>k. k\<lparr>f_ref := f_ref k - 1\<rparr>) s in
        if f_ref (ftable s f) > 0 then Ok () s
        else
          let ff = ftable s f; s = upd_file f (\<lambda>k. k\<lparr>f_ref := 0, f_type := FD_NONE\<rparr>) s in
          if f_type ff = FD_PIPE then pipeclose (f_pipe ff) (f_writable ff) s
          else if f_type ff = FD_INODE \<or> f_type ff = FD_DEVICE then
            then_do (begin_op s) (\<lambda>_ s.
            then_do (case f_ip ff of None \<Rightarrow> Panic ''kerneltrap'' | Some ip \<Rightarrow> iput ip s) (\<lambda>_ s.
            end_op s))
          else Ok () s)"

definition pipealloc_bad :: "nat option \<Rightarrow> nat option \<Rightarrow> 'z files_scheme \<Rightarrow>
    ('z files_scheme, (nat \<times> nat) option) result" where
  "pipealloc_bad f0 f1 s =
     then_do (case f0 of Some f \<Rightarrow> fileclose f s | None \<Rightarrow> Ok () s) (\<lambda>_ s.
     then_do (case f1 of Some f \<Rightarrow> fileclose f s | None \<Rightarrow> Ok () s) (\<lambda>_ s.
     Ok None s))"

text \<open>pipealloc() returns the two files, or nothing for -1.\<close>

definition pipealloc :: "'z files_scheme \<Rightarrow> ('z files_scheme, (nat \<times> nat) option) result" where
  "pipealloc s =
     then_do (filealloc s) (\<lambda>f0 s.
     case f0 of None \<Rightarrow> pipealloc_bad None None s | Some a \<Rightarrow>
     then_do (filealloc s) (\<lambda>f1 s.
     case f1 of None \<Rightarrow> pipealloc_bad (Some a) None s | Some b \<Rightarrow>
     then_do (kalloc s) (\<lambda>pi s.
     if pi = 0 then pipealloc_bad (Some a) (Some b) s
     else
       let s = upd_pipe pi (\<lambda>p. p\<lparr>pi_readopen := True, pi_writeopen := True, pi_nwrite := 0, pi_nread := 0\<rparr>) s;
           s = upd_file a (\<lambda>k. k\<lparr>f_type := FD_PIPE, f_readable := True, f_writable := False, f_pipe := pi\<rparr>) s;
           s = upd_file b (\<lambda>k. k\<lparr>f_type := FD_PIPE, f_readable := False, f_writable := True, f_pipe := pi\<rparr>) s
       in Ok (Some (a, b)) s)))"

text \<open>
  The layout of struct stat has four bytes of padding before the size, which copyout() copies from the
  kernel stack as they are.
\<close>

definition stat_bytes :: "u8 list \<Rightarrow> stat \<Rightarrow> u8 list" where
  "stat_bytes pad st = le_bytes 4 (st_dev st) @ le_bytes 4 (st_ino st) @ le_bytes 2 (st_type st) @
     le_bytes 2 (st_nlink st) @ pad @ le_bytes 8 (st_size st)"

definition filestat :: "nat \<Rightarrow> u64 \<Rightarrow> 'z files_scheme \<Rightarrow> ('z files_scheme, int) result" where
  "filestat f addr s = with_proc (\<lambda>p s.
     let k = ftable s f in
     if f_type k = FD_INODE \<or> f_type k = FD_DEVICE then
       then_do (ilock (f_ip k) s) (\<lambda>_ s.
       case f_ip k of
         None \<Rightarrow> Panic ''ilock''
       | Some ip \<Rightarrow>
           let st = stati ip s in
           then_do (iunlock (Some ip) s) (\<lambda>_ s.
           then_do (copyout (p_pagetable (procs s p)) addr (stat_bytes (stat_pad s) st) s) (\<lambda>r s.
           if r < 0 then Ok (-1) s else Ok 0 s)))
     else Ok (-1) s) s"

definition has_driver :: "u16 \<Rightarrow> 'z files_scheme \<Rightarrow> bool" where
  "has_driver major s \<longleftrightarrow> \<not> (sint major < 0 \<or> sint major \<ge> int NDEV \<or> \<not> devsw s (nat (sint major)))"

definition fileread :: "nat \<Rightarrow> u64 \<Rightarrow> int \<Rightarrow> 'z files_scheme \<Rightarrow> ('z files_scheme, int) result" where
  "fileread f addr n s =
     (let k = ftable s f in
      if \<not> f_readable k then Ok (-1) s
      else case f_type k of
          FD_PIPE \<Rightarrow> piperead (f_pipe k) addr n s
        | FD_DEVICE \<Rightarrow> if \<not> has_driver (f_major k) s then Ok (-1) s else consoleread True addr n s
        | FD_INODE \<Rightarrow>
            then_do (ilock (f_ip k) s) (\<lambda>_ s.
            case f_ip k of
              None \<Rightarrow> Panic ''ilock''
            | Some ip \<Rightarrow>
                then_do (readi ip (UserDst addr) (f_off (ftable s f)) (of_int n) s) (\<lambda>(r, bs) s.
                let s = (if r > 0 then upd_file f (\<lambda>k. k\<lparr>f_off := f_off k + of_int r\<rparr>) s else s) in
                then_do (iunlock (Some ip) s) (\<lambda>_ s. Ok r s)))
        | FD_NONE \<Rightarrow> Panic ''fileread'')"

definition FILEWRITE_MAX :: int where "FILEWRITE_MAX = ((10 - 1 - 1 - 2) div 2) * 1024"

text \<open>The loop of filewrite() from byte \<open>i\<close>; the result is how far it gets.\<close>

function filewrite_loop :: "nat \<Rightarrow> nat option \<Rightarrow> u64 \<Rightarrow> int \<Rightarrow> int \<Rightarrow> 'z files_scheme \<Rightarrow> ('z files_scheme, int) result" where
  "filewrite_loop f ipo addr i n s =
     (if i < n then
        let n1 = (if n - i > FILEWRITE_MAX then FILEWRITE_MAX else n - i) in
        then_do (begin_op s) (\<lambda>_ s.
        then_do (ilock ipo s) (\<lambda>_ s.
        case ipo of
          None \<Rightarrow> Panic ''ilock''
        | Some ip \<Rightarrow>
            then_do (writei ip (UserSrc (addr + of_int i)) (f_off (ftable s f)) (of_int n1) s) (\<lambda>r s.
            let s = (if r > 0 then upd_file f (\<lambda>k. k\<lparr>f_off := f_off k + of_int r\<rparr>) s else s) in
            then_do (iunlock (Some ip) s) (\<lambda>_ s.
            then_do (end_op s) (\<lambda>_ s.
            if r \<noteq> n1 then Ok i s else filewrite_loop f ipo addr (i + r) n s)))))
      else Ok i s)"
  by pat_completeness auto
termination
  by (relation "measure (\<lambda>(f, ipo, addr, i, n, s). nat (n - i))") (auto simp: FILEWRITE_MAX_def Let_def split: if_splits)

declare filewrite_loop.simps [simp del]

definition filewrite :: "nat \<Rightarrow> u64 \<Rightarrow> int \<Rightarrow> 'z files_scheme \<Rightarrow> ('z files_scheme, int) result" where
  "filewrite f addr n s =
     (let k = ftable s f in
      if \<not> f_writable k then Ok (-1) s
      else case f_type k of
          FD_PIPE \<Rightarrow> pipewrite (f_pipe k) addr n s
        | FD_DEVICE \<Rightarrow> if \<not> has_driver (f_major k) s then Ok (-1) s else consolewrite True addr n s
        | FD_INODE \<Rightarrow>
            then_do (filewrite_loop f (f_ip k) addr 0 n s) (\<lambda>i s. Ok (if i = n then n else -1) s)
        | FD_NONE \<Rightarrow> Panic ''filewrite'')"

end
