(* ===== verification/Procfs.thy ===== *)
theory Procfs
  imports File_Table
begin

text \<open>
  The parts of kernel/proc.c that use the file system (the first process, fork() and exit()), and exec(),
  kernel/exec.c. The trap frame of a process is a page of physical memory; \<open>tf_get\<close> and \<open>tf_set\<close> access its
  64-bit fields by their offset in struct trapframe.
\<close>

section \<open>State and trap frames\<close>

text \<open>
  The registers of the hart, the interrupt controller as the sequence of its answers to claims and the
  trace of writes, and the addresses of the symbols that the code stores in registers.
\<close>

record kern = files +
  first_ret :: bool
  r_sstatus :: u64
  r_sepc :: u64
  r_scause :: u64
  r_stval :: u64
  r_stvec :: u64
  r_satp :: u64
  r_time :: u64
  r_stimecmp :: u64
  hartid :: nat
  plic_claims :: "nat \<Rightarrow> u32"
  plic_claimed :: nat
  plic_writes :: "(u64 \<times> u32) list"
  kernelvec_pc :: u64
  uservec_off :: u64
  userret_off :: u64
  usertrap_pc :: u64

definition TF_SIZE :: nat where "TF_SIZE = 288"
definition TF_KERNEL_SATP :: u64 where "TF_KERNEL_SATP = 0"
definition TF_KERNEL_SP :: u64 where "TF_KERNEL_SP = 8"
definition TF_KERNEL_TRAP :: u64 where "TF_KERNEL_TRAP = 16"
definition TF_EPC :: u64 where "TF_EPC = 24"
definition TF_KERNEL_HARTID :: u64 where "TF_KERNEL_HARTID = 32"
definition TF_SP :: u64 where "TF_SP = 48"
definition TF_A0 :: u64 where "TF_A0 = 112"
definition TF_A1 :: u64 where "TF_A1 = 120"
definition TF_A7 :: u64 where "TF_A7 = 168"

definition tf_get :: "u64 \<Rightarrow> nat \<Rightarrow> 'z procs_scheme \<Rightarrow> u64" where
  "tf_get off p s = load64 (pmem s) (p_trapframe (procs s p) + off)"

definition tf_set :: "u64 \<Rightarrow> u64 \<Rightarrow> nat \<Rightarrow> 'z procs_scheme \<Rightarrow> 'z procs_scheme" where
  "tf_set off v p s = s\<lparr>pmem := store64 (pmem s) (p_trapframe (procs s p) + off) v\<rparr>"

text \<open>safestrcpy() into an array with the old contents \<open>old\<close>.\<close>

definition safestrcpy_bytes :: "nat \<Rightarrow> u8 list \<Rightarrow> u8 list \<Rightarrow> u8 list" where
  "safestrcpy_bytes n src old =
     (let t = take (n - 1) (takeWhile (\<lambda>c. c \<noteq> 0) src) in t @ [0] @ drop (length t + 1) old)"

section \<open>The first process\<close>

definition initcode :: "u8 list" where
  "initcode =
     [0x17, 0x05, 0x00, 0x00, 0x13, 0x05, 0x45, 0x02, 0x97, 0x05, 0x00, 0x00, 0x93, 0x85, 0x35, 0x02,
      0x93, 0x08, 0x70, 0x00, 0x73, 0x00, 0x00, 0x00, 0x93, 0x08, 0x20, 0x00, 0x73, 0x00, 0x00, 0x00,
      0xef, 0xf0, 0x9f, 0xff, 0x2f, 0x69, 0x6e, 0x69, 0x74, 0x00, 0x00, 0x24, 0x00, 0x00, 0x00, 0x00,
      0x00, 0x00, 0x00, 0x00]"

definition userinit :: "'z files_scheme \<Rightarrow> ('z files_scheme, unit) result" where
  "userinit s =
     then_do (allocproc s) (\<lambda>po s.
     let s = s\<lparr>initproc := po\<rparr> in
     case po of
       None \<Rightarrow> Panic ''kerneltrap''
     | Some p \<Rightarrow>
         then_do (uvmfirst (p_pagetable (procs s p)) initcode s) (\<lambda>_ s.
         let s = upd_proc p (\<lambda>q. q\<lparr>p_sz := PGSIZE\<rparr>) s;
             s = tf_set TF_EPC 0 p s;
             s = tf_set TF_SP PGSIZE p s;
             s = upd_proc p (\<lambda>q. q\<lparr>p_name := safestrcpy_bytes 16 (bytes_of ''initcode'') (p_name q)\<rparr>) s in
         then_do (namei (path_junk s) (bytes_of ''/'') s) (\<lambda>cwd s.
         Ok () (upd_proc p (\<lambda>q. q\<lparr>p_cwd := cwd, p_state := RUNNABLE\<rparr>) s))))"

section \<open>Fork\<close>

fun fork_files :: "nat \<Rightarrow> nat \<Rightarrow> nat list \<Rightarrow> 'z files_scheme \<Rightarrow> ('z files_scheme, unit) result" where
  "fork_files p np [] s = Ok () s"
| "fork_files p np (i # rest) s =
     (case p_ofile (procs s p) i of
        None \<Rightarrow> fork_files p np rest s
      | Some f \<Rightarrow>
          then_do (filedup f s) (\<lambda>f s.
          fork_files p np rest (upd_proc np (\<lambda>q. q\<lparr>p_ofile := (p_ofile q)(i := Some f)\<rparr>) s)))"

definition fork :: "'z files_scheme \<Rightarrow> ('z files_scheme, int) result" where
  "fork = with_proc (\<lambda>p s.
     then_do (allocproc s) (\<lambda>npo s.
     case npo of
       None \<Rightarrow> Ok (-1) s
     | Some np \<Rightarrow>
         then_do (uvmcopy (p_pagetable (procs s p)) (p_pagetable (procs s np)) (p_sz (procs s p)) s) (\<lambda>r s.
         if r < 0 then then_do (freeproc np s) (\<lambda>_ s. Ok (-1) s)
         else
           let s = upd_proc np (\<lambda>q. q\<lparr>p_sz := p_sz (procs s p)\<rparr>) s;
               s = s\<lparr>pmem := store_bytes (pmem s) (p_trapframe (procs s np))
                      (load_bytes (pmem s) (p_trapframe (procs s p)) TF_SIZE)\<rparr>;
               s = tf_set TF_A0 0 np s in
           then_do (fork_files p np [0..<NOFILE] s) (\<lambda>_ s.
           then_do (case p_cwd (procs s p) of None \<Rightarrow> Panic ''kerneltrap'' | Some c \<Rightarrow> idup c s) (\<lambda>cwd s.
           let s = upd_proc np (\<lambda>q. q\<lparr>p_cwd := Some cwd,
                     p_name := safestrcpy_bytes 16 (p_name (procs s p)) (p_name q)\<rparr>) s;
               pid = p_pid (procs s np);
               s = upd_proc np (\<lambda>q. q\<lparr>p_parent := Some p\<rparr>) s;
               s = upd_proc np (\<lambda>q. q\<lparr>p_state := RUNNABLE\<rparr>) s
           in Ok pid s)))))"

section \<open>Exit\<close>

fun exit_files :: "nat \<Rightarrow> nat list \<Rightarrow> 'z files_scheme \<Rightarrow> ('z files_scheme, unit) result" where
  "exit_files p [] s = Ok () s"
| "exit_files p (fd # rest) s =
     (case p_ofile (procs s p) fd of
        None \<Rightarrow> exit_files p rest s
      | Some f \<Rightarrow>
          then_do (fileclose f s) (\<lambda>_ s.
          exit_files p rest (upd_proc p (\<lambda>q. q\<lparr>p_ofile := (p_ofile q)(fd := None)\<rparr>) s)))"

definition exit_zombie :: "nat \<Rightarrow> u32 \<Rightarrow> 'z procs_scheme \<Rightarrow> 'z procs_scheme" where
  "exit_zombie p status s =
     (let s = reparent p s;
          s = (case p_parent (procs s p) of Some q \<Rightarrow> wakeup (ChanProc q) s | None \<Rightarrow> s)
      in upd_proc p (\<lambda>q. q\<lparr>p_xstate := status, p_state := ZOMBIE\<rparr>) s)"

definition exit :: "u32 \<Rightarrow> 'z files_scheme \<Rightarrow> ('z files_scheme, 'a) result" where
  "exit status = with_proc (\<lambda>p s.
     if initproc s = Some p then Panic ''init exiting''
     else
       then_do (exit_files p [0..<NOFILE] s) (\<lambda>_ s.
       then_do (begin_op s) (\<lambda>_ s.
       then_do (case p_cwd (procs s p) of None \<Rightarrow> Panic ''kerneltrap'' | Some c \<Rightarrow> iput c s) (\<lambda>_ s.
       then_do (end_op s) (\<lambda>_ s.
       Exits (exit_zombie p status (upd_proc p (\<lambda>q. q\<lparr>p_cwd := None\<rparr>) s)))))))"

section \<open>Exec\<close>

definition ELF_MAGIC :: u32 where "ELF_MAGIC = 0x464C457F"
definition ELF_PROG_LOAD :: u32 where "ELF_PROG_LOAD = 1"
definition MAXARG :: nat where "MAXARG = 32"

definition dword_at :: "u8 list \<Rightarrow> nat \<Rightarrow> u64" where
  "dword_at xs off = le_word (take 8 (drop off xs))"

record elfhdr =
  e_magic :: u32
  e_entry :: u64
  e_phoff :: u64
  e_phnum :: u16

definition elfhdr_of :: "u8 list \<Rightarrow> elfhdr" where
  "elfhdr_of xs = \<lparr>e_magic = word_at xs 0, e_entry = dword_at xs 24, e_phoff = dword_at xs 32, e_phnum = half_at xs 56\<rparr>"

record proghdr =
  ph_type :: u32
  ph_flags :: u32
  ph_off :: u64
  ph_vaddr :: u64
  ph_filesz :: u64
  ph_memsz :: u64

definition proghdr_of :: "u8 list \<Rightarrow> proghdr" where
  "proghdr_of xs = \<lparr>ph_type = word_at xs 0, ph_flags = word_at xs 4, ph_off = dword_at xs 8, ph_vaddr = dword_at xs 16,
     ph_filesz = dword_at xs 32, ph_memsz = dword_at xs 40\<rparr>"

definition flags2perm :: "u32 \<Rightarrow> u64" where
  "flags2perm flags =
     (let perm = (if flags AND 1 \<noteq> 0 then PTE_X else 0)
      in if flags AND 2 \<noteq> 0 then perm OR PTE_W else perm)"

text \<open>The counter \<open>i\<close> is 32 bits wide in the source: when it wraps around the loop starts over for ever.\<close>

function loadseg_loop :: "u64 \<Rightarrow> u64 \<Rightarrow> nat \<Rightarrow> u32 \<Rightarrow> nat \<Rightarrow> nat \<Rightarrow> 'z fs_scheme \<Rightarrow> ('z fs_scheme, int) result" where
  "loadseg_loop pagetable va ip offset i sz s =
     (if i < sz then
        then_do (walkaddr pagetable (va + of_nat i) s) (\<lambda>pa s.
        if pa = 0 then Panic ''loadseg: address should exist''
        else
          let n = min (sz - i) 4096 in
          then_do (readi ip (KernDst pa) (offset + of_nat i) (of_nat n) s) (\<lambda>(r, bs) s.
          if (of_int r :: u32) \<noteq> of_nat n then Ok (-1) s
          else if i + 4096 \<ge> 2 ^ 32 then Hang
          else loadseg_loop pagetable va ip offset (i + 4096) sz s))
      else Ok 0 s)"
  by pat_completeness auto
termination by (relation "measure (\<lambda>(pagetable, va, ip, offset, i, sz, s). sz - i)") auto

declare loadseg_loop.simps [simp del]

definition loadseg :: "u64 \<Rightarrow> u64 \<Rightarrow> nat \<Rightarrow> u32 \<Rightarrow> u32 \<Rightarrow> 'z fs_scheme \<Rightarrow> ('z fs_scheme, int) result" where
  "loadseg pagetable va ip offset sz s = loadseg_loop pagetable va ip offset 0 (unat sz) s"

text \<open>Loading the segments: whether it succeeds, and the size reached.\<close>

primrec exec_load :: "nat \<Rightarrow> u64 \<Rightarrow> nat \<Rightarrow> u32 \<Rightarrow> u64 \<Rightarrow> 'z fs_scheme \<Rightarrow> ('z fs_scheme, bool \<times> u64) result" where
  "exec_load ip pagetable 0 = (\<lambda>off sz s. Ok (True, sz) s)"
| "exec_load ip pagetable (Suc n) = (\<lambda>off sz s.
     then_do (readi ip LocalDst off 56 s) (\<lambda>(r, bs) s.
     let ph = proghdr_of bs in
     if r \<noteq> 56 then Ok (False, sz) s
     else if ph_type ph \<noteq> ELF_PROG_LOAD then exec_load ip pagetable n (off + 56) sz s
     else if ph_memsz ph < ph_filesz ph then Ok (False, sz) s
     else if ph_vaddr ph + ph_memsz ph < ph_vaddr ph then Ok (False, sz) s
     else if ph_vaddr ph mod PGSIZE \<noteq> 0 then Ok (False, sz) s
     else
       then_do (uvmalloc pagetable sz (ph_vaddr ph + ph_memsz ph) (flags2perm (ph_flags ph)) s) (\<lambda>sz1 s.
       if sz1 = 0 then Ok (False, sz) s
       else
         then_do (loadseg pagetable (ph_vaddr ph) ip (ucast (ph_off ph)) (ucast (ph_filesz ph)) s) (\<lambda>r s.
         if r < 0 then Ok (False, sz1) s else exec_load ip pagetable n (off + 56) sz1 s))))"

definition exec_bad :: "u64 \<Rightarrow> u64 \<Rightarrow> nat option \<Rightarrow> 'z files_scheme \<Rightarrow> ('z files_scheme, int) result" where
  "exec_bad pagetable sz ipo s =
     then_do (if pagetable \<noteq> 0 then proc_freepagetable pagetable sz s else Ok () s) (\<lambda>_ s.
     case ipo of
       None \<Rightarrow> Ok (-1) s
     | Some ip \<Rightarrow> then_do (iunlockput ip s) (\<lambda>_ s. then_do (end_op s) (\<lambda>_ s. Ok (-1) s)))"

text \<open>The place of a string of \<open>n\<close> bytes below \<open>sp\<close>, aligned to 16 bytes.\<close>

definition push_sp :: "u64 \<Rightarrow> nat \<Rightarrow> u64" where
  "push_sp sp n = (let sp = sp - of_nat n in sp - sp mod 16)"

fun push_args :: "u64 \<Rightarrow> u64 \<Rightarrow> u64 \<Rightarrow> u64 list \<Rightarrow> u8 list list \<Rightarrow> 'z machine_scheme \<Rightarrow>
    ('z machine_scheme, (u64 \<times> u64 list) option) result" where
  "push_args pagetable stackbase sp ustack [] s = Ok (Some (sp, ustack)) s"
| "push_args pagetable stackbase sp ustack (a # args) s =
     (if length ustack \<ge> MAXARG then Ok None s
      else
        let sp = push_sp sp (length a + 1) in
        if sp < stackbase then Ok None s
        else
          then_do (copyout pagetable sp (a @ [0]) s) (\<lambda>r s.
          if r < 0 then Ok None s else push_args pagetable stackbase sp (ustack @ [sp]) args s))"

definition last_elem :: "u8 list \<Rightarrow> u8 list" where
  "last_elem pth = rev (takeWhile (\<lambda>c. c \<noteq> SLASH) (rev pth))"

definition exec_image :: "nat \<Rightarrow> u8 list \<Rightarrow> u8 list list \<Rightarrow> u64 \<Rightarrow> u64 \<Rightarrow> u64 \<Rightarrow> 'z files_scheme \<Rightarrow> ('z files_scheme, int) result" where
  "exec_image p pth argv pagetable sz entry s =
     (let oldsz = p_sz (procs s p); sz = PGROUNDUP sz in
      then_do (uvmalloc pagetable sz (sz + 2 * PGSIZE) PTE_W s) (\<lambda>sz1 s.
      if sz1 = 0 then exec_bad pagetable sz None s
      else
        let sz = sz1 in
        then_do (uvmclear pagetable (sz - 2 * PGSIZE) s) (\<lambda>_ s.
        let stackbase = sz - PGSIZE in
        then_do (push_args pagetable stackbase sz [] argv s) (\<lambda>r s.
        case r of
          None \<Rightarrow> exec_bad pagetable sz None s
        | Some (sp, ustack) \<Rightarrow>
            let argc = length ustack; sp = push_sp sp ((argc + 1) * 8) in
            if sp < stackbase then exec_bad pagetable sz None s
            else
              then_do (copyout pagetable sp (concat (map (le_bytes 8) (ustack @ [0]))) s) (\<lambda>r s.
              if r < 0 then exec_bad pagetable sz None s
              else
                let s = tf_set TF_A1 sp p s;
                    s = upd_proc p (\<lambda>q. q\<lparr>p_name := safestrcpy_bytes 16 (last_elem pth) (p_name q)\<rparr>) s;
                    oldpagetable = p_pagetable (procs s p);
                    s = upd_proc p (\<lambda>q. q\<lparr>p_pagetable := pagetable, p_sz := sz\<rparr>) s;
                    s = tf_set TF_EPC entry p s;
                    s = tf_set TF_SP sp p s in
                then_do (proc_freepagetable oldpagetable oldsz s) (\<lambda>_ s. Ok (int argc) s))))))"

definition exec :: "u8 list \<Rightarrow> u8 list list \<Rightarrow> 'z files_scheme \<Rightarrow> ('z files_scheme, int) result" where
  "exec pth argv = with_proc (\<lambda>p s.
     then_do (begin_op s) (\<lambda>_ s.
     then_do (namei (path_junk s) pth s) (\<lambda>ipo s.
     case ipo of
       None \<Rightarrow> then_do (end_op s) (\<lambda>_ s. Ok (-1) s)
     | Some ip \<Rightarrow>
         then_do (ilock (Some ip) s) (\<lambda>_ s.
         then_do (readi ip LocalDst 0 64 s) (\<lambda>(r, bs) s.
         let elf = elfhdr_of bs in
         if r \<noteq> 64 \<or> e_magic elf \<noteq> ELF_MAGIC then exec_bad 0 0 (Some ip) s
         else
           then_do (proc_pagetable p s) (\<lambda>pagetable s.
           if pagetable = 0 then exec_bad 0 0 (Some ip) s
           else
             then_do (exec_load ip pagetable (unat (e_phnum elf)) (ucast (e_phoff elf)) 0 s) (\<lambda>(ok, sz) s.
             if \<not> ok then exec_bad pagetable sz (Some ip) s
             else
               then_do (iunlockput ip s) (\<lambda>_ s.
               then_do (end_op s) (\<lambda>_ s.
               exec_image p pth argv pagetable sz (e_entry elf) s)))))))))"

end
