(* ===== verification/Sysfile.thy ===== *)
theory Sysfile
  imports Procfs
begin

text \<open>
  The system calls, kernel/sysproc.c and kernel/sysfile.c, and the fetching of their arguments,
  kernel/syscall.c. A system call returns the 64-bit value that goes to register a0. Messages that the code
  prints for debugging are left out; the output of sys_printinfo() is its purpose and is modelled.
\<close>

section \<open>Arguments\<close>

definition fetchaddr :: "u64 \<Rightarrow> 'z procs_scheme \<Rightarrow> ('z procs_scheme, u64 option) result" where
  "fetchaddr addr = with_proc (\<lambda>p s.
     if addr \<ge> p_sz (procs s p) \<or> addr + 8 > p_sz (procs s p) then Ok None s
     else
       then_do (copyin (p_pagetable (procs s p)) addr 8 s) (\<lambda>(r, bs) s.
       if r \<noteq> 0 then Ok None s else Ok (Some (le_word bs)) s))"

text \<open>The string without its terminating zero.\<close>

definition fetchstr :: "u64 \<Rightarrow> nat \<Rightarrow> 'z procs_scheme \<Rightarrow> ('z procs_scheme, u8 list option) result" where
  "fetchstr addr max_len = with_proc (\<lambda>p s.
     then_do (copyinstr (p_pagetable (procs s p)) addr max_len s) (\<lambda>(r, bs) s.
     if r < 0 then Ok None s else Ok (Some (butlast bs)) s))"

definition argraw :: "nat \<Rightarrow> 'z procs_scheme \<Rightarrow> ('z procs_scheme, u64) result" where
  "argraw n = with_proc (\<lambda>p s.
     if n \<le> 5 then Ok (tf_get (TF_A0 + 8 * of_nat n) p s) s else Panic ''argraw'')"

definition argint :: "nat \<Rightarrow> 'z procs_scheme \<Rightarrow> ('z procs_scheme, u32) result" where
  "argint n s = then_do (argraw n s) (\<lambda>v s. Ok (ucast v) s)"

definition argaddr :: "nat \<Rightarrow> 'z procs_scheme \<Rightarrow> ('z procs_scheme, u64) result" where
  "argaddr n s = argraw n s"

definition argstr :: "nat \<Rightarrow> nat \<Rightarrow> 'z procs_scheme \<Rightarrow> ('z procs_scheme, u8 list option) result" where
  "argstr n max_len s = then_do (argaddr n s) (\<lambda>addr s. fetchstr addr max_len s)"

definition MAXPATH :: nat where "MAXPATH = 128"

section \<open>System calls on processes\<close>

definition sys_exit :: "'z files_scheme \<Rightarrow> ('z files_scheme, u64) result" where
  "sys_exit s = then_do (argint 0 s) (\<lambda>n s. exit n s)"

definition sys_getpid :: "'z procs_scheme \<Rightarrow> ('z procs_scheme, u64) result" where
  "sys_getpid = with_proc (\<lambda>p s. Ok (of_int (p_pid (procs s p))) s)"

definition sys_fork :: "'z files_scheme \<Rightarrow> ('z files_scheme, u64) result" where
  "sys_fork s = then_do (fork s) (\<lambda>r s. Ok (of_int r) s)"

definition sys_wait :: "'z procs_scheme \<Rightarrow> ('z procs_scheme, u64) result" where
  "sys_wait s = then_do (argaddr 0 s) (\<lambda>p s. then_do (wait p s) (\<lambda>r s. Ok (of_int r) s))"

definition sys_sbrk :: "'z procs_scheme \<Rightarrow> ('z procs_scheme, u64) result" where
  "sys_sbrk s =
     then_do (argint 0 s) (\<lambda>n s.
     with_proc (\<lambda>p s.
       let addr = p_sz (procs s p) in
       then_do (growproc (sint n) s) (\<lambda>r s. if r < 0 then Ok (-1) s else Ok addr s)) s)"

definition sleep_loop :: "u32 \<Rightarrow> u32 \<Rightarrow> 'z files_scheme \<Rightarrow> ('z files_scheme, u64) result" where
  "sleep_loop ticks0 n s =
     (if ticks s - ticks0 < n then
        with_proc (\<lambda>p s. if killed p s then Ok (-1) s else sleep ChanTicks s) s
      else Ok 0 s)"

definition sys_sleep :: "'z files_scheme \<Rightarrow> ('z files_scheme, u64) result" where
  "sys_sleep s =
     then_do (argint 0 s) (\<lambda>n s.
     sleep_loop (ticks s) (if sint n < 0 then 0 else n) s)"

definition sys_kill :: "'z procs_scheme \<Rightarrow> ('z procs_scheme, u64) result" where
  "sys_kill s = then_do (argint 0 s) (\<lambda>pid s. then_do (kill (sint pid) s) (\<lambda>r s. Ok (of_int r) s))"

definition sys_uptime :: "'z files_scheme \<Rightarrow> ('z files_scheme, u64) result" where
  "sys_uptime s = Ok (ucast (ticks s)) s"

section \<open>System calls on open files\<close>

definition argfd :: "nat \<Rightarrow> 'z files_scheme \<Rightarrow> ('z files_scheme, (nat \<times> nat) option) result" where
  "argfd n s =
     then_do (argint n s) (\<lambda>fd s.
     if sint fd < 0 \<or> sint fd \<ge> int NOFILE then Ok None s
     else
       with_proc (\<lambda>p s.
         case p_ofile (procs s p) (nat (sint fd)) of
           None \<Rightarrow> Ok None s
         | Some f \<Rightarrow> Ok (Some (nat (sint fd), f)) s) s)"

definition fdalloc :: "nat \<Rightarrow> 'z files_scheme \<Rightarrow> ('z files_scheme, int) result" where
  "fdalloc f = with_proc (\<lambda>p s.
     case List.find (\<lambda>fd. p_ofile (procs s p) fd = None) [0..<NOFILE] of
       None \<Rightarrow> Ok (-1) s
     | Some fd \<Rightarrow> Ok (int fd) (upd_proc p (\<lambda>q. q\<lparr>p_ofile := (p_ofile q)(fd := Some f)\<rparr>) s))"

definition sys_dup :: "'z files_scheme \<Rightarrow> ('z files_scheme, u64) result" where
  "sys_dup s =
     then_do (argfd 0 s) (\<lambda>r s.
     case r of
       None \<Rightarrow> Ok (-1) s
     | Some (_, f) \<Rightarrow>
         then_do (fdalloc f s) (\<lambda>fd s.
         if fd < 0 then Ok (-1) s else then_do (filedup f s) (\<lambda>_ s. Ok (of_int fd) s)))"

definition sys_read :: "'z files_scheme \<Rightarrow> ('z files_scheme, u64) result" where
  "sys_read s =
     then_do (argaddr 1 s) (\<lambda>p s.
     then_do (argint 2 s) (\<lambda>n s.
     then_do (argfd 0 s) (\<lambda>r s.
     case r of
       None \<Rightarrow> Ok (-1) s
     | Some (_, f) \<Rightarrow> then_do (fileread f p (sint n) s) (\<lambda>r s. Ok (of_int r) s))))"

definition sys_write :: "'z files_scheme \<Rightarrow> ('z files_scheme, u64) result" where
  "sys_write s =
     then_do (argaddr 1 s) (\<lambda>p s.
     then_do (argint 2 s) (\<lambda>n s.
     then_do (argfd 0 s) (\<lambda>r s.
     case r of
       None \<Rightarrow> Ok (-1) s
     | Some (_, f) \<Rightarrow> then_do (filewrite f p (sint n) s) (\<lambda>r s. Ok (of_int r) s))))"

definition set_ofile :: "nat \<Rightarrow> nat \<Rightarrow> nat option \<Rightarrow> 'z procs_scheme \<Rightarrow> 'z procs_scheme" where
  "set_ofile p fd fo s = upd_proc p (\<lambda>q. q\<lparr>p_ofile := (p_ofile q)(fd := fo)\<rparr>) s"

definition sys_close :: "'z files_scheme \<Rightarrow> ('z files_scheme, u64) result" where
  "sys_close s =
     then_do (argfd 0 s) (\<lambda>r s.
     case r of
       None \<Rightarrow> Ok (-1) s
     | Some (fd, f) \<Rightarrow>
         with_proc (\<lambda>p s.
           let s = set_ofile p fd None s in
           if f_major (ftable s f) \<noteq> CONSOLE then then_do (fileclose f s) (\<lambda>_ s. Ok 0 s) else Ok 0 s) s)"

definition sys_fstat :: "'z files_scheme \<Rightarrow> ('z files_scheme, u64) result" where
  "sys_fstat s =
     then_do (argaddr 1 s) (\<lambda>st s.
     then_do (argfd 0 s) (\<lambda>r s.
     case r of
       None \<Rightarrow> Ok (-1) s
     | Some (_, f) \<Rightarrow> then_do (filestat f st s) (\<lambda>r s. Ok (of_int r) s)))"

definition sys_pipe :: "'z files_scheme \<Rightarrow> ('z files_scheme, u64) result" where
  "sys_pipe = with_proc (\<lambda>p s.
     then_do (argaddr 0 s) (\<lambda>fdarray s.
     then_do (pipealloc s) (\<lambda>r s.
     case r of
       None \<Rightarrow> Ok (-1) s
     | Some (rfile, wfile) \<Rightarrow>
         let close_both = (\<lambda>s. then_do (fileclose rfile s) (\<lambda>_ s. then_do (fileclose wfile s) (\<lambda>_ s. Ok (-1) s))) in
         then_do (fdalloc rfile s) (\<lambda>fd0 s.
         if fd0 < 0 then close_both s
         else
           then_do (fdalloc wfile s) (\<lambda>fd1 s.
           if fd1 < 0 then close_both (set_ofile p (nat fd0) None s)
           else
             let undo = (\<lambda>s. close_both (set_ofile p (nat fd1) None (set_ofile p (nat fd0) None s))) in
             then_do (copyout (p_pagetable (procs s p)) fdarray (le_bytes 4 (of_int fd0 :: u32)) s) (\<lambda>r s.
             if r < 0 then undo s
             else
               then_do (copyout (p_pagetable (procs s p)) (fdarray + 4) (le_bytes 4 (of_int fd1 :: u32)) s) (\<lambda>r s.
               if r < 0 then undo s else Ok 0 s)))))))"

section \<open>System calls on the file system\<close>

definition put_end :: "nat \<Rightarrow> u64 \<Rightarrow> 'z files_scheme \<Rightarrow> ('z files_scheme, u64) result" where
  "put_end ip v s = then_do (iunlockput ip s) (\<lambda>_ s. then_do (end_op s) (\<lambda>_ s. Ok v s))"

definition end_with :: "u64 \<Rightarrow> 'z files_scheme \<Rightarrow> ('z files_scheme, u64) result" where
  "end_with v s = then_do (end_op s) (\<lambda>_ s. Ok v s)"

definition link_bad :: "nat \<Rightarrow> 'z files_scheme \<Rightarrow> ('z files_scheme, u64) result" where
  "link_bad ip s =
     then_do (ilock (Some ip) s) (\<lambda>_ s.
     then_do (iupdate ip (upd_inode ip (\<lambda>k. k\<lparr>i_nlink := i_nlink k - 1\<rparr>) s)) (\<lambda>_ s.
     put_end ip (-1) s))"

definition sys_link :: "'z files_scheme \<Rightarrow> ('z files_scheme, u64) result" where
  "sys_link s =
     then_do (argstr 0 MAXPATH s) (\<lambda>old_path s.
     case old_path of None \<Rightarrow> Ok (-1) s | Some old_path \<Rightarrow>
     then_do (argstr 1 MAXPATH s) (\<lambda>new_path s.
     case new_path of None \<Rightarrow> Ok (-1) s | Some new_path \<Rightarrow>
     then_do (begin_op s) (\<lambda>_ s.
     then_do (namei (path_junk s) old_path s) (\<lambda>ipo s.
     case ipo of None \<Rightarrow> end_with (-1) s | Some ip \<Rightarrow>
     then_do (ilock (Some ip) s) (\<lambda>_ s.
     if i_type (itable s ip) = T_DIR then put_end ip (-1) s
     else
       then_do (iupdate ip (upd_inode ip (\<lambda>k. k\<lparr>i_nlink := i_nlink k + 1\<rparr>) s)) (\<lambda>_ s.
       then_do (iunlock (Some ip) s) (\<lambda>_ s.
       then_do (nameiparent (path_junk s) new_path s) (\<lambda>(dpo, name) s.
       case dpo of None \<Rightarrow> link_bad ip s | Some dp \<Rightarrow>
       then_do (ilock (Some dp) s) (\<lambda>_ s.
       if i_dev (itable s dp) \<noteq> i_dev (itable s ip) then then_do (iunlockput dp s) (\<lambda>_ s. link_bad ip s)
       else
         then_do (dirlink dp name (i_inum (itable s ip)) s) (\<lambda>r s.
         if r < 0 then then_do (iunlockput dp s) (\<lambda>_ s. link_bad ip s)
         else
           then_do (iunlockput dp s) (\<lambda>_ s.
           then_do (iput ip s) (\<lambda>_ s.
           end_with 0 s))))))))))))"

text \<open>\<open>off\<close> is a signed int that is compared with the unsigned size.\<close>

function isdirempty_loop :: "nat \<Rightarrow> nat \<Rightarrow> nat \<Rightarrow> 'z fs_scheme \<Rightarrow> ('z fs_scheme, bool) result" where
  "isdirempty_loop dp off sz s =
     (if off < sz then
        then_do (readi dp LocalDst (of_nat off) 16 s) (\<lambda>(r, bs) s.
        if r \<noteq> 16 then Panic ''isdirempty: readi''
        else if half_at bs 0 \<noteq> 0 then Ok False s
        else isdirempty_loop dp (off + 16) sz s)
      else Ok True s)"
  by pat_completeness auto
termination by (relation "measure (\<lambda>(dp, off, sz, s). sz - off)") auto

declare isdirempty_loop.simps [simp del]

definition isdirempty :: "nat \<Rightarrow> 'z fs_scheme \<Rightarrow> ('z fs_scheme, bool) result" where
  "isdirempty dp s = isdirempty_loop dp 32 (unat (i_size (itable s dp))) s"

definition unlink_entry :: "nat \<Rightarrow> nat \<Rightarrow> u32 \<Rightarrow> 'z files_scheme \<Rightarrow> ('z files_scheme, u64) result" where
  "unlink_entry dp ip off s =
     then_do (writei dp (LocalSrc (replicate 16 0)) off 16 s) (\<lambda>r s.
     if r \<noteq> 16 then Panic ''unlink: writei''
     else
       then_do (if i_type (itable s ip) = T_DIR
                then iupdate dp (upd_inode dp (\<lambda>k. k\<lparr>i_nlink := i_nlink k - 1\<rparr>) s) else Ok () s) (\<lambda>_ s.
       then_do (iunlockput dp s) (\<lambda>_ s.
       then_do (iupdate ip (upd_inode ip (\<lambda>k. k\<lparr>i_nlink := i_nlink k - 1\<rparr>) s)) (\<lambda>_ s.
       put_end ip 0 s))))"

definition sys_unlink :: "'z files_scheme \<Rightarrow> ('z files_scheme, u64) result" where
  "sys_unlink s =
     then_do (argstr 0 MAXPATH s) (\<lambda>ptho s.
     case ptho of None \<Rightarrow> Ok (-1) s | Some pth \<Rightarrow>
     then_do (begin_op s) (\<lambda>_ s.
     then_do (nameiparent (path_junk s) pth s) (\<lambda>(dpo, name) s.
     case dpo of None \<Rightarrow> end_with (-1) s | Some dp \<Rightarrow>
     then_do (ilock (Some dp) s) (\<lambda>_ s.
     if namecmp name (bytes_of ''.'') = 0 \<or> namecmp name (bytes_of ''..'') = 0 then put_end dp (-1) s
     else
       then_do (dirlookup dp name s) (\<lambda>r s.
       case r of None \<Rightarrow> put_end dp (-1) s | Some (ip, off) \<Rightarrow>
       then_do (ilock (Some ip) s) (\<lambda>_ s.
       if sint (i_nlink (itable s ip)) < 1 then Panic ''unlink: nlink < 1''
       else if i_type (itable s ip) = T_DIR then
         then_do (isdirempty ip s) (\<lambda>e s.
         if \<not> e then then_do (iunlockput ip s) (\<lambda>_ s. put_end dp (-1) s) else unlink_entry dp ip off s)
       else unlink_entry dp ip off s))))))"

definition create_fail :: "nat \<Rightarrow> nat \<Rightarrow> 'z files_scheme \<Rightarrow> ('z files_scheme, nat option) result" where
  "create_fail ip dp s =
     then_do (iupdate ip (upd_inode ip (\<lambda>k. k\<lparr>i_nlink := 0\<rparr>) s)) (\<lambda>_ s.
     then_do (iunlockput ip s) (\<lambda>_ s.
     then_do (iunlockput dp s) (\<lambda>_ s. Ok None s)))"

definition create_dots :: "u16 \<Rightarrow> nat \<Rightarrow> nat \<Rightarrow> 'z files_scheme \<Rightarrow> ('z files_scheme, bool) result" where
  "create_dots type ip dp s =
     (if type = T_DIR then
        then_do (dirlink ip (bytes_of ''.'') (i_inum (itable s ip)) s) (\<lambda>r s.
        if r < 0 then Ok False s
        else then_do (dirlink ip (bytes_of ''..'') (i_inum (itable s dp)) s) (\<lambda>r s. Ok (\<not> r < 0) s))
      else Ok True s)"

text \<open>create() returns a locked inode; ialloc() panics rather than return the null pointer.\<close>

definition create :: "u8 list \<Rightarrow> u16 \<Rightarrow> u16 \<Rightarrow> u16 \<Rightarrow> 'z files_scheme \<Rightarrow> ('z files_scheme, nat option) result" where
  "create pth type major minor s =
     then_do (nameiparent (path_junk s) pth s) (\<lambda>(dpo, name) s.
     case dpo of None \<Rightarrow> Ok None s | Some dp \<Rightarrow>
     then_do (ilock (Some dp) s) (\<lambda>_ s.
     then_do (dirlookup dp name s) (\<lambda>r s.
     case r of
       Some (ip, _) \<Rightarrow>
         then_do (iunlockput dp s) (\<lambda>_ s.
         then_do (ilock (Some ip) s) (\<lambda>_ s.
         if type = T_FILE \<and> (i_type (itable s ip) = T_FILE \<or> i_type (itable s ip) = T_DEVICE) then Ok (Some ip) s
         else then_do (iunlockput ip s) (\<lambda>_ s. Ok None s)))
     | None \<Rightarrow>
         then_do (ialloc (i_dev (itable s dp)) type s) (\<lambda>ip s.
         then_do (ilock (Some ip) s) (\<lambda>_ s.
         then_do (iupdate ip (upd_inode ip (\<lambda>k. k\<lparr>i_major := major, i_minor := minor, i_nlink := 1\<rparr>) s)) (\<lambda>_ s.
         then_do (create_dots type ip dp s) (\<lambda>ok s.
         if \<not> ok then create_fail ip dp s
         else
           then_do (dirlink dp name (i_inum (itable s ip)) s) (\<lambda>r s.
           if r < 0 then create_fail ip dp s
           else
             then_do (if type = T_DIR then iupdate dp (upd_inode dp (\<lambda>k. k\<lparr>i_nlink := i_nlink k + 1\<rparr>) s)
                      else Ok () s) (\<lambda>_ s.
             then_do (iunlockput dp s) (\<lambda>_ s. Ok (Some ip) s))))))))))"

definition O_WRONLY :: u32 where "O_WRONLY = 1"
definition O_RDWR :: u32 where "O_RDWR = 2"
definition O_CREATE :: u32 where "O_CREATE = 0x200"
definition O_TRUNC :: u32 where "O_TRUNC = 0x400"

definition open_console :: "'z files_scheme \<Rightarrow> ('z files_scheme, u64) result" where
  "open_console s =
     (case console_f s of
        Some f \<Rightarrow> then_do (fdalloc f s) (\<lambda>fd s. Ok (of_int fd) s)
      | None \<Rightarrow>
          then_do (filealloc s) (\<lambda>fo s.
          let s = s\<lparr>console_f := fo\<rparr> in
          case fo of
            None \<Rightarrow> Panic ''kerneltrap''
          | Some f \<Rightarrow>
              then_do (fdalloc f (upd_file f (\<lambda>k. k\<lparr>f_type := FD_DEVICE, f_major := CONSOLE,
                f_readable := True, f_writable := True\<rparr>) s)) (\<lambda>fd s. Ok (of_int fd) s)))"

text \<open>The second half of sys_open(): the inode is locked.\<close>

definition open_inode :: "u32 \<Rightarrow> nat \<Rightarrow> 'z files_scheme \<Rightarrow> ('z files_scheme, u64) result" where
  "open_inode omode ip s =
     (if i_type (itable s ip) = T_DEVICE \<and>
         (sint (i_major (itable s ip)) < 0 \<or> sint (i_major (itable s ip)) \<ge> int NDEV) then put_end ip (-1) s
      else
        then_do (filealloc s) (\<lambda>fo s.
        case fo of None \<Rightarrow> put_end ip (-1) s | Some f \<Rightarrow>
        then_do (fdalloc f s) (\<lambda>fd s.
        if fd < 0 then then_do (fileclose f s) (\<lambda>_ s. put_end ip (-1) s)
        else
          let s = (if i_type (itable s ip) = T_DEVICE
                   then upd_file f (\<lambda>k. k\<lparr>f_type := FD_DEVICE, f_major := i_major (itable s ip)\<rparr>) s
                   else upd_file f (\<lambda>k. k\<lparr>f_type := FD_INODE, f_off := 0\<rparr>) s);
              s = upd_file f (\<lambda>k. k\<lparr>f_ip := Some ip, f_readable := (omode AND O_WRONLY = 0),
                    f_writable := (omode AND O_WRONLY \<noteq> 0 \<or> omode AND O_RDWR \<noteq> 0)\<rparr>) s in
          then_do (if omode AND O_TRUNC \<noteq> 0 \<and> i_type (itable s ip) = T_FILE then itrunc ip s else Ok () s) (\<lambda>_ s.
          then_do (iunlock (Some ip) s) (\<lambda>_ s.
          end_with (of_int fd) s)))))"

definition sys_open :: "'z files_scheme \<Rightarrow> ('z files_scheme, u64) result" where
  "sys_open s =
     then_do (argint 1 s) (\<lambda>omode s.
     then_do (argstr 0 MAXPATH s) (\<lambda>ptho s.
     case ptho of None \<Rightarrow> Ok (-1) s | Some pth \<Rightarrow>
     if strncmp (cstr_of_list pth) (cstr_of_list (bytes_of ''console'')) 10 = 0 then open_console s
     else
       then_do (begin_op s) (\<lambda>_ s.
       if omode AND O_CREATE \<noteq> 0 then
         then_do (create pth T_FILE 0 0 s) (\<lambda>ipo s.
         case ipo of None \<Rightarrow> end_with (-1) s | Some ip \<Rightarrow> open_inode omode ip s)
       else
         then_do (namei (path_junk s) pth s) (\<lambda>ipo s.
         case ipo of None \<Rightarrow> end_with (-1) s | Some ip \<Rightarrow>
         then_do (ilock (Some ip) s) (\<lambda>_ s.
         if i_type (itable s ip) = T_DIR \<and> omode \<noteq> 0 then put_end ip (-1) s else open_inode omode ip s)))))"

definition sys_mkdir :: "'z files_scheme \<Rightarrow> ('z files_scheme, u64) result" where
  "sys_mkdir s =
     then_do (begin_op s) (\<lambda>_ s.
     then_do (argstr 0 MAXPATH s) (\<lambda>ptho s.
     case ptho of None \<Rightarrow> end_with (-1) s | Some pth \<Rightarrow>
     then_do (create pth T_DIR 0 0 s) (\<lambda>ipo s.
     case ipo of None \<Rightarrow> end_with (-1) s | Some ip \<Rightarrow> put_end ip 0 s)))"

definition sys_chdir :: "'z files_scheme \<Rightarrow> ('z files_scheme, u64) result" where
  "sys_chdir = with_proc (\<lambda>p s.
     then_do (begin_op s) (\<lambda>_ s.
     then_do (argstr 0 MAXPATH s) (\<lambda>ptho s.
     case ptho of None \<Rightarrow> end_with (-1) s | Some pth \<Rightarrow>
     then_do (namei (path_junk s) pth s) (\<lambda>ipo s.
     case ipo of None \<Rightarrow> end_with (-1) s | Some ip \<Rightarrow>
     then_do (ilock (Some ip) s) (\<lambda>_ s.
     if i_type (itable s ip) \<noteq> T_DIR then put_end ip (-1) s
     else
       then_do (iunlock (Some ip) s) (\<lambda>_ s.
       then_do (case p_cwd (procs s p) of None \<Rightarrow> Panic ''kerneltrap'' | Some c \<Rightarrow> iput c s) (\<lambda>_ s.
       then_do (end_op s) (\<lambda>_ s.
       Ok 0 (upd_proc p (\<lambda>q. q\<lparr>p_cwd := Some ip\<rparr>) s)))))))))"

text \<open>The argument vector of sys_exec(): the pages allocated so far, and the strings when all went well.\<close>

primrec exec_args :: "nat \<Rightarrow> u64 \<Rightarrow> 'z procs_scheme \<Rightarrow> ('z procs_scheme, u64 list \<times> u8 list list option) result" where
  "exec_args 0 = (\<lambda>uargv s. Ok ([], None) s)"
| "exec_args (Suc n) = (\<lambda>uargv s.
     then_do (fetchaddr uargv s) (\<lambda>uarg s.
     case uarg of
       None \<Rightarrow> Ok ([], None) s
     | Some uarg \<Rightarrow>
         if uarg = 0 then Ok ([], Some []) s
         else
           then_do (kalloc s) (\<lambda>pa s.
           if pa = 0 then Ok ([], None) s
           else
             then_do (fetchstr uarg 4096 s) (\<lambda>str s.
             case str of
               None \<Rightarrow> Ok ([pa], None) s
             | Some str \<Rightarrow>
                 let s = s\<lparr>pmem := store_bytes (pmem s) pa (str @ [0])\<rparr> in
                 then_do (exec_args n (uargv + 8) s) (\<lambda>(pages, strs) s.
                 Ok (pa # pages, map_option (Cons str) strs) s)))))"

fun free_args :: "u64 list \<Rightarrow> 'z machine_scheme \<Rightarrow> ('z machine_scheme, unit) result" where
  "free_args [] s = Ok () s"
| "free_args (pa # rest) s = then_do (kfree pa s) (\<lambda>_ s. free_args rest s)"

definition sys_exec :: "'z files_scheme \<Rightarrow> ('z files_scheme, u64) result" where
  "sys_exec s =
     then_do (argaddr 1 s) (\<lambda>uargv s.
     then_do (argstr 0 MAXPATH s) (\<lambda>ptho s.
     case ptho of None \<Rightarrow> Ok (-1) s | Some pth \<Rightarrow>
     then_do (exec_args MAXARG uargv s) (\<lambda>(pages, strs) s.
     case strs of
       None \<Rightarrow> then_do (free_args pages s) (\<lambda>_ s. Ok (-1) s)
     | Some argv \<Rightarrow>
         then_do (exec pth argv s) (\<lambda>ret s.
         then_do (free_args pages s) (\<lambda>_ s. Ok (of_int ret) s)))))"

text \<open>
  sys_printinfo() passes a user address to print_cat_file(), which reads it as a kernel address. Only
  the addresses of physical memory are mapped at the same place in the kernel page table; a read of
  any other address (the device registers apart) faults.
\<close>

definition printed :: "string \<Rightarrow> parg list \<Rightarrow> 'z devs_scheme \<Rightarrow> ('z devs_scheme, unit) result" where
  "printed fmt args s =
     (case kprintf (bytes_of fmt) args of None \<Rightarrow> Panic ''printint: buf overflows'' | Some out \<Rightarrow> kputs out s)"

fun print_lines :: "(u8 list \<times> u32) list \<Rightarrow> 'z devs_scheme \<Rightarrow> ('z devs_scheme, unit) result" where
  "print_lines [] s = Ok () s"
| "print_lines ((name, ino) # rest) s =
     then_do (printed ''%s | %u'' [PStr (Some name), PNum (ucast ino)] s) (\<lambda>_ s.
     then_do (kputs [NEWLINE] s) (\<lambda>_ s. print_lines rest s))"

definition sys_printinfo :: "'z files_scheme \<Rightarrow> ('z files_scheme, u64) result" where
  "sys_printinfo s =
     then_do (argint 0 s) (\<lambda>cond s.
     then_do (argaddr 1 s) (\<lambda>ptr s.
     if cond = 0 then
       then_do (kputs (bytes_of ''name | inum'' @ [NEWLINE]) s) (\<lambda>_ s.
       then_do (print_root_files s) (\<lambda>ls s.
       then_do (print_lines ls s) (\<lambda>_ s. exit 0 s)))
     else if cond = 1 then
       then_do (kputs (bytes_of ''name | inum'' @ [NEWLINE]) s) (\<lambda>_ s.
       then_do (print_cwd_files s) (\<lambda>ls s.
       then_do (print_lines ls s) (\<lambda>_ s. exit 0 s)))
     else if cond = 2 then
       if KERNBASE \<le> ptr \<and> ptr < PHYSTOP then
         then_do (print_cat_file (load_bytes (pmem s) ptr DIRSIZ) s) (\<lambda>bs s.
         then_do (kputs (takeWhile (\<lambda>c. c \<noteq> 0) bs @ [NEWLINE]) s) (\<lambda>_ s. exit 0 s))
       else Panic ''kerneltrap''
     else then_do (kputs (bytes_of ''incorrect code'' @ [NEWLINE]) s) (\<lambda>_ s. Ok 0 s)))"

end
