(* ===== verification/Virtio.thy ===== *)
theory Virtio
  imports Procfs
begin

text \<open>
  The driver of the disk, kernel/virtio_disk.c. The queue is shared with the device: the descriptors and
  the available ring are written by the driver, the used ring by the device. \<open>mmio\<close> is what the device
  answers when a register is read, \<open>mmio_writes\<close> the trace of register writes. virtio_disk_rw() is split
  at the point where it waits for the device: \<open>virtio_submit\<close> queues the request, \<open>virtio_finish\<close> runs when the
  interrupt handler has cleared \<^verbatim>\<open>b->disk\<close>. Theory Bio uses the effect of a completed request.
\<close>

section \<open>State\<close>

definition NUM :: nat where "NUM = 8"

text \<open>What the address in a descriptor points to.\<close>

datatype vaddr = ANull | AOps nat | AData nat | AStatus nat

record virtq_desc =
  vd_addr :: vaddr
  vd_len :: u32
  vd_flags :: u16
  vd_next :: u16

record virtio_blk_req =
  rq_type :: u32
  rq_reserved :: u32
  rq_sector :: u64

definition VRING_DESC_F_NEXT :: u16 where "VRING_DESC_F_NEXT = 1"
definition VRING_DESC_F_WRITE :: u16 where "VRING_DESC_F_WRITE = 2"
definition VIRTIO_BLK_T_IN :: u32 where "VIRTIO_BLK_T_IN = 0"
definition VIRTIO_BLK_T_OUT :: u32 where "VIRTIO_BLK_T_OUT = 1"

record vdisk =
  v_desc :: "nat \<Rightarrow> virtq_desc"
  v_avail_ring :: "nat \<Rightarrow> u16"
  v_avail_idx :: u16
  v_used_ring :: "nat \<Rightarrow> u32"
  v_used_dev_idx :: u16
  v_free :: "nat \<Rightarrow> bool"
  v_used_idx :: u16
  v_info_b :: "nat \<Rightarrow> nat option"
  v_info_status :: "nat \<Rightarrow> u8"
  v_ops :: "nat \<Rightarrow> virtio_blk_req"
  v_bdisk :: "nat \<Rightarrow> bool"
  v_queue :: "u64 \<times> u64 \<times> u64"

record vkern = kern +
  vd :: vdisk
  mmio :: "nat \<Rightarrow> u32"
  mmio_writes :: "(nat \<times> u32) list"

abbreviation upd_vd :: "(vdisk \<Rightarrow> vdisk) \<Rightarrow> 'z vkern_scheme \<Rightarrow> 'z vkern_scheme" where
  "upd_vd f s \<equiv> s\<lparr>vd := f (vd s)\<rparr>"

definition mmio_write :: "nat \<Rightarrow> u32 \<Rightarrow> 'z vkern_scheme \<Rightarrow> 'z vkern_scheme" where
  "mmio_write r v s = s\<lparr>mmio_writes := mmio_writes s @ [(r, v)]\<rparr>"

section \<open>Initialisation\<close>

definition driver_features :: "u32 \<Rightarrow> u32" where
  "driver_features f =
     f AND NOT (push_bit 5 1) AND NOT (push_bit 7 1) AND NOT (push_bit 11 1) AND NOT (push_bit 12 1)
       AND NOT (push_bit 27 1) AND NOT (push_bit 29 1) AND NOT (push_bit 28 1)"

definition virtio_queue_init :: "u32 \<Rightarrow> 'z vkern_scheme \<Rightarrow> ('z vkern_scheme, unit) result" where
  "virtio_queue_init status s =
     then_do (kalloc s) (\<lambda>desc s.
     then_do (kalloc s) (\<lambda>avail s.
     then_do (kalloc s) (\<lambda>used s.
     if desc = 0 \<or> avail = 0 \<or> used = 0 then Panic ''virtio disk kalloc''
     else
       let s = s\<lparr>pmem := memset (pmem s) desc 0 (ucast PGSIZE)\<rparr>;
           s = s\<lparr>pmem := memset (pmem s) avail 0 (ucast PGSIZE)\<rparr>;
           s = s\<lparr>pmem := memset (pmem s) used 0 (ucast PGSIZE)\<rparr>;
           s = upd_vd (\<lambda>d. d\<lparr>v_queue := (desc, avail, used), v_desc := (\<lambda>_. \<lparr>vd_addr = ANull, vd_len = 0, vd_flags = 0, vd_next = 0\<rparr>),
                 v_avail_ring := (\<lambda>_. 0), v_avail_idx := 0, v_used_ring := (\<lambda>_. 0), v_used_dev_idx := 0\<rparr>) s;
           s = mmio_write 0x38 (of_nat NUM) s;
           s = mmio_write 0x80 (ucast desc) s;
           s = mmio_write 0x84 (ucast (drop_bit 32 desc)) s;
           s = mmio_write 0x90 (ucast avail) s;
           s = mmio_write 0x94 (ucast (drop_bit 32 avail)) s;
           s = mmio_write 0xA0 (ucast used) s;
           s = mmio_write 0xA4 (ucast (drop_bit 32 used)) s;
           s = mmio_write 0x44 1 s;
           s = upd_vd (\<lambda>d. d\<lparr>v_free := (\<lambda>i. i < NUM)\<rparr>) s
       in Ok () (mmio_write 0x70 (status OR 4) s))))"

definition virtio_disk_init :: "'z vkern_scheme \<Rightarrow> ('z vkern_scheme, unit) result" where
  "virtio_disk_init s =
     (if mmio s 0 \<noteq> 0x74726976 \<or> mmio s 4 \<noteq> 2 \<or> mmio s 8 \<noteq> 2 \<or> mmio s 0xC \<noteq> 0x554D4551
      then Panic ''could not find virtio disk''
      else
        let s = mmio_write 0x70 0 s;
            s = mmio_write 0x70 1 s;
            s = mmio_write 0x70 (1 OR 2) s;
            s = mmio_write 0x20 (driver_features (mmio s 0x10)) s;
            s = mmio_write 0x70 (1 OR 2 OR 8) s;
            status = mmio s 0x70 in
        if status AND 8 = 0 then Panic ''virtio disk FEATURES_OK unset''
        else
          let s = mmio_write 0x30 0 s in
          if mmio s 0x44 \<noteq> 0 then Panic ''virtio disk should not be ready''
          else if mmio s 0x34 = 0 then Panic ''virtio disk has no queue 0''
          else if unat (mmio s 0x34) < NUM then Panic ''virtio disk max queue too short''
          else virtio_queue_init status s)"

section \<open>Descriptors\<close>

definition alloc_desc :: "vdisk \<Rightarrow> nat option \<times> vdisk" where
  "alloc_desc d =
     (case List.find (v_free d) [0..<NUM] of
        None \<Rightarrow> (None, d)
      | Some i \<Rightarrow> (Some i, d\<lparr>v_free := (v_free d)(i := False)\<rparr>))"

definition free_desc :: "nat \<Rightarrow> 'z vkern_scheme \<Rightarrow> ('z vkern_scheme, unit) result" where
  "free_desc i s =
     (if i \<ge> NUM then Panic ''free_desc 1''
      else if v_free (vd s) i then Panic ''free_desc 2''
      else Ok () (wakeup ChanDiskFree (upd_vd (\<lambda>d. d\<lparr>
        v_desc := (v_desc d)(i := \<lparr>vd_addr = ANull, vd_len = 0, vd_flags = 0, vd_next = 0\<rparr>),
        v_free := (v_free d)(i := True)\<rparr>) s)))"

lemma free_desc_card:
  assumes "free_desc i s = Ok x t"
  shows "card {j. j < NUM \<and> \<not> v_free (vd t) j} < card {j. j < NUM \<and> \<not> v_free (vd s) j}"
proof -
  have i: "i < NUM" "\<not> v_free (vd s) i" and t: "v_free (vd t) = (v_free (vd s))(i := True)"
    using assms by (auto simp: free_desc_def wakeup_def split: if_splits)
  have "{j. j < NUM \<and> \<not> v_free (vd t) j} \<subset> {j. j < NUM \<and> \<not> v_free (vd s) j}" using i t by auto
  then show ?thesis by (intro psubset_card_mono) auto
qed

function free_chain :: "nat \<Rightarrow> 'z vkern_scheme \<Rightarrow> ('z vkern_scheme, unit) result" where
  "free_chain i s =
     (let flag = vd_flags (v_desc (vd s) i); nxt = vd_next (v_desc (vd s) i) in
      then_do (free_desc i s) (\<lambda>_ s.
      if flag AND VRING_DESC_F_NEXT \<noteq> 0 then free_chain (unat nxt) s else Ok () s))"
  by pat_completeness auto
termination
  by (relation "measure (\<lambda>(i, s). card {j. j < NUM \<and> \<not> v_free (vd s) j})") (auto dest: free_desc_card)

declare free_chain.simps [simp del]

text \<open>alloc3_desc(): on failure the descriptors taken so far are freed again.\<close>

definition alloc3_desc :: "'z vkern_scheme \<Rightarrow> ('z vkern_scheme, (nat \<times> nat \<times> nat) option) result" where
  "alloc3_desc s =
     (let (a, d) = alloc_desc (vd s); s = s\<lparr>vd := d\<rparr> in
      case a of None \<Rightarrow> Ok None s | Some a \<Rightarrow>
      let (b, d) = alloc_desc (vd s); s = s\<lparr>vd := d\<rparr> in
      case b of None \<Rightarrow> then_do (free_desc a s) (\<lambda>_ s. Ok None s) | Some b \<Rightarrow>
      let (c, d) = alloc_desc (vd s); s = s\<lparr>vd := d\<rparr> in
      case c of None \<Rightarrow> then_do (free_desc a s) (\<lambda>_ s. then_do (free_desc b s) (\<lambda>_ s. Ok None s)) | Some c \<Rightarrow>
      Ok (Some (a, b, c)) s)"

section \<open>Requests\<close>

definition format_request :: "nat \<Rightarrow> bool \<Rightarrow> u32 \<Rightarrow> nat \<times> nat \<times> nat \<Rightarrow> vdisk \<Rightarrow> vdisk" where
  "format_request buf to_disk blockno idx d =
     (case idx of (i0, i1, i2) \<Rightarrow>
      let d = d\<lparr>v_ops := (v_ops d)(i0 := \<lparr>rq_type = (if to_disk then VIRTIO_BLK_T_OUT else VIRTIO_BLK_T_IN),
                rq_reserved = 0, rq_sector = ucast (blockno * 2)\<rparr>)\<rparr>;
          d = d\<lparr>v_desc := (v_desc d)(i0 := \<lparr>vd_addr = AOps i0, vd_len = 16, vd_flags = VRING_DESC_F_NEXT,
                vd_next = of_nat i1\<rparr>)\<rparr>;
          d = d\<lparr>v_desc := (v_desc d)(i1 := \<lparr>vd_addr = AData buf, vd_len = of_nat BSIZE,
                vd_flags = (if to_disk then 0 else VRING_DESC_F_WRITE) OR VRING_DESC_F_NEXT, vd_next = of_nat i2\<rparr>)\<rparr>;
          d = d\<lparr>v_info_status := (v_info_status d)(i0 := 0xFF)\<rparr>;
          d = d\<lparr>v_desc := (v_desc d)(i2 := \<lparr>vd_addr = AStatus i0, vd_len = 1, vd_flags = VRING_DESC_F_WRITE, vd_next = 0\<rparr>)\<rparr>;
          d = d\<lparr>v_bdisk := (v_bdisk d)(buf := True), v_info_b := (v_info_b d)(i0 := Some buf)\<rparr>;
          d = d\<lparr>v_avail_ring := (v_avail_ring d)(unat (v_avail_idx d) mod NUM := of_nat i0)\<rparr>
      in d\<lparr>v_avail_idx := v_avail_idx d + 1\<rparr>)"

text \<open>Up to the first sleep on the buffer; the result is the head of the chain.\<close>

definition virtio_submit :: "nat \<Rightarrow> bool \<Rightarrow> 'z vkern_scheme \<Rightarrow> ('z vkern_scheme, nat) result" where
  "virtio_submit b to_disk s =
     then_do (alloc3_desc s) (\<lambda>r s.
     case r of
       None \<Rightarrow> sleep ChanDiskFree s
     | Some idx \<Rightarrow>
         Ok (fst idx) (mmio_write 0x50 0 (upd_vd (format_request b to_disk (b_blockno (bufs s b)) idx) s)))"

definition virtio_finish :: "nat \<Rightarrow> nat \<Rightarrow> 'z vkern_scheme \<Rightarrow> ('z vkern_scheme, unit) result" where
  "virtio_finish b i0 s =
     (if v_bdisk (vd s) b then sleep (ChanBufIO b) s
      else free_chain i0 (upd_vd (\<lambda>d. d\<lparr>v_info_b := (v_info_b d)(i0 := None)\<rparr>) s))"

section \<open>The interrupt handler\<close>

function virtio_intr_loop :: "'z vkern_scheme \<Rightarrow> ('z vkern_scheme, unit) result" where
  "virtio_intr_loop s =
     (if v_used_idx (vd s) \<noteq> v_used_dev_idx (vd s) then
        let ident = unat (v_used_ring (vd s) (unat (v_used_idx (vd s)) mod NUM)) in
        if ident \<ge> NUM then Panic ''virtio_disk_intr: past info''
        else if v_info_status (vd s) ident \<noteq> 0 then Panic ''virtio_disk_intr status''
        else case v_info_b (vd s) ident of
            None \<Rightarrow> Panic ''kerneltrap''
          | Some b \<Rightarrow>
              let s = wakeup (ChanBufIO b) (upd_vd (\<lambda>d. d\<lparr>v_bdisk := (v_bdisk d)(b := False)\<rparr>) s)
              in virtio_intr_loop (upd_vd (\<lambda>d. d\<lparr>v_used_idx := v_used_idx d + 1\<rparr>) s)
      else Ok () s)"
  by pat_completeness auto
termination
  by (relation "measure (\<lambda>s. unat (v_used_dev_idx (vd s) - v_used_idx (vd s)))")
     (auto simp: wakeup_def intro!: unat_pred_less)

declare virtio_intr_loop.simps [simp del]

definition virtio_disk_intr :: "'z vkern_scheme \<Rightarrow> ('z vkern_scheme, unit) result" where
  "virtio_disk_intr s = virtio_intr_loop (mmio_write 0x64 (mmio s 0x60 AND 3) s)"

end
