(* ===== verification/Trap.thy ===== *)
theory Trap
  imports Sysfile Virtio
begin

text \<open>
  Traps, kernel/trap.c, the dispatch of system calls, kernel/syscall.c, the interrupt controller,
  kernel/plic.c, the first return of a process, forkret() in kernel/proc.c, and the boot sequence of hart 0,
  kernel/main.c. Control registers are fields of the state; whether interrupts are enabled is the SIE bit
  of sstatus.
\<close>

section \<open>Registers\<close>

definition SSTATUS_SPP :: u64 where "SSTATUS_SPP = push_bit 8 1"
definition SSTATUS_SPIE :: u64 where "SSTATUS_SPIE = push_bit 5 1"
definition SSTATUS_SIE :: u64 where "SSTATUS_SIE = push_bit 1 1"

definition intr_on :: "'z kern_scheme \<Rightarrow> 'z kern_scheme" where
  "intr_on s = s\<lparr>r_sstatus := r_sstatus s OR SSTATUS_SIE\<rparr>"

definition intr_off :: "'z kern_scheme \<Rightarrow> 'z kern_scheme" where
  "intr_off s = s\<lparr>r_sstatus := r_sstatus s AND NOT SSTATUS_SIE\<rparr>"

definition intr_get :: "'z kern_scheme \<Rightarrow> bool" where
  "intr_get s \<longleftrightarrow> r_sstatus s AND SSTATUS_SIE \<noteq> 0"

definition MAKE_SATP :: "u64 \<Rightarrow> u64" where
  "MAKE_SATP pagetable = push_bit 60 8 OR drop_bit 12 pagetable"

section \<open>The interrupt controller\<close>

definition UART0_IRQ :: nat where "UART0_IRQ = 10"
definition VIRTIO0_IRQ :: nat where "VIRTIO0_IRQ = 1"
definition PLIC_SENABLE :: "nat \<Rightarrow> u64" where "PLIC_SENABLE hart = PLIC + 0x2080 + of_nat hart * 0x100"
definition PLIC_SPRIORITY :: "nat \<Rightarrow> u64" where "PLIC_SPRIORITY hart = PLIC + 0x201000 + of_nat hart * 0x2000"
definition PLIC_SCLAIM :: "nat \<Rightarrow> u64" where "PLIC_SCLAIM hart = PLIC + 0x201004 + of_nat hart * 0x2000"

definition plic_write :: "u64 \<Rightarrow> u32 \<Rightarrow> 'z kern_scheme \<Rightarrow> 'z kern_scheme" where
  "plic_write a v s = s\<lparr>plic_writes := plic_writes s @ [(a, v)]\<rparr>"

definition plicinit :: "'z kern_scheme \<Rightarrow> 'z kern_scheme" where
  "plicinit s = plic_write (PLIC + of_nat VIRTIO0_IRQ * 4) 1 (plic_write (PLIC + of_nat UART0_IRQ * 4) 1 s)"

definition plicinithart :: "'z kern_scheme \<Rightarrow> 'z kern_scheme" where
  "plicinithart s =
     plic_write (PLIC_SPRIORITY (hartid s)) 0
       (plic_write (PLIC_SENABLE (hartid s)) (push_bit UART0_IRQ 1 OR push_bit VIRTIO0_IRQ 1) s)"

definition plic_claim :: "'z kern_scheme \<Rightarrow> u32 \<times> 'z kern_scheme" where
  "plic_claim s = (plic_claims s (plic_claimed s), s\<lparr>plic_claimed := plic_claimed s + 1\<rparr>)"

definition plic_complete :: "u32 \<Rightarrow> 'z kern_scheme \<Rightarrow> 'z kern_scheme" where
  "plic_complete irq s = plic_write (PLIC_SCLAIM (hartid s)) irq s"

section \<open>Dispatch of system calls\<close>

definition syscalls :: "nat \<Rightarrow> ('z files_scheme \<Rightarrow> ('z files_scheme, u64) result) option" where
  "syscalls num =
     (if num = 1 then Some sys_fork else if num = 2 then Some sys_exit else if num = 3 then Some sys_wait
      else if num = 4 then Some sys_pipe else if num = 5 then Some sys_read else if num = 6 then Some sys_kill
      else if num = 7 then Some sys_exec else if num = 8 then Some sys_fstat else if num = 9 then Some sys_chdir
      else if num = 10 then Some sys_dup else if num = 11 then Some sys_getpid else if num = 12 then Some sys_sbrk
      else if num = 13 then Some sys_sleep else if num = 14 then Some sys_uptime else if num = 15 then Some sys_open
      else if num = 16 then Some sys_write else if num = 18 then Some sys_unlink else if num = 19 then Some sys_link
      else if num = 20 then Some sys_mkdir else if num = 21 then Some sys_close else if num = 22 then Some sys_printinfo
      else None)"

definition syscall :: "'z files_scheme \<Rightarrow> ('z files_scheme, unit) result" where
  "syscall = with_proc (\<lambda>p s.
     let num = sint (ucast (tf_get TF_A7 p s) :: u32) in
     case (if num > 0 \<and> num < 23 then syscalls (nat num) else None) of
       Some f \<Rightarrow> then_do (f s) (\<lambda>v s. Ok () (tf_set TF_A0 v p s))
     | None \<Rightarrow> Ok () (tf_set TF_A0 (-1) p s))"

section \<open>Interrupts\<close>

definition clockintr :: "'z kern_scheme \<Rightarrow> 'z kern_scheme" where
  "clockintr s =
     (let s = (if hartid s = 0 then wakeup ChanTicks (s\<lparr>ticks := ticks s + 1\<rparr>) else s)
      in s\<lparr>r_stimecmp := r_time s + 1000000\<rparr>)"

definition devintr :: "'z vkern_scheme \<Rightarrow> ('z vkern_scheme, nat) result" where
  "devintr s =
     (if r_scause s = 0x8000000000000009 then
        let (irq, s) = plic_claim s in
        then_do
          (if unat irq = UART0_IRQ then uartintr s
           else if unat irq = VIRTIO0_IRQ then virtio_disk_intr s
           else Ok () s) (\<lambda>_ s.
        Ok 1 (if irq \<noteq> 0 then plic_complete irq s else s))
      else if r_scause s = 0x8000000000000005 then Ok 2 (clockintr s)
      else Ok 0 s)"

text \<open>The result is the address and the argument of the jump to userret in trampoline.S.\<close>

definition usertrapret :: "'z kern_scheme \<Rightarrow> ('z kern_scheme, u64 \<times> u64) result" where
  "usertrapret = with_proc (\<lambda>p s.
     let s = intr_off s;
         s = s\<lparr>r_stvec := TRAMPOLINE + uservec_off s\<rparr>;
         s = tf_set TF_KERNEL_SATP (r_satp s) p s;
         s = tf_set TF_KERNEL_SP (p_kstack (procs s p) + PGSIZE) p s;
         s = tf_set TF_KERNEL_TRAP (usertrap_pc s) p s;
         s = tf_set TF_KERNEL_HARTID (of_nat (hartid s)) p s;
         s = s\<lparr>r_sstatus := (r_sstatus s AND NOT SSTATUS_SPP) OR SSTATUS_SPIE\<rparr>;
         s = s\<lparr>r_sepc := tf_get TF_EPC p s\<rparr>
     in Ok (TRAMPOLINE + userret_off s, MAKE_SATP (p_pagetable (procs s p))) s)"

definition usertrap :: "'z vkern_scheme \<Rightarrow> ('z vkern_scheme, u64 \<times> u64) result" where
  "usertrap s =
     (if r_sstatus s AND SSTATUS_SPP \<noteq> 0 then Panic ''usertrap: not from user mode''
      else
        with_proc (\<lambda>p s.
          let s = tf_set TF_EPC (r_sepc s) p s in
          then_do
            (if r_scause s = 8 then
               if killed p s then exit (-1) s
               else
                 let s = tf_set TF_EPC (tf_get TF_EPC p s + 4) p s in
                 then_do (syscall (intr_on s)) (\<lambda>_ s. Ok 0 s)
             else
               then_do (devintr s) (\<lambda>which_dev s.
               Ok which_dev (if which_dev = 0 then setkilled p s else s))) (\<lambda>which_dev s.
          if killed p s then exit (-1) s
          else then_do (if which_dev = 2 then yield s else Ok () s) (\<lambda>_ s. usertrapret s)))
        (s\<lparr>r_stvec := kernelvec_pc s\<rparr>))"

definition kerneltrap :: "'z vkern_scheme \<Rightarrow> ('z vkern_scheme, unit) result" where
  "kerneltrap s =
     (let sepc = r_sepc s; sstatus = r_sstatus s in
      if sstatus AND SSTATUS_SPP = 0 then Panic ''kerneltrap: not from supervisor mode''
      else if intr_get s then Panic ''kerneltrap: interrupts enabled''
      else
        then_do (devintr s) (\<lambda>which_dev s.
        if which_dev = 0 then Panic ''kerneltrap''
        else
          then_do (if which_dev = 2 \<and> myproc s \<noteq> None then yield s else Ok () s) (\<lambda>_ s.
          Ok () (s\<lparr>r_sepc := sepc, r_sstatus := sstatus\<rparr>))))"

definition forkret :: "'z kern_scheme \<Rightarrow> ('z kern_scheme, u64 \<times> u64) result" where
  "forkret s =
     then_do
       (if first_ret s then then_do (fsinit EXT2_ROOTDEV s) (\<lambda>_ s. Ok () (s\<lparr>first_ret := False\<rparr>))
        else Ok () s) (\<lambda>_ s.
     usertrapret s)"

section \<open>Booting\<close>

text \<open>
  Up to the call of scheduler(), without the messages printed. \<open>etext\<close> is the linker's symbol for the end
  of the kernel's code.
\<close>

definition kvminit :: "u64 \<Rightarrow> 'z kern_scheme \<Rightarrow> ('z kern_scheme, u64) result" where
  "kvminit etext s = kvmmake etext (trampoline s) s"

definition kvminithart :: "u64 \<Rightarrow> 'z kern_scheme \<Rightarrow> 'z kern_scheme" where
  "kvminithart kernel_pagetable s = s\<lparr>r_satp := MAKE_SATP kernel_pagetable\<rparr>"

definition trapinithart :: "'z kern_scheme \<Rightarrow> 'z kern_scheme" where
  "trapinithart s = s\<lparr>r_stvec := kernelvec_pc s\<rparr>"

definition main :: "u64 \<Rightarrow> 'z vkern_scheme \<Rightarrow> ('z vkern_scheme, unit) result" where
  "main etext s =
     then_do (kinit (console_devsw s)) (\<lambda>_ s.
     then_do (kvminit etext s) (\<lambda>kpgtbl s.
     let s = kvminithart kpgtbl s;
         s = procinit s;
         s = trapinithart s;
         s = plicinithart (plicinit s);
         s = binit s;
         s = iinit s in
     then_do (virtio_disk_init s) (\<lambda>_ s.
     userinit s)))"

text \<open>A hart other than 0, on its own registers, once hart 0 has set \<open>started\<close>.\<close>

definition main_other :: "u64 \<Rightarrow> 'z kern_scheme \<Rightarrow> 'z kern_scheme" where
  "main_other kernel_pagetable s = plicinithart (trapinithart (kvminithart kernel_pagetable s))"

end
