(* ===== verification/Sample.thy ===== *)
theory Sample
  imports Trap Vm_Copy
begin

text \<open>
  A concrete state of the whole kernel, used to show that the hypotheses of the properties can hold:
  physical memory and free list of the machine \<open>m\<close>, process 0 running with the page table at 0x87FFF000,
  an initialised buffer cache over a disk of zero blocks, empty tables everywhere else.
\<close>

definition blank_inode :: inode where
  "blank_inode = \<lparr>i_dev = 0, i_inum = 0, i_ref = 0, i_lock = unlocked, i_valid = False, i_type = 0, i_major = 0,
     i_minor = 0, i_nlink = 0, i_size = 0, i_addrs = replicate 15 0\<rparr>"

definition blank_file :: open_file where
  "blank_file = \<lparr>f_type = FD_NONE, f_ref = 0, f_readable = False, f_writable = False, f_pipe = 0, f_ip = None,
     f_off = 0, f_major = 0\<rparr>"

definition blank_pipe :: pipe where
  "blank_pipe = \<lparr>pi_data = (\<lambda>_. 0), pi_nread = 0, pi_nwrite = 0, pi_readopen = True, pi_writeopen = True\<rparr>"

definition blank_vdisk :: vdisk where
  "blank_vdisk = \<lparr>v_desc = (\<lambda>_. \<lparr>vd_addr = ANull, vd_len = 0, vd_flags = 0, vd_next = 0\<rparr>), v_avail_ring = (\<lambda>_. 0),
     v_avail_idx = 0, v_used_ring = (\<lambda>_. 0), v_used_dev_idx = 0, v_free = (\<lambda>i. i < NUM), v_used_idx = 0,
     v_info_b = (\<lambda>_. None), v_info_status = (\<lambda>_. 0),
     v_ops = (\<lambda>_. \<lparr>rq_type = 0, rq_reserved = 0, rq_sector = 0\<rparr>), v_bdisk = (\<lambda>_. False), v_queue = (0, 0, 0)\<rparr>"

definition blank_sb :: ext2_superblock where
  "blank_sb = \<lparr>s_ninodes = 64, s_nblocks = 1024, s_first_data_block = 1, s_blocks_per_group = 128,
     s_inodes_per_group = 64, s_magic = EXT2_FSMAGIC\<rparr>"

definition blank_log :: logstate where
  "blank_log = \<lparr>lg_start = 0, lg_size = 0, lg_outstanding = 0, lg_committing = False, lg_dev = 0, lh_n = 0,
     lh_block = (\<lambda>_. 0)\<rparr>"

definition sample_proc :: proc where
  "sample_proc = blank_proc\<lparr>p_state := RUNNING, p_pid := 1, p_pagetable := 0x87FFF000, p_sz := 4096\<rparr>"

definition sample :: "machine \<Rightarrow> vkern" where
  "sample m = \<lparr>pmem = pmem m, freelist = freelist m, kend = kend m,
     procs = (\<lambda>_. blank_proc)(0 := sample_proc), nextpid = 2, initproc = None, myproc = Some 0,
     trampoline = 0x80000000, forkret_pc = 0x80000100,
     bufs = bufs (binit blank_bio), disk = (\<lambda>_. replicate BSIZE 0), dtrace = [],
     log = blank_log, sb = blank_sb, itable = (\<lambda>_. blank_inode),
     uart_tx_buf = (\<lambda>_. 0), uart_tx_w = 0, uart_tx_r = 0, uart_regs = [], lsr = (\<lambda>_. LSR_TX_IDLE), lsr_i = 0,
     rhr = (\<lambda>_. 0), rhr_i = 0, panicked = False, cons_buf = (\<lambda>_. 0), cons_r = 0, cons_w = 0, cons_e = 0,
     ftable = (\<lambda>_. blank_file), pipes = (\<lambda>_. blank_pipe), devsw = (\<lambda>_. False), console_f = None, ticks = 0,
     path_junk = False, stat_pad = [0, 0, 0, 0],
     first_ret = True, r_sstatus = 0, r_sepc = 0, r_scause = 0, r_stval = 0, r_stvec = 0, r_satp = 0, r_time = 0,
     r_stimecmp = 0, hartid = 0, plic_claims = (\<lambda>_. 0), plic_claimed = 0, plic_writes = [],
     kernelvec_pc = 0, uservec_off = 0, userret_off = 0, usertrap_pc = 0,
     vd = blank_vdisk, mmio = (\<lambda>_. 0), mmio_writes = []\<rparr>"

lemma sample_simps [simp]:
  "pmem (sample m) = pmem m" "freelist (sample m) = freelist m" "kend (sample m) = kend m"
  "procs (sample m) = (\<lambda>_. blank_proc)(0 := sample_proc)" "myproc (sample m) = Some 0" "initproc (sample m) = None"
  "bufs (sample m) = bufs (binit blank_bio)" "disk (sample m) = (\<lambda>_. replicate BSIZE 0)" "dtrace (sample m) = []"
  "log (sample m) = blank_log" "sb (sample m) = blank_sb" "itable (sample m) = (\<lambda>_. blank_inode)"
  "ftable (sample m) = (\<lambda>_. blank_file)" "pipes (sample m) = (\<lambda>_. blank_pipe)" "console_f (sample m) = None"
  "uart_tx_w (sample m) = 0" "uart_tx_r (sample m) = 0" "uart_regs (sample m) = []" "lsr (sample m) = (\<lambda>_. LSR_TX_IDLE)"
  "lsr_i (sample m) = 0" "panicked (sample m) = False" "cons_r (sample m) = 0" "cons_w (sample m) = 0"
  "cons_e (sample m) = 0" "vd (sample m) = blank_vdisk" "ticks (sample m) = 0"
  by (simp_all add: sample_def)

lemma sample_proc_simps [simp]:
  "p_state sample_proc = RUNNING" "p_pid sample_proc = 1" "p_pagetable sample_proc = 0x87FFF000"
  "p_sz sample_proc = 4096" "p_killed sample_proc = False"
  by (simp_all add: sample_proc_def blank_proc_def)

lemma sample_cache: "d \<noteq> 0 \<Longrightarrow> cache_ok d {} (sample m)"
proof -
  have "disk (binit blank_bio) = (\<lambda>_. replicate BSIZE 0)" "myproc (binit blank_bio) = Some 0"
    by (simp_all add: binit_def)
  then show "d \<noteq> 0 \<Longrightarrow> cache_ok d {} (sample m)"
    using cache_ok_blank [of d] by (simp add: cache_ok_def key_unique_def) blast
qed

definition sample0 :: vkern where
  "sample0 = sample \<lparr>pmem = (\<lambda>_. 0), freelist = 0, kend = 0x80001000\<rparr>"

text \<open>Before the first bread(), the cache shows the disk.\<close>

lemma fresh_cache:
  assumes "bufs s = bufs (binit blank_bio)" and "myproc s = Some p" and "d \<noteq> 0" and "\<And>n. length (disk s n) = BSIZE"
  shows "cache_ok d {} s" "view d s = disk s"
proof -
  have i: "b_dev (bufs s i) = 0" "\<not> b_valid (bufs s i)" for i
    using payload_eqD [OF binit_blank_payload, of i] by (simp_all add: assms(1) blank_buf_def)
  show "cache_ok d {} s"
    using cache_ok_blank [OF assms(3)] i assms(2-4) by (simp add: cache_ok_def key_unique_def assms(1))
  show "view d s = disk s"
    using i assms(3) by (intro ext view_uncached) (simp add: cached_def)
qed

text \<open>The page-table predicates only look at memory, the free list and the end of the kernel.\<close>

lemma pt_inv_machine:
  "pmem t = pmem s \<Longrightarrow> freelist t = freelist s \<Longrightarrow> kend t = kend s \<Longrightarrow> pt_inv pt t ps \<longleftrightarrow> pt_inv pt s ps"
  by (simp add: pt_inv_def free_pages_def frame_ok_def)

lemma user_ok_machine: "pmem t = pmem s \<Longrightarrow> user_ok pt t ps \<longleftrightarrow> user_ok pt s ps"
  by (simp add: user_ok_def)

lemma of_nat_page_less: "k < 4096 \<Longrightarrow> (of_nat k :: u64) < 4096"
  by (simp add: word_less_nat_alt unat_of_nat)

text \<open>One user page at address 0, readable and writable.\<close>

lemma sample_user_page:
  obtains m ps where "pt_inv 0x87FFF000 (sample m) ps" "user_ok 0x87FFF000 (sample m) ps"
    "\<And>va. va < 4096 \<Longrightarrow> writable (pmem m) 0x87FFF000 va" "\<And>va. va < 4096 \<Longrightarrow> readable (pmem m) 0x87FFF000 va"
proof -
  obtain t :: machine and qs where t: "pt_inv 0x87FFF000 t qs" "user_ok 0x87FFF000 t qs"
    "\<forall>va<MAXVA. pte_of (pmem t) 0x87FFF000 va =
       (if page_of va = 0 then PA2PTE 0x80200000 OR (PTE_R OR PTE_W OR PTE_U) OR PTE_V else 0)"
    using ex_user_page by blast
  have w: "writable (pmem t) 0x87FFF000 va" if "va < 4096" for va
  proof -
    have "va < MAXVA" using that by (simp add: MAXVA_def word_less_nat_alt)
    moreover have "page_of va = 0" using that by (simp add: word_unat_eq_iff unat_page_of word_less_nat_alt)
    ultimately show ?thesis using t(3) by (simp add: writable_def PA2PTE_def pte_bits)
  qed
  show thesis
  proof (rule that)
    show "pt_inv 0x87FFF000 (sample t) qs" using t(1) pt_inv_machine [of "sample t" t] by simp
    show "user_ok 0x87FFF000 (sample t) qs" using t(2) user_ok_machine [of "sample t" t] by simp
    show "\<And>va. va < 4096 \<Longrightarrow> writable (pmem t) 0x87FFF000 va" by (rule w)
    show "\<And>va. va < 4096 \<Longrightarrow> readable (pmem t) 0x87FFF000 va" using writable_readable [OF t(2) w] .
  qed
qed

end
