(* ===== verification/Hart.thy ===== *)
theory Hart
  imports Physmem
begin

text \<open>
  A hart and the code that runs below C: the register accessors of kernel/riscv.h, start() and timerinit() in
  kernel/start.c, and the assembly of kernel/entry.S, kernel/trampoline.S, kernel/swtch.S and
  kernel/kernelvec.S.

  A hart has its 31 integer registers, its control and status registers, a privilege mode, the memory, and the
  target of its last jump. Assembly is a list of instructions that run one after the other; the jump, sret or
  mret at its end sets the program counter. Addresses are translated by a function \<open>tr\<close> of the register satp and
  the virtual address, which stands for the page tables; an address it does not map is a fault. The TLB is not
  modelled, so that sfence.vma does nothing. The supervisor registers sstatus, sie and sip are views of their
  machine-mode counterparts, as the privileged specification says.
\<close>

section \<open>Registers\<close>

datatype reg =
    RA | SP | GP | TP | T0 | T1 | T2 | S0 | S1 | A0 | A1 | A2 | A3 | A4 | A5 | A6 | A7
  | S2 | S3 | S4 | S5 | S6 | S7 | S8 | S9 | S10 | S11 | T3 | T4 | T5 | T6

datatype csr =
    Mhartid | Mstatus | Mepc | Mie | Mip | Medeleg | Mideleg | Menvcfg | Mcounteren | Pmpcfg0 | Pmpaddr0
  | Sstatus | Sip | Sie | Sepc | Stvec | Stimecmp | Sscratch | Satp | Scause | Stval | Time

datatype mode = Umode | Smode | Mmode

record hart =
  regs :: "reg \<Rightarrow> u64"
  csrs :: "csr \<Rightarrow> u64"
  priv :: mode
  pc :: u64
  hmem :: mem

definition MSTATUS_MPP_MASK :: u64 where "MSTATUS_MPP_MASK = push_bit 11 3"
definition MSTATUS_MPP_S :: u64 where "MSTATUS_MPP_S = push_bit 11 1"
definition SSTATUS_SPP :: u64 where "SSTATUS_SPP = push_bit 8 1"
definition SSTATUS_SPIE :: u64 where "SSTATUS_SPIE = push_bit 5 1"
definition SSTATUS_SIE :: u64 where "SSTATUS_SIE = push_bit 1 1"
definition SIE_SEIE :: u64 where "SIE_SEIE = push_bit 9 1"
definition SIE_STIE :: u64 where "SIE_STIE = push_bit 5 1"
definition SIE_SSIE :: u64 where "SIE_SSIE = push_bit 1 1"
definition MIE_STIE :: u64 where "MIE_STIE = push_bit 5 1"

text \<open>The bits of mstatus that sstatus shows, and the one bit of sip that software may change.\<close>

definition SSTATUS_VIEW :: u64 where "SSTATUS_VIEW = 0x80000003000DE762"
definition SIP_WRITABLE :: u64 where "SIP_WRITABLE = push_bit 1 1"

definition csr_read :: "csr \<Rightarrow> hart \<Rightarrow> u64" where
  "csr_read c h =
     (case c of
        Sstatus \<Rightarrow> csrs h Mstatus AND SSTATUS_VIEW
      | Sie \<Rightarrow> csrs h Mie AND csrs h Mideleg
      | Sip \<Rightarrow> csrs h Mip AND csrs h Mideleg
      | _ \<Rightarrow> csrs h c)"

definition set_csr :: "csr \<Rightarrow> u64 \<Rightarrow> hart \<Rightarrow> hart" where
  "set_csr c x h = h\<lparr>csrs := (csrs h)(c := x)\<rparr>"

definition masked :: "u64 \<Rightarrow> u64 \<Rightarrow> u64 \<Rightarrow> u64" where
  "masked view old x = (old AND NOT view) OR (x AND view)"

definition csr_write :: "csr \<Rightarrow> u64 \<Rightarrow> hart \<Rightarrow> hart" where
  "csr_write c x h =
     (case c of
        Sstatus \<Rightarrow> set_csr Mstatus (masked SSTATUS_VIEW (csrs h Mstatus) x) h
      | Sie \<Rightarrow> set_csr Mie (masked (csrs h Mideleg) (csrs h Mie) x) h
      | Sip \<Rightarrow> set_csr Mip (masked (csrs h Mideleg AND SIP_WRITABLE) (csrs h Mip) x) h
      | _ \<Rightarrow> set_csr c x h)"

definition r_mhartid :: "hart \<Rightarrow> u64" where "r_mhartid h = csr_read Mhartid h"
definition r_mstatus :: "hart \<Rightarrow> u64" where "r_mstatus h = csr_read Mstatus h"
definition w_mstatus :: "u64 \<Rightarrow> hart \<Rightarrow> hart" where "w_mstatus x h = csr_write Mstatus x h"
definition w_mepc :: "u64 \<Rightarrow> hart \<Rightarrow> hart" where "w_mepc x h = csr_write Mepc x h"
definition r_sstatus :: "hart \<Rightarrow> u64" where "r_sstatus h = csr_read Sstatus h"
definition w_sstatus :: "u64 \<Rightarrow> hart \<Rightarrow> hart" where "w_sstatus x h = csr_write Sstatus x h"
definition r_sip :: "hart \<Rightarrow> u64" where "r_sip h = csr_read Sip h"
definition w_sip :: "u64 \<Rightarrow> hart \<Rightarrow> hart" where "w_sip x h = csr_write Sip x h"
definition r_sie :: "hart \<Rightarrow> u64" where "r_sie h = csr_read Sie h"
definition w_sie :: "u64 \<Rightarrow> hart \<Rightarrow> hart" where "w_sie x h = csr_write Sie x h"
definition r_mie :: "hart \<Rightarrow> u64" where "r_mie h = csr_read Mie h"
definition w_mie :: "u64 \<Rightarrow> hart \<Rightarrow> hart" where "w_mie x h = csr_write Mie x h"
definition w_sepc :: "u64 \<Rightarrow> hart \<Rightarrow> hart" where "w_sepc x h = csr_write Sepc x h"
definition r_sepc :: "hart \<Rightarrow> u64" where "r_sepc h = csr_read Sepc h"
definition r_medeleg :: "hart \<Rightarrow> u64" where "r_medeleg h = csr_read Medeleg h"
definition w_medeleg :: "u64 \<Rightarrow> hart \<Rightarrow> hart" where "w_medeleg x h = csr_write Medeleg x h"
definition r_mideleg :: "hart \<Rightarrow> u64" where "r_mideleg h = csr_read Mideleg h"
definition w_mideleg :: "u64 \<Rightarrow> hart \<Rightarrow> hart" where "w_mideleg x h = csr_write Mideleg x h"
definition w_stvec :: "u64 \<Rightarrow> hart \<Rightarrow> hart" where "w_stvec x h = csr_write Stvec x h"
definition r_stvec :: "hart \<Rightarrow> u64" where "r_stvec h = csr_read Stvec h"
definition r_stimecmp :: "hart \<Rightarrow> u64" where "r_stimecmp h = csr_read Stimecmp h"
definition w_stimecmp :: "u64 \<Rightarrow> hart \<Rightarrow> hart" where "w_stimecmp x h = csr_write Stimecmp x h"
definition r_menvcfg :: "hart \<Rightarrow> u64" where "r_menvcfg h = csr_read Menvcfg h"
definition w_menvcfg :: "u64 \<Rightarrow> hart \<Rightarrow> hart" where "w_menvcfg x h = csr_write Menvcfg x h"
definition w_pmpcfg0 :: "u64 \<Rightarrow> hart \<Rightarrow> hart" where "w_pmpcfg0 x h = csr_write Pmpcfg0 x h"
definition w_pmpaddr0 :: "u64 \<Rightarrow> hart \<Rightarrow> hart" where "w_pmpaddr0 x h = csr_write Pmpaddr0 x h"
definition w_satp :: "u64 \<Rightarrow> hart \<Rightarrow> hart" where "w_satp x h = csr_write Satp x h"
definition r_satp :: "hart \<Rightarrow> u64" where "r_satp h = csr_read Satp h"
definition r_scause :: "hart \<Rightarrow> u64" where "r_scause h = csr_read Scause h"
definition r_stval :: "hart \<Rightarrow> u64" where "r_stval h = csr_read Stval h"
definition w_mcounteren :: "u64 \<Rightarrow> hart \<Rightarrow> hart" where "w_mcounteren x h = csr_write Mcounteren x h"
definition r_mcounteren :: "hart \<Rightarrow> u64" where "r_mcounteren h = csr_read Mcounteren h"
definition r_time :: "hart \<Rightarrow> u64" where "r_time h = csr_read Time h"
definition r_sp :: "hart \<Rightarrow> u64" where "r_sp h = regs h SP"
definition r_tp :: "hart \<Rightarrow> u64" where "r_tp h = regs h TP"
definition w_tp :: "u64 \<Rightarrow> hart \<Rightarrow> hart" where "w_tp x h = h\<lparr>regs := (regs h)(TP := x)\<rparr>"
definition r_ra :: "hart \<Rightarrow> u64" where "r_ra h = regs h RA"

text \<open>The index of the hart's entry in the array \<open>cpus\<close> (cpuid() and mycpu() of kernel/proc.c).\<close>

definition cpuid :: "hart \<Rightarrow> u32" where "cpuid h = ucast (r_tp h)"

definition mycpu :: "(nat \<Rightarrow> 'c) \<Rightarrow> hart \<Rightarrow> 'c" where "mycpu cpus h = cpus (unat (cpuid h))"

text \<open>The same operations on interrupts as the traps of the C code use, on the registers of a hart.\<close>

definition hart_intr_on :: "hart \<Rightarrow> hart" where "hart_intr_on h = w_sstatus (r_sstatus h OR SSTATUS_SIE) h"
definition hart_intr_off :: "hart \<Rightarrow> hart" where "hart_intr_off h = w_sstatus (r_sstatus h AND NOT SSTATUS_SIE) h"
definition hart_intr_get :: "hart \<Rightarrow> bool" where "hart_intr_get h \<longleftrightarrow> r_sstatus h AND SSTATUS_SIE \<noteq> 0"

section \<open>Traps and returns\<close>

text \<open>
  What the hardware does: a trap from user mode that is delegated to supervisor mode, sret and mret. In mstatus
  SIE is bit 1, MIE bit 3, SPIE bit 5, MPIE bit 7, SPP bit 8 and MPP bits 11 and 12.
\<close>

definition put_bit :: "nat \<Rightarrow> bool \<Rightarrow> u64 \<Rightarrow> u64" where
  "put_bit n b w = (if b then set_bit n w else unset_bit n w)"

definition user_trap :: "u64 \<Rightarrow> u64 \<Rightarrow> hart \<Rightarrow> hart" where
  "user_trap cause tval h =
     (let m = csrs h Mstatus;
          m = put_bit 5 (bit m 1) m; m = put_bit 1 False m; m = put_bit 8 False m
      in h\<lparr>csrs := (csrs h)(Sepc := pc h, Scause := cause, Stval := tval, Mstatus := m), priv := Smode, pc := csrs h Stvec\<rparr>)"

definition sret :: "hart \<Rightarrow> hart" where
  "sret h =
     (let m = csrs h Mstatus;
          to = (if bit m 8 then Smode else Umode);
          m = put_bit 1 (bit m 5) m; m = put_bit 5 True m; m = put_bit 8 False m
      in h\<lparr>csrs := (csrs h)(Mstatus := m), priv := to, pc := csrs h Sepc\<rparr>)"

definition mret :: "hart \<Rightarrow> hart" where
  "mret h =
     (let m = csrs h Mstatus;
          to = (if bit m 12 then Mmode else if bit m 11 then Smode else Umode);
          m = put_bit 3 (bit m 7) m; m = put_bit 7 True m; m = put_bit 11 False (put_bit 12 False m)
      in h\<lparr>csrs := (csrs h)(Mstatus := m), priv := to, pc := csrs h Mepc\<rparr>)"

section \<open>kernel/start.c\<close>

definition timerinit :: "hart \<Rightarrow> hart" where
  "timerinit h =
     (let h = w_mie (r_mie h OR MIE_STIE) h;
          h = w_menvcfg (r_menvcfg h OR push_bit 63 1) h;
          h = w_mcounteren (r_mcounteren h OR 2) h
      in w_stimecmp (r_time h + 1000000) h)"

text \<open>\<open>main_pc\<close> is the address of main(). The hart number passes through an int.\<close>

definition start :: "u64 \<Rightarrow> hart \<Rightarrow> hart" where
  "start main_pc h =
     (let x = r_mstatus h;
          x = x AND NOT MSTATUS_MPP_MASK;
          x = x OR MSTATUS_MPP_S;
          h = w_mstatus x h;
          h = w_mepc main_pc h;
          h = w_satp 0 h;
          h = w_medeleg 0xffff h;
          h = w_mideleg 0xffff h;
          h = w_sie (r_sie h OR SIE_SEIE OR SIE_STIE OR SIE_SSIE) h;
          h = w_pmpaddr0 0x3fffffffffffff h;
          h = w_pmpcfg0 0xf h;
          h = timerinit h;
          id = (ucast (r_mhartid h) :: u32);
          h = w_tp (scast id) h
      in mret h)"

section \<open>Instructions\<close>

datatype instr =
    Sd reg u64 reg                       \<comment> \<open>sd r, off(b)\<close>
  | Ld reg u64 reg                       \<comment> \<open>ld r, off(b)\<close>
  | Csrw csr reg
  | Csrr reg csr
  | Li reg u64                           \<comment> \<open>li and la\<close>
  | Addi reg reg u64
  | Add reg reg reg
  | Mul reg reg reg
  | SfenceVma
  | Jr reg
  | Ret
  | Call u64
  | Sret

definition set_reg :: "reg \<Rightarrow> u64 \<Rightarrow> hart \<Rightarrow> hart" where
  "set_reg r x h = h\<lparr>regs := (regs h)(r := x)\<rparr>"

text \<open>A call stores the return address in ra; the model leaves it to the caller to say what that address is.\<close>

definition exec_instr :: "(u64 \<Rightarrow> u64 \<Rightarrow> u64 option) \<Rightarrow> instr \<Rightarrow> hart \<Rightarrow> (hart, unit) result" where
  "exec_instr tr i h =
     (case i of
        Sd r off b \<Rightarrow>
          (case tr (csrs h Satp) (regs h b + off) of
             None \<Rightarrow> Panic ''page fault''
           | Some pa \<Rightarrow> Ok () (h\<lparr>hmem := store64 (hmem h) pa (regs h r)\<rparr>))
      | Ld r off b \<Rightarrow>
          (case tr (csrs h Satp) (regs h b + off) of
             None \<Rightarrow> Panic ''page fault''
           | Some pa \<Rightarrow> Ok () (set_reg r (load64 (hmem h) pa) h))
      | Csrw c r \<Rightarrow> Ok () (csr_write c (regs h r) h)
      | Csrr r c \<Rightarrow> Ok () (set_reg r (csr_read c h) h)
      | Li r x \<Rightarrow> Ok () (set_reg r x h)
      | Addi r a x \<Rightarrow> Ok () (set_reg r (regs h a + x) h)
      | Add r a b \<Rightarrow> Ok () (set_reg r (regs h a + regs h b) h)
      | Mul r a b \<Rightarrow> Ok () (set_reg r (regs h a * regs h b) h)
      | SfenceVma \<Rightarrow> Ok () h
      | Jr r \<Rightarrow> Ok () (h\<lparr>pc := regs h r\<rparr>)
      | Ret \<Rightarrow> Ok () (h\<lparr>pc := regs h RA\<rparr>)
      | Call a \<Rightarrow> Ok () (h\<lparr>pc := a\<rparr>)
      | Sret \<Rightarrow> Ok () (sret h))"

primrec run :: "(u64 \<Rightarrow> u64 \<Rightarrow> u64 option) \<Rightarrow> instr list \<Rightarrow> hart \<Rightarrow> (hart, unit) result" where
  "run tr [] h = Ok () h"
| "run tr (i # is) h = then_do (exec_instr tr i h) (\<lambda>_ h. run tr is h)"

section \<open>The assembly of the kernel\<close>

text \<open>kernel/entry.S, up to the call of start().\<close>

definition entry :: "u64 \<Rightarrow> u64 \<Rightarrow> instr list" where
  "entry stack0 start_pc =
     [Li SP stack0, Li A0 (1024 * 4), Csrr A1 Mhartid, Addi A1 A1 1, Mul A0 A0 A1, Add SP SP A0, Call start_pc]"

text \<open>kernel/trampoline.S\<close>

definition uservec :: "instr list" where
  "uservec =
     [Csrw Sscratch A0, Li A0 TRAPFRAME, Sd RA 40 A0, Sd SP 48 A0, Sd GP 56 A0, Sd TP 64 A0, Sd T0 72 A0,
      Sd T1 80 A0, Sd T2 88 A0, Sd S0 96 A0, Sd S1 104 A0, Sd A1 120 A0, Sd A2 128 A0, Sd A3 136 A0,
      Sd A4 144 A0, Sd A5 152 A0, Sd A6 160 A0, Sd A7 168 A0, Sd S2 176 A0, Sd S3 184 A0, Sd S4 192 A0,
      Sd S5 200 A0, Sd S6 208 A0, Sd S7 216 A0, Sd S8 224 A0, Sd S9 232 A0, Sd S10 240 A0, Sd S11 248 A0,
      Sd T3 256 A0, Sd T4 264 A0, Sd T5 272 A0, Sd T6 280 A0, Csrr T0 Sscratch, Sd T0 112 A0, Ld SP 8 A0,
      Ld TP 32 A0, Ld T0 16 A0, Ld T1 0 A0, SfenceVma, Csrw Satp T1, SfenceVma, Jr T0]"

definition userret :: "instr list" where
  "userret =
     [SfenceVma, Csrw Satp A0, SfenceVma, Li A0 TRAPFRAME, Ld RA 40 A0, Ld SP 48 A0, Ld GP 56 A0,
      Ld TP 64 A0, Ld T0 72 A0, Ld T1 80 A0, Ld T2 88 A0, Ld S0 96 A0, Ld S1 104 A0, Ld A1 120 A0,
      Ld A2 128 A0, Ld A3 136 A0, Ld A4 144 A0, Ld A5 152 A0, Ld A6 160 A0, Ld A7 168 A0, Ld S2 176 A0,
      Ld S3 184 A0, Ld S4 192 A0, Ld S5 200 A0, Ld S6 208 A0, Ld S7 216 A0, Ld S8 224 A0, Ld S9 232 A0,
      Ld S10 240 A0, Ld S11 248 A0, Ld T3 256 A0, Ld T4 264 A0, Ld T5 272 A0, Ld T6 280 A0, Ld A0 112 A0,
      Sret]"

text \<open>kernel/swtch.S\<close>

definition swtch :: "instr list" where
  "swtch =
     [Sd RA 0 A0, Sd SP 8 A0, Sd S0 16 A0, Sd S1 24 A0, Sd S2 32 A0, Sd S3 40 A0, Sd S4 48 A0, Sd S5 56 A0,
      Sd S6 64 A0, Sd S7 72 A0, Sd S8 80 A0, Sd S9 88 A0, Sd S10 96 A0, Sd S11 104 A0, Ld RA 0 A1,
      Ld SP 8 A1, Ld S0 16 A1, Ld S1 24 A1, Ld S2 32 A1, Ld S3 40 A1, Ld S4 48 A1, Ld S5 56 A1,
      Ld S6 64 A1, Ld S7 72 A1, Ld S8 80 A1, Ld S9 88 A1, Ld S10 96 A1, Ld S11 104 A1, Ret]"

text \<open>kernel/kernelvec.S before and after the call of kerneltrap().\<close>

definition kernelvec_save :: "instr list" where
  "kernelvec_save =
     [Addi SP SP (-256), Sd RA 0 SP, Sd SP 8 SP, Sd GP 16 SP, Sd TP 24 SP, Sd T0 32 SP, Sd T1 40 SP,
      Sd T2 48 SP, Sd A0 72 SP, Sd A1 80 SP, Sd A2 88 SP, Sd A3 96 SP, Sd A4 104 SP, Sd A5 112 SP,
      Sd A6 120 SP, Sd A7 128 SP, Sd T3 216 SP, Sd T4 224 SP, Sd T5 232 SP, Sd T6 240 SP]"

definition kernelvec_restore :: "instr list" where
  "kernelvec_restore =
     [Ld RA 0 SP, Ld SP 8 SP, Ld GP 16 SP, Ld T0 32 SP, Ld T1 40 SP, Ld T2 48 SP, Ld A0 72 SP, Ld A1 80 SP,
      Ld A2 88 SP, Ld A3 96 SP, Ld A4 104 SP, Ld A5 112 SP, Ld A6 120 SP, Ld A7 128 SP, Ld T3 216 SP,
      Ld T4 224 SP, Ld T5 232 SP, Ld T6 240 SP, Addi SP SP 256, Sret]"

definition kernelvec :: "(u64 \<Rightarrow> u64 \<Rightarrow> u64 option) \<Rightarrow> (hart \<Rightarrow> (hart, unit) result) \<Rightarrow> hart \<Rightarrow> (hart, unit) result" where
  "kernelvec tr kerneltrap h =
     then_do (run tr kernelvec_save h) (\<lambda>_ h.
     then_do (kerneltrap h) (\<lambda>_ h.
     run tr kernelvec_restore h))"

end
