(* ===== verification/Hart_Props.thy ===== *)
theory Hart_Props
  imports Hart
begin

text \<open>
  What the assembly of the kernel saves it also restores: a trap from user space and the return to it
  (kernel/trampoline.S), a switch away from a kernel thread and back (kernel/swtch.S), and a trap taken in
  the kernel (kernel/kernelvec.S). The three share lemmas on sequences of stores and of loads at the offsets of
  a table of slots.
\<close>

section \<open>Saving and restoring a table of slots\<close>

type_synonym slots = "(reg \<times> nat) list"

definition apart :: "nat \<Rightarrow> nat \<Rightarrow> bool" where
  "apart a b \<longleftrightarrow> (a + 8 \<le> b \<or> b + 8 \<le> a) \<and> a < 4096 \<and> b < 4096"

lemma unat_neg_of_nat: "0 < k \<Longrightarrow> k < 2 ^ 64 \<Longrightarrow> unat (- (of_nat k :: u64)) = 2 ^ 64 - k"
proof -
  assume k: "0 < k" "k < 2 ^ 64"
  have "(of_nat (2 ^ 64 - k) :: u64) + of_nat k = of_nat (2 ^ 64)" using k by (subst of_nat_add [symmetric]) simp
  also have "\<dots> = 0" by simp
  finally have "- (of_nat k :: u64) = of_nat (2 ^ 64 - k)" by (metis eq_neg_iff_add_eq_0)
  then show ?thesis using k by (simp only:) (intro unat_of_nat_small, simp)
qed

lemma load_store64_apart:
  assumes "apart a b"
  shows "load64 (store64 m (base + of_nat a) v) (base + of_nat b) = load64 m (base + of_nat b)"
proof (rule load64_cong)
  fix i :: nat assume i: "i < 8"
  have u: "unat (of_nat k :: u64) = k" if "k < 2 ^ 63" for k using that by (intro unat_of_nat_small) simp
  have e: "base + of_nat b + of_nat i - (base + of_nat a) = (of_nat (b + i) - of_nat a :: u64)" by simp
  have "\<not> unat (of_nat (b + i) - of_nat a :: u64) < 8"
  proof (cases "a \<le> b + i")
    case True
    then have "of_nat (b + i) - of_nat a = (of_nat (b + i - a) :: u64)" by (simp add: of_nat_diff)
    then show ?thesis using assms i True by (simp only: u apart_def) (subst u, auto)
  next
    case False
    then have "of_nat (b + i) - of_nat a = - (of_nat (a - (b + i)) :: u64)" by (simp add: of_nat_diff)
    moreover have "unat (- (of_nat (a - (b + i)) :: u64)) = 2 ^ 64 - (a - (b + i))"
      using False assms by (subst unat_neg_of_nat) (auto simp: apart_def)
    moreover have "a - (b + i) < 4096" using assms by (simp add: apart_def less_imp_diff_less)
    ultimately show ?thesis by (simp only:) simp
  qed
  then show "store64 m (base + of_nat a) v (base + of_nat b + of_nat i) = m (base + of_nat b + of_nat i)"
    unfolding store64_def store_bytes_def e by simp
qed

definition save_all :: "(reg \<Rightarrow> u64) \<Rightarrow> u64 \<Rightarrow> slots \<Rightarrow> mem \<Rightarrow> mem" where
  "save_all f base xs m = fold (\<lambda>(r, off) m. store64 m (base + of_nat off) (f r)) xs m"

definition load_all :: "mem \<Rightarrow> u64 \<Rightarrow> slots \<Rightarrow> (reg \<Rightarrow> u64) \<Rightarrow> reg \<Rightarrow> u64" where
  "load_all m base xs f = (\<lambda>r. case map_of xs r of Some off \<Rightarrow> load64 m (base + of_nat off) | None \<Rightarrow> f r)"

fun spaced :: "slots \<Rightarrow> bool" where
  "spaced [] = True"
| "spaced ((r, a) # xs) = ((\<forall>(q, b) \<in> set xs. apart a b \<and> r \<noteq> q) \<and> spaced xs)"

lemma save_all_other:
  "\<forall>(r, a) \<in> set xs. apart a b \<Longrightarrow> load64 (save_all f base xs m) (base + of_nat b) = load64 m (base + of_nat b)"
  unfolding save_all_def by (induction xs arbitrary: m) (auto simp: load_store64_apart)

lemma save_all_slot:
  "spaced xs \<Longrightarrow> (r, a) \<in> set xs \<Longrightarrow> load64 (save_all f base xs m) (base + of_nat a) = f r"
proof (induction xs arbitrary: m)
  case (Cons x xs)
  obtain q b where x: "x = (q, b)" by (cases x)
  show ?case
  proof (cases "(r, a) = x")
    case True
    then have "\<forall>(q, b) \<in> set xs. apart b a" using Cons.prems(1) by (auto simp: apart_def)
    then show ?thesis
      using True save_all_other [of xs a f base "store64 m (base + of_nat a) (f r)"] by (auto simp: save_all_def)
  next
    case False
    then have "(r, a) \<in> set xs" "spaced xs" using Cons.prems x by auto
    then show ?thesis using Cons.IH [of "store64 m (base + of_nat b) (f q)"] by (simp add: x save_all_def)
  qed
qed simp

lemma run_append: "run tr (xs @ ys) h = then_do (run tr xs h) (\<lambda>_ h. run tr ys h)"
proof (induction xs arbitrary: h)
  case (Cons i xs)
  then show ?case by (cases "exec_instr tr i h") simp_all
qed simp

lemma run_saves:
  "\<forall>(r, off) \<in> set xs. tr (csrs h Satp) (regs h b + of_nat off) = Some (base + of_nat off) \<Longrightarrow>
   run tr (map (\<lambda>(r, off). Sd r (of_nat off) b) xs) h = Ok () (h\<lparr>hmem := save_all (regs h) base xs (hmem h)\<rparr>)"
proof (induction xs arbitrary: h)
  case (Cons x xs)
  then show ?case by (cases x) (simp add: exec_instr_def save_all_def)
qed (simp add: save_all_def)

text \<open>The base register may be among the registers loaded when its slot holds its value.\<close>

lemma run_loads:
  "\<forall>(r, off) \<in> set xs. tr (csrs h Satp) (regs h b + of_nat off) = Some (base + of_nat off) \<and> (r = b \<longrightarrow> load64 (hmem h) (base + of_nat off) = regs h b) \<Longrightarrow>
   spaced xs \<Longrightarrow>
   run tr (map (\<lambda>(r, off). Ld r (of_nat off) b) xs) h = Ok () (h\<lparr>regs := load_all (hmem h) base xs (regs h)\<rparr>)"
proof (induction xs arbitrary: h)
  case (Cons x xs)
  obtain r off where x: "x = (r, off)" by (cases x)
  let ?h = "set_reg r (load64 (hmem h) (base + of_nat off)) h"
  have b: "regs ?h b = regs h b" using Cons.prems(1) by (auto simp: x set_reg_def)
  have "run tr (map (\<lambda>(r, off). Ld r (of_nat off) b) xs) ?h = Ok () (?h\<lparr>regs := load_all (hmem ?h) base xs (regs ?h)\<rparr>)"
    using Cons.prems b by (intro Cons.IH) (auto simp: x set_reg_def)
  moreover have "map_of xs r = None" using Cons.prems(2) by (auto simp: x map_of_eq_None_iff)
  then have "load_all (hmem ?h) base xs (regs ?h) = load_all (hmem h) base (x # xs) (regs h)"
    by (auto simp: load_all_def x set_reg_def split: option.splits)
  ultimately show ?case using Cons.prems(1) by (simp add: x exec_instr_def set_reg_def)
qed (simp add: load_all_def)

section \<open>Traps from user space\<close>

text \<open>The user registers in struct trapframe; a0 is saved through sscratch.\<close>

definition user_slots :: slots where
  "user_slots =
     [(RA, 40), (SP, 48), (GP, 56), (TP, 64), (T0, 72), (T1, 80), (T2, 88), (S0, 96), (S1, 104), (A1, 120), (A2, 128),
      (A3, 136), (A4, 144), (A5, 152), (A6, 160), (A7, 168), (S2, 176), (S3, 184), (S4, 192), (S5, 200), (S6, 208),
      (S7, 216), (S8, 224), (S9, 232), (S10, 240), (S11, 248), (T3, 256), (T4, 264), (T5, 272), (T6, 280)]"

lemma uservec_slots:
  "uservec = [Csrw Sscratch A0, Li A0 TRAPFRAME] @ map (\<lambda>(r, off). Sd r (of_nat off) A0) user_slots @
     [Csrr T0 Sscratch, Sd T0 112 A0, Ld SP 8 A0, Ld TP 32 A0, Ld T0 16 A0, Ld T1 0 A0, SfenceVma, Csrw Satp T1, SfenceVma, Jr T0]"
  by (simp add: uservec_def user_slots_def)

lemma userret_slots:
  "userret = [SfenceVma, Csrw Satp A0, SfenceVma, Li A0 TRAPFRAME] @ map (\<lambda>(r, off). Ld r (of_nat off) A0) user_slots @ [Ld A0 112 A0, Sret]"
  by (simp add: userret_def user_slots_def)

lemma spaced_user: "spaced user_slots"
  by (simp add: user_slots_def apart_def)

lemma user_slots_facts:
  "\<forall>(r, off) \<in> set user_slots. 40 \<le> off \<and> off + 8 \<le> 288 \<and> r \<noteq> A0 \<and> apart off 112 \<and> apart off 0 \<and> apart off 8 \<and> apart off 16 \<and> apart off 32"
  by (simp add: user_slots_def apart_def)

lemma map_of_user_slots: "map_of user_slots r = None \<longleftrightarrow> r = A0"
  by (cases r) (simp_all add: user_slots_def)

lemma save_all_cong: "\<forall>(r, off) \<in> set xs. f r = g r \<Longrightarrow> save_all f base xs m = save_all g base xs m"
  unfolding save_all_def by (rule fold_cong) auto

definition tf_saved :: "u64 \<Rightarrow> hart \<Rightarrow> mem" where
  "tf_saved tf h = store64 (save_all (regs h) tf user_slots (hmem h)) (tf + of_nat 112) (regs h A0)"

lemma tf_saved_slot: "map_of user_slots r = Some off \<Longrightarrow> load64 (tf_saved tf h) (tf + of_nat off) = regs h r"
proof -
  assume "map_of user_slots r = Some off"
  then have r: "(r, off) \<in> set user_slots" by (rule map_of_SomeD)
  then have "apart 112 off" using user_slots_facts by (fastforce simp: apart_def)
  then show ?thesis using save_all_slot [OF spaced_user r] by (simp only: tf_saved_def load_store64_apart)
qed

lemma tf_saved_a0: "load64 (tf_saved tf h) (tf + of_nat 112) = regs h A0"
  by (simp add: tf_saved_def)

lemma tf_saved_kernel: "off \<in> {0, 8, 16, 32} \<Longrightarrow> load64 (tf_saved tf h) (tf + of_nat off) = load64 (hmem h) (tf + of_nat off)"
proof -
  assume off: "off \<in> {0, 8, 16, 32}"
  then have "\<forall>(r, a) \<in> set user_slots. apart a off" using user_slots_facts by auto
  moreover have "apart 112 off" using off by (auto simp: apart_def)
  ultimately show ?thesis using save_all_other load_store64_apart [of 112 off] by (simp add: tf_saved_def)
qed

lemma uservec_run:
  assumes tr: "\<And>i. i < 288 \<Longrightarrow> tr (csrs h Satp) (TRAPFRAME + of_nat i) = Some (tf + of_nat i)"
  shows "run tr uservec h = Ok () (h\<lparr>
    regs := (regs h)(A0 := TRAPFRAME, SP := load64 (hmem h) (tf + of_nat 8), TP := load64 (hmem h) (tf + of_nat 32),
      T0 := load64 (hmem h) (tf + of_nat 16), T1 := load64 (hmem h) (tf + of_nat 0)),
    csrs := (csrs h)(Sscratch := regs h A0, Satp := load64 (hmem h) (tf + of_nat 0)),
    pc := load64 (hmem h) (tf + of_nat 16), hmem := tf_saved tf h\<rparr>)"
proof -
  let ?h = "set_reg A0 TRAPFRAME (set_csr Sscratch (regs h A0) h)"
  have "run tr (map (\<lambda>(r, off). Sd r (of_nat off) A0) user_slots) ?h = Ok () (?h\<lparr>hmem := save_all (regs ?h) tf user_slots (hmem ?h)\<rparr>)"
    using tr user_slots_facts by (intro run_saves) (auto simp: set_reg_def set_csr_def)
  moreover have "save_all (regs ?h) tf user_slots (hmem ?h) = save_all (regs h) tf user_slots (hmem h)"
    using user_slots_facts by (auto simp: set_reg_def set_csr_def intro!: save_all_cong)
  ultimately have s: "run tr (map (\<lambda>(r, off). Sd r (of_nat off) A0) user_slots) ?h = Ok () (?h\<lparr>hmem := save_all (regs h) tf user_slots (hmem h)\<rparr>)"
    by simp
  have a: "run tr [Csrw Sscratch A0, Li A0 TRAPFRAME] h = Ok () ?h"
    by (simp add: exec_instr_def csr_write_def set_reg_def set_csr_def)
  have z: "run tr [Csrr T0 Sscratch, Sd T0 112 A0, Ld SP 8 A0, Ld TP 32 A0, Ld T0 16 A0, Ld T1 0 A0, SfenceVma, Csrw Satp T1, SfenceVma, Jr T0]
      (?h\<lparr>hmem := save_all (regs h) tf user_slots (hmem h)\<rparr>) = Ok () (h\<lparr>
    regs := (regs h)(A0 := TRAPFRAME, SP := load64 (hmem h) (tf + of_nat 8), TP := load64 (hmem h) (tf + of_nat 32),
      T0 := load64 (hmem h) (tf + of_nat 16), T1 := load64 (hmem h) (tf + of_nat 0)),
    csrs := (csrs h)(Sscratch := regs h A0, Satp := load64 (hmem h) (tf + of_nat 0)),
    pc := load64 (hmem h) (tf + of_nat 16), hmem := tf_saved tf h\<rparr>)"
    using tr [of 112] tr [of 8] tr [of 32] tr [of 16] tr [of 0] tf_saved_kernel [of 8 tf h] tf_saved_kernel [of 32 tf h]
      tf_saved_kernel [of 16 tf h] tf_saved_kernel [of 0 tf h]
    by (simp add: exec_instr_def csr_write_def csr_read_def set_reg_def set_csr_def tf_saved_def fun_upd_twist)
  show ?thesis unfolding uservec_slots run_append a s then_do.simps z ..
qed

lemma hart_intr_get_bit: "hart_intr_get x \<longleftrightarrow> bit (csrs x Mstatus) 1"
proof -
  have "bit SSTATUS_VIEW 1" by (simp add: SSTATUS_VIEW_def)
  then show ?thesis
    unfolding hart_intr_get_def r_sstatus_def csr_read_def SSTATUS_SIE_def bit_iff_and_push_bit_not_eq_0 [symmetric]
    by (simp add: bit_and_iff)
qed

definition tf_loaded :: "u64 \<Rightarrow> mem \<Rightarrow> reg \<Rightarrow> u64" where
  "tf_loaded tf m r = load64 m (tf + of_nat (case map_of user_slots r of Some off \<Rightarrow> off | None \<Rightarrow> 112))"

lemma userret_run:
  assumes tr: "\<And>i. i < 288 \<Longrightarrow> tr (regs k A0) (TRAPFRAME + of_nat i) = Some (tf + of_nat i)"
  shows "run tr userret k = Ok () (sret (k\<lparr>csrs := (csrs k)(Satp := regs k A0), regs := tf_loaded tf (hmem k)\<rparr>))"
proof -
  let ?k = "set_reg A0 TRAPFRAME (set_csr Satp (regs k A0) k)"
  have a: "run tr [SfenceVma, Csrw Satp A0, SfenceVma, Li A0 TRAPFRAME] k = Ok () ?k"
    by (simp add: exec_instr_def csr_write_def set_reg_def set_csr_def)
  have l: "run tr (map (\<lambda>(r, off). Ld r (of_nat off) A0) user_slots) ?k = Ok () (?k\<lparr>regs := load_all (hmem ?k) tf user_slots (regs ?k)\<rparr>)"
    using tr user_slots_facts by (intro run_loads spaced_user) (auto simp: set_reg_def set_csr_def)
  have a0: "load_all (hmem ?k) tf user_slots (regs ?k) A0 = TRAPFRAME"
    using map_of_user_slots [of A0] by (simp add: load_all_def set_reg_def)
  have "(load_all (hmem ?k) tf user_slots (regs ?k))(A0 := load64 (hmem k) (tf + of_nat 112)) = tf_loaded tf (hmem k)"
  proof
    fix r
    show "((load_all (hmem ?k) tf user_slots (regs ?k))(A0 := load64 (hmem k) (tf + of_nat 112))) r = tf_loaded tf (hmem k) r"
    proof (cases "map_of user_slots r")
      case None
      then have "r = A0" using map_of_user_slots by blast
      then show ?thesis using None by (simp add: tf_loaded_def)
    next
      case (Some off)
      then have "r \<noteq> A0" using map_of_user_slots [of r] by auto
      then show ?thesis using Some by (simp add: tf_loaded_def load_all_def set_reg_def set_csr_def)
    qed
  qed
  then have z: "run tr [Ld A0 112 A0, Sret] (?k\<lparr>regs := load_all (hmem ?k) tf user_slots (regs ?k)\<rparr>) =
      Ok () (sret (k\<lparr>csrs := (csrs k)(Satp := regs k A0), regs := tf_loaded tf (hmem k)\<rparr>))"
    using a0 tr [of 112] by (simp add: exec_instr_def set_reg_def set_csr_def)
  show ?thesis unfolding userret_slots run_append a l then_do.simps z ..
qed

lemma load64_tf_cong:
  assumes "\<And>i. 40 \<le> i \<Longrightarrow> i < 288 \<Longrightarrow> m (tf + of_nat i) = m' (tf + of_nat i)" and "40 \<le> off" and "off + 8 \<le> 288"
  shows "load64 m (tf + of_nat off) = load64 m' (tf + of_nat off)"
proof (rule load64_cong)
  show "m (tf + of_nat off + of_nat i) = m' (tf + of_nat off + of_nat i)" if "i < 8" for i
    using assms(1) [of "off + i"] assms(2,3) that by (simp add: add.assoc)
qed

lemma tf_loaded_saved:
  assumes "\<And>i. 40 \<le> i \<Longrightarrow> i < 288 \<Longrightarrow> m (tf + of_nat i) = tf_saved tf h (tf + of_nat i)"
  shows "tf_loaded tf m = regs h"
proof
  fix r
  show "tf_loaded tf m r = regs h r"
  proof (cases "map_of user_slots r")
    case None
    then have "r = A0" using map_of_user_slots by blast
    then show ?thesis using None tf_saved_a0 load64_tf_cong [of m tf "tf_saved tf h" 112, OF assms] by (simp add: tf_loaded_def)
  next
    case (Some off)
    then have "40 \<le> off" "off + 8 \<le> 288" using user_slots_facts map_of_SomeD [OF Some] by fastforce+
    then show ?thesis using Some tf_saved_slot [OF Some] load64_tf_cong [of m tf "tf_saved tf h" off, OF assms] by (simp add: tf_loaded_def)
  qed
qed

text \<open>
  C3: A trap is invisible to the user program. When a hart in user mode traps, uservec saves its registers in the
  trapframe and jumps to the kernel with the stack, hart number, page table and entry point that the trapframe holds. If
  the kernel leaves the saved registers in the trapframe, sepc and the previous mode as they are, enables interrupts for
  user mode, and gives userret the user's page table, then userret returns to user mode with all 31 registers, the
  program counter and the page table from before the trap, and with interrupts on.
\<close>

theorem trap_roundtrip:
  assumes tr: "\<And>i. i < 288 \<Longrightarrow> tr (csrs h Satp) (TRAPFRAME + of_nat i) = Some (tf + of_nat i)"
    and k: "\<And>i. 40 \<le> i \<Longrightarrow> i < 288 \<Longrightarrow> hmem k (tf + of_nat i) = tf_saved tf h (tf + of_nat i)"
      "csrs k Sepc = pc h" "\<not> bit (csrs k Mstatus) 8" "bit (csrs k Mstatus) 5" "regs k A0 = csrs h Satp"
  shows "\<exists>t u. run tr uservec (user_trap cause tval h) = Ok () t \<and> priv t = Smode \<and> csrs t Sepc = pc h \<and> hmem t = tf_saved tf h \<and>
      pc t = load64 (hmem h) (tf + 16) \<and> csrs t Satp = load64 (hmem h) tf \<and> regs t SP = load64 (hmem h) (tf + 8) \<and>
      regs t TP = load64 (hmem h) (tf + 32) \<and> \<not> hart_intr_get t \<and>
    run tr userret k = Ok () u \<and> priv u = Umode \<and> regs u = regs h \<and> pc u = pc h \<and> csrs u Satp = csrs h Satp \<and> hart_intr_get u"
proof -
  let ?h = "user_trap cause tval h"
  have same: "csrs ?h Satp = csrs h Satp" "hmem ?h = hmem h" "regs ?h = regs h" "csrs ?h Sepc = pc h" "priv ?h = Smode"
    "\<not> bit (csrs ?h Mstatus) 1"
    by (simp_all add: user_trap_def Let_def put_bit_def bit_simps)
  have saved: "tf_saved tf ?h = tf_saved tf h" by (simp add: tf_saved_def same)
  obtain t where t: "run tr uservec ?h = Ok () t" "priv t = Smode" "csrs t Sepc = pc h" "hmem t = tf_saved tf h" "pc t = load64 (hmem h) (tf + 16)"
    "csrs t Satp = load64 (hmem h) tf" "regs t SP = load64 (hmem h) (tf + 8)" "regs t TP = load64 (hmem h) (tf + 32)" "\<not> hart_intr_get t"
    using uservec_run [of tr ?h tf] tr same saved by (simp add: hart_intr_get_bit)
  let ?k = "k\<lparr>csrs := (csrs k)(Satp := regs k A0), regs := tf_loaded tf (hmem k)\<rparr>"
  have u: "run tr userret k = Ok () (sret ?k)" using tr k(5) by (intro userret_run) simp
  have r: "tf_loaded tf (hmem k) = regs h" by (rule tf_loaded_saved [OF k(1)])
  have "priv (sret ?k) = Umode" "regs (sret ?k) = regs h" "pc (sret ?k) = pc h" "csrs (sret ?k) Satp = csrs h Satp" "hart_intr_get (sret ?k)"
    using k(2-5) r by (simp_all add: sret_def Let_def hart_intr_get_bit put_bit_def bit_simps)
  then show ?thesis using t u by blast
qed

text \<open>A user program at 0x1000 whose trapframe lies at its own virtual address.\<close>

definition user_hart :: hart where
  "user_hart = \<lparr>regs = (\<lambda>r. if r = SP then 0x4000 else 7), csrs = (\<lambda>_. 0)(Satp := 5), priv = Umode, pc = 0x1000, hmem = (\<lambda>_. 0)\<rparr>"

definition back_hart :: hart where
  "back_hart = \<lparr>regs = (\<lambda>_. 5), csrs = (\<lambda>_. 0)(Sepc := 0x1000, Mstatus := 0x20), priv = Smode, pc = 0, hmem = tf_saved TRAPFRAME user_hart\<rparr>"

theorem trap_roundtrip_witness:
  "\<exists>u. run (\<lambda>_ va. Some va) userret back_hart = Ok () u \<and> regs u SP = 0x4000 \<and> regs u A0 = 7 \<and> pc u = 0x1000 \<and> priv u = Umode"
proof -
  have "\<exists>t u. run (\<lambda>_ va. Some va) uservec (user_trap 8 0 user_hart) = Ok () t \<and> priv t = Smode \<and> csrs t Sepc = pc user_hart \<and>
      hmem t = tf_saved TRAPFRAME user_hart \<and> pc t = load64 (hmem user_hart) (TRAPFRAME + 16) \<and>
      csrs t Satp = load64 (hmem user_hart) TRAPFRAME \<and> regs t SP = load64 (hmem user_hart) (TRAPFRAME + 8) \<and>
      regs t TP = load64 (hmem user_hart) (TRAPFRAME + 32) \<and> \<not> hart_intr_get t \<and>
      run (\<lambda>_ va. Some va) userret back_hart = Ok () u \<and> priv u = Umode \<and> regs u = regs user_hart \<and> pc u = pc user_hart \<and>
      csrs u Satp = csrs user_hart Satp \<and> hart_intr_get u"
    by (rule trap_roundtrip) (simp_all add: user_hart_def back_hart_def)
  then show ?thesis by (auto simp: user_hart_def)
qed

section \<open>Switching kernel threads\<close>

definition ctx_slots :: slots where
  "ctx_slots = [(RA, 0), (SP, 8), (S0, 16), (S1, 24), (S2, 32), (S3, 40), (S4, 48), (S5, 56), (S6, 64), (S7, 72), (S8, 80),
     (S9, 88), (S10, 96), (S11, 104)]"

lemma swtch_slots:
  "swtch = map (\<lambda>(r, off). Sd r (of_nat off) A0) ctx_slots @ map (\<lambda>(r, off). Ld r (of_nat off) A1) ctx_slots @ [Ret]"
  by (simp add: swtch_def ctx_slots_def)

lemma spaced_ctx: "spaced ctx_slots"
  by (simp add: ctx_slots_def apart_def)

lemma ctx_slots_facts: "\<forall>(r, off) \<in> set ctx_slots. off + 8 \<le> 112 \<and> r \<noteq> A0 \<and> r \<noteq> A1"
  by (simp add: ctx_slots_def)

definition ctx_apart :: "u64 \<Rightarrow> u64 \<Rightarrow> bool" where
  "ctx_apart p q \<longleftrightarrow> (\<forall>i < 112. \<forall>j < 112. p + of_nat i \<noteq> q + of_nat j)"

lemma store64_outside: "\<forall>i < 8. x \<noteq> a + of_nat i \<Longrightarrow> store64 m a v x = m x"
  unfolding store64_def store_bytes_def
  by (auto dest!: spec [of _ "unat (x - a)"])

lemma save_all_outside:
  "\<forall>(r, off) \<in> set xs. \<forall>i < 8. x \<noteq> base + of_nat (off + i) \<Longrightarrow> save_all f base xs m x = m x"
  unfolding save_all_def
  by (induction xs arbitrary: m) (auto simp: store64_outside add.assoc)

lemma swtch_run:
  assumes tr: "\<And>p i. p \<in> {regs h A0, regs h A1} \<Longrightarrow> i < 112 \<Longrightarrow> tr (csrs h Satp) (p + of_nat i) = Some (p + of_nat i)"
    and ap: "ctx_apart (regs h A0) (regs h A1)"
  shows "run tr swtch h = Ok () (h\<lparr>hmem := save_all (regs h) (regs h A0) ctx_slots (hmem h),
     regs := load_all (hmem h) (regs h A1) ctx_slots (regs h), pc := load64 (hmem h) (regs h A1)\<rparr>)"
proof -
  let ?m = "save_all (regs h) (regs h A0) ctx_slots (hmem h)" and ?new = "regs h A1"
  have s: "run tr (map (\<lambda>(r, off). Sd r (of_nat off) A0) ctx_slots) h = Ok () (h\<lparr>hmem := ?m\<rparr>)"
    using tr ctx_slots_facts by (intro run_saves) fastforce
  have l: "run tr (map (\<lambda>(r, off). Ld r (of_nat off) A1) ctx_slots) (h\<lparr>hmem := ?m\<rparr>) =
      Ok () (h\<lparr>hmem := ?m, regs := load_all ?m ?new ctx_slots (regs h)\<rparr>)"
    using tr ctx_slots_facts by (subst run_loads [OF _ spaced_ctx]) fastforce+
  have same: "load64 ?m (?new + of_nat off) = load64 (hmem h) (?new + of_nat off)" if "off + 8 \<le> 112" for off
  proof (rule load64_cong)
    fix j :: nat assume j: "j < 8"
    have "?new + of_nat off + of_nat j \<noteq> regs h A0 + of_nat (o' + i)" if "(r, o') \<in> set ctx_slots" "i < 8" for r o' i
    proof -
      have "o' + 8 \<le> 112" using ctx_slots_facts that(1) by blast
      then show ?thesis
        using ap [unfolded ctx_apart_def, rule_format, of "o' + i" "off + j"] that(2) j \<open>off + 8 \<le> 112\<close> by (simp add: add.assoc)
    qed
    then show "?m (?new + of_nat off + of_nat j) = hmem h (?new + of_nat off + of_nat j)"
      by (intro save_all_outside) auto
  qed
  have "load_all ?m ?new ctx_slots (regs h) = load_all (hmem h) ?new ctx_slots (regs h)"
    using same ctx_slots_facts by (fastforce simp: load_all_def fun_eq_iff dest: map_of_SomeD split: option.splits)
  moreover have "load_all (hmem h) ?new ctx_slots (regs h) RA = load64 (hmem h) ?new"
    by (simp add: load_all_def ctx_slots_def)
  ultimately show ?thesis unfolding swtch_slots run_append s then_do.simps l by (simp add: exec_instr_def)
qed

text \<open>
  C24: A kernel thread that is switched away from resumes where it left off. swtch() stores the return address, the
  stack pointer and the callee-saved registers in the old context, continues at the return address of the new one with
  the registers stored there, and changes nothing else. A later swtch(), on any hart, whose new context is that old
  one and finds it as it was left, returns to the caller of the first swtch() with its stack and callee-saved registers.
\<close>

theorem swtch_resumes:
  assumes tr: "\<And>p i. p \<in> {regs h A0, regs h A1, regs k A0} \<Longrightarrow> i < 112 \<Longrightarrow>
      tr (csrs h Satp) (p + of_nat i) = Some (p + of_nat i) \<and> tr (csrs k Satp) (p + of_nat i) = Some (p + of_nat i)"
    and ap: "ctx_apart (regs h A0) (regs h A1)" "ctx_apart (regs k A0) (regs h A0)"
    and k: "regs k A1 = regs h A0"
      "\<And>i. i < 112 \<Longrightarrow> hmem k (regs h A0 + of_nat i) = save_all (regs h) (regs h A0) ctx_slots (hmem h) (regs h A0 + of_nat i)"
  shows "\<exists>t u. run tr swtch h = Ok () t \<and> pc t = load64 (hmem h) (regs h A1) \<and>
      regs t = load_all (hmem h) (regs h A1) ctx_slots (regs h) \<and> hmem t = save_all (regs h) (regs h A0) ctx_slots (hmem h) \<and>
    run tr swtch k = Ok () u \<and> pc u = regs h RA \<and> (\<forall>r \<in> fst ` set ctx_slots. regs u r = regs h r)"
proof -
  have t: "run tr swtch h = Ok () (h\<lparr>hmem := save_all (regs h) (regs h A0) ctx_slots (hmem h),
     regs := load_all (hmem h) (regs h A1) ctx_slots (regs h), pc := load64 (hmem h) (regs h A1)\<rparr>)"
    using tr ap(1) by (intro swtch_run) blast+
  have u: "run tr swtch k = Ok () (k\<lparr>hmem := save_all (regs k) (regs k A0) ctx_slots (hmem k),
     regs := load_all (hmem k) (regs k A1) ctx_slots (regs k), pc := load64 (hmem k) (regs k A1)\<rparr>)"
    using tr ap(2) k(1) by (intro swtch_run) auto
  have slot: "load64 (hmem k) (regs h A0 + of_nat off) = regs h r" if r: "(r, off) \<in> set ctx_slots" for r off
  proof -
    have "off + 8 \<le> 112" using ctx_slots_facts r by blast
    then have "load64 (hmem k) (regs h A0 + of_nat off) = load64 (save_all (regs h) (regs h A0) ctx_slots (hmem h)) (regs h A0 + of_nat off)"
      using k(2) [of "off + j" for j] by (intro load64_cong) (simp add: add.assoc)
    then show ?thesis using save_all_slot [OF spaced_ctx r] by simp
  qed
  have "load_all (hmem k) (regs h A0) ctx_slots (regs k) r = regs h r" if "r \<in> fst ` set ctx_slots" for r
    using that slot map_of_SomeD [of ctx_slots r] by (force simp: load_all_def map_of_eq_None_iff split: option.splits)
  moreover have "load64 (hmem k) (regs h A0) = regs h RA" using slot [of RA 0] by (simp add: ctx_slots_def)
  ultimately show ?thesis using t u k(1) by simp
qed

text \<open>Two contexts at 0x1000 and 0x2000: the thread that saved its state in the first is resumed by a switch back to it.\<close>

definition thread_hart :: hart where
  "thread_hart = \<lparr>regs = (\<lambda>_. 3)(A0 := 0x1000, A1 := 0x2000, RA := 0x77, SP := 0x99), csrs = (\<lambda>_. 0), priv = Smode, pc = 0, hmem = (\<lambda>_. 0)\<rparr>"

definition later_hart :: hart where
  "later_hart = thread_hart\<lparr>regs := (\<lambda>_. 4)(A0 := 0x2000, A1 := 0x1000), hmem := save_all (regs thread_hart) 0x1000 ctx_slots (\<lambda>_. 0)\<rparr>"

lemma ctx_apart_sample: "ctx_apart 0x1000 0x2000" "ctx_apart 0x2000 0x1000"
proof -
  have ne: "(0x1000 :: u64) + of_nat i \<noteq> 0x2000 + of_nat j" if "i < 112" "j < 112" for i j
  proof
    assume "(0x1000 :: u64) + of_nat i = 0x2000 + of_nat j"
    then have "(of_nat (0x1000 + i) :: u64) = of_nat (0x2000 + j)" by simp
    then have "unat (of_nat (0x1000 + i) :: u64) = unat (of_nat (0x2000 + j) :: u64)" by (rule arg_cong)
    moreover have "unat (of_nat (0x1000 + i) :: u64) = 0x1000 + i" "unat (of_nat (0x2000 + j) :: u64) = 0x2000 + j"
      using that by (intro unat_of_nat_small; simp)+
    ultimately show False using that by linarith
  qed
  show "ctx_apart 0x1000 0x2000" unfolding ctx_apart_def using ne by blast
  show "ctx_apart 0x2000 0x1000" unfolding ctx_apart_def using ne by metis
qed

theorem swtch_resumes_witness:
  "\<exists>u. run (\<lambda>_ va. Some va) swtch later_hart = Ok () u \<and> pc u = 0x77 \<and> regs u SP = 0x99 \<and> regs u S3 = 3"
proof -
  have "\<exists>t u. run (\<lambda>_ va. Some va) swtch thread_hart = Ok () t \<and> pc t = load64 (hmem thread_hart) (regs thread_hart A1) \<and>
      regs t = load_all (hmem thread_hart) (regs thread_hart A1) ctx_slots (regs thread_hart) \<and>
      hmem t = save_all (regs thread_hart) (regs thread_hart A0) ctx_slots (hmem thread_hart) \<and>
      run (\<lambda>_ va. Some va) swtch later_hart = Ok () u \<and> pc u = regs thread_hart RA \<and> (\<forall>r \<in> fst ` set ctx_slots. regs u r = regs thread_hart r)"
    by (rule swtch_resumes) (use ctx_apart_sample in \<open>simp_all add: thread_hart_def later_hart_def\<close>)
  then show ?thesis by (auto simp: thread_hart_def ctx_slots_def)
qed

section \<open>Traps in the kernel\<close>

definition kvec_slots :: slots where
  "kvec_slots = [(RA, 0), (SP, 8), (GP, 16), (T0, 32), (T1, 40), (T2, 48), (A0, 72), (A1, 80), (A2, 88), (A3, 96), (A4, 104),
     (A5, 112), (A6, 120), (A7, 128), (T3, 216), (T4, 224), (T5, 232), (T6, 240)]"

definition kvec_saved :: slots where
  "kvec_saved = [(RA, 0), (SP, 8), (GP, 16), (TP, 24), (T0, 32), (T1, 40), (T2, 48), (A0, 72), (A1, 80), (A2, 88), (A3, 96),
     (A4, 104), (A5, 112), (A6, 120), (A7, 128), (T3, 216), (T4, 224), (T5, 232), (T6, 240)]"

lemma kvec_slots_facts:
  "kernelvec_save = Addi SP SP (-256) # map (\<lambda>(r, off). Sd r (of_nat off) SP) kvec_saved"
  "kernelvec_restore = map (\<lambda>(r, off). Ld r (of_nat off) SP) kvec_slots @ [Addi SP SP 256, Sret]"
  "set kvec_slots \<subseteq> set kvec_saved" "spaced kvec_saved" "spaced kvec_slots" "\<forall>(r, off) \<in> set kvec_saved. off + 8 \<le> 256"
  by (simp_all add: kernelvec_save_def kernelvec_restore_def kvec_slots_def kvec_saved_def apart_def)

lemma kvec_slots_other:
  "map_of kvec_slots r = None \<Longrightarrow> r \<noteq> TP \<Longrightarrow> r \<in> {S0, S1, S2, S3, S4, S5, S6, S7, S8, S9, S10, S11}"
  by (cases r) (simp_all add: kvec_slots_def)

text \<open>
  A trap taken in the kernel restores every register except tp, which keeps the number of the hart that the thread is on
  now, when kerneltrap() follows the calling convention, leaves the frame on the stack alone, and restores sepc.
\<close>

lemma kernelvec_transparent:
  fixes h :: hart
  defines "sp \<equiv> regs h SP - 256"
  assumes tr: "\<And>i s. i < 256 \<Longrightarrow> tr s (sp + of_nat i) = Some (sp + of_nat i)"
    and ktrap: "\<And>g. regs g SP = sp \<Longrightarrow> \<exists>k. kerneltrap g = Ok () k \<and> regs k SP = sp \<and> csrs k Sepc = csrs g Sepc \<and>
      (\<forall>i < 256. hmem k (sp + of_nat i) = hmem g (sp + of_nat i)) \<and>
      (\<forall>r \<in> {S0, S1, S2, S3, S4, S5, S6, S7, S8, S9, S10, S11}. regs k r = regs g r)"
  shows "\<exists>u. kernelvec tr kerneltrap h = Ok () u \<and> pc u = csrs h Sepc \<and> (\<forall>r. r \<noteq> TP \<longrightarrow> regs u r = regs h r)"
proof -
  let ?h = "set_reg SP sp h"
  note sv = kvec_slots_facts(1) and rs = kvec_slots_facts(2) and sub = kvec_slots_facts(3) and spaced = kvec_slots_facts(4,5) and fits = kvec_slots_facts(6)
  let ?g = "?h\<lparr>hmem := save_all (regs ?h) sp kvec_saved (hmem h)\<rparr>"
  have "run tr (map (\<lambda>(r, off). Sd r (of_nat off) SP) kvec_saved) ?h = Ok () (?h\<lparr>hmem := save_all (regs ?h) sp kvec_saved (hmem ?h)\<rparr>)"
    using tr fits by (intro run_saves) (fastforce simp: set_reg_def)
  then have g: "run tr kernelvec_save h = Ok () ?g"
    unfolding sv run.simps exec_instr_def by (simp add: sp_def set_reg_def)
  obtain k where k: "kerneltrap ?g = Ok () k" "regs k SP = sp" "csrs k Sepc = csrs h Sepc"
    "\<And>i. i < 256 \<Longrightarrow> hmem k (sp + of_nat i) = hmem ?g (sp + of_nat i)"
    "\<And>r. r \<in> {S0, S1, S2, S3, S4, S5, S6, S7, S8, S9, S10, S11} \<Longrightarrow> regs k r = regs h r"
    using ktrap [of ?g] by (auto simp: set_reg_def)
  have slot: "load64 (hmem k) (sp + of_nat off) = regs ?h r" if r: "(r, off) \<in> set kvec_saved" for r off
  proof -
    have "off + 8 \<le> 256" using fits r by blast
    then have "load64 (hmem k) (sp + of_nat off) = load64 (hmem ?g) (sp + of_nat off)"
      using k(4) [of "off + j" for j] by (intro load64_cong) (simp add: add.assoc)
    then show ?thesis using save_all_slot [OF spaced(1) r, of "regs ?h" sp "hmem h"] by simp
  qed
  let ?r = "load_all (hmem k) sp kvec_slots (regs k)"
  have l: "run tr (map (\<lambda>(r, off). Ld r (of_nat off) SP) kvec_slots) k = Ok () (k\<lparr>regs := ?r\<rparr>)"
  proof (rule run_loads [OF _ spaced(2)], clarify)
    fix r off assume r: "(r, off) \<in> set kvec_slots"
    then have "(r, off) \<in> set kvec_saved" using sub by blast
    moreover from this have "off + 8 \<le> 256" using fits by blast
    ultimately show "tr (csrs k Satp) (regs k SP + of_nat off) = Some (sp + of_nat off) \<and> (r = SP \<longrightarrow> load64 (hmem k) (sp + of_nat off) = regs k SP)"
      using tr [of off] slot [of r off] k(2) by (simp add: set_reg_def)
  qed
  have val: "?r r = regs ?h r" if "r \<noteq> TP" for r
  proof (cases "map_of kvec_slots r")
    case None
    then have "regs k r = regs h r" "r \<noteq> SP" using k(5) [OF kvec_slots_other [OF None that]] by (auto simp: kvec_slots_def)
    then show ?thesis using None by (simp add: load_all_def set_reg_def)
  next
    case (Some off)
    then have "(r, off) \<in> set kvec_saved" using sub map_of_SomeD by fast
    then show ?thesis using slot [of r off] Some by (simp add: load_all_def)
  qed
  let ?u = "sret (set_reg SP (?r SP + 256) (k\<lparr>regs := ?r\<rparr>))"
  have "kernelvec tr kerneltrap h = Ok () ?u"
    unfolding kernelvec_def g then_do.simps k(1) rs run_append l by (simp add: exec_instr_def set_reg_def)
  moreover have "pc ?u = csrs h Sepc" using k(3) by (simp add: sret_def Let_def set_reg_def)
  moreover have "regs ?u r = regs h r" if "r \<noteq> TP" for r
    using val [OF that] val [of SP] by (auto simp: sret_def Let_def set_reg_def sp_def)
  ultimately show ?thesis by blast
qed

section \<open>Booting a hart\<close>

text \<open>
  Each hart reaches main() in supervisor mode, with paging off, its number in tp, all traps delegated, the
  three supervisor interrupts enabled in sie, and the stack that entry.S gave it, 4096 bytes above that of the hart before.
\<close>

lemma timerinit_eq:
  "timerinit h = h\<lparr>csrs := (csrs h)(Mie := csrs h Mie OR MIE_STIE, Menvcfg := csrs h Menvcfg OR push_bit 63 1,
     Mcounteren := csrs h Mcounteren OR 2, Stimecmp := csrs h Time + 1000000)\<rparr>"
  by (simp add: timerinit_def Let_def r_mie_def w_mie_def r_menvcfg_def w_menvcfg_def r_mcounteren_def w_mcounteren_def r_time_def
      w_stimecmp_def csr_read_def csr_write_def set_csr_def)

lemma start_eq:
  "start main_pc h = mret (w_tp (scast (ucast (csrs h Mhartid) :: u32)) (timerinit (h\<lparr>csrs := (csrs h)
     (Mstatus := (csrs h Mstatus AND NOT MSTATUS_MPP_MASK) OR MSTATUS_MPP_S, Mepc := main_pc, Satp := 0, Medeleg := 0xffff,
      Mideleg := 0xffff, Mie := masked 0xffff (csrs h Mie) ((csrs h Mie AND 0xffff) OR SIE_SEIE OR SIE_STIE OR SIE_SSIE),
      Pmpaddr0 := 0x3fffffffffffff, Pmpcfg0 := 0xf)\<rparr>)))"
  by (simp add: start_def Let_def r_mstatus_def w_mstatus_def w_mepc_def w_satp_def w_medeleg_def w_mideleg_def r_sie_def w_sie_def w_pmpaddr0_def
      w_pmpcfg0_def r_mhartid_def csr_read_def csr_write_def set_csr_def timerinit_eq)

lemma boot_hart:
  assumes id: "csrs h Mhartid < 2 ^ 31"
  shows "\<exists>t. run tr (entry stack0 start_pc) h = Ok () t \<and> pc t = start_pc \<and>
    (let u = start main_pc t in priv u = Smode \<and> pc u = main_pc \<and> csrs u Satp = 0 \<and> regs u TP = csrs h Mhartid \<and>
      regs u SP = stack0 + 4096 * (csrs h Mhartid + 1) \<and> csrs u Medeleg = 0xffff \<and> csrs u Mideleg = 0xffff \<and>
      (\<forall>n \<in> {1, 5, 9}. bit (Hart.r_sie u) n) \<and> csrs u Stimecmp = csrs h Time + 1000000)"
proof -
  let ?t = "h\<lparr>regs := (regs h)(SP := stack0 + 4096 * (csrs h Mhartid + 1), A1 := csrs h Mhartid + 1, A0 := 4096 * (csrs h Mhartid + 1)), pc := start_pc\<rparr>"
  have e: "run tr (entry stack0 start_pc) h = Ok () ?t"
    by (simp add: entry_def exec_instr_def set_reg_def csr_read_def fun_upd_twist)
  have tp: "scast (ucast (csrs h Mhartid) :: u32) = csrs h Mhartid"
  proof -
    have "unat (csrs h Mhartid) < 2 ^ 31" using id by (simp add: word_less_nat_alt)
    then have "sint (ucast (csrs h Mhartid) :: u32) = int (unat (csrs h Mhartid))"
      by (simp add: sint_cases [of "ucast (csrs h Mhartid) :: u32"] unat_ucast_small del: of_nat_unat)
    then show ?thesis by (simp add: scast_eq del: of_nat_unat) (simp add: of_nat_unat)
  qed
  define u where "u = start main_pc ?t"
  note defs = u_def start_eq timerinit_eq Let_def mret_def w_tp_def
  have f: "pc u = main_pc" "csrs u Satp = 0" "regs u TP = csrs h Mhartid" "regs u SP = stack0 + 4096 * (csrs h Mhartid + 1)"
    "csrs u Medeleg = 0xffff" "csrs u Mideleg = 0xffff" "csrs u Stimecmp = csrs h Time + 1000000"
    using tp by (simp_all add: defs)
  have mie: "csrs u Mie = masked 0xffff (csrs h Mie) ((csrs h Mie AND 0xffff) OR SIE_SEIE OR SIE_STIE OR SIE_SSIE) OR MIE_STIE"
    by (simp add: defs)
  let ?m = "(csrs h Mstatus AND NOT MSTATUS_MPP_MASK) OR MSTATUS_MPP_S"
  have "priv u = (if bit ?m 12 then Mmode else if bit ?m 11 then Smode else Umode)" by (simp add: defs)
  moreover have "bit MSTATUS_MPP_MASK 12" "\<not> bit MSTATUS_MPP_S 12" "bit MSTATUS_MPP_S 11"
    by (simp_all add: MSTATUS_MPP_MASK_def MSTATUS_MPP_S_def)
  ultimately have s: "priv u = Smode" by (simp add: bit_or_iff bit_and_iff bit_not_iff)
  have "bit (Hart.r_sie u) n" if "n \<in> {1, 5, 9}" for n
    using that f(6) by (auto simp: r_sie_def csr_read_def mie masked_def SIE_SEIE_def SIE_STIE_def SIE_SSIE_def MIE_STIE_def bit_simps)
  then show ?thesis using e f s unfolding u_def by (intro exI [of _ ?t]) (simp add: Let_def)
qed

end
