(* ===== verification/Trap_Props.thy ===== *)
theory Trap_Props
  imports Sample Hart_Props
begin









end
