(* ===== verification/Pipe_Props.thy ===== *)
theory Pipe_Props
  imports Sample
begin

text \<open>
  Pipes as bounded queues. The abstract value of a pipe is the list of the bytes written and not yet read;
  pipe_put() and pipe_get(), the two accesses to the ring, implement the contract \<open>bounded_fifo\<close>, and
  pipewrite() and piperead() move bytes between that list and user memory.
\<close>

section \<open>The ring of a pipe is a bounded queue\<close>

definition pipe_ok :: "pipe \<Rightarrow> bool" where
  "pipe_ok p \<longleftrightarrow> unat (pi_nwrite p - pi_nread p) \<le> PIPESIZE"

definition pipe_list :: "pipe \<Rightarrow> u8 list" where
  "pipe_list p = ring_list PIPESIZE (pi_data p) (pi_nread p) (pi_nwrite p)"

lemma length_pipe_list: "length (pipe_list p) = unat (pi_nwrite p - pi_nread p)"
  by (simp add: pipe_list_def)

lemma pipe_full_iff:
  "pipe_ok p \<Longrightarrow> pi_nwrite p = pi_nread p + of_nat PIPESIZE \<longleftrightarrow> length (pipe_list p) = PIPESIZE"
proof -
  have "pi_nwrite p = pi_nread p + of_nat PIPESIZE \<longleftrightarrow> pi_nwrite p - pi_nread p = of_nat PIPESIZE"
    by (auto simp: algebra_simps)
  also have "\<dots> \<longleftrightarrow> unat (pi_nwrite p - pi_nread p) = PIPESIZE"
    by (simp add: word_unat_eq_iff PIPESIZE_def)
  finally show ?thesis by (simp add: length_pipe_list)
qed

lemma pipe_empty_iff: "pipe_list p = [] \<longleftrightarrow> pi_nread p = pi_nwrite p"
  by (simp add: pipe_list_def ring_list_Nil_iff)

lemma pipe_put_list: "length (pipe_list p) < PIPESIZE \<Longrightarrow> pipe_list (pipe_put c p) = pipe_list p @ [c]"
  by (simp add: pipe_list_def pipe_put_def ring_push PIPESIZE_def)

lemma pipe_put_ok: "length (pipe_list p) < PIPESIZE \<Longrightarrow> pipe_ok (pipe_put c p)"
  using unat_succ_diff [of "pi_nwrite p" "pi_nread p" PIPESIZE]
  by (simp add: pipe_ok_def pipe_put_def length_pipe_list) (simp add: PIPESIZE_def)

lemma pipe_get_list: "pipe_list p \<noteq> [] \<Longrightarrow> pipe_list p = fst (pipe_get p) # pipe_list (snd (pipe_get p))"
  unfolding pipe_empty_iff by (simp add: pipe_list_def pipe_get_def ring_pop)

lemma pipe_get_ok: "pipe_ok p \<Longrightarrow> pipe_list p \<noteq> [] \<Longrightarrow> pipe_ok (snd (pipe_get p))"
  using arg_cong [OF pipe_get_list [of p], of length]
  by (simp add: pipe_ok_def length_pipe_list)

interpretation pipe_fifo: bounded_fifo pipe_ok pipe_list PIPESIZE pipe_put pipe_get
  by unfold_locales (auto simp: pipe_ok_def length_pipe_list pipe_put_list pipe_put_ok pipe_get_ok [unfolded pipe_ok_def]
      pipe_put_ok [unfolded pipe_ok_def length_pipe_list] pipe_get_list [symmetric])

lemma pipe_put_flags [simp]:
  "pi_readopen (pipe_put c p) = pi_readopen p" "pi_writeopen (pipe_put c p) = pi_writeopen p"
  by (simp_all add: pipe_put_def)

lemma pipe_get_flags [simp]:
  "pi_readopen (snd (pipe_get p)) = pi_readopen p" "pi_writeopen (snd (pipe_get p)) = pi_writeopen p"
  by (simp_all add: pipe_get_def)

section \<open>The loops\<close>

lemma more_files:
  fixes s t :: "'z files_scheme"
  assumes "machine.more t = machine.more s"
  shows "procs t = procs s" "myproc t = myproc s" "pipes t = pipes s" "ftable t = ftable s"
  using assms by (cases s; cases t; simp)+

lemma wakeup_frame [simp]:
  "pmem (wakeup c s) = pmem s" "freelist (wakeup c s) = freelist s" "kend (wakeup c s) = kend s"
  "myproc (wakeup c s) = myproc s"
  by (simp_all add: wakeup_def)

lemma wakeup_pipes [simp]: "pipes (wakeup c s) = pipes s"
  by (simp add: wakeup_def)

text \<open>The bytes of user memory that pipewrite() reads from byte \<open>i\<close> on.\<close>

abbreviation user_bytes :: "(u64 \<Rightarrow> u8) \<Rightarrow> u64 \<Rightarrow> u64 \<Rightarrow> nat \<Rightarrow> nat \<Rightarrow> u8 list" where
  "user_bytes m pt addr i j \<equiv> map (\<lambda>k. user_byte m pt (addr + of_nat k)) [i..<j]"

lemma pipewrite_loop_ok:
  fixes s :: "'z files_scheme"
  assumes "pt_inv (p_pagetable (procs s pr)) s ps" and "\<forall>k<n. readable (pmem s) (p_pagetable (procs s pr)) (addr + of_nat k)"
    and "pipe_ok (pipes s pi)" and "pi_readopen (pipes s pi)" and "\<not> killed pr s" and "myproc s = Some pr"
    and "i \<le> n"
  shows "\<exists>t. pipewrite_loop pi pr addr i n s =
       (if length (pipe_list (pipes s pi)) + (n - i) \<le> PIPESIZE then Ok (int n) t else Sleeps (ChanPipeWrite pi) t) \<and>
     pmem t = pmem s \<and> pipe_ok (pipes t pi) \<and>
     pipe_list (pipes t pi) = pipe_list (pipes s pi) @ user_bytes (pmem s) (p_pagetable (procs s pr)) addr i
       (min n (i + (PIPESIZE - length (pipe_list (pipes s pi))))) \<and>
     (\<forall>q. q \<noteq> pi \<longrightarrow> pipes t q = pipes s q)"
  using assms
proof (induction "n - i" arbitrary: i s)
  case 0
  then have "i = n" by simp
  then show ?case using 0 pipe_fifo.bound [of "pipes s pi"] by (simp add: pipewrite_loop.simps)
next
  case (Suc d)
  let ?L = "pipe_list (pipes s pi)" and ?pt = "p_pagetable (procs s pr)"
  have i: "i < n" using Suc by simp
  have b: "length ?L \<le> PIPESIZE" using Suc.prems(3) by (rule pipe_fifo.bound)
  show ?case
  proof (cases "length ?L = PIPESIZE")
    case True
    then show ?thesis using i Suc.prems pipe_full_iff [of "pipes s pi"]
      by (subst pipewrite_loop.simps) (simp add: sleep_def with_proc_def)
  next
    case False
    then have f: "length ?L < PIPESIZE" using b by simp
    let ?c = "user_byte (pmem s) ?pt (addr + of_nat i)"
    let ?s = "upd_pipe pi (pipe_put ?c) s"
    have step: "pipewrite_loop pi pr addr i n s = pipewrite_loop pi pr addr (i + 1) n ?s"
      using i Suc.prems False pipe_full_iff [of "pipes s pi"] copyin_ok [OF Suc.prems(1), of 1 "addr + of_nat i"]
      by (subst pipewrite_loop.simps) simp
    have "\<exists>t. pipewrite_loop pi pr addr (i + 1) n ?s =
       (if length (pipe_list (pipes ?s pi)) + (n - (i + 1)) \<le> PIPESIZE then Ok (int n) t else Sleeps (ChanPipeWrite pi) t) \<and>
       pmem t = pmem ?s \<and> pipe_ok (pipes t pi) \<and>
       pipe_list (pipes t pi) = pipe_list (pipes ?s pi) @ user_bytes (pmem ?s) (p_pagetable (procs ?s pr)) addr (i + 1)
         (min n (i + 1 + (PIPESIZE - length (pipe_list (pipes ?s pi))))) \<and>
       (\<forall>q. q \<noteq> pi \<longrightarrow> pipes t q = pipes ?s q)"
      using Suc.hyps(2) Suc.prems i pipe_put_ok [OF f] pt_inv_machine [of ?s s]
      by (intro Suc.hyps(1)) (simp_all add: killed_def)
    note IH = this
    define w where "w = min n (i + (PIPESIZE - length ?L))"
    have l: "pipe_list (pipes ?s pi) = ?L @ [?c]" using pipe_put_list [OF f] by simp
    have e: "length (pipe_list (pipes ?s pi)) + (n - (i + 1)) = length ?L + (n - i)"
      "min n (i + 1 + (PIPESIZE - length (pipe_list (pipes ?s pi)))) = w" "i < w"
      using i f unfolding l w_def by simp_all
    have u: "?L @ user_bytes (pmem s) ?pt addr i w = (?L @ [?c]) @ user_bytes (pmem s) ?pt addr (i + 1) w"
      using e(3) by (simp add: upt_conv_Cons)
    show ?thesis using IH unfolding step e w_def [symmetric] u unfolding l by (elim ex_forward) simp
  qed
qed

lemma diff_eq_iff: "i < 2 ^ 64 \<Longrightarrow> unat (vb - (addr + of_nat i) :: u64) < 1 \<longleftrightarrow> unat (vb - addr) = i"
proof -
  assume i: "i < 2 ^ 64"
  have "unat (vb - (addr + of_nat i)) < 1 \<longleftrightarrow> vb - addr = of_nat i"
    by (simp add: unat_eq_0 algebra_simps)
  also have "\<dots> \<longleftrightarrow> unat (vb - addr) = i"
    using i by (auto simp: unat_of_nat_small word_unat_eq_iff)
  finally show ?thesis .
qed

text \<open>One byte of piperead(): a copy of one byte into user memory changes that byte only.\<close>

lemma copyout_byte:
  assumes "pt_inv pt s ps" and "user_ok pt s ps" and "writable (pmem s) pt (addr + of_nat i)" and "i < 2 ^ 63"
  shows "\<exists>t. copyout pt (addr + of_nat i) [c] s = Ok 0 t \<and> pt_inv pt t ps \<and> user_ok pt t ps \<and>
     machine.more t = machine.more s \<and> (\<forall>vb. pte_of (pmem t) pt vb = pte_of (pmem s) pt vb) \<and>
     (\<forall>vb. readable (pmem s) pt vb \<longrightarrow>
        user_byte (pmem t) pt vb = (if unat (vb - addr) = i then c else user_byte (pmem s) pt vb))"
proof -
  obtain t where t: "copyout pt (addr + of_nat i) [c] s = Ok 0 t" "pt_inv pt t ps" "user_ok pt t ps"
    "\<forall>vb. pte_of (pmem t) pt vb = pte_of (pmem s) pt vb"
    "\<forall>vb. readable (pmem s) pt vb \<longrightarrow> user_byte (pmem t) pt vb =
      (if unat (vb - (addr + of_nat i)) < length [c] then [c] ! unat (vb - (addr + of_nat i)) else user_byte (pmem s) pt vb)"
    using copyout_ok [OF assms(1,2), of "[c]" "addr + of_nat i"] assms(3) by auto
  have "i < 2 ^ 64" using assms(4) by simp
  note d = diff_eq_iff [OF this, of _ addr]
  show ?thesis
    using t quiet_OkD [OF quiet_copyout t(1)] d
    by (intro exI [of _ t]) (simp add: less_Suc0 nth_Cons')
qed

lemma piperead_loop_ok:
  fixes s :: "'z files_scheme"
  assumes "pt = p_pagetable (procs s pr)" and "pt_inv pt s ps" and "user_ok pt s ps"
    and "\<forall>k<n. writable (pmem s) pt (addr + of_nat k)" and "n < 2 ^ 63" and "pipe_ok (pipes s pi)" and "i \<le> n"
  shows "\<exists>t. piperead_loop pi pr addr i n s = Ok (int (min n (i + length (pipe_list (pipes s pi))))) t \<and>
     pipe_ok (pipes t pi) \<and> pipe_list (pipes t pi) = drop (n - i) (pipe_list (pipes s pi)) \<and>
     (\<forall>q. q \<noteq> pi \<longrightarrow> pipes t q = pipes s q) \<and>
     (\<forall>vb. readable (pmem s) pt vb \<longrightarrow> user_byte (pmem t) pt vb =
        (if i \<le> unat (vb - addr) \<and> unat (vb - addr) < min n (i + length (pipe_list (pipes s pi)))
         then pipe_list (pipes s pi) ! (unat (vb - addr) - i) else user_byte (pmem s) pt vb))"
  using assms
proof (induction "n - i" arbitrary: i s)
  case 0
  then show ?case by (auto simp: piperead_loop.simps)
next
  case (Suc d)
  let ?L = "pipe_list (pipes s pi)"
  have i: "i < n" using Suc by simp
  show ?case
  proof (cases "?L = []")
    case True
    then show ?thesis using i Suc.prems pipe_empty_iff [of "pipes s pi"]
      by (subst piperead_loop.simps) auto
  next
    case False
    obtain c p where g: "pipe_get (pipes s pi) = (c, p)" by fastforce
    have L: "?L = c # pipe_list p" "pipe_ok p"
      using pipe_get_list [OF False] pipe_get_ok [OF Suc.prems(6) False] g by simp_all
    let ?s = "upd_pipe pi (\<lambda>_. p) s"
    obtain u where u: "copyout pt (addr + of_nat i) [c] ?s = Ok 0 u" "pt_inv pt u ps" "user_ok pt u ps"
      "machine.more u = machine.more ?s" "\<forall>vb. pte_of (pmem u) pt vb = pte_of (pmem s) pt vb"
      "\<forall>vb. readable (pmem s) pt vb \<longrightarrow>
        user_byte (pmem u) pt vb = (if unat (vb - addr) = i then c else user_byte (pmem s) pt vb)"
      using copyout_byte [of pt ?s ps addr i c] Suc.prems i pt_inv_machine [of ?s s] user_ok_machine [of ?s s] by auto
    note M = more_files [OF u(4)]
    have step: "piperead_loop pi pr addr i n s = piperead_loop pi pr addr (i + 1) n u"
      using i Suc.prems(1) False pipe_empty_iff [of "pipes s pi"] g u(1) by (subst piperead_loop.simps) simp
    have w: "\<forall>k<n. writable (pmem u) pt (addr + of_nat k)" using Suc.prems(4) u(5) by (simp add: writable_def)
    have d: "d = n - (i + 1)" using Suc.hyps(2) by simp
    have r: "readable (pmem u) pt vb = readable (pmem s) pt vb" for vb using u(5) by (intro readable_cong) simp
    obtain t where t: "piperead_loop pi pr addr (i + 1) n u = Ok (int (min n (i + 1 + length (pipe_list p)))) t"
      "pipe_ok (pipes t pi)" "pipe_list (pipes t pi) = drop (n - (i + 1)) (pipe_list p)"
      "\<forall>q. q \<noteq> pi \<longrightarrow> pipes t q = pipes s q"
      "\<forall>vb. readable (pmem s) pt vb \<longrightarrow> user_byte (pmem t) pt vb =
        (if i + 1 \<le> unat (vb - addr) \<and> unat (vb - addr) < min n (i + 1 + length (pipe_list p))
         then pipe_list p ! (unat (vb - addr) - (i + 1)) else user_byte (pmem u) pt vb)"
      using Suc.hyps(1) [OF d _ u(2,3) w Suc.prems(5), of] Suc.prems(1) i M L(2) r by (auto simp del: min_less_iff_conj)
    have "drop (n - i) ?L = drop (n - (i + 1)) (pipe_list p)" using i by (simp add: L(1) Suc_diff_Suc [symmetric])
    moreover have "user_byte (pmem t) pt vb =
        (if i \<le> unat (vb - addr) \<and> unat (vb - addr) < min n (i + length ?L)
         then ?L ! (unat (vb - addr) - i) else user_byte (pmem s) pt vb)" if "readable (pmem s) pt vb" for vb
      using t(5) u(6) that i by (cases "unat (vb - addr) = i") (auto simp: L(1) nth_Cons' not_le)
    ultimately show ?thesis unfolding step using t by (intro exI [of _ t]) (simp add: L(1))
  qed
qed

lemma blank_pipe_simps: "pipe_ok blank_pipe" "pipe_list blank_pipe = []" "pi_readopen blank_pipe"
  by (simp_all add: pipe_ok_def pipe_list_def blank_pipe_def)

section \<open>Properties\<close>

text \<open>
  C15: pipewrite() appends the caller's bytes, in order, to the contents of the pipe. When the reading end is
  open, the caller is not killed and its \<open>n\<close> bytes at \<open>addr\<close> are readable, the call returns \<open>n\<close> if they fit
  into the 512 bytes of the pipe; otherwise it sleeps for space with the pipe filled by the longest
  prefix that fits. Memory and every other pipe are unchanged.
\<close>

theorem pipewrite_appends:
  fixes s :: "'z files_scheme"
  assumes "myproc s = Some p" and "pt = p_pagetable (procs s p)" and "pt_inv pt s ps"
    and "\<forall>k<n. readable (pmem s) pt (addr + of_nat k)"
    and "pipe_ok (pipes s pi)" and "pi_readopen (pipes s pi)" and "\<not> killed p s"
  shows "\<exists>t. pipewrite pi addr (int n) s =
       (if length (pipe_list (pipes s pi)) + n \<le> PIPESIZE then Ok (int n) t else Sleeps (ChanPipeWrite pi) t) \<and>
     pmem t = pmem s \<and> pipe_ok (pipes t pi) \<and>
     pipe_list (pipes t pi) = pipe_list (pipes s pi) @
       map (\<lambda>k. user_byte (pmem s) pt (addr + of_nat k)) [0..<min n (PIPESIZE - length (pipe_list (pipes s pi)))] \<and>
     (\<forall>q. q \<noteq> pi \<longrightarrow> pipes t q = pipes s q)"
  using pipewrite_loop_ok [of s p ps n addr pi 0] assms by (simp add: pipewrite_def with_proc_def)

theorem pipewrite_appends_witness:
  "\<exists>m t. pipewrite 0x80300000 0 3 (sample m) = Ok 3 t \<and> length (pipe_list (pipes t 0x80300000)) = 3"
proof -
  obtain m ps where m: "pt_inv 0x87FFF000 (sample m) ps" "\<And>va. va < 4096 \<Longrightarrow> readable (pmem m) 0x87FFF000 va"
    using sample_user_page by metis
  have "\<forall>k<3. readable (pmem (sample m)) 0x87FFF000 (0 + of_nat k)"
    using m(2) of_nat_page_less by simp
  then show ?thesis
    using pipewrite_appends [of "sample m" 0 "0x87FFF000" ps 3 0 "0x80300000"] m(1)
    by (auto simp: blank_pipe_simps killed_def PIPESIZE_def intro!: exI [of _ m])
qed

text \<open>
  C16: piperead() hands out the oldest bytes of the pipe. When the pipe is not empty, or its writing end is
  closed, and the caller's \<open>n\<close> bytes at \<open>addr\<close> are writable, it returns the number \<open>k\<close> of bytes read, the smaller
  of \<open>n\<close> and the number of bytes in the pipe; the first \<open>k\<close> bytes of the contents are at \<open>addr\<close>, the rest of the
  user memory is unchanged, and they are gone from the pipe. When the pipe is empty and can still be
  written, it sleeps.
\<close>

theorem piperead_takes:
  fixes s :: "'z files_scheme"
  assumes "myproc s = Some p" and "pt = p_pagetable (procs s p)" and "pt_inv pt s ps" and "user_ok pt s ps"
    and "\<forall>k<n. writable (pmem s) pt (addr + of_nat k)" and "n < 2 ^ 63"
    and "pipe_ok (pipes s pi)" and "\<not> killed p s" and "L = pipe_list (pipes s pi)" and "k = min n (length L)"
  shows "if L = [] \<and> pi_writeopen (pipes s pi) then \<exists>t. piperead pi addr (int n) s = Sleeps (ChanPipeRead pi) t \<and> pipes t = pipes s
     else \<exists>t. piperead pi addr (int n) s = Ok (int k) t \<and>
       pipe_ok (pipes t pi) \<and> pipe_list (pipes t pi) = drop k L \<and> (\<forall>q. q \<noteq> pi \<longrightarrow> pipes t q = pipes s q) \<and>
       (\<forall>vb. readable (pmem s) pt vb \<longrightarrow> user_byte (pmem t) pt vb =
          (if unat (vb - addr) < k then L ! unat (vb - addr) else user_byte (pmem s) pt vb))"
proof -
  have d: "drop n L = drop k L" using assms(10) by (simp add: min_def)
  note e = pipe_empty_iff [of "pipes s pi", folded assms(9)]
  show ?thesis
  proof (cases "L = [] \<and> pi_writeopen (pipes s pi)")
    case True
    then show ?thesis using assms(1,8) e by (simp add: piperead_def with_proc_def sleep_def)
  next
    case False
    then have "piperead pi addr (int n) s = piperead_loop pi p addr 0 n s"
      using assms(1) e by (auto simp: piperead_def with_proc_def)
    then show ?thesis unfolding if_not_P [OF False]
      using piperead_loop_ok [OF assms(2-7), of 0, folded assms(9)] d assms(10)
      by (simp split del: if_split cong: if_cong)
  qed
qed

theorem piperead_takes_witness:
  "\<exists>m. \<exists>s t. piperead 0x80300000 0 4 s = Ok 2 t \<and> s = sample m\<lparr>pipes := (\<lambda>_. pipe_put 8 (pipe_put 7 blank_pipe))\<rparr> \<and>
     user_byte (pmem t) 0x87FFF000 1 = 8"
proof -
  obtain m ps where m: "pt_inv 0x87FFF000 (sample m) ps" "user_ok 0x87FFF000 (sample m) ps"
    "\<And>va. va < 4096 \<Longrightarrow> writable (pmem m) 0x87FFF000 va" "\<And>va. va < 4096 \<Longrightarrow> readable (pmem m) 0x87FFF000 va"
    using sample_user_page by metis
  let ?p = "pipe_put 8 (pipe_put 7 blank_pipe)"
  let ?s = "sample m\<lparr>pipes := (\<lambda>_. ?p)\<rparr>"
  have w: "\<forall>k<4. writable (pmem ?s) 0x87FFF000 (0 + of_nat k)"
    using m(3) of_nat_page_less by simp
  have p: "pipe_ok ?p" "pipe_list ?p = [7, 8]"
    by (simp_all add: pipe_ok_def pipe_list_def ring_list_def pipe_put_def blank_pipe_def PIPESIZE_def upt_conv_Cons)
  show ?thesis
    using piperead_takes [OF _ refl, of ?s 0 ps 4 0 "0x80300000", OF _ _ _ _ _ _ _ refl refl] m w p
      pt_inv_machine [of ?s "sample m"] user_ok_machine [of ?s "sample m"]
    by (auto simp: killed_def intro!: exI [of _ m])
qed

text \<open>
  C17: Bytes leave a pipe in the order in which they entered it, whatever the interleaving of the two ends:
  after any sequence of attempted accesses, in which a put to a full pipe and a take from an empty one
  are skipped, the old contents followed by the bytes put are the bytes taken followed by the new
  contents, and the number of bytes in the pipe never exceeds 512. Both counters may wrap around.
\<close>

theorem pipe_fifo_order:
  "pipe_ok p \<Longrightarrow> pipe_fifo.run ops p = (ps, gs, q) \<Longrightarrow>
     pipe_list p @ ps = gs @ pipe_list q \<and> pipe_ok q \<and> length (pipe_list q) \<le> PIPESIZE"
  using pipe_fifo.fifo [of p ops ps gs q] pipe_fifo.bound [of q] by simp

theorem pipe_fifo_order_witness:
  "\<exists>q. pipe_fifo.run [Inl 1, Inl 2, Inr (), Inl 3] (blank_pipe\<lparr>pi_nread := -1, pi_nwrite := -1\<rparr>) = ([1, 2, 3], [1], q) \<and>
     pipe_list q = [2, 3]"
proof -
  let ?p = "blank_pipe\<lparr>pi_nread := -1, pi_nwrite := -1\<rparr>"
  obtain ps gs q where r: "pipe_fifo.run [Inl 1, Inl 2, Inr (), Inl 3] ?p = (ps, gs, q)" by (metis prod_cases3)
  have "ps = [1, 2, 3] \<and> gs = [1]"
    using r by (auto simp: pipe_fifo.run.simps [unfolded PIPESIZE_def] pipe_list_def ring_list_def pipe_put_def pipe_get_def blank_pipe_def PIPESIZE_def upt_conv_Cons
        unsigned_minus_1_eq_mask mask_eq_exp_minus_1)
  then show ?thesis
    using r pipe_fifo_order [OF _ r] by (auto simp: pipe_ok_def pipe_list_def)
qed

end
