(* ===== verification/Console_Props.thy ===== *)
theory Console_Props
  imports Pipe_Props
begin

text \<open>
  The console as a line discipline, and the UART as an output stream. The abstract input of the console is a
  pair of lists: the bytes of finished lines that no process has read yet, and the line being edited. The
  abstract output is the bytes written to the transmit register followed by those still queued.
\<close>

section \<open>Synchronous output\<close>

text \<open>The transmitter becomes idle again and again, and the kernel has not panicked.\<close>

definition tx_live :: "'z devs_scheme \<Rightarrow> bool" where
  "tx_live s \<longleftrightarrow> \<not> panicked s \<and> (\<forall>i. \<exists>j\<ge>i. lsr s j AND LSR_TX_IDLE \<noteq> 0)"

text \<open>\<open>t\<close> is \<open>s\<close> after the bytes \<open>bs\<close> were sent, with some reads of the status register.\<close>

definition echoed :: "u8 list \<Rightarrow> 'z devs_scheme \<Rightarrow> 'z devs_scheme \<Rightarrow> bool" where
  "echoed bs s t \<longleftrightarrow> (\<exists>i. t = s\<lparr>lsr_i := i, uart_regs := uart_regs s @ map (Pair 0) bs\<rparr>)"

lemma echoed_refl: "echoed [] s s"
  unfolding echoed_def by (rule exI [of _ "lsr_i s"]) simp

lemma echoed_trans: "echoed as s t \<Longrightarrow> echoed bs t u \<Longrightarrow> echoed (as @ bs) s u"
  by (auto simp: echoed_def)

lemma echoed_live: "echoed bs s t \<Longrightarrow> tx_live s \<Longrightarrow> tx_live t"
  by (auto simp: echoed_def tx_live_def)

lemma wait_idle_returns:
  assumes "\<exists>j\<ge>i. f j AND LSR_TX_IDLE \<noteq> 0"
  shows "\<exists>k. wait_idle f i = Some k"
proof -
  obtain j where "i \<le> j" "f j AND LSR_TX_IDLE \<noteq> 0" using assms by auto
  then show ?thesis
  proof (induction "j - i" arbitrary: i)
    case 0
    then show ?case by (subst wait_idle.simps) auto
  next
    case (Suc d)
    then show ?case by (subst wait_idle.simps) simp
  qed
qed

lemma uartputc_sync_live: "tx_live s \<Longrightarrow> \<exists>t. uartputc_sync c s = Ok () t \<and> echoed [c] s t"
  using wait_idle_returns [of "lsr_i s" "lsr s"]
  by (auto simp: tx_live_def uartputc_sync_def echoed_def WriteReg_def)

lemma consputc_backspace_live:
  assumes "tx_live s"
  shows "\<exists>t. consputc_backspace s = Ok () t \<and> echoed [8, 32, 8] s t"
proof -
  obtain t where t: "uartputc_sync 8 s = Ok () t" "echoed [8] s t" using uartputc_sync_live [OF assms] by blast
  then obtain u where u: "uartputc_sync 32 t = Ok () u" "echoed [32] t u"
    using uartputc_sync_live [OF echoed_live [OF _ assms]] by blast
  then obtain v where v: "uartputc_sync 8 u = Ok () v" "echoed [8] u v"
    using uartputc_sync_live [OF echoed_live [OF _ echoed_live [OF _ assms]]] t by blast
  show ?thesis using echoed_trans [OF t(2) echoed_trans [OF u(2) v(2)]] t(1) u(1) v(1)
    by (simp add: consputc_backspace_def)
qed

lemma kputs_live: "tx_live s \<Longrightarrow> \<exists>t. kputs bs s = Ok () t \<and> echoed bs s t"
proof (induction bs arbitrary: s)
  case Nil
  then show ?case by (simp add: echoed_refl)
next
  case (Cons b bs)
  obtain t where t: "uartputc_sync b s = Ok () t" "echoed [b] s t" using uartputc_sync_live [OF Cons.prems] by blast
  obtain u where "kputs bs t = Ok () u" "echoed bs t u" using Cons.IH [OF echoed_live [OF t(2) Cons.prems]] by blast
  then show ?case using t echoed_trans [of "[b]" s t bs u] by (simp add: consputc_def)
qed

section \<open>The line discipline\<close>

definition committed :: "'z devs_scheme \<Rightarrow> u8 list" where
  "committed s = ring_list INPUT_BUF_SIZE (cons_buf s) (cons_r s) (cons_w s)"

definition edit_line :: "'z devs_scheme \<Rightarrow> u8 list" where
  "edit_line s = ring_list INPUT_BUF_SIZE (cons_buf s) (cons_w s) (cons_e s)"

definition cons_ok :: "'z devs_scheme \<Rightarrow> bool" where
  "cons_ok s \<longleftrightarrow> unat (cons_w s - cons_r s) + unat (cons_e s - cons_w s) = unat (cons_e s - cons_r s) \<and>
     unat (cons_e s - cons_r s) \<le> INPUT_BUF_SIZE \<and> NEWLINE \<notin> set (edit_line s)"

text \<open>What one input byte does to the two lists, and what is echoed for it.\<close>

definition line_step :: "u8 \<Rightarrow> u8 list \<times> u8 list \<Rightarrow> u8 list \<times> u8 list" where
  "line_step c = (\<lambda>(com, ed).
     if c = CTRL_P then (com, ed)
     else if c = CTRL_U then (com, [])
     else if c = CTRL_H \<or> c = 0x7F then (com, butlast ed)
     else if c = 0 \<or> length com + length ed \<ge> INPUT_BUF_SIZE then (com, ed)
     else let c = (if c = 13 then NEWLINE else c); ed = ed @ [c] in
       if c = NEWLINE \<or> c = CTRL_D \<or> length com + length ed = INPUT_BUF_SIZE then (com @ ed, []) else (com, ed))"

definition line_echo :: "u8 list \<Rightarrow> u8 \<Rightarrow> u8 list \<times> u8 list \<Rightarrow> u8 list" where
  "line_echo dump c = (\<lambda>(com, ed).
     if c = CTRL_P then dump
     else if c = CTRL_U then concat (replicate (length ed) [8, 32, 8])
     else if c = CTRL_H \<or> c = 0x7F then if ed = [] then [] else [8, 32, 8]
     else if c = 0 \<or> length com + length ed \<ge> INPUT_BUF_SIZE then []
     else [if c = 13 then NEWLINE else c])"

lemma ring_list_append:
  fixes r w e :: "'a::len word"
  assumes "unat (w - r) + unat (e - w) = unat (e - r)"
  shows "ring_list cap data r w @ ring_list cap data w e = ring_list cap data r e"
proof -
  have "map (\<lambda>i. data (unat (w + of_nat i) mod cap)) [0..<unat (e - w)] =
      map (\<lambda>i. data (unat (r + of_nat i) mod cap)) [unat (w - r)..<unat (e - r)]"
    by (rule nth_equalityI) (simp_all add: assms [symmetric] del: of_nat_add, simp add: algebra_simps)
  moreover have "[0..<unat (e - r)] = [0..<unat (w - r)] @ [unat (w - r)..<unat (e - r)]"
    using upt_add_eq_append [of 0 "unat (w - r)" "unat (e - w)"] assms by simp
  ultimately show ?thesis unfolding ring_list_def by simp
qed

lemma edit_empty_iff: "edit_line s = [] \<longleftrightarrow> cons_e s = cons_w s"
  by (auto simp: edit_line_def ring_list_Nil_iff)

lemma cons_length: "cons_ok s \<Longrightarrow> length (committed s) + length (edit_line s) = unat (cons_e s - cons_r s)"
  by (simp add: cons_ok_def committed_def edit_line_def)

text \<open>Erasing the last byte of the edited line.\<close>

lemma erase_ok:
  assumes "cons_ok s" and "edit_line s \<noteq> []"
  shows "cons_ok (s\<lparr>cons_e := cons_e s - 1\<rparr>)" "edit_line (s\<lparr>cons_e := cons_e s - 1\<rparr>) = butlast (edit_line s)"
    "committed (s\<lparr>cons_e := cons_e s - 1\<rparr>) = committed s"
proof -
  have ne: "cons_e s \<noteq> cons_w s" using assms(2) by (simp add: edit_empty_iff)
  show e: "edit_line (s\<lparr>cons_e := cons_e s - 1\<rparr>) = butlast (edit_line s)"
    using ne by (simp add: edit_line_def ring_unpush)
  have p: "0 < unat (cons_e s - cons_w s)" "0 < unat (cons_e s - cons_r s)"
    using ne assms(1) unat_gt_0 [of "cons_e s - cons_w s"] by (auto simp: cons_ok_def)
  then have "unat (cons_e s - 1 - cons_w s) = unat (cons_e s - cons_w s) - 1"
    "unat (cons_e s - 1 - cons_r s) = unat (cons_e s - cons_r s) - 1"
    using unat_minus_one [of "cons_e s - cons_w s"] unat_minus_one [of "cons_e s - cons_r s"]
    by (auto simp: algebra_simps unat_gt_0)
  then show "cons_ok (s\<lparr>cons_e := cons_e s - 1\<rparr>)"
    using assms(1) p unfolding cons_ok_def e by (auto dest: in_set_butlastD)
qed (simp add: committed_def)

lemma echoed_lines:
  "echoed bs s t \<Longrightarrow> committed t = committed s \<and> edit_line t = edit_line s \<and> cons_ok t = cons_ok s \<and>
     cons_r t = cons_r s \<and> cons_w t = cons_w s \<and> cons_e t = cons_e s \<and> cons_buf t = cons_buf s"
  by (auto simp: echoed_def committed_def edit_line_def cons_ok_def)

lemma last_edit:
  assumes "edit_line s \<noteq> []"
  shows "cons_buf s (unat (cons_e s - 1) mod INPUT_BUF_SIZE) = last (edit_line s)"
proof -
  let ?n = "unat (cons_e s - cons_w s)"
  have "cons_e s - cons_w s \<noteq> 0" using assms by (simp add: edit_empty_iff)
  then have "unat (cons_e s - cons_w s - 1) = ?n - 1" and "0 < ?n"
    using unat_minus_one [of "cons_e s - cons_w s"] by (simp_all add: unat_gt_0)
  then have "of_nat (?n - 1) = cons_e s - cons_w s - 1" by (metis word_of_nat_unat)
  then have "cons_w s + of_nat (?n - 1) = cons_e s - 1" by simp
  then show ?thesis using \<open>0 < ?n\<close> by (simp add: edit_line_def ring_list_def last_map)
qed

lemma kill_line_ok:
  fixes s :: "'z devs_scheme"
  assumes "tx_live s" and "cons_ok s"
  shows "\<exists>t. kill_line s = Ok () t \<and> tx_live t \<and> cons_ok t \<and> committed t = committed s \<and> edit_line t = [] \<and>
     uart_regs t = uart_regs s @ map (Pair 0) (concat (replicate (length (edit_line s)) [8, 32, 8]))"
  using assms
proof (induction "length (edit_line s)" arbitrary: s)
  case 0
  then show ?case by (subst kill_line.simps) (simp add: edit_empty_iff)
next
  case (Suc n)
  then have ne: "edit_line s \<noteq> []" by auto
  let ?s = "s\<lparr>cons_e := cons_e s - 1\<rparr>"
  have "last (edit_line s) \<noteq> NEWLINE" using Suc.prems(2) last_in_set [OF ne] by (auto simp: cons_ok_def)
  then have g: "cons_e s \<noteq> cons_w s \<and> cons_buf s (unat (cons_e s - 1) mod INPUT_BUF_SIZE) \<noteq> NEWLINE"
    using ne last_edit [OF ne] by (simp add: edit_empty_iff)
  have l: "tx_live ?s" using Suc.prems(1) by (simp add: tx_live_def)
  obtain t where t: "consputc_backspace ?s = Ok () t" "echoed [8, 32, 8] ?s t"
    using consputc_backspace_live [OF l] by blast
  note E = echoed_lines [OF t(2)] erase_ok [OF Suc.prems(2) ne]
  have "n = length (edit_line t)" "cons_ok t" using E Suc.hyps(2) by simp_all
  then obtain u where u: "kill_line t = Ok () u" "tx_live u" "cons_ok u" "committed u = committed t" "edit_line u = []"
    "uart_regs u = uart_regs t @ map (Pair 0) (concat (replicate n [8, 32, 8]))"
    using Suc.hyps(1) [of t] echoed_live [OF t(2) l] by blast
  have "kill_line s = Ok () u" using g t(1) u(1) by (subst kill_line.simps) simp
  moreover have "uart_regs t = uart_regs s @ map (Pair 0) [8, 32, 8]" using t(2) by (auto simp: echoed_def)
  ultimately show ?case using u E Suc.hyps(2) by (intro exI [of _ u]) (simp add: Suc.hyps(2) [symmetric])
qed

text \<open>Storing a byte at the end of the edited line, and committing the line.\<close>

lemma ring_slots:
  assumes "cons_ok s" and "unat (cons_e s - cons_r s) < INPUT_BUF_SIZE"
  shows "ring_list INPUT_BUF_SIZE ((cons_buf s)(unat (cons_e s) mod INPUT_BUF_SIZE := c)) (cons_r s) (cons_e s + 1) =
    committed s @ edit_line s @ [c]"
proof -
  have c: "INPUT_BUF_SIZE dvd 2 ^ LENGTH(32)" "INPUT_BUF_SIZE < 2 ^ LENGTH(32)" by (simp_all add: INPUT_BUF_SIZE_def)
  have "ring_list INPUT_BUF_SIZE (cons_buf s) (cons_r s) (cons_e s) = committed s @ edit_line s"
    using ring_list_append [of "cons_w s" "cons_r s" "cons_e s"] assms(1) by (simp add: cons_ok_def committed_def edit_line_def)
  then show ?thesis using ring_push [OF c assms(2)] by simp
qed

lemma store_ok:
  assumes "cons_ok s" and "unat (cons_e s - cons_r s) < INPUT_BUF_SIZE" and "c \<noteq> NEWLINE"
    and "u = s\<lparr>cons_buf := (cons_buf s)(unat (cons_e s) mod INPUT_BUF_SIZE := c), cons_e := cons_e s + 1\<rparr>"
  shows "cons_ok u \<and> edit_line u = edit_line s @ [c] \<and> committed u = committed s"
proof -
  let ?b = "(cons_buf s)(unat (cons_e s) mod INPUT_BUF_SIZE := c)"
  note R = ring_slots [OF assms(1,2), of c]
  have e: "unat (cons_e s + 1 - cons_r s) = Suc (unat (cons_e s - cons_r s))"
    "unat (cons_e s + 1 - cons_w s) = Suc (unat (cons_e s - cons_w s))"
    using assms(1,2) by (intro unat_succ_diff [of _ _ INPUT_BUF_SIZE]; simp add: cons_ok_def INPUT_BUF_SIZE_def)+
  then have w: "unat (cons_w s - cons_r s) + unat (cons_e s + 1 - cons_w s) = unat (cons_e s + 1 - cons_r s)"
    using assms(1) by (simp add: cons_ok_def)
  have "committed u @ edit_line u = ring_list INPUT_BUF_SIZE ?b (cons_r s) (cons_e s + 1)"
    using ring_list_append [OF w, of INPUT_BUF_SIZE ?b] by (simp add: assms(4) committed_def edit_line_def)
  then have "committed u @ edit_line u = committed s @ edit_line s @ [c]" using R by simp
  moreover have "length (committed u) = length (committed s)" by (simp add: assms(4) committed_def)
  ultimately have u: "committed u = committed s" "edit_line u = edit_line s @ [c]" by simp_all
  then show ?thesis using w e assms by (simp add: cons_ok_def)
qed

lemma commit_ok:
  assumes "cons_ok s" and "unat (cons_e s - cons_r s) < INPUT_BUF_SIZE"
    and "u = s\<lparr>cons_buf := (cons_buf s)(unat (cons_e s) mod INPUT_BUF_SIZE := c), cons_e := cons_e s + 1, cons_w := cons_e s + 1\<rparr>"
  shows "cons_ok u \<and> edit_line u = [] \<and> committed u = committed s @ edit_line s @ [c]"
proof -
  have "unat (cons_e s + 1 - cons_r s) = Suc (unat (cons_e s - cons_r s))"
    using assms(2) by (rule unat_succ_diff) (simp add: INPUT_BUF_SIZE_def)
  then show ?thesis
    using assms(2) ring_slots [OF assms(1,2), of c] by (simp add: assms(3) cons_ok_def edit_line_def committed_def)
qed

lemma wakeup_cons [simp]:
  "committed (wakeup ch s) = committed s" "edit_line (wakeup ch s) = edit_line s" "cons_ok (wakeup ch s) = cons_ok s"
  "uart_regs (wakeup ch s) = uart_regs s" "tx_live (wakeup ch s) = tx_live s"
  by (simp_all add: wakeup_def committed_def edit_line_def cons_ok_def tx_live_def)

lemma consoleintr_char:
  fixes s :: "'z devs_scheme"
  assumes l: "tx_live s" and i: "cons_ok s" and c: "c \<notin> {CTRL_P, CTRL_U, CTRL_H, 0x7F, 0}"
    and f: "unat (cons_e s - cons_r s) < INPUT_BUF_SIZE"
  shows "\<exists>t. consoleintr c s = Ok () t \<and> tx_live t \<and> cons_ok t \<and>
     (committed t, edit_line t) = line_step c (committed s, edit_line s) \<and>
     uart_regs t = uart_regs s @ map (Pair 0) (line_echo dump c (committed s, edit_line s))"
proof -
  define b where "b = (if c = 13 then NEWLINE else c)"
  obtain t where t: "uartputc_sync b s = Ok () t" "echoed [b] s t" using uartputc_sync_live [OF l] by blast
  note E = echoed_lines [OF t(2)]
  have tl: "tx_live t" using t(2) l by (rule echoed_live)
  define u where "u = t\<lparr>cons_buf := (cons_buf t)(unat (cons_e t) mod INPUT_BUF_SIZE := b), cons_e := cons_e t + 1\<rparr>"
  have ul: "tx_live u" "tx_live (u\<lparr>cons_w := cons_e u\<rparr>)" using tl by (simp_all add: tx_live_def u_def)
  have n: "unat (cons_e u - cons_r u) = length (committed s) + Suc (length (edit_line s))"
    using cons_length [OF i] unat_succ_diff [OF f] E by (simp add: u_def INPUT_BUF_SIZE_def)
  have step: "consoleintr c s = (if b = NEWLINE \<or> b = CTRL_D \<or> unat (cons_e u - cons_r u) = INPUT_BUF_SIZE
      then Ok () (wakeup ChanConsR (u\<lparr>cons_w := cons_e u\<rparr>)) else Ok () u)"
    using c f t(1) by (simp add: consoleintr_def consputc_def b_def [symmetric] u_def Let_def)
  have r: "uart_regs u = uart_regs s @ map (Pair 0) (line_echo dump c (committed s, edit_line s))"
    using t(2) c f cons_length [OF i] by (auto simp: u_def echoed_def line_echo_def b_def)
  have ls: "line_step c (committed s, edit_line s) =
      (if b = NEWLINE \<or> b = CTRL_D \<or> unat (cons_e u - cons_r u) = INPUT_BUF_SIZE
       then (committed s @ edit_line s @ [b], []) else (committed s, edit_line s @ [b]))"
    using c f cons_length [OF i] unfolding n by (simp add: line_step_def b_def [symmetric] Let_def)
  show ?thesis
  proof (cases "b = NEWLINE \<or> b = CTRL_D \<or> unat (cons_e u - cons_r u) = INPUT_BUF_SIZE")
    case True
    have "u\<lparr>cons_w := cons_e u\<rparr> = t\<lparr>cons_buf := (cons_buf t)(unat (cons_e t) mod INPUT_BUF_SIZE := b),
        cons_e := cons_e t + 1, cons_w := cons_e t + 1\<rparr>" by (simp add: u_def)
    from commit_ok [OF _ _ this] show ?thesis
      using True step ls r E i f ul by simp
  next
    case False
    from store_ok [OF _ _ _ u_def] show ?thesis using False step ls r E i f ul by simp
  qed
qed

section \<open>Reading lines\<close>

text \<open>
  What a read of \<open>n\<close> bytes takes from the finished lines \<open>com\<close>: the bytes it delivers and the bytes that
  stay, or nothing when it has to wait. \<open>first\<close> tells that it has not delivered a byte yet: control-D ends
  a read, and is kept for the next one unless it comes first.
\<close>

fun line_read :: "bool \<Rightarrow> nat \<Rightarrow> u8 list \<Rightarrow> (u8 list \<times> u8 list) option" where
  "line_read first 0 com = Some ([], com)"
| "line_read first (Suc n) [] = None"
| "line_read first (Suc n) (c # com) =
     (if c = CTRL_D then Some ([], if first then com else c # com)
      else if c = NEWLINE then Some ([c], com)
      else map_option (\<lambda>(bs, rest). (c # bs, rest)) (line_read False n com))"

lemma more_devs:
  fixes s t :: "'z devs_scheme"
  assumes "machine.more t = machine.more s"
  shows "procs t = procs s" "myproc t = myproc s" "cons_r t = cons_r s" "cons_w t = cons_w s" "cons_buf t = cons_buf s"
    "cons_e t = cons_e s"
  using assms by (cases s; cases t; simp)+

lemma committed_step:
  assumes "cons_r s \<noteq> cons_w s"
  shows "committed s = cons_buf s (unat (cons_r s) mod INPUT_BUF_SIZE) # committed (s\<lparr>cons_r := cons_r s + 1\<rparr>)"
  using assms by (simp add: committed_def ring_pop)

lemma line_read_length: "line_read f n com = Some (bs, rest) \<Longrightarrow> length bs \<le> n"
  by (induction f n com arbitrary: bs rest rule: line_read.induct) (auto split: if_splits)

lemma line_read_first: "n < target \<Longrightarrow> line_read (n = target) n com = line_read False n com"
  by simp

text \<open>One byte of consoleread() that is not control-D.\<close>

lemma consoleread_byte:
  fixes s :: "'z devs_scheme"
  assumes "myproc s = Some p" and "pt = p_pagetable (procs s p)" and "pt_inv pt s ps" and "user_ok pt s ps"
    and "writable (pmem s) pt dst" and "committed s = c # com" and "c \<noteq> CTRL_D"
  shows "\<exists>u. (\<forall>target n. consoleread_loop True dst target (Suc n) s =
       (if c = NEWLINE then Ok (int target - int n) u else consoleread_loop True (dst + 1) target n u)) \<and>
     committed u = com \<and> pt_inv pt u ps \<and> user_ok pt u ps \<and> procs u = procs s \<and> myproc u = myproc s \<and>
     (\<forall>vb. pte_of (pmem u) pt vb = pte_of (pmem s) pt vb) \<and>
     (\<forall>vb. readable (pmem s) pt vb \<longrightarrow> user_byte (pmem u) pt vb = (if vb = dst then c else user_byte (pmem s) pt vb))"
proof -
  define s1 where "s1 = s\<lparr>cons_r := cons_r s + 1\<rparr>"
  have ne: "cons_r s \<noteq> cons_w s" using assms(6) by (auto simp: committed_def)
  have c: "cons_buf s (unat (cons_r s) mod INPUT_BUF_SIZE) = c" "committed s1 = com"
    using committed_step [OF ne] assms(6) by (simp_all add: s1_def)
  have s1: "pmem s1 = pmem s" "procs s1 = procs s" "myproc s1 = myproc s" "freelist s1 = freelist s" "kend s1 = kend s"
    by (simp_all add: s1_def)
  then have inv: "pt_inv pt s1 ps" "user_ok pt s1 ps" "writable (pmem s1) pt (dst + of_nat 0)"
    using assms pt_inv_machine [of s1 s] user_ok_machine [of s1 s] by simp_all
  obtain u where u: "copyout pt (dst + of_nat 0) [c] s1 = Ok 0 u" "pt_inv pt u ps" "user_ok pt u ps"
    "machine.more u = machine.more s1" "\<forall>vb. pte_of (pmem u) pt vb = pte_of (pmem s1) pt vb"
    "\<forall>vb. readable (pmem s1) pt vb \<longrightarrow>
      user_byte (pmem u) pt vb = (if unat (vb - dst) = 0 then c else user_byte (pmem s1) pt vb)"
    using copyout_byte [OF inv, of c] by auto
  note M = more_devs [OF u(4)]
  have "committed u = com" using M c(2) by (simp add: committed_def)
  moreover have e: "either_copyout True dst [c] s1 = Ok 0 u"
    using u(1) assms(1,2) s1 by (simp add: either_copyout_def with_proc_def)
  have "consoleread_loop True dst target (Suc n) s =
       (if c = NEWLINE then Ok (int target - int n) u else consoleread_loop True (dst + 1) target n u)" for target n
    using ne assms(7) e by (simp add: c(1) s1_def [symmetric] Let_def)
  ultimately show ?thesis using u M s1 by (intro exI [of _ u]) (simp add: unat_eq_0)
qed

lemma user_byte_shift:
  fixes vb dst :: u64
  assumes "length bs < 2 ^ 63"
  shows "(if unat (vb - (dst + 1)) < length bs then bs ! unat (vb - (dst + 1)) else if vb = dst then c else x) =
    (if unat (vb - dst) < length (c # bs) then (c # bs) ! unat (vb - dst) else x)"
proof (cases "vb = dst")
  case True
  then have "unat (vb - (dst + 1)) = 2 ^ 64 - 1" by (simp add: unsigned_minus_1_eq_mask mask_eq_exp_minus_1)
  then show ?thesis using True assms by simp
next
  case False
  then have "unat (vb - (dst + 1)) = unat (vb - dst) - 1" "0 < unat (vb - dst)"
    using unat_minus_one [of "vb - dst"] by (simp_all add: algebra_simps unat_gt_0)
  then show ?thesis using False by (cases "unat (vb - dst)") simp_all
qed

text \<open>
  The outcome \<open>r\<close> of a read of which \<open>n\<close> of \<open>target\<close> bytes are still wanted, from the state \<open>s\<close>.
\<close>

definition read_outcome :: "u64 \<Rightarrow> u64 \<Rightarrow> nat \<Rightarrow> nat \<Rightarrow> 'z devs_scheme \<Rightarrow> ('z devs_scheme, int) result \<Rightarrow> bool" where
  "read_outcome pt dst target n s r \<longleftrightarrow>
     (case line_read (n = target) n (committed s) of
        None \<Rightarrow> \<exists>t. r = Sleeps ChanConsR t \<and> committed t = []
      | Some (bs, rest) \<Rightarrow> \<exists>t. r = Ok (int (target - n + length bs)) t \<and> committed t = rest \<and>
          (\<forall>vb. readable (pmem s) pt vb \<longrightarrow> user_byte (pmem t) pt vb =
             (if unat (vb - dst) < length bs then bs ! unat (vb - dst) else user_byte (pmem s) pt vb)))"

lemma read_outcome_eof:
  assumes "committed s = CTRL_D # com" and "Suc n \<le> target"
  shows "read_outcome pt dst target (Suc n) s (consoleread_loop True dst target (Suc n) s)"
proof -
  define s1 where "s1 = s\<lparr>cons_r := cons_r s + 1\<rparr>"
  have ne: "cons_r s \<noteq> cons_w s" using assms(1) by (auto simp: committed_def)
  have c: "cons_buf s (unat (cons_r s) mod INPUT_BUF_SIZE) = CTRL_D" "committed s1 = com"
    using committed_step [OF ne] assms(1) by (simp_all add: s1_def)
  have s1: "s1\<lparr>cons_r := cons_r s1 - 1\<rparr> = s" "pmem s1 = pmem s" by (simp_all add: s1_def)
  have "consoleread_loop True dst target (Suc n) s = Ok (int (target - Suc n)) (if Suc n < target then s else s1)"
    using ne assms(2) s1(1) by (simp add: c(1) s1_def [symmetric] Let_def)
  then show ?thesis using assms c(2) s1(2) by (auto simp: read_outcome_def)
qed

lemma read_outcome_newline:
  assumes "committed s = NEWLINE # com" and "committed u = com" and "Suc n \<le> target"
    and "\<And>vb. readable (pmem s) pt vb \<Longrightarrow> user_byte (pmem u) pt vb = (if vb = dst then NEWLINE else user_byte (pmem s) pt vb)"
  shows "read_outcome pt dst target (Suc n) s (Ok (int target - int n) u)"
  using assms by (simp add: read_outcome_def NEWLINE_def CTRL_D_def unat_eq_0 of_nat_diff)

lemma read_outcome_cons:
  assumes "committed s = c # com" and "c \<noteq> CTRL_D" and "c \<noteq> NEWLINE" and "committed u = com" and "Suc n \<le> target"
    and r: "\<And>vb. readable (pmem u) pt vb = readable (pmem s) pt vb" and n: "n < 2 ^ 63"
    and b: "\<And>vb. readable (pmem s) pt vb \<Longrightarrow> user_byte (pmem u) pt vb = (if vb = dst then c else user_byte (pmem s) pt vb)"
    and o: "read_outcome pt (dst + 1) target n u x"
  shows "read_outcome pt dst target (Suc n) s x"
proof -
  have f: "(n = target) = False" using assms(5) by simp
  have lr: "line_read (Suc n = target) (Suc n) (committed s) =
      map_option (\<lambda>(bs, rest). (c # bs, rest)) (line_read False n com)"
    using assms(1-3) by simp
  show ?thesis
  proof (cases "line_read False n com")
    case None
    then show ?thesis using o lr assms(4) f by (simp add: read_outcome_def)
  next
    case (Some q)
    obtain bs rest where q: "q = (bs, rest)" by fastforce
    have "length bs \<le> n" using line_read_length [of False n com bs rest] Some q by simp
    then have "length bs < 2 ^ 63" using n by (rule le_less_trans)
    note sh = user_byte_shift [OF this, of _ dst c]
    obtain t where t: "x = Ok (int (target - n + length bs)) t" "committed t = rest"
      "\<And>vb. readable (pmem u) pt vb \<Longrightarrow> user_byte (pmem t) pt vb =
           (if unat (vb - (dst + 1)) < length bs then bs ! unat (vb - (dst + 1)) else user_byte (pmem u) pt vb)"
      using o Some q assms(4) f by (auto simp: read_outcome_def)
    have "user_byte (pmem t) pt vb =
        (if unat (vb - dst) < length (c # bs) then (c # bs) ! unat (vb - dst) else user_byte (pmem s) pt vb)"
      if "readable (pmem s) pt vb" for vb
      using that t(3) [of vb] by (simp only: r b [OF that] sh simp_thms)
    moreover have "target - n + length bs = target - Suc n + length (c # bs)" using assms(5) by simp
    ultimately show ?thesis unfolding read_outcome_def lr Some q using t(1,2)
      by (simp only: option.map prod.case option.case) blast
  qed
qed

lemma consoleread_loop_ok:
  fixes s :: "'z devs_scheme"
  assumes "myproc s = Some p" and "pt = p_pagetable (procs s p)" and "pt_inv pt s ps" and "user_ok pt s ps"
    and "\<forall>k<n. writable (pmem s) pt (dst + of_nat k)" and "n < 2 ^ 63" and "\<not> killed p s" and "n \<le> target"
  shows "read_outcome pt dst target n s (consoleread_loop True dst target n s)"
  using assms
proof (induction n arbitrary: s dst)
  case 0
  then show ?case by (simp add: read_outcome_def)
next
  case (Suc n)
  show ?case
  proof (cases "committed s")
    case Nil
    then have "cons_r s = cons_w s" by (simp add: committed_def ring_list_Nil_iff)
    then show ?thesis using Nil Suc.prems(1,7) by (simp add: read_outcome_def with_proc_def sleep_def committed_def)
  next
    case (Cons c com)
    show ?thesis
    proof (cases "c = CTRL_D")
      case True
      then show ?thesis using read_outcome_eof Cons Suc.prems(8) by blast
    next
      case False
      have w: "writable (pmem s) pt dst" "\<And>k. k < n \<Longrightarrow> writable (pmem s) pt (dst + 1 + of_nat k)"
        using Suc.prems(5) [rule_format, of 0] Suc.prems(5) [rule_format, of "Suc k" for k] by (simp_all add: algebra_simps)
      obtain u where u: "consoleread_loop True dst target (Suc n) s =
          (if c = NEWLINE then Ok (int target - int n) u else consoleread_loop True (dst + 1) target n u)"
        "committed u = com" "pt_inv pt u ps" "user_ok pt u ps" "procs u = procs s" "myproc u = myproc s"
        "\<And>vb. pte_of (pmem u) pt vb = pte_of (pmem s) pt vb"
        "\<And>vb. readable (pmem s) pt vb \<Longrightarrow> user_byte (pmem u) pt vb = (if vb = dst then c else user_byte (pmem s) pt vb)"
        using consoleread_byte [OF Suc.prems(1-4) w(1) Cons False] by auto
      have r: "readable (pmem u) pt vb = readable (pmem s) pt vb" for vb using u(7) by (rule readable_cong)
      have "read_outcome pt (dst + 1) target n u (consoleread_loop True (dst + 1) target n u)"
        using Suc.prems u(3-7) w(2) by (intro Suc.IH) (simp_all add: killed_def writable_def)
      then show ?thesis
        using u(1,2,8) r Cons False Suc.prems(6,8) read_outcome_cons [of s c com u n target pt dst]
          read_outcome_newline [of s com u n target pt dst] by (cases "c = NEWLINE") simp_all
    qed
  qed
qed

section \<open>Buffered output\<close>

definition tx_pending :: "'z devs_scheme \<Rightarrow> u8 list" where
  "tx_pending s = ring_list UART_TX_BUF_SIZE (uart_tx_buf s) (uart_tx_r s) (uart_tx_w s)"

definition tx_ok :: "'z devs_scheme \<Rightarrow> bool" where
  "tx_ok s \<longleftrightarrow> unat (uart_tx_w s - uart_tx_r s) \<le> UART_TX_BUF_SIZE"

text \<open>All that was ever handed to the transmitter: the register writes, then the bytes still in the queue.\<close>

definition tx_stream :: "'z devs_scheme \<Rightarrow> (nat \<times> u8) list" where
  "tx_stream s = uart_regs s @ map (Pair 0) (tx_pending s)"

text \<open>The parts of the state that the output code leaves alone.\<close>

definition tx_frame :: "'z devs_scheme \<Rightarrow> 'z devs_scheme \<Rightarrow> bool" where
  "tx_frame s t \<longleftrightarrow> pmem t = pmem s \<and> freelist t = freelist s \<and> kend t = kend s \<and> myproc t = myproc s \<and>
     panicked t = panicked s \<and> lsr t = lsr s \<and> (\<forall>p. p_pagetable (procs t p) = p_pagetable (procs s p))"

lemma wakeup_pagetable [simp]: "p_pagetable (procs (wakeup c s) p) = p_pagetable (procs s p)"
  by (simp add: wakeup_def)

lemma wakeup_devs [simp]:
  "uart_tx_buf (wakeup c s) = uart_tx_buf s" "uart_tx_w (wakeup c s) = uart_tx_w s" "uart_tx_r (wakeup c s) = uart_tx_r s"
  "lsr (wakeup c s) = lsr s" "panicked (wakeup c s) = panicked s"
  by (simp_all add: wakeup_def)

lemma uartstart_stream:
  fixes s :: "'z devs_scheme"
  shows "tx_ok s \<Longrightarrow> tx_stream (uartstart s) = tx_stream s \<and> tx_ok (uartstart s) \<and> tx_frame s (uartstart s) \<and>
    ((\<forall>i. lsr s i AND LSR_TX_IDLE \<noteq> 0) \<longrightarrow> tx_pending (uartstart s) = [])"
proof (induction "length (tx_pending s)" arbitrary: s rule: less_induct)
  case (less s)
  show ?case
  proof (cases "uart_tx_w s = uart_tx_r s \<or> lsr s (lsr_i s) AND LSR_TX_IDLE = 0")
    case True
    then show ?thesis using less.prems
      by (subst (1 2 3 4) uartstart.simps)
         (auto simp: ReadLSR_def tx_stream_def tx_pending_def tx_ok_def tx_frame_def)
  next
    case False
    define c where "c = uart_tx_buf s (unat (uart_tx_r s) mod UART_TX_BUF_SIZE)"
    define u where "u = WriteReg 0 c (wakeup ChanUartTx (s\<lparr>lsr_i := lsr_i s + 1, uart_tx_r := uart_tx_r s + 1\<rparr>))"
    have step: "uartstart s = uartstart u" using False
      by (subst uartstart.simps) (simp add: ReadLSR_def u_def c_def)
    have p: "tx_pending s = c # tx_pending u"
      using ring_pop [of "uart_tx_r s" "uart_tx_w s"] False by (auto simp: tx_pending_def u_def c_def WriteReg_def)
    have su: "tx_stream u = tx_stream s" using p by (simp add: tx_stream_def u_def WriteReg_def)
    have ok: "tx_ok u" using less.prems unat_pred_less [of "uart_tx_w s" "uart_tx_r s"] False by (auto simp: tx_ok_def u_def WriteReg_def)
    have fr: "tx_frame s u" by (simp add: tx_frame_def u_def WriteReg_def)
    have "tx_stream (uartstart u) = tx_stream u \<and> tx_ok (uartstart u) \<and> tx_frame u (uartstart u) \<and>
        ((\<forall>i. lsr u i AND LSR_TX_IDLE \<noteq> 0) \<longrightarrow> tx_pending (uartstart u) = [])"
      using less.hyps [OF _ ok] p by simp
    then show ?thesis unfolding step su using fr by (auto simp: tx_frame_def)
  qed
qed

lemma uartputc_stream:
  fixes s :: "'z devs_scheme"
  assumes "tx_ok s" and "\<not> panicked s" and "myproc s = Some p"
  shows "if length (tx_pending s) = UART_TX_BUF_SIZE then \<exists>t. uartputc c s = Sleeps ChanUartTx t \<and> tx_stream t = tx_stream s
     else \<exists>t. uartputc c s = Ok () t \<and> tx_stream t = tx_stream s @ [(0, c)] \<and> tx_ok t \<and> tx_frame s t \<and>
       ((\<forall>i. lsr s i AND LSR_TX_IDLE \<noteq> 0) \<longrightarrow> tx_pending t = [])"
proof -
  define u where "u = s\<lparr>uart_tx_buf := (uart_tx_buf s)(unat (uart_tx_w s) mod UART_TX_BUF_SIZE := c), uart_tx_w := uart_tx_w s + 1\<rparr>"
  have full: "uart_tx_w s = uart_tx_r s + of_nat UART_TX_BUF_SIZE \<longleftrightarrow> length (tx_pending s) = UART_TX_BUF_SIZE"
  proof -
    have "uart_tx_w s = uart_tx_r s + of_nat UART_TX_BUF_SIZE \<longleftrightarrow> uart_tx_w s - uart_tx_r s = of_nat UART_TX_BUF_SIZE"
      by (auto simp: algebra_simps)
    also have "\<dots> \<longleftrightarrow> length (tx_pending s) = UART_TX_BUF_SIZE"
      by (simp add: word_unat_eq_iff tx_pending_def UART_TX_BUF_SIZE_def)
    finally show ?thesis .
  qed
  show ?thesis
  proof (cases "length (tx_pending s) = UART_TX_BUF_SIZE")
    case True
    then show ?thesis using full assms(2,3)
      by (simp add: uartputc_def sleep_def with_proc_def tx_stream_def tx_pending_def)
  next
    case False
    then have n: "unat (uart_tx_w s - uart_tx_r s) < UART_TX_BUF_SIZE" using assms(1) by (simp add: tx_ok_def tx_pending_def)
    have "tx_pending u = tx_pending s @ [c]"
      using ring_push [OF _ _ n] by (simp add: u_def tx_pending_def) (simp add: UART_TX_BUF_SIZE_def)
    then have "tx_stream u = tx_stream s @ [(0, c)]" by (simp add: tx_stream_def) (simp add: u_def)
    moreover have "tx_ok u" using n unat_succ_diff [OF n] by (simp add: u_def tx_ok_def) (simp add: UART_TX_BUF_SIZE_def)
    moreover have "tx_frame s u" by (simp add: tx_frame_def u_def)
    moreover have "uartputc c s = Ok () (uartstart u)" using False full assms(2) by (simp add: uartputc_def u_def)
    ultimately show ?thesis using False uartstart_stream [of u] by (auto simp: tx_frame_def)
  qed
qed

lemma consolewrite_loop_stream:
  fixes s :: "'z devs_scheme"
  assumes "myproc s = Some p" and "pt = p_pagetable (procs s p)" and "pt_inv pt s ps"
    and "\<forall>k<n. readable (pmem s) pt (src + of_nat k)" and "tx_ok s" and "\<not> panicked s" and "i \<le> n"
  shows "\<exists>t k. k \<le> n \<and> tx_stream t = tx_stream s @ map (Pair 0) (user_bytes (pmem s) pt src i k) \<and>
     (consolewrite_loop True src i n s = Ok (int n) t \<and> k = n \<or>
      consolewrite_loop True src i n s = Sleeps ChanUartTx t \<and> i \<le> k \<and> k < n \<and>
        \<not> (tx_pending s = [] \<and> (\<forall>i. lsr s i AND LSR_TX_IDLE \<noteq> 0)))"
  using assms
proof (induction "n - i" arbitrary: i s)
  case 0
  then show ?case by (intro exI [of _ s] exI [of _ n]) (simp add: consolewrite_loop.simps)
next
  case (Suc d)
  then have i: "i < n" and d: "d = n - (i + 1)" "i + 1 \<le> n" by simp_all
  let ?c = "user_byte (pmem s) pt (src + of_nat i)"
  have cp: "either_copyin True (src + of_nat i) 1 s = Ok (0, [?c]) s"
    using copyin_ok [OF Suc.prems(3), of 1 "src + of_nat i"] Suc.prems(1,2,4) i
    by (simp add: either_copyin_def with_proc_def)
  note P = uartputc_stream [OF Suc.prems(5,6,1), of ?c]
  show ?case
  proof (cases "length (tx_pending s) = UART_TX_BUF_SIZE")
    case True
    then obtain t where t: "uartputc ?c s = Sleeps ChanUartTx t" "tx_stream t = tx_stream s" using P by auto
    moreover have "tx_pending s \<noteq> []" using True by (auto simp: UART_TX_BUF_SIZE_def)
    ultimately show ?thesis using i cp
      by (intro exI [of _ t] exI [of _ i]) (simp add: consolewrite_loop.simps [of True src i])
  next
    case False
    then obtain u where u: "uartputc ?c s = Ok () u" "tx_stream u = tx_stream s @ [(0, ?c)]" "tx_ok u" "tx_frame s u"
      "(\<forall>i. lsr s i AND LSR_TX_IDLE \<noteq> 0) \<longrightarrow> tx_pending u = []" using P by auto
    have f: "pmem u = pmem s" "myproc u = Some p" "\<not> panicked u" "p_pagetable (procs u p) = pt" "lsr u = lsr s" "pt_inv pt u ps"
      using u(4) Suc.prems pt_inv_machine [of u s] by (simp_all add: tx_frame_def)
    have step: "consolewrite_loop True src i n s = consolewrite_loop True src (i + 1) n u"
      using i cp u(1) by (simp add: consolewrite_loop.simps [of True src i])
    obtain t k where t: "k \<le> n" "tx_stream t = tx_stream u @ map (Pair 0) (user_bytes (pmem s) pt src (i + 1) k)"
      "consolewrite_loop True src (i + 1) n u = Ok (int n) t \<and> k = n \<or>
       consolewrite_loop True src (i + 1) n u = Sleeps ChanUartTx t \<and> i + 1 \<le> k \<and> k < n \<and>
        \<not> (tx_pending u = [] \<and> (\<forall>i. lsr u i AND LSR_TX_IDLE \<noteq> 0))"
      using Suc.hyps(1) [OF d(1), of u] d(2) f u(3) Suc.prems(4) by auto
    have "i < k" using t(3) i by auto
    then have "tx_stream t = tx_stream s @ map (Pair 0) (user_bytes (pmem s) pt src i k)"
      using t(2) u(2) by (simp add: upt_conv_Cons)
    then show ?thesis using t(1,3) u(5) f(5) step by (intro exI [of _ t] exI [of _ k]) auto
  qed
qed

section \<open>Properties\<close>

text \<open>
  C22: The console interrupt handler implements a line discipline. From a state in which the three indices
  are in order and the edited line has no newline, and with a transmitter that becomes idle again and
  again, consoleintr() returns and does to the finished lines and to the edited line what \<open>line_step\<close>
  says: control-U drops the edited line, backspace its last byte, another byte is appended unless 128
  bytes are waiting, and a newline, control-D or a full buffer finishes the line. The echo is what
  \<open>line_echo\<close> says, and the indices stay in order.
\<close>

theorem consoleintr_line_discipline:
  fixes s :: "'z devs_scheme"
  assumes "tx_live s" and "cons_ok s"
  shows "\<exists>t. consoleintr c s = Ok () t \<and> tx_live t \<and> cons_ok t \<and>
     (committed t, edit_line t) = line_step c (committed s, edit_line s) \<and>
     uart_regs t = uart_regs s @ map (Pair 0) (line_echo (procdump_text s) c (committed s, edit_line s))"
proof -
  consider (P) "c = CTRL_P" | (U) "c = CTRL_U" | (H) "c = CTRL_H \<or> c = 0x7F"
    | (full) "c \<notin> {CTRL_P, CTRL_U, CTRL_H, 0x7F}" "c = 0 \<or> INPUT_BUF_SIZE \<le> unat (cons_e s - cons_r s)"
    | (char) "c \<notin> {CTRL_P, CTRL_U, CTRL_H, 0x7F, 0}" "unat (cons_e s - cons_r s) < INPUT_BUF_SIZE"
    by fastforce
  then show ?thesis
  proof cases
    case P
    obtain t where "kputs (procdump_text s) s = Ok () t" "echoed (procdump_text s) s t" using kputs_live [OF assms(1)] by blast
    then show ?thesis using P assms echoed_lines [of "procdump_text s" s t] echoed_live [of "procdump_text s" s t]
      by (auto simp: consoleintr_def line_step_def line_echo_def echoed_def)
  next
    case U
    then show ?thesis using kill_line_ok [OF assms]
      by (auto simp: consoleintr_def line_step_def line_echo_def CTRL_P_def CTRL_U_def)
  next
    case H
    let ?s = "s\<lparr>cons_e := cons_e s - 1\<rparr>"
    have l: "tx_live ?s" using assms(1) by (simp add: tx_live_def)
    then obtain t where t: "consputc_backspace ?s = Ok () t" "echoed [8, 32, 8] ?s t" using consputc_backspace_live by blast
    have e: "uart_regs t = uart_regs s @ map (Pair 0) [8, 32, 8]" using t(2) by (auto simp: echoed_def)
    have n: "c \<noteq> CTRL_P" "c \<noteq> CTRL_U" using H by (auto simp: CTRL_P_def CTRL_U_def CTRL_H_def)
    then have step: "consoleintr c s = (if edit_line s \<noteq> [] then Ok () t else Ok () s)"
      using H t(1) edit_empty_iff [of s] by (simp add: consoleintr_def)
    show ?thesis
      using n H e assms erase_ok [OF assms(2)] echoed_lines [OF t(2)] echoed_live [OF t(2) l] unfolding step line_step_def line_echo_def
      by (cases "edit_line s = []") simp_all
  next
    case full
    then have "consoleintr c s = Ok () s" by (auto simp: consoleintr_def)
    then show ?thesis using full assms cons_length [OF assms(2)] by (auto simp: line_step_def line_echo_def)
  next
    case char
    then show ?thesis using consoleintr_char [OF assms] by blast
  qed
qed

theorem consoleintr_line_discipline_witness:
  "\<exists>m t u. consoleintr 97 (sample m) = Ok () t \<and> edit_line t = [97] \<and> uart_regs t = [(0, 97)] \<and>
     consoleintr 13 t = Ok () u \<and> committed u = [97, 10] \<and> edit_line u = []"
proof -
  have l: "tx_live s \<and> cons_ok s" if "lsr s = (\<lambda>_. LSR_TX_IDLE)" "\<not> panicked s" "cons_ok s" for s :: vkern
    using that by (auto simp: tx_live_def LSR_TX_IDLE_def)
  define m :: machine where "m = undefined"
  have "cons_ok (sample m)" "committed (sample m) = []" "edit_line (sample m) = []"
    by (simp_all add: cons_ok_def committed_def edit_line_def)
  then obtain t where t: "consoleintr 97 (sample m) = Ok () t" "tx_live t" "cons_ok t" "committed t = []" "edit_line t = [97]"
      "uart_regs t = [(0, 97)]"
    using l consoleintr_line_discipline [of "sample m" 97]
    by (auto simp: line_step_def line_echo_def CTRL_P_def CTRL_U_def CTRL_H_def CTRL_D_def NEWLINE_def INPUT_BUF_SIZE_def)
  then obtain u where "consoleintr 13 t = Ok () u" "committed u = [97, 10]" "edit_line u = []"
    using t consoleintr_line_discipline [of t 13]
    by (auto simp: line_step_def line_echo_def CTRL_P_def CTRL_U_def CTRL_H_def CTRL_D_def NEWLINE_def INPUT_BUF_SIZE_def)
  then show ?thesis using t by blast
qed

text \<open>
  C23: A read from the console delivers at most one line. With \<open>n\<close> writable bytes at \<open>dst\<close>, consoleread()
  takes from the finished lines what \<open>line_read\<close> says, up to and including a newline, up to a control-D,
  or \<open>n\<close> bytes, returns their number, stores them at \<open>dst\<close> and leaves the rest of the lines and of the user
  memory as they were; control-D is consumed only by a read that it makes return 0. When the finished
  lines do not suffice, it sleeps with all of them taken.
\<close>

theorem consoleread_line:
  fixes s :: "'z devs_scheme"
  assumes "myproc s = Some p" and "pt = p_pagetable (procs s p)" and "pt_inv pt s ps" and "user_ok pt s ps"
    and "\<forall>k<n. writable (pmem s) pt (dst + of_nat k)" and "n < 2 ^ 63" and "\<not> killed p s"
  shows "case line_read True n (committed s) of
      None \<Rightarrow> \<exists>t. consoleread True dst (int n) s = Sleeps ChanConsR t \<and> committed t = []
    | Some (bs, rest) \<Rightarrow> \<exists>t. consoleread True dst (int n) s = Ok (int (length bs)) t \<and> committed t = rest \<and>
        (\<forall>vb. readable (pmem s) pt vb \<longrightarrow> user_byte (pmem t) pt vb =
           (if unat (vb - dst) < length bs then bs ! unat (vb - dst) else user_byte (pmem s) pt vb))"
proof (cases "n = 0")
  case False
  then have "consoleread True dst (int n) s = consoleread_loop True dst n n s" by (simp add: consoleread_def)
  then show ?thesis
    using consoleread_loop_ok [OF assms order_refl] by (simp only: read_outcome_def diff_self_eq_0 add_0 refl simp_thms)
qed (simp add: consoleread_def)

theorem consoleread_line_witness:
  "\<exists>m t. consoleread True 8 100 (sample m\<lparr>cons_w := 4, cons_e := 4, cons_buf := (\<lambda>i. [104, 105, 10, 120] ! i)\<rparr>) = Ok 3 t \<and>
     user_byte (pmem t) 0x87FFF000 9 = 105 \<and> committed t = [120]"
proof -
  obtain m ps where m: "pt_inv 0x87FFF000 (sample m) ps" "user_ok 0x87FFF000 (sample m) ps"
    "\<And>va. va < 4096 \<Longrightarrow> writable (pmem m) 0x87FFF000 va" "\<And>va. va < 4096 \<Longrightarrow> readable (pmem m) 0x87FFF000 va"
    using sample_user_page by metis
  let ?s = "sample m\<lparr>cons_w := 4, cons_e := 4, cons_buf := (\<lambda>i. [104, 105, 10, 120] ! i)\<rparr>"
  have w: "writable (pmem ?s) 0x87FFF000 (8 + of_nat k)" if "k < 100" for k
    using m(3) [of "of_nat (8 + k)"] of_nat_page_less [of "8 + k"] that by simp
  have c: "committed ?s = [104, 105, 10, 120]"
    by (simp add: committed_def ring_list_def INPUT_BUF_SIZE_def upt_conv_Cons)
  have l: "line_read True 100 (committed ?s) = Some ([104, 105, 10], [120])"
    unfolding c using line_read.simps(3) [of _ 99] line_read.simps(3) [of _ 98] line_read.simps(3) [of _ 97]
    by (simp add: CTRL_D_def NEWLINE_def)
  show ?thesis
    using consoleread_line [OF _ refl, of ?s 0 ps 100 8] m w l pt_inv_machine [of ?s "sample m"] user_ok_machine [of ?s "sample m"]
    by (auto simp: killed_def intro!: exI [of _ m])
qed

text \<open>
  Output to the console comes out in order and nothing is lost. When the \<open>n\<close> bytes at \<open>src\<close> are readable,
  consolewrite() hands a prefix of them to the UART, in order, after everything handed to it before
  (sent or still queued): all of them, and then it returns \<open>n\<close>, or fewer, and then it sleeps for room in
  the queue. It does not sleep when the queue is empty at the start and the transmitter is always idle.
\<close>

theorem consolewrite_in_order:
  fixes s :: "'z devs_scheme"
  assumes "myproc s = Some p" and "pt = p_pagetable (procs s p)" and "pt_inv pt s ps"
    and "\<forall>k<n. readable (pmem s) pt (src + of_nat k)" and "tx_ok s" and "\<not> panicked s"
  shows "\<exists>t k. k \<le> n \<and> tx_stream t = tx_stream s @ map (\<lambda>j. (0, user_byte (pmem s) pt (src + of_nat j))) [0..<k] \<and>
     (consolewrite True src (int n) s = Ok (int n) t \<and> k = n \<or>
      consolewrite True src (int n) s = Sleeps ChanUartTx t \<and> k < n \<and>
        \<not> (tx_pending s = [] \<and> (\<forall>i. lsr s i AND LSR_TX_IDLE \<noteq> 0)))"
  using consolewrite_loop_stream [OF assms, of 0] by (simp add: consolewrite_def comp_def)

theorem consolewrite_in_order_witness:
  "\<exists>m t. consolewrite True 0 40 (sample m) = Ok 40 t \<and> length (tx_stream t) = 40"
proof -
  obtain m ps where m: "pt_inv 0x87FFF000 (sample m) ps" "\<And>va. va < 4096 \<Longrightarrow> readable (pmem m) 0x87FFF000 va"
    using sample_user_page by metis
  have "tx_stream (sample m) = []" "tx_pending (sample m) = []" "tx_ok (sample m)"
    by (simp_all add: tx_stream_def tx_pending_def tx_ok_def)
  then show ?thesis
    using consolewrite_in_order [OF _ refl, of "sample m" 0 ps 40 0] m of_nat_page_less
    by (auto simp: LSR_TX_IDLE_def intro!: exI [of _ m])
qed

end
