(* ===== verification/Fs_Block_Props.thy ===== *)
theory Fs_Block_Props
  imports Sample
begin

text \<open>
  The block layer of the file system: the search of a bitmap, and what balloc() and bfree() do to the
  blocks as the kernel sees them through the buffer cache (\<open>view\<close>).
\<close>

section \<open>The bitmap\<close>

text \<open>Bit \<open>k\<close> of a bitmap in the order of ext2fs_free_block(): the first bit of a byte is its most significant one.\<close>

definition used_bit :: "u8 list \<Rightarrow> nat \<Rightarrow> bool" where
  "used_bit bm k \<longleftrightarrow> bit (bm ! (k div 8)) (7 - k mod 8)"

lemma bit_mask_test: "x AND bit_mask j = 0 \<longleftrightarrow> \<not> bit x (7 - j)"
proof -
  have "x AND bit_mask j = 0 \<longleftrightarrow> (\<forall>n. \<not> (bit x n \<and> bit (bit_mask j) n))"
    unfolding bit_eq_iff using bit_imp_le_length [of x] by (auto simp: bit_simps)
  moreover have "bit (bit_mask j) n \<longleftrightarrow> n = 7 - j" for n by (auto simp: bit_mask_def bit_simps)
  ultimately show ?thesis by auto
qed

lemma free_bit_SomeD:
  "free_bit x = Some j \<Longrightarrow> j < 8 \<and> \<not> bit x (7 - j) \<and> (\<forall>i<j. bit x (7 - i))"
  unfolding free_bit_def find_Some_iff by (auto simp: bit_mask_test)

lemma free_bit_NoneD: "free_bit x = None \<Longrightarrow> i < 8 \<Longrightarrow> bit x (7 - i)"
  unfolding free_bit_def find_None_iff by (auto simp: bit_mask_test)

lemma free_block_from_Found:
  assumes "free_block_from limit i bm = Found k bm'"
  shows "k div 8 < length bm \<and> k div 8 < limit \<and> i * 8 \<le> k \<and> \<not> used_bit bm k \<and> (\<forall>j. i * 8 \<le> j \<and> j < k \<longrightarrow> used_bit bm j) \<and>
    bm' = bm[k div 8 := bm ! (k div 8) OR bit_mask (k mod 8)]"
  using assms
proof (induction limit i bm rule: free_block_from.induct)
  case (1 limit i bm)
  have l: "\<not> limit \<le> i" "\<not> length bm \<le> i"
    using 1(2) by (auto simp: free_block_from.simps [of limit i] split: if_splits)
  show ?case
  proof (cases "free_bit (bm ! i)")
    case None
    have r: "free_block_from limit (i + 1) bm = Found k bm'" using 1(2) l None by (simp add: free_block_from.simps [of limit i])
    have u: "used_bit bm j" if "i * 8 \<le> j" "j < (i + 1) * 8" for j
    proof -
      have "j div 8 = i" using that by (intro div_nat_eqI) auto
      then show ?thesis using free_bit_NoneD [OF None, of "j mod 8"] by (simp add: used_bit_def)
    qed
    show ?thesis using 1(1) [OF l None r] u by (metis add_leD1 distrib_right not_less)
  next
    case (Some j)
    then have k: "k = i * 8 + j" "bm' = bm[i := bm ! i OR bit_mask j]"
      using 1(2) l by (auto simp: free_block_from.simps [of limit i])
    note F = free_bit_SomeD [OF Some]
    have e: "k div 8 = i" "k mod 8 = j" using k(1) F by auto
    have "used_bit bm m" if "i * 8 \<le> m" "m < k" for m
    proof -
      have "m div 8 = i" using that F k(1) by (intro div_nat_eqI) auto
      moreover have "m mod 8 < j" using that k(1) \<open>m div 8 = i\<close> by (metis F add_less_cancel_left mod_mult_div_eq mult.commute add.commute)
      ultimately show ?thesis using F by (simp add: used_bit_def)
    qed
    then show ?thesis using l F k(2) e by (auto simp: used_bit_def k(1))
  qed
qed

lemma free_block_from_Full:
  "free_block_from limit i bm = Full \<Longrightarrow> i \<le> j div 8 \<Longrightarrow> j div 8 < limit \<Longrightarrow> used_bit bm j"
proof (induction limit i bm rule: free_block_from.induct)
  case (1 limit i bm)
  have l: "\<not> limit \<le> i" using 1(3,4) by simp
  then have l2: "\<not> length bm \<le> i" and n: "free_bit (bm ! i) = None"
    and r: "free_block_from limit (i + 1) bm = Full"
    using 1(2) by (auto simp: free_block_from.simps [of limit i] split: if_splits option.splits)
  show ?case
  proof (cases "j div 8 = i")
    case True
    then show ?thesis using free_bit_NoneD [OF n, of "j mod 8"] by (simp add: used_bit_def)
  next
    case False
    then show ?thesis using 1(1) [OF l l2 n r] 1(3,4) by simp
  qed
qed

lemma bit_set_mask: "j < 8 \<Longrightarrow> i < 8 \<Longrightarrow> bit (x OR bit_mask j) (7 - i) \<longleftrightarrow> bit x (7 - i) \<or> i = j"
  by (auto simp: bit_mask_def bit_simps)

text \<open>Taking bit \<open>k\<close> changes no other bit.\<close>

lemma used_bit_take:
  assumes "k div 8 < length bm"
  shows "used_bit (bm[k div 8 := bm ! (k div 8) OR bit_mask (k mod 8)]) j \<longleftrightarrow> used_bit bm j \<or> j = k"
proof (cases "j div 8 = k div 8")
  case True
  then have "j = k \<longleftrightarrow> j mod 8 = k mod 8" by (metis div_mult_mod_eq)
  then show ?thesis using True assms bit_set_mask [of "k mod 8" "j mod 8"] by (simp add: used_bit_def)
next
  case False
  then show ?thesis by (auto simp: used_bit_def)
qed

section \<open>Blocks\<close>

text \<open>What a caller without buffers gets from bread() and brelse(): nothing changes but the cache.\<close>

definition calm :: "u32 \<Rightarrow> 'z bio_scheme \<Rightarrow> 'z bio_scheme \<Rightarrow> bool" where
  "calm d s t \<longleftrightarrow> cache_ok d {} t \<and> view d t = view d s \<and> bio_frame s t"

lemma more_fs:
  fixes s t :: "'z fs_scheme"
  assumes "bio.more t = bio.more s"
  shows "log t = log s" "sb t = sb s" "itable t = itable s" "fs.more t = fs.more s"
  using assms by (cases s; cases t; simp)+

lemma frame_fs:
  fixes s t :: "'z fs_scheme"
  assumes "bio_frame s t"
  shows "log t = log s" "sb t = sb s" "itable t = itable s" "fs.more t = fs.more s" "pmem t = pmem s"
    "freelist t = freelist s" "kend t = kend s" "myproc t = myproc s"
  using assms more_fs [of t s] by (simp_all add: bio_frame_def)

lemma read_group_ok:
  fixes s :: "'z fs_scheme"
  assumes "cache_ok d {} s"
  shows "\<exists>t. read_group d s = Ok (group_desc_of (view d s 2)) t \<and> cache_ok d {} t \<and> view d t = view d s \<and> disk t = disk s \<and>
    bio_frame s t"
proof -
  obtain b t u where "bread d 2 s = Ok b t" "b_data (bufs t b) = view d s 2" "brelse b t = Ok () u"
    "cache_ok d {} u" "view d u = view d s" "disk u = disk s" "bio_frame s u"
    using bcache.read_release [OF assms, of 2] by (auto simp: NBUF_def)
  then show ?thesis by (simp add: read_group_def Let_def)
qed

lemma bzero_ok:
  fixes s :: "'z fs_scheme"
  assumes "cache_ok d H s" and "card H < NBUF" and "\<forall>i\<in>H. b_blockno (bufs s i) \<noteq> n"
  shows "\<exists>t. bzero d n s = Ok () t \<and> cache_ok d H t \<and> view d t = (view d s)(n := replicate BSIZE 0) \<and>
    disk t = (disk s)(n := replicate BSIZE 0) \<and>
    (\<forall>i\<in>H. b_blockno (bufs t i) = b_blockno (bufs s i) \<and> b_data (bufs t i) = b_data (bufs s i)) \<and> bio_frame s t"
proof -
  obtain b t t' u where "bread d n s = Ok b t" "bwrite b (set_data b (replicate BSIZE 0) t) = Ok () t'" "brelse b t' = Ok () u"
    "cache_ok d H u" "view d u = (view d s)(n := replicate BSIZE 0)" "disk u = (disk s)(n := replicate BSIZE 0)"
    "\<forall>i\<in>H. b_blockno (bufs u i) = b_blockno (bufs s i) \<and> b_data (bufs u i) = b_data (bufs s i)" "bio_frame s u"
    using bcache.read_modify_write [OF assms, of "replicate BSIZE 0"] by auto
  then show ?thesis by (simp add: bzero_def)
qed

text \<open>The block whose bitmap is searched, and its contents.\<close>

abbreviation bitmap_block :: "u32 \<Rightarrow> 'z bio_scheme \<Rightarrow> u32" where
  "bitmap_block d s \<equiv> block_bitmap (group_desc_of (view d s 2))"

abbreviation block_map :: "u32 \<Rightarrow> 'z bio_scheme \<Rightarrow> u8 list" where
  "block_map d s \<equiv> view d s (bitmap_block d s)"

lemma balloc_ok:
  fixes s :: "'z fs_scheme"
  assumes ok: "cache_ok d {} s" and f: "ext2fs_free_block (block_map d s) s = Found k bm" and k: "of_nat k \<noteq> (0 :: u32)"
  shows "\<exists>t. balloc d s = Ok (bitmap_block d s + of_nat k) t \<and> cache_ok d {} t \<and>
    view d t = (view d s)(bitmap_block d s := bm, bitmap_block d s + of_nat k := replicate BSIZE 0) \<and> bio_frame s t"
proof -
  let ?B = "bitmap_block d s"
  obtain s1 where s1: "read_group d s = Ok (group_desc_of (view d s 2)) s1" "cache_ok d {} s1" "view d s1 = view d s"
    "disk s1 = disk s" "bio_frame s s1"
    using read_group_ok [OF ok] by blast
  obtain b s2 where s2: "bread d ?B s1 = Ok b s2" "cache_ok d {b} s2" "b_blockno (bufs s2 b) = ?B"
    "b_data (bufs s2 b) = view d s ?B" "view d s2 = view d s" "disk s2 = disk s" "bio_frame s1 s2"
    using bcache.rd_ok [OF s1(2), of ?B] s1(3,4) by (auto simp: NBUF_def)
  have fr: "bio_frame s s2" using bio_frame_trans [OF s1(5) s2(7)] .
  have f2: "ext2fs_free_block (b_data (bufs s2 b)) s2 = Found k bm"
    using f s2(4) frame_fs(2) [OF fr] by (simp add: ext2fs_free_block_def)
  have len: "length bm = BSIZE"
    using free_block_from_Found [OF f [unfolded ext2fs_free_block_def]] bcache.blk_length [OF ok, of ?B] by auto
  let ?p = "set_data b bm s2"
  have p: "cache_ok d {b} ?p" "view d ?p = (view d s)(?B := bm)"
    using bcache.put_ok [OF s2(2), of b bm] bcache.put_blk [OF s2(2), of b bm] len s2(3,5) by simp_all
  obtain s3 where s3: "bwrite b ?p = Ok () s3" "cache_ok d {b} s3" "view d s3 = (view d s)(?B := bm)"
    "disk s3 = (disk s)(?B := bm)" "b_blockno (bufs s3 b) = ?B" "b_data (bufs s3 b) = bm" "bio_frame ?p s3"
    using bcache.wr_ok [OF p(1), of b] p(2) s2(3,6) by (auto simp: fun_eq_iff)
  have ne: "?B \<noteq> ?B + of_nat k" using k by simp
  obtain s4 where s4: "bzero d (?B + of_nat k) s3 = Ok () s4" "cache_ok d {b} s4"
    "view d s4 = (view d s3)(?B + of_nat k := replicate BSIZE 0)" "disk s4 = (disk s3)(?B + of_nat k := replicate BSIZE 0)"
    "b_blockno (bufs s4 b) = ?B" "b_data (bufs s4 b) = bm" "bio_frame s3 s4"
    using bzero_ok [OF s3(2), of "?B + of_nat k"] s3(5,6) ne by (auto simp: NBUF_def)
  obtain s5 where s5: "brelse b s4 = Ok () s5" "cache_ok d {} s5" "view d s5 = view d s4" "bio_frame s4 s5"
    using bcache.rel_ok [OF s4(2), of b] s4(4-6) s3(4) ne by auto
  have "bio_frame s s5"
    using bio_frame_trans [OF bio_frame_trans [OF bio_frame_trans [OF bio_frame_trans [OF fr] s3(7)] s4(7)] s5(4)] by simp
  then show ?thesis
    using s1(1) s2(1) f2 s3(1,3) s4(1,3) s5 by (simp add: balloc_def)
qed

lemma free_block_from_Overrun:
  "free_block_from limit i bm = Overrun \<Longrightarrow> length bm < limit \<and> (\<forall>j. i \<le> j div 8 \<and> j div 8 < length bm \<longrightarrow> used_bit bm j)"
proof (induction limit i bm rule: free_block_from.induct)
  case (1 limit i bm)
  have l: "\<not> limit \<le> i" using 1(2) by (auto simp: free_block_from.simps [of limit i])
  show ?case
  proof (cases "length bm \<le> i")
    case True
    then show ?thesis using l by auto
  next
    case False
    then have n: "free_bit (bm ! i) = None" and r: "free_block_from limit (i + 1) bm = Overrun"
      using 1(2) l by (auto simp: free_block_from.simps [of limit i] split: option.splits)
    have "used_bit bm j" if "i \<le> j div 8" "j div 8 < length bm" for j
      using 1(1) [OF l False n r] that free_bit_NoneD [OF n, of "j mod 8"]
      by (cases "j div 8 = i") (simp_all add: used_bit_def)
    then show ?thesis using 1(1) [OF l False n r] by simp
  qed
qed

text \<open>The search finds the first free bit within the limit.\<close>

lemma free_block_from_first:
  assumes "\<not> used_bit bm k" and "\<forall>j<k. used_bit bm j" and "k div 8 < limit" and "k div 8 < length bm"
  shows "free_block_from limit 0 bm = Found k (bm[k div 8 := bm ! (k div 8) OR bit_mask (k mod 8)])"
proof (cases "free_block_from limit 0 bm")
  case (Found m bm')
  note F = free_block_from_Found [OF Found]
  have "m = k" using F assms(1,2) by (metis le0 linorder_neqE_nat mult_zero_left)
  then show ?thesis using Found F by simp
next
  case Full
  then show ?thesis using free_block_from_Full [OF Full, of k] assms by simp
next
  case Overrun
  then show ?thesis using free_block_from_Overrun [OF Overrun] assms by simp
qed

lemma free_block_from_past:
  "\<forall>j. i \<le> j div 8 \<and> j div 8 < length bm \<longrightarrow> used_bit bm j \<Longrightarrow> i \<le> length bm \<Longrightarrow> length bm < limit \<Longrightarrow> free_block_from limit i bm = Overrun"
proof (cases "free_block_from limit i bm")
  case (Found m bm')
  assume "\<forall>j. i \<le> j div 8 \<and> j div 8 < length bm \<longrightarrow> used_bit bm j" "i \<le> length bm"
  then show ?thesis using free_block_from_Found [OF Found] by auto
next
  case Full
  have "free_block_from limit i bm \<noteq> Full" if "length bm < limit" "i \<le> length bm"
    using that
  proof (induction limit i bm rule: free_block_from.induct)
    case (1 limit i bm)
    then show ?case by (auto simp: free_block_from.simps [of limit i] split: option.splits)
  qed
  then show "length bm < limit \<Longrightarrow> i \<le> length bm \<Longrightarrow> free_block_from limit i bm = Overrun" using Full by simp
qed

text \<open>Bit \<open>k\<close> of the order of bfree() is bit \<open>mirror k\<close> of the order of ext2fs_free_block().\<close>

definition mirror :: "nat \<Rightarrow> nat" where
  "mirror k = k div 8 * 8 + (7 - k mod 8)"

lemma mirror_simps: "mirror k div 8 = k div 8" "mirror k mod 8 = 7 - k mod 8" "mirror k \<noteq> k"
proof -
  have "(q * 8 + r) div 8 = q" "(q * 8 + r) mod 8 = r" if "r < 8" for q r :: nat using that by simp_all
  from this [of "7 - k mod 8" "k div 8"] have d: "mirror k div 8 = k div 8" and m: "mirror k mod 8 = 7 - k mod 8"
    unfolding mirror_def by simp_all
  show "mirror k div 8 = k div 8" "mirror k mod 8 = 7 - k mod 8" by (fact d m)+
  have "7 - x \<noteq> x" for x :: nat by arith
  then show "mirror k \<noteq> k" using m by metis
qed

lemma used_bit_mirror: "used_bit bm (mirror k) \<longleftrightarrow> bit (bm ! (k div 8)) (k mod 8)"
proof -
  have "7 - (7 - k mod 8) = k mod 8" by simp
  then show ?thesis by (simp only: used_bit_def mirror_simps)
qed

lemma used_bit_clear:
  assumes "k div 8 < length bm"
  shows "used_bit (bm[k div 8 := bm ! (k div 8) AND NOT (push_bit (k mod 8) 1)]) j \<longleftrightarrow> used_bit bm j \<and> j \<noteq> mirror k"
proof (cases "j div 8 = k div 8")
  case True
  have "7 - x = y \<longleftrightarrow> x = 7 - y" if "x < 8" "y < 8" for x y :: nat using that by auto
  then have "7 - j mod 8 = k mod 8 \<longleftrightarrow> j mod 8 = 7 - k mod 8" by simp
  also have "\<dots> \<longleftrightarrow> j = mirror k" using True mirror_simps [of k] by (metis div_mult_mod_eq)
  finally have e: "7 - j mod 8 = k mod 8 \<longleftrightarrow> j = mirror k" .
  show ?thesis using True assms e by (auto simp: used_bit_def bit_simps)
next
  case False
  then show ?thesis using mirror_simps(1) [of k] by (auto simp: used_bit_def)
qed

lemma bit_mask_lsb: "n < 8 \<Longrightarrow> (x :: u8) AND push_bit n 1 = 0 \<longleftrightarrow> \<not> bit x n"
  using bit_mask_test [of x "7 - n"] by (simp add: bit_mask_def)

lemma bfree_ok:
  fixes s :: "'z fs_scheme"
  assumes ok: "cache_ok d {} s" and B: "bitmap_block d s \<noteq> 2" and k: "k div 8 < BSIZE"
  shows "if used_bit (block_map d s) (mirror k) then
      \<exists>t. bfree d (bitmap_block d s + of_nat k) s = Ok () t \<and> cache_ok d {} t \<and> bio_frame s t \<and>
        view d t = (view d s)(bitmap_block d s :=
          (block_map d s)[k div 8 := block_map d s ! (k div 8) AND NOT (push_bit (k mod 8) 1)])
    else bfree d (bitmap_block d s + of_nat k) s = Panic ''ext2fs_bfree: block already free''"
proof -
  let ?B = "bitmap_block d s" and ?bm = "block_map d s"
  let ?x = "?bm[k div 8 := ?bm ! (k div 8) AND NOT (push_bit (k mod 8) 1)]"
  have l: "length ?bm = BSIZE" using bcache.blk_length [OF ok] .
  have k32: "unat (of_nat k :: u32) = k" using k by (simp add: unat_of_nat_small BSIZE_def)
  have kb: "unat ((of_nat k :: u32) mod 8) = k mod 8" "unat ((of_nat k :: u32) div 8) = k div 8"
    by (simp_all add: unat_mod_distrib unat_div_distrib k32)
  obtain b1 s1 where s1: "bread d 2 s = Ok b1 s1" "cache_ok d {b1} s1" "b_blockno (bufs s1 b1) = 2"
    "b_data (bufs s1 b1) = view d s 2" "view d s1 = view d s" "disk s1 = disk s" "bio_frame s s1"
    using bcache.rd_ok [OF ok, of 2] by (auto simp: NBUF_def)
  obtain b2 s2 where s2: "bread d ?B s1 = Ok b2 s2" "b2 \<noteq> b1" "cache_ok d {b2, b1} s2" "b_blockno (bufs s2 b2) = ?B"
    "b_data (bufs s2 b2) = ?bm" "view d s2 = view d s" "disk s2 = disk s" "b_blockno (bufs s2 b1) = 2"
    "b_data (bufs s2 b1) = view d s 2" "bio_frame s1 s2"
    using bcache.rd_ok [OF s1(2), of ?B] s1(3-6) B by (auto simp: NBUF_def)
  have t: "?bm ! (k div 8) AND push_bit (k mod 8) 1 = 0 \<longleftrightarrow> \<not> used_bit ?bm (mirror k)"
    using bit_mask_lsb [of "k mod 8" "?bm ! (k div 8)"] by (simp add: used_bit_mirror)
  show ?thesis
  proof (cases "used_bit ?bm (mirror k)")
    case False
    then show ?thesis using s1(1,4) s2(1,5) t k l kb by (simp add: bfree_def Let_def)
  next
    case True
    let ?p = "set_data b2 ?x s2"
    have p: "cache_ok d {b2, b1} ?p" "view d ?p = (view d s)(?B := ?x)"
      using bcache.put_ok [OF s2(3), of b2 ?x] bcache.put_blk [OF s2(3), of b2 ?x] l s2(4,6) by simp_all
    obtain s3 where s3: "bwrite b2 ?p = Ok () s3" "cache_ok d {b2, b1} s3" "view d s3 = (view d s)(?B := ?x)"
      "disk s3 = (disk s)(?B := ?x)" "b_blockno (bufs s3 b2) = ?B" "b_data (bufs s3 b2) = ?x"
      "b_blockno (bufs s3 b1) = 2" "b_data (bufs s3 b1) = view d s 2" "bio_frame ?p s3"
      using bcache.wr_ok [OF p(1), of b2] p(2) s2(2,4,7-9) by (auto simp: fun_eq_iff)
    obtain s4 where s4: "brelse b2 s3 = Ok () s4" "cache_ok d {b1} s4" "view d s4 = view d s3" "disk s4 = disk s3"
      "b_blockno (bufs s4 b1) = 2" "b_data (bufs s4 b1) = view d s 2" "bio_frame s3 s4"
      using bcache.rel_ok [OF s3(2), of b2] s3(4-8) s2(2) by (auto simp: insert_Diff_if)
    have c: "view d s 2 = disk s 2" using bcache.blk_stored [OF ok] by simp
    obtain s5 where s5: "brelse b1 s4 = Ok () s5" "cache_ok d {} s5" "view d s5 = view d s4" "bio_frame s4 s5"
      using bcache.rel_ok [OF s4(2), of b1] s4(4-6) s3(4) B c by auto
    have "bio_frame s s5"
      using bio_frame_trans [OF bio_frame_trans [OF bio_frame_trans [OF bio_frame_trans [OF s1(7) s2(10)]] s4(7)] s5(4)]
        bio_frame_trans [OF _ s3(9)] by simp
    then show ?thesis
      using True s1(1,4) s2(1,5) s3(1,3) s4(1,3) s5 t k l kb by (simp add: bfree_def Let_def)
  qed
qed

section \<open>Properties\<close>

text \<open>
  C30: balloc() takes the first free bit of the block bitmap. When bit \<open>k\<close> of the bitmap, \<open>k > 0\<close>, is free and
  all bits before it are used, balloc() returns block \<open>k\<close> counted from the bitmap block; afterwards exactly
  that bit is used in addition, the block returned is all zeros, no other block has changed, and the
  superblock, the inode table and user memory are as before.
\<close>

theorem balloc_first_free:
  fixes s :: "'z fs_scheme"
  assumes ok: "cache_ok d {} s" and "\<not> used_bit (block_map d s) k" and "\<forall>j<k. used_bit (block_map d s) j"
    and k: "0 < k" "k div 8 < BSIZE" "k div 8 < unat (s_blocks_per_group (sb s) * 8)"
  shows "\<exists>t bm. balloc d s = Ok (bitmap_block d s + of_nat k) t \<and> cache_ok d {} t \<and>
    view d t = (view d s)(bitmap_block d s := bm, bitmap_block d s + of_nat k := replicate BSIZE 0) \<and>
    (\<forall>j. used_bit bm j \<longleftrightarrow> used_bit (block_map d s) j \<or> j = k) \<and> sb t = sb s \<and> itable t = itable s \<and> pmem t = pmem s"
proof -
  have l: "length (block_map d s) = BSIZE" using bcache.blk_length [OF ok] .
  let ?bm = "(block_map d s)[k div 8 := block_map d s ! (k div 8) OR bit_mask (k mod 8)]"
  have f: "ext2fs_free_block (block_map d s) s = Found k ?bm"
    unfolding ext2fs_free_block_def using free_block_from_first assms l by metis
  have "k < 8 * BSIZE" using k(2) by simp
  then have "(of_nat k :: u32) \<noteq> 0" using k(1) by (simp add: word_unat_eq_iff unat_of_nat_small BSIZE_def)
  then obtain t where "balloc d s = Ok (bitmap_block d s + of_nat k) t" "cache_ok d {} t"
    "view d t = (view d s)(bitmap_block d s := ?bm, bitmap_block d s + of_nat k := replicate BSIZE 0)" "bio_frame s t"
    using balloc_ok [OF ok f] by blast
  then show ?thesis
    using used_bit_take [of k "block_map d s"] k(2) l frame_fs [of s t]
    by (intro exI [of _ t] exI [of _ ?bm]) simp
qed

text \<open>A disk whose group descriptor puts the block bitmap in block 3, with the bitmap \<open>bm\<close>.\<close>

definition disk_with_map :: "u8 list \<Rightarrow> u32 \<Rightarrow> u8 list" where
  "disk_with_map bm n =
     (if n = 2 then [3, 0, 0, 0, 4, 0, 0, 0, 5, 0, 0, 0] @ replicate (BSIZE - 12) 0
      else if n = 3 then bm @ replicate (BSIZE - length bm) 0 else replicate BSIZE 0)"

lemma disk_with_map_length: "length bm \<le> BSIZE \<Longrightarrow> length (disk_with_map bm n) = BSIZE"
  by (simp add: disk_with_map_def BSIZE_def)

lemma disk_with_map_group:
  "block_bitmap (group_desc_of (disk_with_map bm 2)) = 3" "inode_bitmap (group_desc_of (disk_with_map bm 2)) = 4"
  "inode_table (group_desc_of (disk_with_map bm 2)) = 5"
  by (simp_all add: disk_with_map_def group_desc_of_def word_at_def)

theorem balloc_first_free_witness:
  "\<exists>t. balloc 1 (sample0\<lparr>disk := disk_with_map [0xC0]\<rparr>) = Ok 5 t"
proof -
  let ?s = "sample0\<lparr>disk := disk_with_map [0xC0]\<rparr>"
  have v: "cache_ok 1 {} ?s" "view 1 ?s = disk_with_map [0xC0]"
    using fresh_cache [of ?s 0 1] disk_with_map_length [of "[0xC0]"] by (simp_all add: BSIZE_def sample0_def)
  have m: "used_bit (disk_with_map [0xC0] 3) j \<longleftrightarrow> j < 2" if "j < 3" for j
    using that by (auto simp: used_bit_def disk_with_map_def less_Suc_eq numeral_3_eq_3 bit_simps)
  show ?thesis
    using balloc_first_free [OF v(1), of 2] m v(2)
    by (auto simp: disk_with_map_group sample0_def blank_sb_def BSIZE_def)
qed

text \<open>
  C37: bfree() does not undo balloc(), because balloc() counts the bits of a byte from the most significant
  one and bfree() from the least significant one. After balloc() took bit \<open>k\<close>, bfree() of the block it
  returned leaves bit \<open>k\<close> used: it clears bit \<open>mirror k\<close>, which belongs to another block, when that one is
  used, and panics otherwise.
\<close>

theorem bfree_frees_other_bit:
  fixes s :: "'z fs_scheme"
  assumes ok: "cache_ok d {} s" and f: "ext2fs_free_block (block_map d s) s = Found k bm" and k: "0 < k"
    and B: "bitmap_block d s \<noteq> 2" "bitmap_block d s + of_nat k \<noteq> 2"
  shows "\<exists>t. balloc d s = Ok (bitmap_block d s + of_nat k) t \<and> mirror k \<noteq> k \<and>
    (if used_bit (block_map d s) (mirror k) then
       \<exists>u. bfree d (bitmap_block d s + of_nat k) t = Ok () u \<and>
         (\<forall>j. used_bit (block_map d u) j \<longleftrightarrow> (used_bit (block_map d s) j \<or> j = k) \<and> j \<noteq> mirror k)
     else bfree d (bitmap_block d s + of_nat k) t = Panic ''ext2fs_bfree: block already free'')"
proof -
  have F: "k div 8 < BSIZE" "bm = (block_map d s)[k div 8 := block_map d s ! (k div 8) OR bit_mask (k mod 8)]"
    using free_block_from_Found [OF f [unfolded ext2fs_free_block_def]] bcache.blk_length [OF ok] by auto
  have l: "length bm = BSIZE" using F(2) bcache.blk_length [OF ok] by simp
  have "k < 8 * BSIZE" using F(1) by simp
  then have k32: "(of_nat k :: u32) \<noteq> 0" using k by (simp add: word_unat_eq_iff unat_of_nat_small BSIZE_def)
  obtain t where t: "balloc d s = Ok (bitmap_block d s + of_nat k) t" "cache_ok d {} t"
    "view d t = (view d s)(bitmap_block d s := bm, bitmap_block d s + of_nat k := replicate BSIZE 0)" "bio_frame s t"
    using balloc_ok [OF ok f k32] by blast
  have v: "view d t 2 = view d s 2" "block_map d t = bm" using t(3) B k32 by simp_all
  have u: "used_bit bm j \<longleftrightarrow> used_bit (block_map d s) j \<or> j = k" for j
    using used_bit_take [of k "block_map d s"] F bcache.blk_length [OF ok] by simp
  note m = mirror_simps(3) [of k]
  show ?thesis
  proof (cases "used_bit (block_map d s) (mirror k)")
    case True
    then obtain w where w: "bfree d (bitmap_block d t + of_nat k) t = Ok () w"
      "view d w = (view d t)(bitmap_block d t := bm[k div 8 := bm ! (k div 8) AND NOT (push_bit (k mod 8) 1)])"
      using bfree_ok [OF t(2), of k] B(1) v F(1) u by auto
    have "block_map d w = bm[k div 8 := bm ! (k div 8) AND NOT (push_bit (k mod 8) 1)]" using w(2) v(1) B(1) by simp
    then show ?thesis using t(1) w(1) v(1) True m u used_bit_clear [of k bm] F(1) l by simp
  next
    case False
    then show ?thesis using bfree_ok [OF t(2), of k] B(1) v F(1) u t(1) m by simp
  qed
qed

theorem bfree_frees_other_bit_witness:
  "\<exists>t. balloc 1 (sample0\<lparr>disk := disk_with_map [0xC0]\<rparr>) = Ok 5 t \<and> bfree 1 5 t = Panic ''ext2fs_bfree: block already free''"
proof -
  let ?s = "sample0\<lparr>disk := disk_with_map [0xC0]\<rparr>"
  have v: "cache_ok 1 {} ?s" "view 1 ?s = disk_with_map [0xC0]"
    using fresh_cache [of ?s 0 1] disk_with_map_length [of "[0xC0]"] by (simp_all add: BSIZE_def sample0_def)
  have d3: "disk_with_map [0xC0] 3 = 0xC0 # replicate (BSIZE - 1) 0" by (simp add: disk_with_map_def BSIZE_def)
  have "free_bit 0xC0 = Some 2" by (simp add: free_bit_def bit_mask_def upt_conv_Cons)
  then have f: "ext2fs_free_block (disk_with_map [0xC0] 3) ?s = Found 2 ((disk_with_map [0xC0] 3)[0 := 0xE0])"
    unfolding d3 ext2fs_free_block_def
    by (subst free_block_from.simps) (simp add: sample0_def blank_sb_def bit_mask_def)
  have m: "\<not> used_bit (disk_with_map [0xC0] 3) (mirror 2)"
    by (simp add: used_bit_def mirror_def d3 bit_simps)
  show ?thesis
    using bfree_frees_other_bit [OF v(1), of 2] f m v(2) by (auto simp: disk_with_map_group)
qed

text \<open>
  A full bitmap is not reported as such. ext2fs_free_block() examines 8 times as many bytes as a group
  has blocks; with more than 128 blocks in a group that is more than the block of the bitmap has, and when
  all its bits are used, balloc() reads past the end of the buffer instead of reporting that there are
  no more blocks.
\<close>

theorem balloc_full_overruns:
  fixes s :: "'z fs_scheme"
  assumes ok: "cache_ok d {} s" and "\<forall>j<8 * BSIZE. used_bit (block_map d s) j"
    and "BSIZE < unat (s_blocks_per_group (sb s) * 8)"
  shows "balloc d s = Panic ''ext2fs_free_block: past the bitmap''"
proof -
  let ?B = "bitmap_block d s"
  obtain s1 where s1: "read_group d s = Ok (group_desc_of (view d s 2)) s1" "cache_ok d {} s1" "view d s1 = view d s" "bio_frame s s1"
    using read_group_ok [OF ok] by blast
  obtain b s2 where s2: "bread d ?B s1 = Ok b s2" "b_data (bufs s2 b) = view d s ?B" "bio_frame s1 s2"
    using bcache.rd_ok [OF s1(2), of ?B] s1(3) by (auto simp: NBUF_def)
  have "sb s2 = sb s" using frame_fs(2) [OF bio_frame_trans [OF s1(4) s2(3)]] .
  moreover have "free_block_from (unat (s_blocks_per_group (sb s) * 8)) 0 (block_map d s) = Overrun"
    using assms(2,3) bcache.blk_length [OF ok, of ?B] by (intro free_block_from_past) auto
  ultimately show ?thesis using s1(1) s2(1,2) by (simp add: balloc_def ext2fs_free_block_def)
qed

theorem balloc_full_overruns_witness:
  "balloc 1 (sample0\<lparr>disk := disk_with_map (replicate BSIZE 255), sb := blank_sb\<lparr>s_blocks_per_group := 8192\<rparr>\<rparr>) =
     Panic ''ext2fs_free_block: past the bitmap''"
proof -
  let ?s = "sample0\<lparr>disk := disk_with_map (replicate BSIZE 255), sb := blank_sb\<lparr>s_blocks_per_group := 8192\<rparr>\<rparr>"
  have v: "cache_ok 1 {} ?s" "view 1 ?s = disk_with_map (replicate BSIZE 255)"
    using fresh_cache [of ?s 0 1] disk_with_map_length [of "replicate BSIZE 255"] by (simp_all add: sample0_def)
  have "used_bit (disk_with_map (replicate BSIZE 255) 3) j" if "j < 8 * BSIZE" for j
  proof -
    have "(255 :: u8) = -1" by simp
    then have "bit (255 :: u8) (7 - j mod 8)" by (simp only: bit_minus_1_iff) simp
    moreover have "j div 8 < BSIZE" using that by simp
    ultimately show ?thesis by (simp add: used_bit_def disk_with_map_def)
  qed
  then show ?thesis
    using balloc_full_overruns [OF v(1)] v(2) by (simp add: disk_with_map_group BSIZE_def)
qed

end
