(* ===== verification/Fs_Inode_Props.thy ===== *)
theory Fs_Inode_Props
  imports Fs_Block_Props
begin

text \<open>
  Inodes: the table of inodes in memory, the format on disk, what iupdate() stores and ilock() reads
  back, and the inodes that ialloc() initialises.
\<close>

section \<open>The inode table\<close>

text \<open>Reference counts are not negative, and no two entries in use are for the same inode.\<close>

definition itable_ok :: "(nat \<Rightarrow> inode) \<Rightarrow> bool" where
  "itable_ok f \<longleftrightarrow> (\<forall>i<NINODE. 0 \<le> i_ref (f i)) \<and>
     (\<forall>i<NINODE. \<forall>j<NINODE. 0 < i_ref (f i) \<and> 0 < i_ref (f j) \<and> i_dev (f i) = i_dev (f j) \<and> i_inum (f i) = i_inum (f j) \<longrightarrow> i = j)"

definition holds_inode :: "(nat \<Rightarrow> inode) \<Rightarrow> u32 \<Rightarrow> u32 \<Rightarrow> nat \<Rightarrow> bool" where
  "holds_inode f dev inum ip \<longleftrightarrow> 0 < i_ref (f ip) \<and> i_dev (f ip) = dev \<and> i_inum (f ip) = inum"

lemma iget_scan_spec:
  "iget_scan dev inum ips u f =
     (case List.find (holds_inode f dev inum) ips of
        Some ip \<Rightarrow> (Some ip, case u of Some e \<Rightarrow> Some e
            | None \<Rightarrow> List.find (\<lambda>i. i_ref (f i) = 0) (takeWhile (\<lambda>i. \<not> holds_inode f dev inum i) ips))
      | None \<Rightarrow> (None, case u of Some e \<Rightarrow> Some e | None \<Rightarrow> List.find (\<lambda>i. i_ref (f i) = 0) ips))"
  by (induction ips arbitrary: u) (auto simp: holds_inode_def split: option.splits)

lemma itable_ok_ref:
  assumes "itable_ok f" and "0 < i_ref (f ip)" and "0 \<le> n"
  shows "itable_ok (f(ip := (f ip)\<lparr>i_ref := n\<rparr>))"
proof -
  let ?g = "f(ip := (f ip)\<lparr>i_ref := n\<rparr>)"
  have k: "i_dev (?g i) = i_dev (f i)" "i_inum (?g i) = i_inum (f i)" "0 < i_ref (?g i) \<Longrightarrow> 0 < i_ref (f i)" for i
    using assms(2) by (auto split: if_splits)
  have "i = j" if "i < NINODE" "j < NINODE" "0 < i_ref (?g i)" "0 < i_ref (?g j)" "i_dev (?g i) = i_dev (?g j)"
      "i_inum (?g i) = i_inum (?g j)" for i j
    using assms(1) that(1,2) k(3) [OF that(3)] k(3) [OF that(4)] that(5,6) unfolding k itable_ok_def by blast
  moreover have "0 \<le> i_ref (?g i)" if "i < NINODE" for i using that assms(1,3) by (simp add: itable_ok_def)
  ultimately show ?thesis unfolding itable_ok_def by blast
qed

lemma itable_ok_new:
  assumes "itable_ok f" and "\<And>i. i < NINODE \<Longrightarrow> \<not> holds_inode f dev inum i" and "i_dev k = dev" "i_inum k = inum" "0 \<le> i_ref k"
  shows "itable_ok (f(ip := k))"
  unfolding itable_ok_def
proof (intro conjI allI impI)
  fix i assume "i < NINODE"
  then show "0 \<le> i_ref ((f(ip := k)) i)" using assms(1,5) by (simp add: itable_ok_def)
next
  fix i j assume a: "i < NINODE" "j < NINODE"
    "0 < i_ref ((f(ip := k)) i) \<and> 0 < i_ref ((f(ip := k)) j) \<and> i_dev ((f(ip := k)) i) = i_dev ((f(ip := k)) j) \<and>
     i_inum ((f(ip := k)) i) = i_inum ((f(ip := k)) j)"
  then have "holds_inode f dev inum j" if "i = ip" "j \<noteq> ip" using that assms(3,4) by (simp add: holds_inode_def)
  moreover have "holds_inode f dev inum i" if "j = ip" "i \<noteq> ip" using that a(3) assms(3,4) by (simp add: holds_inode_def)
  moreover have "i = j" if "i \<noteq> ip" "j \<noteq> ip" using that a assms(1) by (simp add: itable_ok_def)
  ultimately show "i = j" using assms(2) a(1,2) by blast
qed

section \<open>Properties of the table\<close>

text \<open>
  C29: iget() never makes a second copy of an inode. When two entries of the inode table in use are always
  for different inodes, this is so after iget(); the entry it returns is for the inode asked for and
  every other entry is unchanged. An inode that is in the table keeps its entry, with one reference
  more; otherwise the entry is the first free one, not valid, with one reference; and when there is
  neither, iget() panics.
\<close>

theorem iget_unique:
  fixes s :: "'z fs_scheme"
  assumes "itable_ok (itable s)"
  shows "case List.find (holds_inode (itable s) dev inum) [0..<NINODE] of
      Some ip \<Rightarrow> iget dev inum s = Ok ip (upd_inode ip (\<lambda>k. k\<lparr>i_ref := i_ref k + 1\<rparr>) s) \<and>
        itable_ok (itable (upd_inode ip (\<lambda>k. k\<lparr>i_ref := i_ref k + 1\<rparr>) s))
    | None \<Rightarrow>
        (case List.find (\<lambda>i. i_ref (itable s i) = 0) [0..<NINODE] of
           None \<Rightarrow> iget dev inum s = Panic ''iget: no inodes''
         | Some ip \<Rightarrow> \<exists>t. iget dev inum s = Ok ip t \<and> itable_ok (itable t) \<and>
             t = upd_inode ip (\<lambda>k. k\<lparr>i_dev := dev, i_inum := inum, i_ref := 1, i_valid := False\<rparr>) s)"
proof (cases "List.find (holds_inode (itable s) dev inum) [0..<NINODE]")
  case (Some ip)
  then have "holds_inode (itable s) dev inum ip" using find_SomeD by fastforce
  then have "itable_ok (itable (upd_inode ip (\<lambda>k. k\<lparr>i_ref := i_ref k + 1\<rparr>) s))"
    using itable_ok_ref [OF assms, of ip] by (simp add: holds_inode_def)
  then show ?thesis using Some by (simp add: iget_def iget_scan_spec)
next
  case None
  then have n: "\<not> holds_inode (itable s) dev inum i" if "i < NINODE" for i
    using that by (auto simp: find_None_iff)
  show ?thesis
  proof (cases "List.find (\<lambda>i. i_ref (itable s i) = 0) [0..<NINODE]")
    case None2: None
    then show ?thesis using None by (simp add: iget_def iget_scan_spec)
  next
    case (Some ip)
    have "itable_ok (itable (upd_inode ip (\<lambda>k. k\<lparr>i_dev := dev, i_inum := inum, i_ref := 1, i_valid := False\<rparr>) s))"
      using itable_ok_new [OF assms n] by simp
    then show ?thesis using Some None by (simp add: iget_def iget_scan_spec)
  qed
qed

theorem iget_unique_witness:
  "\<exists>t u. iget 1 2 sample0 = Ok 0 t \<and> iget 1 2 t = Ok 0 u \<and> i_ref (itable u 0) = 2"
proof -
  have ok: "itable_ok (itable sample0)" by (simp add: itable_ok_def sample0_def blank_inode_def)
  have "List.find (holds_inode (itable sample0) 1 2) [0..<NINODE] = None"
    "List.find (\<lambda>i. i_ref (itable sample0 i) = 0) [0..<NINODE] = Some 0"
    by (simp_all add: find_None_iff holds_inode_def sample0_def blank_inode_def NINODE_def upt_conv_Cons)
  then obtain t where t: "iget 1 2 sample0 = Ok 0 t" "itable_ok (itable t)"
    "t = upd_inode 0 (\<lambda>k. k\<lparr>i_dev := 1, i_inum := 2, i_ref := 1, i_valid := False\<rparr>) sample0"
    using iget_unique [OF ok, of 1 2] by auto
  have "List.find (holds_inode (itable t) 1 2) [0..<NINODE] = Some 0"
    by (simp add: t(3) holds_inode_def NINODE_def upt_conv_Cons)
  then show ?thesis using t(1) iget_unique [OF t(2), of 1 2] by (auto simp: t(3))
qed

section \<open>The format on disk\<close>

lemma word_at_append: "length xs \<le> off \<Longrightarrow> word_at (xs @ ys) off = word_at ys (off - length xs)"
  by (simp add: word_at_def)

lemma half_at_append: "length xs \<le> off \<Longrightarrow> half_at (xs @ ys) off = half_at ys (off - length xs)"
  by (simp add: half_at_def)

lemma word_at_0: "word_at (le_bytes 4 w @ ys) 0 = w" "word_at (le_bytes 4 w) 0 = w"
  by (simp_all add: word_at_def le_word_bytes)

lemma half_at_0: "half_at (le_bytes 2 w @ ys) 0 = w"
  by (simp add: half_at_def le_word_bytes)

lemmas field_simps_at = word_at_append half_at_append word_at_0 half_at_0

lemma word_at_prefix: "off + 4 \<le> length xs \<Longrightarrow> word_at (xs @ ys) off = word_at xs off"
  by (simp add: word_at_def)

lemma half_at_prefix: "off + 2 \<le> length xs \<Longrightarrow> half_at (xs @ ys) off = half_at xs off"
  by (simp add: half_at_def)

lemma length_words [simp]: "length (concat (map (le_bytes n) ws)) = n * length ws"
  by (induction ws) simp_all

lemma word_at_words: "i < length ws \<Longrightarrow> word_at (concat (map (le_bytes 4) ws)) (4 * i) = ws ! i"
proof (induction ws arbitrary: i)
  case (Cons w ws)
  then show ?case by (cases i) (simp_all add: field_simps_at)
qed simp

text \<open>The three parts of the bytes of an inode: before, in and after the array of block numbers.\<close>

definition dinode_head :: "ext2_dinode \<Rightarrow> u8 list" where
  "dinode_head d = le_bytes 2 (d_mode d) @ le_bytes 2 (d_uid d) @ le_bytes 4 (d_size d) @ le_bytes 4 (d_atime d) @
     le_bytes 4 (d_ctime d) @ le_bytes 4 (d_mtime d) @ le_bytes 4 (d_dtime d) @ le_bytes 2 (d_gid d) @
     le_bytes 2 (d_links_count d) @ le_bytes 4 (d_blocks d) @ le_bytes 4 (d_flags d) @ le_bytes 4 (d_osd1 d)"

definition dinode_tail :: "ext2_dinode \<Rightarrow> u8 list" where
  "dinode_tail d = le_bytes 4 (d_generation d) @ le_bytes 4 (d_file_acl d) @ le_bytes 4 (d_dir_acl d) @ le_bytes 4 (d_faddr d)"

lemma dinode_parts:
  "dinode_bytes d = dinode_head d @ concat (map (le_bytes 4) (d_block d)) @ dinode_tail d"
  "length (dinode_head d) = 40" "length (dinode_tail d) = 16"
  by (simp_all add: dinode_bytes_def dinode_head_def dinode_tail_def)

lemma head_fields:
  "half_at (dinode_head d) 0 = d_mode d" "half_at (dinode_head d) 2 = d_uid d" "word_at (dinode_head d) 4 = d_size d"
  "word_at (dinode_head d) 8 = d_atime d" "word_at (dinode_head d) 12 = d_ctime d" "word_at (dinode_head d) 16 = d_mtime d"
  "word_at (dinode_head d) 20 = d_dtime d" "half_at (dinode_head d) 24 = d_gid d" "half_at (dinode_head d) 26 = d_links_count d"
  "word_at (dinode_head d) 28 = d_blocks d" "word_at (dinode_head d) 32 = d_flags d" "word_at (dinode_head d) 36 = d_osd1 d"
  by (simp_all add: dinode_head_def field_simps_at)

lemma tail_fields:
  "word_at (dinode_tail d) 0 = d_generation d" "word_at (dinode_tail d) 4 = d_file_acl d"
  "word_at (dinode_tail d) 8 = d_dir_acl d" "word_at (dinode_tail d) 12 = d_faddr d"
  by (simp_all add: dinode_tail_def field_simps_at)

lemma dinode_roundtrip:
  assumes "length (d_block d) = EXT2_N_BLOCKS"
  shows "dinode_of (dinode_bytes d) = d" "length (dinode_bytes d) = DINODE_SIZE"
proof -
  have l: "length (concat (map (le_bytes 4) (d_block d))) = 60" using assms by (simp add: EXT2_N_BLOCKS_def)
  then show "length (dinode_bytes d) = DINODE_SIZE" by (simp add: dinode_parts DINODE_SIZE_def)
  have b: "map (\<lambda>i. word_at (dinode_bytes d) (40 + 4 * i)) [0..<EXT2_N_BLOCKS] = d_block d"
  proof (rule nth_equalityI)
    fix i assume "i < length (map (\<lambda>i. word_at (dinode_bytes d) (40 + 4 * i)) [0..<EXT2_N_BLOCKS])"
    then have i: "i < EXT2_N_BLOCKS" by simp
    then have "4 * i + 4 \<le> 60" by (simp add: EXT2_N_BLOCKS_def)
    then show "map (\<lambda>i. word_at (dinode_bytes d) (40 + 4 * i)) [0..<EXT2_N_BLOCKS] ! i = d_block d ! i"
      using i assms l by (simp add: dinode_parts word_at_append word_at_prefix word_at_words)
  qed (simp add: assms)
  have h: "off + 4 \<le> 40 \<Longrightarrow> word_at (dinode_bytes d) off = word_at (dinode_head d) off"
    "off + 2 \<le> 40 \<Longrightarrow> half_at (dinode_bytes d) off = half_at (dinode_head d) off"
    "100 \<le> off \<Longrightarrow> word_at (dinode_bytes d) off = word_at (dinode_tail d) (off - 100)" for off
    using l by (simp_all add: dinode_parts word_at_prefix half_at_prefix word_at_append)
  show "dinode_of (dinode_bytes d) = d"
    unfolding dinode_of_def b by (simp add: h head_fields tail_fields)
qed

text \<open>Records of INODESIZE bytes in a block.\<close>

lemma length_put_bytes: "off + length bs \<le> length xs \<Longrightarrow> length (put_bytes off bs xs) = length xs"
  by (simp add: put_bytes_def)

lemma take_drop_put:
  "off + length bs \<le> length xs \<Longrightarrow> take (length bs) (drop off (put_bytes off bs xs)) = bs"
  by (simp add: put_bytes_def)

lemma nth_put_bytes:
  "off + length bs \<le> length xs \<Longrightarrow> i < length xs \<Longrightarrow>
     put_bytes off bs xs ! i = (if off \<le> i \<and> i < off + length bs then bs ! (i - off) else xs ! i)"
  by (auto simp: put_bytes_def nth_append)

lemma take_drop_put_other:
  assumes "off + length bs \<le> length xs" and "o' + n \<le> off \<or> off + length bs \<le> o'" and "o' + n \<le> length xs"
  shows "take n (drop o' (put_bytes off bs xs)) = take n (drop o' xs)"
  using assms by (intro nth_equalityI) (auto simp: length_put_bytes nth_put_bytes)

lemma length_d_block [simp]: "length (d_block (dinode_at i xs)) = EXT2_N_BLOCKS"
  by (simp add: dinode_at_def dinode_of_def)

lemma slot_bound: "i < 8 \<Longrightarrow> i * INODESIZE + DINODE_SIZE \<le> BSIZE"
  by (simp add: INODESIZE_def DINODE_SIZE_def BSIZE_def)

lemma dinode_at_put:
  assumes "length xs = BSIZE" and "i < 8" and "j < 8" and "length (d_block d) = EXT2_N_BLOCKS"
  shows "dinode_at j (put_bytes (i * INODESIZE) (dinode_bytes d) xs) = (if j = i then d else dinode_at j xs)"
proof -
  note R = dinode_roundtrip [OF assms(4)]
  have b: "i * INODESIZE + length (dinode_bytes d) \<le> length xs" "j * INODESIZE + DINODE_SIZE \<le> length xs"
    using slot_bound assms R(2) by simp_all
  show ?thesis
  proof (cases "j = i")
    case True
    then show ?thesis using take_drop_put [OF b(1)] R by (simp add: dinode_at_def)
  next
    case False
    then have "j * INODESIZE + DINODE_SIZE \<le> i * INODESIZE \<or> i * INODESIZE + length (dinode_bytes d) \<le> j * INODESIZE"
      using R(2) by (simp add: INODESIZE_def DINODE_SIZE_def) arith
    from take_drop_put_other [OF b(1) this b(2)] show ?thesis using False by (simp add: dinode_at_def)
  qed
qed

lemma length_d_block_update:
  "length (i_addrs k) = EXT2_N_BLOCKS \<Longrightarrow> length (d_block d) = EXT2_N_BLOCKS \<Longrightarrow> length (d_block (dinode_update k d)) = EXT2_N_BLOCKS"
  by (simp add: dinode_update_def Let_def EXT2_N_BLOCKS_def)

section \<open>Writing back and locking\<close>

text \<open>Where an inode is on the disk.\<close>

abbreviation inode_block :: "u32 \<Rightarrow> 'z bio_scheme \<Rightarrow> u32 \<Rightarrow> u32" where
  "inode_block d s inum \<equiv> inode_table (group_desc_of (view d s 2)) + (inum - 1) div 8"

abbreviation inode_slot :: "u32 \<Rightarrow> nat" where
  "inode_slot inum \<equiv> unat ((inum - 1) mod 8)"

lemma inode_slot_less: "inode_slot inum < 8"
proof -
  have "(inum - 1) mod 8 < (8 :: u32)" by (rule word_mod_less_divisor) simp
  then show ?thesis by (simp add: word_less_nat_alt)
qed

lemma cache_ok_itable [simp]:
  "cache_ok d H (s\<lparr>itable := f\<rparr>) = cache_ok d H s" "view d (s\<lparr>itable := f\<rparr>) = view d s"
proof -
  have "cached d n (s\<lparr>itable := f\<rparr>) = cached d n s" for n by (simp add: cached_def fun_eq_iff)
  then show "view d (s\<lparr>itable := f\<rparr>) = view d s" by (intro ext) (simp add: view_def split: option.split)
qed (simp add: cache_ok_def key_unique_def)

lemma iupdate_ok:
  fixes s :: "'z fs_scheme"
  assumes ok: "cache_ok d {} s" and k: "i_dev (itable s ip) = d" "length (i_addrs (itable s ip)) = EXT2_N_BLOCKS"
    and x: "x = put_bytes (inode_slot inum * INODESIZE) (dinode_bytes (dinode_update (itable s ip)
        (dinode_at (inode_slot inum) (view d s (inode_block d s inum))))) (view d s (inode_block d s inum))"
    and n: "inum = i_inum (itable s ip)"
  shows "\<exists>t. iupdate ip s = Ok () t \<and> cache_ok d {} t \<and> view d t = (view d s)(inode_block d s inum := x) \<and> bio_frame s t"
proof -
  let ?n = "inode_block d s inum"
  obtain s1 where s1: "read_group d s = Ok (group_desc_of (view d s 2)) s1" "cache_ok d {} s1" "view d s1 = view d s" "bio_frame s s1"
    using read_group_ok [OF ok] by blast
  have "length x = BSIZE"
    unfolding x using slot_bound [OF inode_slot_less] dinode_roundtrip(2) [OF length_d_block_update [OF k(2) length_d_block]]
      bcache.blk_length [OF ok, of ?n] by (simp add: length_put_bytes)
  then obtain b s2 s3 s4 where s2: "bread d ?n s1 = Ok b s2" "b_data (bufs s2 b) = view d s ?n"
    "bwrite b (set_data b x s2) = Ok () s3" "brelse b s3 = Ok () s4" "cache_ok d {} s4" "view d s4 = (view d s)(?n := x)" "bio_frame s1 s4"
    using bcache.read_modify_write [OF s1(2), of ?n x] s1(3) by (auto simp: NBUF_def)
  have fr: "bio_frame s s4" using bio_frame_trans [OF s1(4) s2(7)] .
  note F = frame_fs(3) [OF s1(4)]
  show ?thesis
    using s1(1) s2(1-6) fr k n F by (intro exI [of _ s4]) (simp add: iupdate_def Let_def x)
qed

lemma sdiv_pos: "0 \<le> (x :: int) \<Longrightarrow> x sdiv 8 = x div 8 \<and> x smod 8 = x mod 8"
  by (simp add: signed_divide_int_def signed_modulo_int_def sgn_if)

lemma ilock_loads:
  fixes s :: "'z fs_scheme"
  assumes ok: "cache_ok d {} s" and k: "i_dev (itable s ip) = d" "1 \<le> i_ref (itable s ip)" "\<not> sl_locked (i_lock (itable s ip))"
      "\<not> i_valid (itable s ip)"
    and n: "inum = i_inum (itable s ip)" "unat (inum - 1) < 2 ^ 31" and p: "myproc s = Some p"
  shows "\<exists>t. ilock (Some ip) s = Ok () t \<and> cache_ok d {} t \<and> view d t = view d s \<and>
    itable t = (itable s)(ip := inode_load (dinode_at (inode_slot inum) (view d s (inode_block d s inum)))
      ((itable s ip)\<lparr>i_lock := \<lparr>sl_locked = True, sl_pid = p_pid (procs s p)\<rparr>\<rparr>))"
proof -
  let ?n = "inode_block d s inum" and ?l = "\<lparr>sl_locked = True, sl_pid = p_pid (procs s p)\<rparr>"
  let ?s = "upd_inode_lock ip (\<lambda>_. ?l) s"
  have a: "acquiresleep (ChanInodeLock ip) (inode_lock ip) (upd_inode_lock ip) s = Ok () ?s"
    using k(3) p by (simp add: acquiresleep_def with_proc_def)
  have ok1: "cache_ok d {} ?s" "view d ?s = view d s" using ok by simp_all
  obtain s1 where s1: "read_group d ?s = Ok (group_desc_of (view d s 2)) s1" "cache_ok d {} s1" "view d s1 = view d s" "bio_frame ?s s1"
    using read_group_ok [OF ok1(1)] ok1(2) by auto
  have si: "sint (inum - 1) = int (unat (inum - 1))"
    using n(2) sint_cases [of "inum - 1"] by (simp add: not_le del: of_nat_unat)
  have "(of_int (int (unat (inum - 1)) div 8) :: u32) = of_nat (unat (inum - 1) div 8)"
    by (simp only: zdiv_int [symmetric, of _ 8, simplified] of_int_of_nat_eq)
  also have "\<dots> = (inum - 1) div 8"
    using n(2) by (simp add: word_unat_eq_iff unat_div_distrib unat_of_nat_small)
  finally have o: "of_int (sint (inum - 1) sdiv 8) = (inum - 1) div 8" "sint (inum - 1) smod 8 = int (inode_slot inum)"
    using sdiv_pos [of "int (unat (inum - 1))"] by (simp_all add: si unat_mod_distrib zmod_int)
  obtain b s2 s3 where s2: "bread d ?n s1 = Ok b s2" "b_data (bufs s2 b) = view d s ?n" "brelse b s2 = Ok () s3"
    "cache_ok d {} s3" "view d s3 = view d s" "bio_frame s1 s3"
    using bcache.read_release [OF s1(2), of ?n] s1(3) by (auto simp: NBUF_def)
  have it: "itable s1 = itable ?s" "itable s3 = itable ?s" using frame_fs(3) [OF s1(4)] frame_fs(3) [OF s2(6)] by simp_all
  have ty: "i_type (inode_load din q) \<noteq> 0" for din q by (simp add: inode_load_def T_DIR_def T_FILE_def)
  show ?thesis
    using a s1(1) s2(1-5) it k n(1) o ty by (simp add: ilock_def Let_def)
qed

text \<open>
  C38: iupdate() loses all but the first two block numbers of a file. After iupdate(), an ilock() that reads
  the inode back (the entry being neither valid nor locked) restores the link count, the size and the
  type, and clears the device numbers; of the 15 block numbers it restores the first two, and the others
  are the ones that were on the disk before iupdate(). The other seven inodes of the block, and all
  other blocks, are unchanged by iupdate().
\<close>

theorem iupdate_ilock_partial:
  fixes s :: "'z fs_scheme"
  assumes ok: "cache_ok d {} s" and k: "k = itable s ip" "i_dev k = d" "1 \<le> i_ref k" "\<not> sl_locked (i_lock k)"
      "length (i_addrs k) = EXT2_N_BLOCKS" "i_type k = T_DIR \<or> i_type k = T_FILE"
    and n: "inum = i_inum k" "unat (inum - 1) < 2 ^ 31" and g: "inode_block d s inum \<noteq> 2"
    and old: "old = dinode_at (inode_slot inum) (view d s (inode_block d s inum))"
  shows "\<exists>t u. iupdate ip s = Ok () t \<and>
    (\<forall>b. b \<noteq> inode_block d s inum \<longrightarrow> view d t b = view d s b) \<and>
    (\<forall>j<8. j \<noteq> inode_slot inum \<longrightarrow> dinode_at j (view d t (inode_block d s inum)) = dinode_at j (view d s (inode_block d s inum))) \<and>
    ilock (Some ip) (upd_inode ip (\<lambda>q. q\<lparr>i_valid := False\<rparr>) t) = Ok () u \<and>
    itable u ip = k\<lparr>i_lock := i_lock (itable u ip), i_valid := True, i_major := 0, i_minor := 0,
      i_addrs := take 2 (i_addrs k) @ drop 2 (d_block old)\<rparr>"
proof -
  let ?n = "inode_block d s inum" and ?j = "inode_slot inum"
  define din where "din = dinode_update k old"
  have ld: "length (d_block din) = EXT2_N_BLOCKS" unfolding din_def old by (rule length_d_block_update [OF k(5) length_d_block])
  obtain t where t: "iupdate ip s = Ok () t" "cache_ok d {} t"
    "view d t = (view d s)(?n := put_bytes (?j * INODESIZE) (dinode_bytes din) (view d s ?n))" "bio_frame s t"
    using iupdate_ok [OF ok, of ip] k n unfolding din_def old by blast
  have v: "dinode_at j (view d t ?n) = (if j = ?j then din else dinode_at j (view d s ?n))" if "j < 8" for j
    using dinode_at_put [OF bcache.blk_length [OF ok] inode_slot_less that ld] t(3) by simp
  let ?t = "upd_inode ip (\<lambda>q. q\<lparr>i_valid := False\<rparr>) t"
  have it: "itable t = itable s" and v2: "view d t 2 = view d s 2" using frame_fs(3) [OF t(4)] t(3) g by simp_all
  obtain p where p: "myproc ?t = Some p" using cache_okD(5) [OF t(2)] by auto
  have "cache_ok d {} ?t" using t(2) by simp
  from ilock_loads [OF this, of ip inum p] obtain u l where u: "ilock (Some ip) ?t = Ok () u"
    "itable u ip = inode_load (dinode_at ?j (view d t ?n)) (k\<lparr>i_valid := False, i_lock := l\<rparr>)"
    using k n p it v2 by auto
  have m: "inode_load din q = q\<lparr>i_type := i_type k, i_major := 0, i_minor := 0, i_nlink := i_nlink k, i_size := i_size k,
      i_addrs := take 2 (i_addrs k) @ drop 2 (d_block old), i_valid := True\<rparr>" for q
    using k(6) by (auto simp: din_def inode_load_def dinode_update_def Let_def GET_FILE_MODE_def EXT2_T_DIR_def EXT2_T_FILE_def
        EXT2_FILE_MODE_MASK_def T_DIR_def T_FILE_def)
  have "itable u ip = k\<lparr>i_lock := i_lock (itable u ip), i_valid := True, i_major := 0, i_minor := 0,
      i_addrs := take 2 (i_addrs k) @ drop 2 (d_block old)\<rparr>"
    using u(2) unfolding v [OF inode_slot_less] by (simp add: m)
  then show ?thesis using t(1,3) u(1) v by (intro exI [of _ t] exI [of _ u]) simp
qed

lemma le_word_zeros [simp]: "le_word (replicate n 0) = 0"
  by (induction n) simp_all

lemma dinode_at_zero: "d_block (dinode_at j (replicate n 0)) = replicate EXT2_N_BLOCKS 0"
  by (simp add: dinode_at_def dinode_of_def word_at_def map_replicate_const)

theorem iupdate_ilock_partial_witness:
  "\<exists>s t u. s = sample0\<lparr>disk := disk_with_map [0xC0], itable := (\<lambda>_. blank_inode\<lparr>i_dev := 1, i_inum := 3, i_ref := 1, i_type := T_FILE,
       i_size := 9000, i_addrs := [20, 21, 22, 23, 24, 25, 26, 27, 28, 0, 0, 0, 0, 0, 0]\<rparr>)\<rparr> \<and>
     iupdate 0 s = Ok () t \<and> ilock (Some 0) (upd_inode 0 (\<lambda>q. q\<lparr>i_valid := False\<rparr>) t) = Ok () u \<and>
     i_size (itable u 0) = 9000 \<and> i_addrs (itable u 0) = [20, 21, 0, 0, 0, 0, 0, 0, 0, 0, 0, 0, 0, 0, 0]"
proof -
  let ?k = "blank_inode\<lparr>i_dev := 1, i_inum := 3, i_ref := 1, i_type := T_FILE, i_size := 9000,
    i_addrs := [20, 21, 22, 23, 24, 25, 26, 27, 28, 0, 0, 0, 0, 0, 0]\<rparr>"
  let ?s = "sample0\<lparr>disk := disk_with_map [0xC0], itable := (\<lambda>_. ?k)\<rparr>"
  let ?s' = "sample0\<lparr>disk := disk_with_map [0xC0]\<rparr>"
  have v: "cache_ok 1 {} ?s'" "view 1 ?s' = disk_with_map [0xC0]"
    using fresh_cache [of ?s' 0 1] disk_with_map_length [of "[0xC0]"] by (simp_all add: BSIZE_def sample0_def)
  then have v1: "cache_ok 1 {} ?s" by simp
  have g: "disk_with_map [0xC0] 5 = replicate BSIZE 0" by (simp add: disk_with_map_def)
  have h: "i_dev ?k = 1" "1 \<le> i_ref ?k" "\<not> sl_locked (i_lock ?k)" "length (i_addrs ?k) = EXT2_N_BLOCKS" "i_type ?k = T_FILE"
    "i_inum ?k = 3" "itable ?s 0 = ?k" "inode_block 1 ?s 3 = 5" "inode_slot 3 = 2" "view 1 ?s 5 = replicate BSIZE 0"
    by (simp_all add: blank_inode_def unlocked_def EXT2_N_BLOCKS_def v(2) disk_with_map_group g)
  obtain t u where r: "iupdate 0 ?s = Ok () t" "ilock (Some 0) (upd_inode 0 (\<lambda>q. q\<lparr>i_valid := False\<rparr>) t) = Ok () u"
    "itable u 0 = ?k\<lparr>i_lock := i_lock (itable u 0), i_valid := True, i_major := 0, i_minor := 0,
      i_addrs := take 2 (i_addrs ?k) @ drop 2 (replicate EXT2_N_BLOCKS 0)\<rparr>"
    using iupdate_ilock_partial [OF v1 h(7) [symmetric] h(1-4) disjI2 [OF h(5)] h(6) [symmetric] _ _ refl]
    unfolding h dinode_at_zero by auto
  from arg_cong [OF r(3), of i_size] arg_cong [OF r(3), of i_addrs]
  have "i_size (itable u 0) = 9000" "i_addrs (itable u 0) = [20, 21, 0, 0, 0, 0, 0, 0, 0, 0, 0, 0, 0, 0, 0]"
    by (simp_all add: EXT2_N_BLOCKS_def numeral_eq_Suc)
  then show ?thesis using r(1,2) by blast
qed

section \<open>Allocating an inode\<close>

lemma word_at_put_in:
  "off + length bs \<le> length xs \<Longrightarrow> off \<le> o' \<Longrightarrow> o' + 4 \<le> off + length bs \<Longrightarrow> word_at (put_bytes off bs xs) o' = word_at bs (o' - off)"
  by (simp add: word_at_def put_bytes_def)

lemma half_at_put_in:
  "off + length bs \<le> length xs \<Longrightarrow> off \<le> o' \<Longrightarrow> o' + 2 \<le> off + length bs \<Longrightarrow> half_at (put_bytes off bs xs) o' = half_at bs (o' - off)"
  by (simp add: half_at_def put_bytes_def)

lemma word_at_put_out:
  "off + length bs \<le> length xs \<Longrightarrow> o' + 4 \<le> off \<Longrightarrow> word_at (put_bytes off bs xs) o' = word_at xs o'"
  by (simp add: word_at_def take_drop_put_other)

lemma put_bytes_twice:
  "length as \<le> length bs \<Longrightarrow> off + length bs \<le> length xs \<Longrightarrow>
     put_bytes off as (put_bytes off bs xs) = put_bytes off (as @ drop (length as) bs) xs"
  by (simp add: put_bytes_def)

lemma dinode_at_fields:
  assumes "j < 8" and "length xs = BSIZE"
  shows "d_mode (dinode_at j xs) = half_at xs (j * INODESIZE)"
    "i < EXT2_N_BLOCKS \<Longrightarrow> d_block (dinode_at j xs) ! i = word_at xs (j * INODESIZE + 40 + 4 * i)"
  using assms
  by (simp_all add: dinode_at_def dinode_of_def half_at_def word_at_def EXT2_N_BLOCKS_def DINODE_SIZE_def take_take drop_take
      ac_simps)

text \<open>The bytes that ialloc() puts in the block for a directory, and where it puts them.\<close>

definition new_dir_bytes :: "u8 list" where
  "new_dir_bytes = le_bytes 2 EXT2_T_DIR @ replicate (DINODE_SIZE - 2) 0"

lemma length_new_dir_bytes [simp]: "length new_dir_bytes = DINODE_SIZE"
  by (simp add: new_dir_bytes_def DINODE_SIZE_def)

lemma new_dir_fields:
  "half_at new_dir_bytes 0 = EXT2_T_DIR" "word_at new_dir_bytes 0 = 0x4000"
  "2 \<le> off \<Longrightarrow> half_at new_dir_bytes off = 0" "2 \<le> off \<Longrightarrow> word_at new_dir_bytes off = 0"
proof -
  show "half_at new_dir_bytes 0 = EXT2_T_DIR" by (simp add: new_dir_bytes_def half_at_0)
  have "le_bytes 2 EXT2_T_DIR = [0, 0x40]" by (simp add: le_bytes_def byte_at_def EXT2_T_DIR_def upt_conv_Cons)
  moreover have "le_word (0 # 0x40 # replicate 2 0) = (0x4000 :: u32)" by (simp only: le_word.simps le_word_zeros) simp
  ultimately show "word_at new_dir_bytes 0 = 0x4000" by (simp add: new_dir_bytes_def word_at_def DINODE_SIZE_def)
qed (simp_all add: new_dir_bytes_def half_at_def word_at_def)

lemma ialloc_dir_ok:
  fixes s :: "'z fs_scheme"
  assumes ok: "cache_ok d {} s" and g: "g = group_desc_of (view d s 2)"
    and f: "ext2fs_free_block (view d s (inode_bitmap g)) s = Found k bm"
    and n: "n = inode_table g + of_nat (k div 8)" "n \<noteq> inode_bitmap g"
  shows "\<exists>t. ialloc d T_DIR s = iget d (of_nat (k + 1)) t \<and> cache_ok d {} t \<and> itable t = itable s \<and>
    view d t = (view d s)(inode_bitmap g := bm, n := put_bytes (k mod 8 * DINODE_SIZE) new_dir_bytes (view d s n))"
proof -
  let ?I = "inode_bitmap g" and ?x = "put_bytes (k mod 8 * DINODE_SIZE) new_dir_bytes (view d s n)"
  have b8: "BSIZE div DINODE_SIZE = 8" by (simp add: BSIZE_def DINODE_SIZE_def)
  have jb: "k mod 8 * DINODE_SIZE + DINODE_SIZE \<le> BSIZE"
  proof -
    have "k mod 8 \<le> 7" using mod_less_divisor [of 8 k] by simp
    then have "k mod 8 * DINODE_SIZE \<le> 7 * DINODE_SIZE" by (rule mult_le_mono1)
    then show ?thesis by (simp add: BSIZE_def DINODE_SIZE_def)
  qed
  obtain s1 where s1: "read_group d s = Ok g s1" "cache_ok d {} s1" "view d s1 = view d s" "disk s1 = disk s" "bio_frame s s1"
    using read_group_ok [OF ok] g by blast
  obtain b2 s2 where s2: "bread d ?I s1 = Ok b2 s2" "cache_ok d {b2} s2" "b_blockno (bufs s2 b2) = ?I"
    "b_data (bufs s2 b2) = view d s ?I" "view d s2 = view d s" "disk s2 = disk s" "bio_frame s1 s2"
    using bcache.rd_ok [OF s1(2), of ?I] s1(3,4) by (auto simp: NBUF_def)
  have fr2: "bio_frame s s2" using bio_frame_trans [OF s1(5) s2(7)] .
  have f2: "ext2fs_free_block (b_data (bufs s2 b2)) s2 = Found k bm"
    using f s2(4) frame_fs(2) [OF fr2] by (simp add: ext2fs_free_block_def)
  have len: "length bm = BSIZE"
    using free_block_from_Found [OF f [unfolded ext2fs_free_block_def]] bcache.blk_length [OF ok, of ?I] by auto
  let ?p = "set_data b2 bm s2"
  have p: "cache_ok d {b2} ?p" "view d ?p = (view d s)(?I := bm)"
    using bcache.put_ok [OF s2(2), of b2 bm] bcache.put_blk [OF s2(2), of b2 bm] len s2(3,5) by simp_all
  obtain b3 s3 where s3: "bread d n ?p = Ok b3 s3" "b3 \<noteq> b2" "cache_ok d {b3, b2} s3" "b_blockno (bufs s3 b3) = n"
    "b_data (bufs s3 b3) = view d s n" "view d s3 = (view d s)(?I := bm)" "disk s3 = disk s"
    "b_blockno (bufs s3 b2) = ?I" "b_data (bufs s3 b2) = bm" "bio_frame ?p s3"
    using bcache.rd_ok [OF p(1), of n] p(2) s2(3,6) n(2) by (auto simp: NBUF_def)
  have lx: "length ?x = BSIZE" using jb bcache.blk_length [OF ok, of n] by (simp add: length_put_bytes)
  let ?q = "set_data b3 ?x s3"
  have q: "cache_ok d {b3, b2} ?q" "view d ?q = (view d s)(?I := bm, n := ?x)"
    using bcache.put_ok [OF s3(3), of b3 ?x] bcache.put_blk [OF s3(3), of b3 ?x] lx s3(4,6) by simp_all
  obtain s4 where s4: "bwrite b3 ?q = Ok () s4" "cache_ok d {b3, b2} s4" "view d s4 = view d ?q" "disk s4 = (disk s)(n := ?x)"
    "b_blockno (bufs s4 b3) = n" "b_data (bufs s4 b3) = ?x" "b_blockno (bufs s4 b2) = ?I" "b_data (bufs s4 b2) = bm" "bio_frame ?q s4"
    using bcache.wr_ok [OF q(1), of b3] s3(2,4,7-9) by (auto simp: fun_eq_iff)
  obtain s5 where s5: "bwrite b2 s4 = Ok () s5" "cache_ok d {b3, b2} s5" "view d s5 = view d ?q" "disk s5 = (disk s)(n := ?x, ?I := bm)"
    "b_blockno (bufs s5 b3) = n" "b_data (bufs s5 b3) = ?x" "b_blockno (bufs s5 b2) = ?I" "b_data (bufs s5 b2) = bm" "bio_frame s4 s5"
    using bcache.wr_ok [OF s4(2), of b2] s4(3-8) by (auto simp: fun_eq_iff)
  obtain s6 where s6: "brelse b3 s5 = Ok () s6" "cache_ok d {b2} s6" "view d s6 = view d ?q" "disk s6 = disk s5"
    "b_blockno (bufs s6 b2) = ?I" "b_data (bufs s6 b2) = bm" "bio_frame s5 s6"
    using bcache.rel_ok [OF s5(2), of b3] s5(3-8) s3(2) n(2) by (auto simp: insert_Diff_if)
  obtain s7 where s7: "brelse b2 s6 = Ok () s7" "cache_ok d {} s7" "view d s7 = view d ?q" "bio_frame s6 s7"
    using bcache.rel_ok [OF s6(2), of b2] s6(3-6) s5(4) by auto
  have "itable s7 = itable s"
    using frame_fs(3) [OF s7(4)] frame_fs(3) [OF s6(7)] frame_fs(3) [OF s5(9)] frame_fs(3) [OF s4(9)] frame_fs(3) [OF s3(10)]
      frame_fs(3) [OF fr2] by simp
  moreover have "put_bytes (k mod 8 * DINODE_SIZE) (le_bytes 2 EXT2_T_DIR)
      (put_bytes (k mod 8 * DINODE_SIZE) (replicate DINODE_SIZE 0) (view d s n)) = ?x"
    using jb bcache.blk_length [OF ok, of n] by (simp add: put_bytes_twice new_dir_bytes_def DINODE_SIZE_def)
  ultimately show ?thesis
    using s1(1) s2(1) f2 s3(1,5) s4(1) s5(1) s6(1) s7(1-3) q(2)
    by (intro exI [of _ s7]) (simp add: ialloc_def Let_def b8 n(1) [symmetric] T_DIR_def T_FILE_def)
qed

text \<open>
  C39: ialloc() initialises the wrong bytes. It takes the inodes of a block to be 116 bytes apart, the size of
  struct ext2_dinode, while ilock() and iupdate() take them to be 128 bytes apart. When it allocates the
  inode with bit \<open>k\<close> for a directory, ilock() will find a directory only if the inode is the first one of
  its block, and a file otherwise; and the block numbers of the inode before it in the block are
  overwritten from number 22 - 3 * (\<open>k\<close> mod 8) on.
\<close>

theorem ialloc_wrong_slot:
  fixes s :: "'z fs_scheme"
  assumes ok: "cache_ok d {} s" and g: "g = group_desc_of (view d s 2)"
    and f: "ext2fs_free_block (view d s (inode_bitmap g)) s = Found k bm"
    and n: "n = inode_table g + of_nat (k div 8)" "n \<noteq> inode_bitmap g" and j: "j = k mod 8"
  shows "\<exists>t. ialloc d T_DIR s = iget d (of_nat (k + 1)) t \<and> itable t = itable s \<and>
    i_type (inode_load (dinode_at j (view d t n)) q) = (if j = 0 then T_DIR else T_FILE) \<and>
    (\<forall>i<EXT2_N_BLOCKS. 0 < j \<longrightarrow> d_block (dinode_at (j - 1) (view d t n)) ! i =
       (if 3 * j + i < 22 then d_block (dinode_at (j - 1) (view d s n)) ! i else if 3 * j + i = 22 then 0x4000 else 0))"
proof -
  let ?x = "put_bytes (j * DINODE_SIZE) new_dir_bytes (view d s n)"
  obtain t where t: "ialloc d T_DIR s = iget d (of_nat (k + 1)) t" "itable t = itable s" "view d t n = ?x"
    using ialloc_dir_ok [OF ok g f n] n(2) j by auto
  have j8: "j < 8" using j by simp
  have l: "length (view d s n) = BSIZE" using bcache.blk_length [OF ok] .
  have b: "j * DINODE_SIZE + length new_dir_bytes \<le> length (view d s n)"
    using j8 l by (simp add: DINODE_SIZE_def BSIZE_def)
  have lx: "length ?x = BSIZE" using b l by (simp add: length_put_bytes)
  have "half_at ?x (j * INODESIZE) = (if j = 0 then EXT2_T_DIR else 0)"
    using half_at_put_in [OF b, of "j * INODESIZE"] j8 by (cases "j = 0") (simp_all add: INODESIZE_def DINODE_SIZE_def new_dir_fields)
  then have ty: "i_type (inode_load (dinode_at j ?x) q) = (if j = 0 then T_DIR else T_FILE)"
    using dinode_at_fields(1) [OF j8 lx]
    by (simp add: inode_load_def GET_FILE_MODE_def EXT2_T_DIR_def EXT2_FILE_MODE_MASK_def T_DIR_def T_FILE_def)
  have "d_block (dinode_at (j - 1) ?x) ! i =
      (if 3 * j + i < 22 then d_block (dinode_at (j - 1) (view d s n)) ! i else if 3 * j + i = 22 then 0x4000 else 0)"
    if i: "i < EXT2_N_BLOCKS" "0 < j" for i
  proof -
    let ?o = "(j - 1) * INODESIZE + 40 + 4 * i"
    have j1: "j - 1 < 8" using j8 by simp
    have o: "?o + 88 = j * DINODE_SIZE + 4 * (3 * j + i)" using i(2) by (cases j) (simp_all add: INODESIZE_def DINODE_SIZE_def)
    have e: "?o + 4 \<le> j * DINODE_SIZE + length new_dir_bytes"
      using i j8 o by (simp add: DINODE_SIZE_def EXT2_N_BLOCKS_def)
    note D = dinode_at_fields(2) [OF j1 lx i(1)] dinode_at_fields(2) [OF j1 l i(1)]
    show ?thesis
    proof (cases "3 * j + i < 22")
      case True
      then have "?o + 4 \<le> j * DINODE_SIZE" using o by simp
      then show ?thesis using word_at_put_out [OF b] D True by simp
    next
      case False
      then have "?o - j * DINODE_SIZE = 4 * (3 * j + i - 22)" "j * DINODE_SIZE \<le> ?o" using o by simp_all
      then show ?thesis using word_at_put_in [OF b _ e] D False
        by (cases "3 * j + i = 22") (simp_all add: new_dir_fields)
    qed
  qed
  then show ?thesis using t ty by (intro exI [of _ t]) simp
qed

theorem ialloc_wrong_slot_witness:
  "\<exists>t. ialloc 1 T_DIR (sample0\<lparr>disk := (disk_with_map [0xC0])(4 := 0xFE # replicate (BSIZE - 1) 0)\<rparr>) = iget 1 8 t \<and>
     i_type (inode_load (dinode_at 7 (view 1 t 5)) blank_inode) = T_FILE \<and> d_block (dinode_at 6 (view 1 t 5)) ! 1 = 0x4000"
proof -
  define D where "D = (disk_with_map [0xC0])(4 := 0xFE # replicate (BSIZE - 1) 0)"
  let ?s = "sample0\<lparr>disk := D\<rparr>"
  have v: "cache_ok 1 {} ?s" "view 1 ?s = D"
    using fresh_cache [of ?s 0 1] disk_with_map_length [of "[0xC0]"] by (simp_all add: BSIZE_def sample0_def D_def)
  have g: "inode_bitmap (group_desc_of (D 2)) = 4" "inode_table (group_desc_of (D 2)) = 5"
    by (simp_all add: D_def disk_with_map_group)
  have "free_bit 0xFE = Some 7" by (simp add: free_bit_def bit_mask_def upt_conv_Cons)
  then have f: "ext2fs_free_block (D 4) ?s = Found 7 (0xFF # replicate (BSIZE - 1) 0)"
    unfolding ext2fs_free_block_def D_def
    by (subst free_block_from.simps) (simp add: sample0_def blank_sb_def bit_mask_def)
  have "\<exists>t. ialloc 1 T_DIR ?s = iget 1 8 t \<and>
     i_type (inode_load (dinode_at 7 (view 1 t 5)) blank_inode) = T_FILE \<and> d_block (dinode_at 6 (view 1 t 5)) ! 1 = 0x4000"
    using ialloc_wrong_slot [OF v(1) refl _ refl _ refl, of 7 "0xFF # replicate (BSIZE - 1) 0" blank_inode] f
    unfolding v(2) g by (auto simp: EXT2_N_BLOCKS_def)
  then show ?thesis by (simp add: D_def)
qed

end
