(* ===== verification/Fs_File_Props.thy ===== *)
theory Fs_File_Props
  imports Fs_Inode_Props
begin

text \<open>
  Files and directories: bmap() against the tree of block numbers that it walks, readi() against the
  bytes of the file, and dirlookup() against the list of directory entries.
\<close>

section \<open>Holding clean buffers\<close>

definition held :: "u32 \<Rightarrow> nat set \<Rightarrow> 'z bio_scheme \<Rightarrow> bool" where
  "held d H s \<longleftrightarrow> cache_ok d H s \<and> (\<forall>i\<in>H. b_data (bufs s i) = disk s (b_blockno (bufs s i)))"

lemma held_empty: "held d {} s = cache_ok d {} s"
  by (simp add: held_def)

lemma held_view: "held d H s \<Longrightarrow> view d s = disk s"
proof
  fix n assume h: "held d H s"
  show "view d s n = disk s n"
  proof (cases "\<exists>i\<in>H. b_blockno (bufs s i) = n")
    case True
    then show ?thesis using h bcache.blk_held [of d H s] by (auto simp: held_def)
  next
    case False
    then show ?thesis using h bcache.blk_stored [of d H s n] by (auto simp: held_def)
  qed
qed

lemma hold:
  assumes "held d H s" and "card H < NBUF" and "\<forall>i\<in>H. b_blockno (bufs s i) \<noteq> n"
  shows "\<exists>b t. bread d n s = Ok b t \<and> b \<notin> H \<and> held d (insert b H) t \<and> b_blockno (bufs t b) = n \<and> b_data (bufs t b) = view d s n \<and>
    view d t = view d s \<and> (\<forall>i\<in>H. b_blockno (bufs t i) = b_blockno (bufs s i) \<and> b_data (bufs t i) = b_data (bufs s i)) \<and> bio_frame s t"
proof -
  obtain b t where r: "bread d n s = Ok b t" "b \<notin> H" "cache_ok d (insert b H) t" "b_blockno (bufs t b) = n"
    "b_data (bufs t b) = view d s n" "view d t = view d s" "disk t = disk s"
    "\<forall>i\<in>H. b_blockno (bufs t i) = b_blockno (bufs s i) \<and> b_data (bufs t i) = b_data (bufs s i)" "bio_frame s t"
    using bcache.rd_ok [of d H s n] assms by (auto simp: held_def)
  have "held d (insert b H) t" using r assms(1) held_view [OF assms(1)] by (auto simp: held_def)
  then show ?thesis using r by blast
qed

lemma release:
  assumes "held d H s" and "b \<in> H"
  shows "\<exists>t. brelse b s = Ok () t \<and> held d (H - {b}) t \<and> view d t = view d s \<and>
    (\<forall>i\<in>H - {b}. b_blockno (bufs t i) = b_blockno (bufs s i) \<and> b_data (bufs t i) = b_data (bufs s i)) \<and> bio_frame s t"
proof -
  obtain t where t: "brelse b s = Ok () t" "cache_ok d (H - {b}) t" "view d t = view d s" "disk t = disk s"
    "\<forall>i\<in>H - {b}. b_blockno (bufs t i) = b_blockno (bufs s i) \<and> b_data (bufs t i) = b_data (bufs s i)" "bio_frame s t"
    using bcache.rel_ok [of d H s b] assms by (auto simp: held_def)
  have "held d (H - {b}) t" using t assms(1) by (auto simp: held_def)
  then show ?thesis using t by blast
qed

section \<open>The blocks of a file\<close>

text \<open>
  The block of number \<open>bn\<close> of a file with the 15 block numbers \<open>a\<close>, on a disk with the blocks \<open>v\<close>: 12 direct
  blocks, then blocks behind one, two and three levels of indirect blocks. \<open>mapped\<close>: all the numbers on
  the way are set, and the indirect blocks of a path are different blocks.
\<close>

definition file_block :: "(u32 \<Rightarrow> u8 list) \<Rightarrow> u32 list \<Rightarrow> nat \<Rightarrow> u32" where
  "file_block v a bn =
     (if bn < 12 then a ! bn
      else if bn < 268 then word_of (v (a ! 12)) (bn - 12)
      else if bn < 268 + 65536 then word_of (v (word_of (v (a ! 13)) ((bn - 268) div 256))) ((bn - 268) mod 256)
      else let b = bn - 65804; m = b mod 65536 in
        word_of (v (word_of (v (word_of (v (a ! 14)) (b div 65536))) (m div 256))) (m mod 256))"

definition mapped :: "(u32 \<Rightarrow> u8 list) \<Rightarrow> u32 list \<Rightarrow> nat \<Rightarrow> bool" where
  "mapped v a bn \<longleftrightarrow> file_block v a bn \<noteq> 0 \<and>
     (if bn < 12 then True
      else if bn < 268 then a ! 12 \<noteq> 0
      else if bn < 268 + 65536 then
        let x = word_of (v (a ! 13)) ((bn - 268) div 256) in a ! 13 \<noteq> 0 \<and> x \<noteq> 0 \<and> x \<noteq> a ! 13
      else let b = bn - 65804; x = word_of (v (a ! 14)) (b div 65536); y = word_of (v x) (b mod 65536 div 256) in
        b < 16777216 \<and> a ! 14 \<noteq> 0 \<and> x \<noteq> 0 \<and> y \<noteq> 0 \<and> distinct [a ! 14, x, y])"

lemma mapped_single: "12 \<le> bn \<Longrightarrow> bn < 268 \<Longrightarrow> mapped v a bn \<longleftrightarrow> file_block v a bn \<noteq> 0 \<and> a ! 12 \<noteq> 0"
  by (simp add: mapped_def)

lemma indirect_slot_set: "word_of (b_data (bufs s bp)) i \<noteq> 0 \<Longrightarrow> indirect_slot d bp i s = Ok (word_of (b_data (bufs s bp)) i) s"
  by (simp add: indirect_slot_def Let_def)

lemma addr_slot_set: "i_addrs (itable s ip) ! i \<noteq> 0 \<Longrightarrow> addr_slot ip i s = Ok (i_addrs (itable s ip) ! i) s"
  by (simp add: addr_slot_def Let_def)

lemmas bmap_consts = EXT2_NDIRECT_def EXT2_NINDIRECT_def EXT2_NDINDIRECT_def EXT2_NTINDIRECT_def

text \<open>The three cases of bmap() with indirect blocks.\<close>

lemma bmap_single:
  fixes s :: "'z fs_scheme"
  assumes ok: "cache_ok d {} s" and k: "i_dev (itable s ip) = d" "a = i_addrs (itable s ip)"
    and n: "12 \<le> unat bno" "unat bno < 268" and z: "a ! 12 \<noteq> 0" "x \<noteq> 0" and x: "x = word_of (view d s (a ! 12)) (unat bno - 12)"
  shows "\<exists>t. bmap ip bno s = Ok x t \<and> cache_ok d {} t \<and> view d t = view d s \<and> bio_frame s t"
proof -
  have h0: "held d {} s" using ok by (simp add: held_def)
  obtain b t where t: "bread d (a ! 12) s = Ok b t" "held d {b} t" "b_data (bufs t b) = view d s (a ! 12)" "view d t = view d s" "bio_frame s t"
    using hold [OF h0, of "a ! 12"] by (auto simp: NBUF_def)
  obtain u where u: "brelse b t = Ok () u" "held d {} u" "view d u = view d s" "bio_frame t u"
    using release [OF t(2), of b] t(4) by auto
  have "bmap ip bno s = then_do (addr_slot ip 12 s) (\<lambda>addr s. then_do (bread d addr s) (\<lambda>bp s.
      then_do (indirect_slot d bp (unat bno - 12) s) (\<lambda>addr s. then_do (brelse bp s) (\<lambda>_ s. Ok addr s))))"
    using n k by (simp add: bmap_def Let_def bmap_consts less_diff_conv2)
  then show ?thesis
    using k z x t u bio_frame_trans [OF t(5) u(4)] addr_slot_set [of s ip 12] indirect_slot_set [of t b "unat bno - 12"]
    by (simp add: held_def)
qed

lemma bmap_double:
  fixes s :: "'z fs_scheme"
  assumes ok: "cache_ok d {} s" and k: "i_dev (itable s ip) = d" "a = i_addrs (itable s ip)"
    and n: "268 \<le> unat bno" "unat bno < 65804" and z: "a ! 13 \<noteq> 0" "x \<noteq> 0" "x \<noteq> a ! 13" "y \<noteq> 0"
    and x: "x = word_of (view d s (a ! 13)) ((unat bno - 268) div 256)"
    and y: "y = word_of (view d s x) ((unat bno - 268) mod 256)"
  shows "\<exists>t. bmap ip bno s = Ok y t \<and> cache_ok d {} t \<and> view d t = view d s \<and> bio_frame s t"
proof -
  have h0: "held d {} s" using ok by (simp add: held_def)
  obtain b t where t: "bread d (a ! 13) s = Ok b t" "held d {b} t" "b_blockno (bufs t b) = a ! 13"
    "b_data (bufs t b) = view d s (a ! 13)" "view d t = view d s" "bio_frame s t"
    using hold [OF h0, of "a ! 13"] by (auto simp: NBUF_def)
  obtain c u where u: "bread d x t = Ok c u" "c \<noteq> b" "held d {c, b} u" "b_data (bufs u c) = view d s x" "view d u = view d s" "bio_frame t u"
    using hold [OF t(2), of x] t(3,5) z(3) by (auto simp: NBUF_def)
  obtain w where w: "brelse b u = Ok () w" "held d {c} w" "view d w = view d s" "bio_frame u w"
    using release [OF u(3), of b] u(2,5) by (auto simp: insert_Diff_if)
  obtain w' where w': "brelse c w = Ok () w'" "held d {} w'" "view d w' = view d s" "bio_frame w w'"
    using release [OF w(2), of c] w(3) by auto
  have "bmap ip bno s = then_do (addr_slot ip 13 s) (\<lambda>addr s. then_do (bread d addr s) (\<lambda>bp s.
      then_do (indirect_slot d bp ((unat bno - 268) div 256) s) (\<lambda>addr s. then_do (bread d addr s) (\<lambda>bp1 s.
      then_do (indirect_slot d bp1 ((unat bno - 268) mod 256) s) (\<lambda>addr s.
      then_do (brelse bp s) (\<lambda>_ s. then_do (brelse bp1 s) (\<lambda>_ s. Ok addr s)))))))"
    using n k by (simp add: bmap_def Let_def bmap_consts less_diff_conv2)
  then show ?thesis
    using k z x y t u w w' bio_frame_trans [OF bio_frame_trans [OF bio_frame_trans [OF t(6) u(6)] w(4)] w'(4)]
      addr_slot_set [of s ip 13] indirect_slot_set [of t b "(unat bno - 268) div 256"] indirect_slot_set [of u c "(unat bno - 268) mod 256"]
    by (simp add: held_def)
qed

lemma bmap_triple:
  fixes s :: "'z fs_scheme"
  assumes ok: "cache_ok d {} s" and k: "i_dev (itable s ip) = d" "a = i_addrs (itable s ip)"
    and n: "65804 \<le> unat bno" "q = unat bno - 65804" "q < 16777216" and z: "a ! 14 \<noteq> 0" "x \<noteq> 0" "y \<noteq> 0" "w \<noteq> 0" "distinct [a ! 14, x, y]"
    and x: "x = word_of (view d s (a ! 14)) (q div 65536)" and y: "y = word_of (view d s x) (q mod 65536 div 256)"
    and w: "w = word_of (view d s y) (q mod 65536 mod 256)"
  shows "\<exists>t. bmap ip bno s = Ok w t \<and> cache_ok d {} t \<and> view d t = view d s \<and> bio_frame s t"
proof -
  have h0: "held d {} s" using ok by (simp add: held_def)
  obtain b t where t: "bread d (a ! 14) s = Ok b t" "held d {b} t" "b_blockno (bufs t b) = a ! 14"
    "b_data (bufs t b) = view d s (a ! 14)" "view d t = view d s" "bio_frame s t"
    using hold [OF h0, of "a ! 14"] by (auto simp: NBUF_def)
  obtain c u where u: "bread d x t = Ok c u" "c \<noteq> b" "held d {c, b} u" "b_blockno (bufs u c) = x" "b_data (bufs u c) = view d s x"
    "view d u = view d s" "b_blockno (bufs u b) = a ! 14" "bio_frame t u"
    using hold [OF t(2), of x] t(3,5) z(5) by (auto simp: NBUF_def)
  have ne: "\<forall>i\<in>{c, b}. b_blockno (bufs u i) \<noteq> y" using u(4,7) z(5) by auto
  obtain e v where v: "bread d y u = Ok e v" "e \<notin> {c, b}" "held d {e, c, b} v" "b_data (bufs v e) = view d s y" "view d v = view d s" "bio_frame u v"
    using hold [OF u(3) _ ne] u(2,6) by (auto simp: NBUF_def)
  obtain v1 where v1: "brelse b v = Ok () v1" "held d {e, c} v1" "view d v1 = view d s" "bio_frame v v1"
    using release [OF v(3), of b] u(2) v(2,5) by (auto simp: insert_Diff_if)
  obtain v2 where v2: "brelse c v1 = Ok () v2" "held d {e} v2" "view d v2 = view d s" "bio_frame v1 v2"
    using release [OF v1(2), of c] v(2) v1(3) by (auto simp: insert_Diff_if)
  obtain v3 where v3: "brelse e v2 = Ok () v3" "held d {} v3" "view d v3 = view d s" "bio_frame v2 v3"
    using release [OF v2(2), of e] v2(3) by auto
  have "bmap ip bno s = then_do (addr_slot ip 14 s) (\<lambda>addr s. then_do (bread d addr s) (\<lambda>bp s.
      then_do (indirect_slot d bp (q div 65536) s) (\<lambda>addr s. then_do (bread d addr s) (\<lambda>bp1 s.
      then_do (indirect_slot d bp1 (q mod 65536 div 256) s) (\<lambda>addr s. then_do (bread d addr s) (\<lambda>bp2 s.
      then_do (indirect_slot d bp2 (q mod 65536 mod 256) s) (\<lambda>addr s.
      then_do (brelse bp s) (\<lambda>_ s. then_do (brelse bp1 s) (\<lambda>_ s. then_do (brelse bp2 s) (\<lambda>_ s. Ok addr s))))))))))"
  proof -
    have "\<not> unat bno < 12" "\<not> unat bno - 12 < 256" "\<not> unat bno - 12 - 256 < 65536" "unat bno - 12 - 256 - 65536 = q" using n by simp_all
    then show ?thesis using n(3) k(1)
      by (simp only: bmap_def Let_def bmap_consts) simp
  qed
  then show ?thesis
    using k z x y w t u v v1 v2 v3
      bio_frame_trans [OF bio_frame_trans [OF bio_frame_trans [OF bio_frame_trans [OF bio_frame_trans [OF t(6) u(8)] v(6)] v1(4)] v2(4)] v3(4)]
      addr_slot_set [of s ip 14] indirect_slot_set [of t b "q div 65536"] indirect_slot_set [of u c "q mod 65536 div 256"]
      indirect_slot_set [of v e "q mod 65536 mod 256"]
    by (simp add: held_def)
qed

lemma bmap_mapped:
  fixes s :: "'z fs_scheme"
  assumes ok: "cache_ok d {} s" and k: "i_dev (itable s ip) = d" "a = i_addrs (itable s ip)"
    and m: "mapped (view d s) a (unat bno)"
  shows "\<exists>t. bmap ip bno s = Ok (file_block (view d s) a (unat bno)) t \<and> cache_ok d {} t \<and> view d t = view d s \<and> bio_frame s t"
proof -
  let ?n = "unat bno"
  consider (1) "?n < 12" | (2) "12 \<le> ?n" "?n < 268" | (3) "268 \<le> ?n" "?n < 65804" | (4) "65804 \<le> ?n" by linarith
  then show ?thesis
  proof cases
    case 1
    then have "a ! ?n \<noteq> 0" using m by (simp add: mapped_def file_block_def)
    then show ?thesis using 1 ok k(2) addr_slot_set [of s ip ?n]
      by (intro exI [of _ s]) (simp add: bmap_def Let_def bmap_consts file_block_def)
  next
    case 2
    then show ?thesis using bmap_single [OF ok k 2 _ _ refl] m by (simp add: mapped_def file_block_def)
  next
    case 3
    then show ?thesis using bmap_double [OF ok k 3 _ _ _ _ refl refl] m by (simp add: mapped_def file_block_def Let_def)
  next
    case 4
    then show ?thesis using bmap_triple [OF ok k 4 refl _ _ _ _ _ _ refl refl refl] m by (simp add: mapped_def file_block_def Let_def)
  qed
qed

section \<open>The bytes of a file\<close>

definition file_byte :: "(u32 \<Rightarrow> u8 list) \<Rightarrow> u32 list \<Rightarrow> nat \<Rightarrow> u8" where
  "file_byte v a i = v (file_block v a (i div BSIZE)) ! (i mod BSIZE)"

abbreviation file_slice :: "(u32 \<Rightarrow> u8 list) \<Rightarrow> u32 list \<Rightarrow> nat \<Rightarrow> nat \<Rightarrow> u8 list" where
  "file_slice v a i j \<equiv> map (file_byte v a) [i..<j]"

lemma chunk_slice:
  assumes "length (v (file_block v a (unat off div BSIZE))) = BSIZE" and "left \<noteq> 0"
  shows "take (chunk left off) (drop (unat off mod BSIZE) (v (file_block v a (unat off div BSIZE)))) =
    file_slice v a (unat off) (unat off + chunk left off)"
proof -
  have c: "unat off mod BSIZE + chunk left off \<le> BSIZE" using chunk_bounds [OF assms(2), of off] by simp
  have "(unat off + i) div BSIZE = unat off div BSIZE \<and> (unat off + i) mod BSIZE = unat off mod BSIZE + i" if "i < chunk left off" for i
  proof -
    have l: "unat off mod BSIZE + i < BSIZE" using that c by simp
    have "unat off + i = (unat off mod BSIZE + i) + unat off div BSIZE * BSIZE" by simp
    then show ?thesis using l by (metis add.right_neutral div_less div_mult_self3 mod_less mod_mult_self3 less_nat_zero_code add.commute)
  qed
  then show ?thesis using c assms(1) by (intro nth_equalityI) (simp_all add: file_byte_def)
qed

lemma unat_div_BSIZE: "unat (off div of_nat BSIZE :: u32) = unat off div BSIZE"
  by (simp add: unat_div_distrib BSIZE_def)

text \<open>One round of readi() up to the copy: the block is found, and the bytes to copy are those of the file.\<close>

lemma readi_round:
  fixes s :: "'z fs_scheme"
  assumes ok: "cache_ok d {} s" and k: "i_dev (itable s ip) = d" "a = i_addrs (itable s ip)" and l: "left \<noteq> 0"
    and m: "mapped (view d s) a (unat off div BSIZE)"
  shows "\<exists>addr t b u. bmap ip (off div of_nat BSIZE) s = Ok addr t \<and> itable t = itable s \<and> bread d addr t = Ok b u \<and> held d {b} u \<and>
     view d u = view d s \<and> bio_frame s u \<and>
     take (chunk left off) (drop (unat off mod BSIZE) (b_data (bufs u b))) =
       file_slice (view d s) a (unat off) (unat off + chunk left off)"
proof -
  let ?x = "file_block (view d s) a (unat off div BSIZE)"
  obtain t where t: "bmap ip (off div of_nat BSIZE) s = Ok ?x t" "cache_ok d {} t" "view d t = view d s" "bio_frame s t"
    using bmap_mapped [OF ok k, of "off div of_nat BSIZE"] m by (auto simp: unat_div_BSIZE)
  have "held d {} t" using t(2) by (simp add: held_def)
  then obtain b u where u: "bread d ?x t = Ok b u" "held d {b} u" "b_data (bufs u b) = view d s ?x" "view d u = view d s" "bio_frame t u"
    using hold [of d "{}" t ?x] t(3) by (auto simp: NBUF_def)
  show ?thesis
    using t(1) frame_fs(3) [OF t(4)] u bio_frame_trans [OF t(4) u(5)] chunk_slice [of "view d s" a off, OF bcache.blk_length [OF ok] l]
    by (intro exI [of _ ?x] exI [of _ t] exI [of _ b] exI [of _ u]) simp
qed

lemma unat_add_chunk:
  "left \<noteq> 0 \<Longrightarrow> unat (off :: u32) + left < 2 ^ 32 \<Longrightarrow> unat (off + of_nat (chunk left off)) = unat off + chunk left off"
  using chunk_bounds [of left off] by (simp add: unat_word_ariths unat_of_nat_small)

lemma readi_loop_local:
  fixes s :: "'z fs_scheme"
  assumes "cache_ok d {} s" and "i_dev (itable s ip) = d" and "a = i_addrs (itable s ip)" and "unat off + left < 2 ^ 32"
    and "\<forall>i. unat off \<le> i \<and> i < unat off + left \<longrightarrow> mapped (view d s) a (i div BSIZE)"
  shows "\<exists>t. readi_loop ip LocalDst off tot left s = Ok (file_slice (view d s) a (unat off) (unat off + left)) t \<and>
     cache_ok d {} t \<and> view d t = view d s \<and> bio_frame s t"
  using assms
proof (induction left arbitrary: off tot s rule: less_induct)
  case (less left)
  show ?case
  proof (cases "left = 0")
    case True
    then show ?thesis using less.prems(1) by (intro exI [of _ s]) (simp add: readi_loop.simps)
  next
    case False
    let ?m = "chunk left off" and ?v = "view d s"
    have m: "0 < ?m" "?m \<le> left" using chunk_bounds [OF False, of off] by simp_all
    obtain addr t b u where r: "bmap ip (off div of_nat BSIZE) s = Ok addr t" "itable t = itable s" "bread d addr t = Ok b u"
      "held d {b} u" "view d u = ?v" "bio_frame s u"
      "take ?m (drop (unat off mod BSIZE) (b_data (bufs u b))) = file_slice ?v a (unat off) (unat off + ?m)"
      using readi_round [OF less.prems(1-3) False, of off] less.prems(5) False by auto
    obtain w where w: "brelse b u = Ok () w" "held d {} w" "view d w = ?v" "bio_frame u w"
      using release [OF r(4), of b] r(5) by auto
    have fr: "bio_frame s w" using bio_frame_trans [OF r(6) w(4)] .
    have o: "unat (off + of_nat ?m) = unat off + ?m" using unat_add_chunk [OF False less.prems(4)] .
    obtain x where x: "readi_loop ip LocalDst (off + of_nat ?m) (tot + ?m) (left - ?m) w =
        Ok (file_slice ?v a (unat off + ?m) (unat off + left)) x" "cache_ok d {} x" "view d x = ?v" "bio_frame w x"
      using less.IH [of "left - ?m" w "off + of_nat ?m" "tot + ?m"] less.prems m o w frame_fs(3) [OF fr]
      by (auto simp: held_def)
    have "file_slice ?v a (unat off) (unat off + ?m) @ file_slice ?v a (unat off + ?m) (unat off + left) =
        file_slice ?v a (unat off) (unat off + left)"
      using m upt_add_eq_append [of "unat off" "unat off + ?m" "left - ?m"] by (simp add: map_append [symmetric] del: map_append)
    then show ?thesis
      using r w(1) x bio_frame_trans [OF fr x(4)] False less.prems(2)
      by (intro exI [of _ x]) (subst readi_loop.simps, simp add: copy_to_def Let_def)
  qed
qed

text \<open>
  Reading into user memory. \<open>wrote\<close>: the user bytes number \<open>i\<close> to \<open>j - 1\<close> counted from address \<open>a\<close> are those that \<open>f\<close>
  gives, all other user bytes and the page table are as before.
\<close>

definition wrote :: "u64 \<Rightarrow> u64 \<Rightarrow> nat \<Rightarrow> nat \<Rightarrow> (nat \<Rightarrow> u8) \<Rightarrow> 'z machine_scheme \<Rightarrow> 'z machine_scheme \<Rightarrow> bool" where
  "wrote pt a i j f s t \<longleftrightarrow> (\<forall>vb. pte_of (pmem t) pt vb = pte_of (pmem s) pt vb) \<and>
     (\<forall>vb. readable (pmem s) pt vb \<longrightarrow> user_byte (pmem t) pt vb =
        (if i \<le> unat (vb - a) \<and> unat (vb - a) < j then f (unat (vb - a)) else user_byte (pmem s) pt vb))"

lemma wrote_refl: "wrote pt a i i f s s"
  by (auto simp: wrote_def)

lemma wrote_trans:
  assumes "wrote pt a i j f s t" and "wrote pt a j k f t u" and "i \<le> j" and "j \<le> k"
  shows "wrote pt a i k f s u"
proof -
  have "readable (pmem t) pt vb = readable (pmem s) pt vb" for vb
    using assms(1) by (intro readable_cong) (simp add: wrote_def)
  then show ?thesis using assms unfolding wrote_def by auto
qed

lemma wrote_pmem: "pmem s' = pmem s \<Longrightarrow> pmem t' = pmem t \<Longrightarrow> wrote pt a i j f s' t' = wrote pt a i j f s t"
  by (simp add: wrote_def)

lemma copyout_wrote:
  assumes "pt_inv pt s ps" and "user_ok pt s ps" and "i + length bs < 2 ^ 63"
    and "\<forall>k. i \<le> k \<and> k < i + length bs \<longrightarrow> writable (pmem s) pt (a + of_nat k)" and "\<And>k. k < length bs \<Longrightarrow> bs ! k = f (i + k)"
  shows "\<exists>t. copyout pt (a + of_nat i) bs s = Ok 0 t \<and> pt_inv pt t ps \<and> user_ok pt t ps \<and> wrote pt a i (i + length bs) f s t \<and>
    machine.more t = machine.more s"
proof -
  have i: "i < 2 ^ 63" "length bs < 2 ^ 63" using assms(3) by simp_all
  have w: "\<forall>k<length bs. writable (pmem s) pt (a + of_nat i + of_nat k)" using assms(4) by (simp add: add.assoc of_nat_add [symmetric] del: of_nat_add)
  obtain t where t: "copyout pt (a + of_nat i) bs s = Ok 0 t" "pt_inv pt t ps" "user_ok pt t ps"
    "\<forall>vb. pte_of (pmem t) pt vb = pte_of (pmem s) pt vb"
    "\<forall>vb. readable (pmem s) pt vb \<longrightarrow> user_byte (pmem t) pt vb =
      (if unat (vb - (a + of_nat i)) < length bs then bs ! unat (vb - (a + of_nat i)) else user_byte (pmem s) pt vb)"
    using copyout_ok [OF assms(1,2) i(2) w] by blast
  have "(if unat (vb - (a + of_nat i)) < length bs then bs ! unat (vb - (a + of_nat i)) else x) =
      (if i \<le> unat (vb - a) \<and> unat (vb - a) < i + length bs then f (unat (vb - a)) else x)" for vb x
    using unat_diff_split [OF i, of vb a] assms(5) [of "unat (vb - a) - i"] by (cases "i \<le> unat (vb - a)") auto
  then have "wrote pt a i (i + length bs) f s t" using t(4,5) by (simp add: wrote_def)
  then show ?thesis using t quiet_OkD [OF quiet_copyout t(1)] by blast
qed

lemma held_more:
  fixes s t :: "'z bio_scheme"
  assumes "machine.more t = machine.more s"
  shows "held d H t = held d H s" "view d t = view d s" "procs t = procs s" "myproc t = myproc s" "bio.more t = bio.more s"
proof -
  have e: "bufs t = bufs s" "disk t = disk s" "procs t = procs s" "myproc t = myproc s" "bio.more t = bio.more s"
    using assms by (cases s; cases t; simp)+
  have "cached d n t = cached d n s" for n by (simp add: cached_def fun_eq_iff e)
  then show "view d t = view d s" by (intro ext) (simp add: view_def e split: option.split)
  show "held d H t = held d H s" by (simp add: held_def cache_ok_def key_unique_def e)
  show "procs t = procs s" "myproc t = myproc s" "bio.more t = bio.more s" by (fact e)+
qed

lemma frame_user:
  assumes "bio_frame s t"
  shows "pt_inv pt t ps = pt_inv pt s ps" "user_ok pt t ps = user_ok pt s ps" "pmem t = pmem s" "myproc t = myproc s"
    "p_pagetable (procs t p) = p_pagetable (procs s p)"
proof -
  have m: "pmem t = pmem s" "freelist t = freelist s" "kend t = kend s" "myproc t = myproc s" "proc_same s t"
    using assms by (simp_all add: bio_frame_def)
  show "pt_inv pt t ps = pt_inv pt s ps" "user_ok pt t ps = user_ok pt s ps"
    using m pt_inv_machine [of t s] user_ok_machine [of t s] by simp_all
  have "(procs t p)\<lparr>p_state := UNUSED\<rparr> = (procs s p)\<lparr>p_state := UNUSED\<rparr>" using m(5) by (simp add: proc_same_def)
  from arg_cong [OF this, of p_pagetable] show "p_pagetable (procs t p) = p_pagetable (procs s p)" by simp
  show "pmem t = pmem s" "myproc t = myproc s" by (fact m)+
qed

lemma readi_loop_user:
  fixes s :: "'z fs_scheme"
  assumes "cache_ok d {} s" and "i_dev (itable s ip) = d" and "a = i_addrs (itable s ip)" and "unat off + left < 2 ^ 32"
    and "\<forall>i. unat off \<le> i \<and> i < unat off + left \<longrightarrow> mapped (view d s) a (i div BSIZE)"
    and "myproc s = Some p" and "pt = p_pagetable (procs s p)" and "pt_inv pt s ps" and "user_ok pt s ps"
    and "\<forall>i. tot \<le> i \<and> i < tot + left \<longrightarrow> writable (pmem s) pt (ua + of_nat i)" and "tot + left < 2 ^ 63"
    and "base + tot = unat off"
  shows "\<exists>bs t. readi_loop ip (UserDst ua) off tot left s = Ok bs t \<and> cache_ok d {} t \<and> view d t = view d s \<and> bio.more t = bio.more s \<and>
     wrote pt ua tot (tot + left) (\<lambda>i. file_byte (view d s) a (base + i)) s t"
  using assms
proof (induction left arbitrary: off tot s rule: less_induct)
  case (less left)
  note P = less.prems
  show ?case
  proof (cases "left = 0")
    case True
    then show ?thesis using P(1) wrote_refl by (intro exI [of _ "[]"] exI [of _ s]) (simp add: readi_loop.simps)
  next
    case False
    let ?m = "chunk left off" and ?v = "view d s" and ?f = "\<lambda>i. file_byte (view d s) a (base + i)"
    have m: "0 < ?m" "?m \<le> left" using chunk_bounds [OF False, of off] by simp_all
    obtain addr t b u where r: "bmap ip (off div of_nat BSIZE) s = Ok addr t" "itable t = itable s" "bread d addr t = Ok b u"
      "held d {b} u" "view d u = ?v" "bio_frame s u"
      "take ?m (drop (unat off mod BSIZE) (b_data (bufs u b))) = file_slice ?v a (unat off) (unat off + ?m)"
      using readi_round [OF P(1-3) False, of off] P(5) False by auto
    note U = frame_user [OF r(6)]
    let ?bs = "file_slice ?v a (unat off) (unat off + ?m)"
    have bs: "length ?bs = ?m" "\<And>k. k < length ?bs \<Longrightarrow> ?bs ! k = ?f (tot + k)"
      using P(12) by (simp_all add: add.assoc [symmetric])
    have b1: "tot + length ?bs < 2 ^ 63" using P(11) m bs(1) by simp
    have b2: "\<forall>k. tot \<le> k \<and> k < tot + length ?bs \<longrightarrow> writable (pmem u) pt (ua + of_nat k)" using P(10) m bs(1) U(3) by simp
    obtain w where w: "copyout pt (ua + of_nat tot) ?bs u = Ok 0 w" "pt_inv pt w ps" "user_ok pt w ps"
      "wrote pt ua tot (tot + ?m) ?f u w" "machine.more w = machine.more u"
      using copyout_wrote [where ps = ps and f = ?f, OF _ _ b1 b2 bs(2)] P(8,9) U(1,2) bs(1) by auto
    note W = held_more [OF w(5)]
    obtain x where x: "brelse b w = Ok () x" "held d {} x" "view d x = ?v" "bio_frame w x"
      using release [of d "{b}" w b] W(1,2) r(4,5) by auto
    note X = frame_user [OF x(4)]
    have more: "bio.more x = bio.more s" using r(6) x(4) W(5) by (simp add: bio_frame_def)
    have my: "myproc x = Some p" "p_pagetable (procs x p) = pt" using P(6,7) U(4,5) W(3,4) X(4,5) by simp_all
    have sx: "wrote pt ua tot (tot + ?m) ?f s x"
      using w(4) U(3) X(3) wrote_pmem [of s u x w] by simp
    have wx: "writable (pmem x) pt vb = writable (pmem s) pt vb" for vb using sx by (simp add: wrote_def writable_def)
    have o: "unat (off + of_nat ?m) = unat off + ?m" using unat_add_chunk [OF False P(4)] .
    obtain bs' y where y: "readi_loop ip (UserDst ua) (off + of_nat ?m) (tot + ?m) (left - ?m) x = Ok bs' y" "cache_ok d {} y" "view d y = ?v"
      "bio.more y = bio.more s" "wrote pt ua (tot + ?m) (tot + left) ?f x y"
      using less.IH [of "left - ?m" x "off + of_nat ?m" "tot + ?m"] P m o x more_fs [OF more] more my w(2,3) X(1,2) wx
      by (auto simp: held_def)
    have "wrote pt ua tot (tot + left) ?f s y" using wrote_trans [OF sx y(5)] m by simp
    moreover have "copy_to (UserDst ua) (of_nat tot) ?bs u = Ok 0 w"
      using w(1) P(6,7) U(4,5) by (simp add: copy_to_def either_copyout_def with_proc_def)
    ultimately show ?thesis
      using r x(1) y False P(2)
      by (intro exI [of _ "?bs @ bs'"] exI [of _ y]) (subst readi_loop.simps, simp add: Let_def)
  qed
qed

section \<open>Properties\<close>

text \<open>
  C11: readi() reads the bytes of the file. For a file whose blocks in the range are allocated, a read of \<open>n\<close>
  bytes at offset \<open>off\<close> into writable user memory returns the number of bytes from \<open>off\<close> to the end of the
  file, at most \<open>n\<close>, and puts exactly these bytes of the file, found through the direct and indirect blocks,
  at the address given; blocks, inode table and the rest of user memory are unchanged. An offset past
  the end, or a range that exceeds 32 bits, gives -1.
\<close>

theorem readi_reads_file:
  fixes s :: "'z fs_scheme"
  assumes ok: "cache_ok d {} s" and k: "i_dev (itable s ip) = d" "a = i_addrs (itable s ip)" "sz = unat (i_size (itable s ip))"
    and m: "\<forall>i < sz. mapped (view d s) a (i div BSIZE)"
    and u: "myproc s = Some p" "pt = p_pagetable (procs s p)" "pt_inv pt s ps" "user_ok pt s ps"
    and w: "\<forall>i<unat n. writable (pmem s) pt (ua + of_nat i)" and k2: "k = min (unat n) (sz - unat off)" "k < 2 ^ 31"
  shows "if sz < unat off \<or> 2 ^ 32 \<le> unat off + unat n then readi ip (UserDst ua) off n s = Ok (-1, []) s
    else \<exists>bs t. readi ip (UserDst ua) off n s = Ok (int k, bs) t \<and> cache_ok d {} t \<and> view d t = view d s \<and> itable t = itable s \<and>
      (\<forall>vb. readable (pmem s) pt vb \<longrightarrow> user_byte (pmem t) pt vb =
        (if unat (vb - ua) < k then file_byte (view d s) a (unat off + unat (vb - ua)) else user_byte (pmem s) pt vb))"
proof -
  let ?sz = "i_size (itable s ip)"
  have c: "off + n < off \<longleftrightarrow> 2 ^ 32 \<le> unat off + unat n"
    using unat_bound [of off] unat_bound [of n] by (auto simp: word_less_nat_alt unat_word_ariths mod_if)
  show ?thesis
  proof (cases "sz < unat off \<or> 2 ^ 32 \<le> unat off + unat n")
    case True
    then show ?thesis using c k(3) by (auto simp: readi_def Let_def word_less_nat_alt)
  next
    case False
    let ?n = "if off + n > ?sz then ?sz - off else n"
    have on: "unat (off + n) = unat off + unat n" using False by (simp add: unat_word_ariths)
    have "unat (?sz - off) = sz - unat off" using False k(3) by (simp add: unat_sub word_le_nat_alt)
    then have n: "unat ?n = k" using on k2(1) k(3) False by (auto simp: word_less_nat_alt)
    have sn: "sint ?n = int k" using n k2(2) sint_cases [of ?n] by (simp add: not_le del: of_nat_unat)
    have b: "unat off + k \<le> sz" "unat off + k < 2 ^ 32" using k2(1) False k(3) unat_bound [of ?sz] by auto
    have m': "\<forall>i. unat off \<le> i \<and> i < unat off + k \<longrightarrow> mapped (view d s) a (i div BSIZE)" using m b(1) by simp
    have w': "\<forall>i. 0 \<le> i \<and> i < 0 + k \<longrightarrow> writable (pmem s) pt (ua + of_nat i)" using w k2(1) by simp
    have k63: "0 + k < 2 ^ 63" using k2(2) by simp
    obtain bs t where t: "readi_loop ip (UserDst ua) off 0 k s = Ok bs t" "cache_ok d {} t" "view d t = view d s" "bio.more t = bio.more s"
      "wrote pt ua 0 k (\<lambda>i. file_byte (view d s) a (unat off + i)) s t"
      using readi_loop_user [OF ok k(1,2) b(2) m' u w' k63, of "unat off"] by auto
    have "readi ip (UserDst ua) off n s = Ok (int k, bs) t"
      using False c k(3) t(1) n sn by (simp add: readi_def Let_def word_less_nat_alt)
    then show ?thesis using False t more_fs [OF t(4)] by (auto simp: wrote_def)
  qed
qed

text \<open>A file of five bytes in block 20, with an indirect block 9 whose first entry is block 21.\<close>

definition hello_addrs :: "u32 list" where
  "hello_addrs = [20, 0, 0, 0, 0, 0, 0, 0, 0, 0, 0, 0, 9, 0, 0]"

lemma hello_addrs_simps: "hello_addrs ! 0 = 20" "hello_addrs ! 12 = 9"
  by (simp_all add: hello_addrs_def)

definition hello_inode :: inode where
  "hello_inode = blank_inode\<lparr>i_dev := 1, i_inum := 5, i_ref := 1, i_valid := True, i_type := T_FILE, i_nlink := 1, i_size := 5,
     i_addrs := hello_addrs\<rparr>"

definition hello_disk :: "u32 \<Rightarrow> u8 list" where
  "hello_disk n = (if n = 20 then [104, 101, 108, 108, 111] @ replicate (BSIZE - 5) 0
     else if n = 9 then 21 # replicate (BSIZE - 1) 0 else replicate BSIZE 0)"

abbreviation hello :: "machine \<Rightarrow> vkern" where
  "hello m \<equiv> sample m\<lparr>disk := hello_disk, itable := (\<lambda>_. hello_inode)\<rparr>"

lemma hello_cache: "cache_ok 1 {} (sample m\<lparr>disk := hello_disk\<rparr>)" "view 1 (sample m\<lparr>disk := hello_disk\<rparr>) = hello_disk"
  using fresh_cache [of "sample m\<lparr>disk := hello_disk\<rparr>" 0 1] by (simp_all add: hello_disk_def BSIZE_def)

lemma hello_inode_simps [simp]:
  "i_dev hello_inode = 1" "i_addrs hello_inode = hello_addrs" "i_size hello_inode = 5"
  "i_type hello_inode = T_FILE" "i_ref hello_inode = 1" "i_valid hello_inode = True"
  by (simp_all add: hello_inode_def)

theorem readi_reads_file_witness:
  "\<exists>m bs t. readi 0 (UserDst 0) 1 10 (hello m) = Ok (4, bs) t \<and> user_byte (pmem t) 0x87FFF000 3 = 111"
proof -
  obtain m ps where m: "pt_inv 0x87FFF000 (sample m) ps" "user_ok 0x87FFF000 (sample m) ps"
    "\<And>va. va < 4096 \<Longrightarrow> writable (pmem m) 0x87FFF000 va" "\<And>va. va < 4096 \<Longrightarrow> readable (pmem m) 0x87FFF000 va"
    using sample_user_page by metis
  have b: "i div BSIZE = 0" "i mod BSIZE = i" if "i < 5" for i using that by (simp_all add: BSIZE_def)
  have mp: "\<forall>i < 5. mapped (view 1 (hello m)) hello_addrs (i div BSIZE)"
    using b by (simp add: mapped_def file_block_def hello_addrs_simps)
  have fb: "file_byte hello_disk hello_addrs 4 = 111"
    by (simp add: file_byte_def file_block_def hello_disk_def b hello_addrs_simps)
  have u: "pt_inv 0x87FFF000 (hello m) ps" "user_ok 0x87FFF000 (hello m) ps"
    using m(1,2) pt_inv_machine [of "hello m" "sample m"] user_ok_machine [of "hello m" "sample m"] by simp_all
  have w: "\<forall>i<unat (10 :: u32). writable (pmem (hello m)) 0x87FFF000 (0 + of_nat i)" using m(3) of_nat_page_less by simp
  have h: "cache_ok 1 {} (hello m)" "i_dev (itable (hello m) 0) = 1" "hello_addrs = i_addrs (itable (hello m) 0)"
    "5 = unat (i_size (itable (hello m) 0))" "myproc (hello m) = Some 0" "0x87FFF000 = p_pagetable (procs (hello m) 0)"
    "4 = min (unat (10 :: u32)) (5 - unat (1 :: u32))" "(4 :: nat) < 2 ^ 31"
    "\<not> (5 < unat (1 :: u32) \<or> 2 ^ 32 \<le> unat (1 :: u32) + unat (10 :: u32))"
    using hello_cache by simp_all
  from readi_reads_file [OF h(1-4) mp h(5,6) u w h(7,8), unfolded if_not_P [OF h(9)]]
  obtain bs t where r: "readi 0 (UserDst 0) 1 10 (hello m) = Ok (int 4, bs) t"
    "\<forall>vb. readable (pmem (hello m)) 0x87FFF000 vb \<longrightarrow> user_byte (pmem t) 0x87FFF000 vb =
        (if unat (vb - 0) < 4 then file_byte (view 1 (hello m)) hello_addrs (unat (1 :: u32) + unat (vb - 0))
         else user_byte (pmem (hello m)) 0x87FFF000 vb)" by blast
  have "user_byte (pmem t) 0x87FFF000 3 = 111" using r(2) [rule_format, of 3] m(4) fb hello_cache(2) by simp
  then show ?thesis using r(1) by auto
qed

text \<open>
  C12: bmap() finds the block of a file. When the numbers on the way to block \<open>bno\<close> of the file are set, it
  returns the block number that the direct entries, or one, two or three levels of indirect blocks of
  256 entries, hold for it, and leaves every block and the inode table as they are.
\<close>

theorem bmap_finds_block:
  fixes s :: "'z fs_scheme"
  assumes "cache_ok d {} s" and "i_dev (itable s ip) = d" and "mapped (view d s) (i_addrs (itable s ip)) (unat bno)"
  shows "\<exists>t. bmap ip bno s = Ok (file_block (view d s) (i_addrs (itable s ip)) (unat bno)) t \<and>
    cache_ok d {} t \<and> view d t = view d s \<and> itable t = itable s"
  using bmap_mapped [OF assms(1,2) refl assms(3)] frame_fs(3) by blast

theorem bmap_finds_block_witness: "\<exists>t. bmap 0 12 (hello \<lparr>pmem = (\<lambda>_. 0), freelist = 0, kend = 0\<rparr>) = Ok 21 t"
proof -
  let ?s = "hello \<lparr>pmem = (\<lambda>_. 0), freelist = 0, kend = 0\<rparr>"
  have "take 4 (21 # replicate (BSIZE - 1) 0) = (21 :: u8) # replicate 3 0" by (simp add: BSIZE_def)
  then have w: "word_of (21 # replicate (BSIZE - 1) 0) 0 = 21" by (simp only: word_of_def mult_0_right drop_0 le_word.simps le_word_zeros) simp
  have "hello_disk 9 = 21 # replicate (BSIZE - 1) 0" by (simp add: hello_disk_def)
  then have f: "file_block hello_disk hello_addrs 12 = 21"
    using w by (simp only: file_block_def hello_addrs_simps) simp
  have h: "cache_ok 1 {} ?s" "i_dev (itable ?s 0) = 1" "view 1 ?s = hello_disk" "i_addrs (itable ?s 0) = hello_addrs" "unat (12 :: u32) = 12"
    using hello_cache by simp_all
  have "mapped hello_disk hello_addrs 12"
    by (rule mapped_single [THEN iffD2]) (simp_all only: f hello_addrs_simps, simp_all)
  then show ?thesis
    using bmap_finds_block [OF h(1,2), of 12] unfolding h f by blast
qed

end
