(* ===== verification/Fs_Dir_Props.thy ===== *)
theory Fs_Dir_Props
  imports Fs_File_Props
begin

text \<open>
  Directories and path names. A directory is a file; its entries are chained by their lengths, and
  dirlookup() follows the chain. The abstract value of a directory is the list of the offsets of its
  entries.
\<close>

section \<open>Reading an entry\<close>

lemma readi_local:
  fixes s :: "'z fs_scheme"
  assumes ok: "cache_ok d {} s" and k: "i_dev (itable s ip) = d" "a = i_addrs (itable s ip)" "sz = unat (i_size (itable s ip))"
    and m: "\<forall>i < sz. mapped (view d s) a (i div BSIZE)" and n: "unat off + unat n \<le> sz" "unat n < 2 ^ 31"
  shows "\<exists>t. readi ip LocalDst off n s = Ok (int (unat n), file_slice (view d s) a (unat off) (unat off + unat n)) t \<and>
    cache_ok d {} t \<and> view d t = view d s \<and> itable t = itable s"
proof -
  let ?sz = "i_size (itable s ip)"
  have b: "unat off + unat n < 2 ^ 32" using n(1) k(3) unat_bound [of ?sz] by simp
  have on: "unat (off + n) = unat off + unat n" using b by (simp add: unat_word_ariths)
  have c: "\<not> (off > ?sz \<or> off + n < off)" "\<not> off + n > ?sz"
    using n(1) k(3) on by (auto simp: word_less_nat_alt)
  have sn: "sint n = int (unat n)" using n(2) sint_cases [of n] by (simp add: not_le del: of_nat_unat)
  have m': "\<forall>i. unat off \<le> i \<and> i < unat off + unat n \<longrightarrow> mapped (view d s) a (i div BSIZE)" using m n(1) by simp
  obtain t where t: "readi_loop ip LocalDst off 0 (unat n) s = Ok (file_slice (view d s) a (unat off) (unat off + unat n)) t"
    "cache_ok d {} t" "view d t = view d s" "bio_frame s t"
    using readi_loop_local [OF ok k(1,2) b m'] by blast
  have "readi ip LocalDst off n s = Ok (sint n, file_slice (view d s) a (unat off) (unat off + unat n)) t"
    using c t(1) by (simp add: readi_def Let_def)
  then show ?thesis using t frame_fs(3) [OF t(4)] sn by (intro exI [of _ t]) simp
qed

text \<open>The entry at an offset of a directory.\<close>

definition entry_at :: "(u32 \<Rightarrow> u8 list) \<Rightarrow> u32 list \<Rightarrow> nat \<Rightarrow> ext2_dirent" where
  "entry_at v a off = dirent_of (file_slice v a off (off + DIRENT2_SIZE))"

text \<open>
  The directory of \<open>sz\<close> bytes is the chain of the entries at the offsets \<open>offs\<close>, from offset \<open>off\<close> on: each
  entry is as long as it says, and a whole struct ext2_dirent can be read at its offset.
\<close>

fun entry_chain :: "(u32 \<Rightarrow> u8 list) \<Rightarrow> u32 list \<Rightarrow> nat \<Rightarrow> nat \<Rightarrow> nat list \<Rightarrow> bool" where
  "entry_chain v a sz off [] \<longleftrightarrow> sz \<le> off \<and> off < 2 ^ 32"
| "entry_chain v a sz off (x # xs) \<longleftrightarrow> x = off \<and> off + DIRENT2_SIZE \<le> sz \<and>
     0 < unat (de_rec_len (entry_at v a off)) \<and> entry_chain v a sz (off + unat (de_rec_len (entry_at v a off))) xs"

text \<open>The entry that a name denotes.\<close>

definition names_entry :: "(u32 \<Rightarrow> u8 list) \<Rightarrow> u32 list \<Rightarrow> u8 list \<Rightarrow> nat \<Rightarrow> bool" where
  "names_entry v a name off \<longleftrightarrow> de_inode (entry_at v a off) \<noteq> 0 \<and> entry_matches name (entry_at v a off)"

lemma readi_entry:
  fixes s :: "'z fs_scheme"
  assumes "cache_ok d {} s" and "i_dev (itable s dp) = d" and "a = i_addrs (itable s dp)" and "sz = unat (i_size (itable s dp))"
    and "\<forall>i < sz. mapped (view d s) a (i div BSIZE)" and "unat off + DIRENT2_SIZE \<le> sz"
  shows "\<exists>t. readi dp LocalDst off (of_nat DIRENT2_SIZE) s =
      Ok (int DIRENT2_SIZE, file_slice (view d s) a (unat off) (unat off + DIRENT2_SIZE)) t \<and>
    cache_ok d {} t \<and> view d t = view d s \<and> itable t = itable s"
proof -
  have "unat (of_nat DIRENT2_SIZE :: u32) = DIRENT2_SIZE" by (simp add: DIRENT2_SIZE_def)
  then show ?thesis using readi_local [OF assms(1-5), of off "of_nat DIRENT2_SIZE"] assms(6) by (simp add: DIRENT2_SIZE_def)
qed

lemma dirlookup_loop_chain:
  fixes s :: "'z fs_scheme"
  assumes "cache_ok d {} s" and "i_dev (itable s dp) = d" and "a = i_addrs (itable s dp)" and "sz = unat (i_size (itable s dp))"
    and "\<forall>i < sz. mapped (view d s) a (i div BSIZE)" and "entry_chain (view d s) a sz (unat off) offs" and "length offs \<le> fuel"
  shows "\<exists>t. dirlookup_loop fuel dp name off s =
      Ok (map_option (\<lambda>x. (de_inode (entry_at (view d s) a x), of_nat x)) (List.find (names_entry (view d s) a name) offs)) t \<and>
    cache_ok d {} t \<and> view d t = view d s \<and> itable t = itable s"
  using assms
proof (induction offs arbitrary: off fuel s)
  case Nil
  then have "\<not> off < i_size (itable s dp)" by (simp add: word_less_nat_alt)
  then show ?case using Nil.prems(1) by (intro exI [of _ s]) (simp add: dirlookup_loop.simps)
next
  case (Cons x xs)
  let ?v = "view d s" and ?e = "entry_at (view d s) a (unat off)"
  have c: "x = unat off" "unat off + DIRENT2_SIZE \<le> sz" "entry_chain ?v a sz (unat off + unat (de_rec_len ?e)) xs"
    using Cons.prems(6) by simp_all
  obtain t where t: "readi dp LocalDst off (of_nat DIRENT2_SIZE) s =
      Ok (int DIRENT2_SIZE, file_slice ?v a (unat off) (unat off + DIRENT2_SIZE)) t"
    "cache_ok d {} t" "view d t = ?v" "itable t = itable s"
    using readi_entry [OF Cons.prems(1-5) c(2)] by blast
  have g: "off < i_size (itable s dp)" "fuel \<noteq> 0" using c(2) Cons.prems(4,7) by (auto simp: word_less_nat_alt DIRENT2_SIZE_def)
  have step: "dirlookup_loop fuel dp name off s =
      (if names_entry ?v a name (unat off) then Ok (Some (de_inode ?e, off)) t
       else dirlookup_loop (fuel - 1) dp name (off + ucast (de_rec_len ?e)) t)"
    using g t(1) by (subst dirlookup_loop.simps) (simp add: Let_def names_entry_def entry_at_def)
  show ?case
  proof (cases "names_entry ?v a name (unat off)")
    case True
    then show ?thesis using step t c(1) by (intro exI [of _ t]) simp
  next
    case False
    have "unat off + unat (de_rec_len ?e) < 2 ^ 32"
      using c(3) Cons.prems(4) unat_bound [of "i_size (itable s dp)"] by (cases xs) auto
    have l: "length xs \<le> fuel - 1" using Cons.prems(7) by simp
    have o: "unat (off + ucast (de_rec_len ?e)) = unat off + unat (de_rec_len ?e)"
      using \<open>_ < 2 ^ 32\<close> by (simp add: unat_word_ariths unat_ucast_small)
    obtain u where "dirlookup_loop (fuel - 1) dp name (off + ucast (de_rec_len ?e)) t =
        Ok (map_option (\<lambda>x. (de_inode (entry_at ?v a x), of_nat x)) (List.find (names_entry ?v a name) xs)) u"
      "cache_ok d {} u" "view d u = ?v" "itable u = itable s"
      using Cons.IH [of t "off + ucast (de_rec_len ?e)" "fuel - 1"] Cons.prems(2-5) l c(3) t o by auto
    then show ?thesis using step False c(1) by (intro exI [of _ u]) simp
  qed
qed

text \<open>The fuel of dirlookup() is enough: there are fewer entries than bytes.\<close>

lemma entry_chain_length: "entry_chain v a sz off offs \<Longrightarrow> length offs \<le> sz - off"
proof (induction offs arbitrary: off)
  case (Cons x xs)
  have "length xs \<le> sz - (off + unat (de_rec_len (entry_at v a off)))" using Cons by auto
  moreover have "0 < unat (de_rec_len (entry_at v a off))" "off + DIRENT2_SIZE \<le> sz" using Cons.prems by auto
  ultimately show ?case by (simp add: DIRENT2_SIZE_def)
qed simp


section \<open>Properties\<close>

text \<open>
  C28: dirlookup() returns, and finds the first entry with the name. For a directory whose blocks are
  allocated and whose entries form a chain (each is as long as it says, its length is not 0, and 264
  bytes can be read at its offset), the loop ends; the result is no entry when no entry in use
  matches, and otherwise the inode of the first one that does, from iget(), with its offset.
\<close>

theorem dirlookup_terminates:
  fixes s :: "'z fs_scheme"
  assumes ok: "cache_ok d {} s" and k: "i_dev (itable s dp) = d" "a = i_addrs (itable s dp)" "sz = unat (i_size (itable s dp))"
      "i_type (itable s dp) = T_DIR"
    and m: "\<forall>i < sz. mapped (view d s) a (i div BSIZE)" and c: "entry_chain (view d s) a sz 0 offs"
  shows "\<exists>t. cache_ok d {} t \<and> view d t = view d s \<and> itable t = itable s \<and>
    dirlookup dp name s = (case List.find (names_entry (view d s) a name) offs of
      None \<Rightarrow> Ok None t
    | Some x \<Rightarrow> then_do (iget d (de_inode (entry_at (view d s) a x)) t) (\<lambda>ip u. Ok (Some (ip, of_nat x)) u))"
proof -
  have "length offs \<le> 2 ^ 32" using entry_chain_length [OF c] k(3) unat_bound [of "i_size (itable s dp)"] by simp
  then obtain t where t: "dirlookup_loop (2 ^ 32) dp name 0 s =
      Ok (map_option (\<lambda>x. (de_inode (entry_at (view d s) a x), of_nat x)) (List.find (names_entry (view d s) a name) offs)) t"
    "cache_ok d {} t" "view d t = view d s" "itable t = itable s"
    using dirlookup_loop_chain [OF ok k(1-3) m, of 0 offs "2 ^ 32" name] c by auto
  show ?thesis
  proof (cases "List.find (names_entry (view d s) a name) offs")
    case None
    then show ?thesis using t k(4) by (intro exI [of _ t]) (simp add: dirlookup_def)
  next
    case (Some x)
    then show ?thesis using t k(1,4) by (intro exI [of _ t]) (simp add: dirlookup_def)
  qed
qed

text \<open>A directory of one block with the entries a (inode 5) and b (inode 6).\<close>

definition ab_block :: "u8 \<Rightarrow> u8 list" where
  "ab_block len = [5, 0, 0, 0, len, 0, 1, 1, 97, 0, 0, 0, 6, 0, 0, 0, 0xF4, 3, 1, 1, 98] @ replicate (BSIZE - 21) 0"

definition dir_inode :: inode where
  "dir_inode = blank_inode\<lparr>i_dev := 1, i_inum := 2, i_ref := 1, i_valid := True, i_type := T_DIR, i_size := 1024, i_addrs := hello_addrs\<rparr>"

definition dir_sample :: "u8 \<Rightarrow> vkern" where
  "dir_sample len = sample0\<lparr>disk := (\<lambda>n. if n = 20 then ab_block len else replicate BSIZE 0), itable := (\<lambda>_. blank_inode)(0 := dir_inode)\<rparr>"

lemma length_ab_block: "length (ab_block len) = 1024"
  by (simp add: ab_block_def BSIZE_def)

lemma dir_sample_facts:
  "cache_ok 1 {} (dir_sample len)" "i_dev (itable (dir_sample len) 0) = 1" "hello_addrs = i_addrs (itable (dir_sample len) 0)"
  "1024 = unat (i_size (itable (dir_sample len) 0))" "i_type (itable (dir_sample len) 0) = T_DIR"
  "\<forall>i < 1024. mapped (view 1 (dir_sample len)) hello_addrs (i div BSIZE)" "view 1 (dir_sample len) 20 = ab_block len"
proof -
  let ?s = "sample0\<lparr>disk := (\<lambda>n. if n = 20 then ab_block len else replicate BSIZE 0)\<rparr>"
  have c: "cache_ok 1 {} ?s" "view 1 ?s = disk ?s"
    using fresh_cache [of ?s 0 1] length_ab_block [of len] by (simp_all add: sample0_def BSIZE_def)
  then show "cache_ok 1 {} (dir_sample len)" "view 1 (dir_sample len) 20 = ab_block len" by (simp_all add: dir_sample_def)
  show "i_dev (itable (dir_sample len) 0) = 1" "hello_addrs = i_addrs (itable (dir_sample len) 0)"
    "1024 = unat (i_size (itable (dir_sample len) 0))" "i_type (itable (dir_sample len) 0) = T_DIR"
    by (simp_all add: dir_sample_def dir_inode_def)
  show "\<forall>i < 1024. mapped (view 1 (dir_sample len)) hello_addrs (i div BSIZE)"
    by (simp add: mapped_def file_block_def BSIZE_def hello_addrs_simps)
qed

lemma ab_slice: "off + n \<le> 1024 \<Longrightarrow> file_slice (view 1 (dir_sample len)) hello_addrs off (off + n) = take n (drop off (ab_block len))"
  by (rule nth_equalityI)
     (simp_all add: length_ab_block file_byte_def file_block_def BSIZE_def hello_addrs_simps dir_sample_facts(7))

lemma ab_entries:
  "entry_at (view 1 (dir_sample len)) hello_addrs 0 = dirent_of (take DIRENT2_SIZE (ab_block len))"
  "entry_at (view 1 (dir_sample len)) hello_addrs 12 = dirent_of (take DIRENT2_SIZE (drop 12 (ab_block len)))"
  using ab_slice [of 0 DIRENT2_SIZE len] ab_slice [of 12 DIRENT2_SIZE len] by (simp_all add: entry_at_def DIRENT2_SIZE_def)

lemma strncmp_two:
  "strncmp p q 14 = (if p 0 \<noteq> 0 \<and> p 0 = q 0 then strncmp (\<lambda>i. p (Suc i)) (\<lambda>i. q (Suc i)) 13 else uint (p 0) - uint (q 0))"
  "strncmp p q 13 = (if p 0 \<noteq> 0 \<and> p 0 = q 0 then strncmp (\<lambda>i. p (Suc i)) (\<lambda>i. q (Suc i)) 12 else uint (p 0) - uint (q 0))"
  using strncmp.simps(2) [of p q 13] strncmp.simps(2) [of p q 12] by simp_all

lemma ab_fields:
  "de_inode (dirent_of (take DIRENT2_SIZE (ab_block len))) = 5" "de_rec_len (dirent_of (take DIRENT2_SIZE (ab_block len))) = ucast len"
  "de_inode (dirent_of (take DIRENT2_SIZE (drop 12 (ab_block len)))) = 6"
  "de_rec_len (dirent_of (take DIRENT2_SIZE (drop 12 (ab_block len)))) = 1012"
  "\<not> entry_matches [98, 0] (dirent_of (take DIRENT2_SIZE (ab_block len)))"
  "entry_matches [98, 0] (dirent_of (take DIRENT2_SIZE (drop 12 (ab_block len))))"
  by (simp_all add: ab_block_def dirent_of_def DIRENT2_SIZE_def word_at_def half_at_def BSIZE_def entry_matches_def entry_name_def
      strncpy_bytes_def namecmp_def DIRSIZ_def)
     (simp_all add: strncmp_two cstr_of_list_def)

lemma ab_chain: "entry_chain (view 1 (dir_sample 12)) hello_addrs 1024 0 [0, 12]"
  by (simp add: ab_entries ab_fields) (simp add: DIRENT2_SIZE_def)

theorem dirlookup_terminates_witness: "\<exists>t. dirlookup 0 [98, 0] (dir_sample 12) = Ok (Some (1, 12)) t"
proof -
  have f: "List.find (names_entry (view 1 (dir_sample 12)) hello_addrs [98, 0]) [0, 12] = Some 12"
    by (simp add: names_entry_def ab_entries ab_fields)
  obtain t where t: "itable t = itable (dir_sample 12)"
    "dirlookup 0 [98, 0] (dir_sample 12) = then_do (iget 1 6 t) (\<lambda>ip u. Ok (Some (ip, 12)) u)"
    using dirlookup_terminates [OF dir_sample_facts(1-6) ab_chain, of "[98, 0]"] f by (auto simp: ab_entries ab_fields)
  have "iget_scan 1 6 [0..<NINODE] None (itable t) = (None, Some 1)"
    unfolding t(1) iget_scan_spec
    by (simp add: dir_sample_def dir_inode_def blank_inode_def holds_inode_def NINODE_def upt_conv_Cons)
  then show ?thesis using t(2) by (simp add: iget_def)
qed



end
