(* ===== verification/Umalloc.thy ===== *)
theory Umalloc
  imports Xv6_Prelude
begin

text \<open>
  The storage allocator of user programs, user/umalloc.c: free(), morecore() and malloc() over a circular
  list of free blocks in order of their addresses.

  A block is a \<^verbatim>\<open>Header\<close> of 16 bytes followed by its data; its size counts units of 16 bytes, the header
  included. The state holds the fields of the header at every address, so that a pointer is dereferenced
  by applying a field to it. \<open>base\<close> is the address of the static header, and \<open>sbrk\<close> the system call, which
  takes and returns the state of the kernel. The loops of free() and malloc() are partial functions; the
  value \<open>None\<close> means that they do not end.
\<close>

section \<open>The allocator\<close>

record uheap =
  hptr :: "u64 \<Rightarrow> u64"
  hsize :: "u64 \<Rightarrow> u32"
  freep :: u64

text \<open>\<open>p + n\<close> for a \<^verbatim>\<open>Header *p\<close>.\<close>

definition hplus :: "u64 \<Rightarrow> u32 \<Rightarrow> u64" where
  "hplus p n = p + 16 * ucast n"

definition free_stops :: "uheap \<Rightarrow> u64 \<Rightarrow> u64 \<Rightarrow> bool" where
  "free_stops h bp p \<longleftrightarrow>
     bp > p \<and> bp < hptr h p \<or> p \<ge> hptr h p \<and> (bp > p \<or> bp < hptr h p)"

partial_function (option) free_find :: "uheap \<Rightarrow> u64 \<Rightarrow> u64 \<Rightarrow> u64 option" where
  "free_find h bp p = (if free_stops h bp p then Some p else free_find h bp (hptr h p))"

text \<open>The two parts of free() after the search: joining with the block above, and with the block below.\<close>

definition join_upper :: "u64 \<Rightarrow> u64 \<Rightarrow> uheap \<Rightarrow> uheap" where
  "join_upper bp p h =
     (let r = hptr h p in
      if hplus bp (hsize h bp) = r
      then h\<lparr>hsize := (hsize h)(bp := hsize h bp + hsize h r), hptr := (hptr h)(bp := hptr h r)\<rparr>
      else h\<lparr>hptr := (hptr h)(bp := r)\<rparr>)"

definition join_lower :: "u64 \<Rightarrow> u64 \<Rightarrow> uheap \<Rightarrow> uheap" where
  "join_lower bp p h =
     (if hplus p (hsize h p) = bp
      then h\<lparr>hsize := (hsize h)(p := hsize h p + hsize h bp), hptr := (hptr h)(p := hptr h bp)\<rparr>
      else h\<lparr>hptr := (hptr h)(p := bp)\<rparr>)"

definition free :: "u64 \<Rightarrow> uheap \<Rightarrow> uheap option" where
  "free ap h =
     (let bp = ap - 16 in
      map_option (\<lambda>p. (join_lower bp p (join_upper bp p h))\<lparr>freep := p\<rparr>) (free_find h bp (freep h)))"

text \<open>morecore() asks for at least 4096 units; the number of bytes is passed to sbrk() as an int.\<close>

definition morecore_units :: "u32 \<Rightarrow> u32" where
  "morecore_units nu = (if nu < 4096 then 4096 else nu)"

definition morecore_bytes :: "u32 \<Rightarrow> u32" where
  "morecore_bytes nu = ucast (ucast (morecore_units nu) * 16 :: u64)"

definition morecore :: "(u32 \<Rightarrow> 'e \<Rightarrow> u64 \<times> 'e) \<Rightarrow> u32 \<Rightarrow> uheap \<times> 'e \<Rightarrow> (u64 \<times> uheap \<times> 'e) option" where
  "morecore sbrk nu s =
     (case s of (h, e) \<Rightarrow>
      let (p, e) = sbrk (morecore_bytes nu) e
      in if p = -1 then Some (0, h, e)
         else map_option (\<lambda>h. (freep h, h, e)) (free (p + 16) (h\<lparr>hsize := (hsize h)(p := morecore_units nu)\<rparr>)))"

text \<open>malloc() has found the block \<open>p\<close>, the successor of \<open>prevp\<close>.\<close>

definition malloc_take :: "u32 \<Rightarrow> u64 \<Rightarrow> u64 \<Rightarrow> uheap \<Rightarrow> u64 \<times> uheap" where
  "malloc_take nunits prevp p h =
     (if hsize h p = nunits then (p + 16, h\<lparr>hptr := (hptr h)(prevp := hptr h p), freep := prevp\<rparr>)
      else
        (let left = hsize h p - nunits; q = hplus p left in
         (q + 16, h\<lparr>hsize := ((hsize h)(p := left))(q := nunits), freep := prevp\<rparr>)))"

partial_function (option) malloc_loop ::
  "(u32 \<Rightarrow> 'e \<Rightarrow> u64 \<times> 'e) \<Rightarrow> u32 \<Rightarrow> u64 \<Rightarrow> u64 \<Rightarrow> uheap \<times> 'e \<Rightarrow> (u64 \<times> uheap \<times> 'e) option" where
  "malloc_loop sbrk nunits prevp p s =
     (if hsize (fst s) p \<ge> nunits then
        (case malloc_take nunits prevp p (fst s) of (r, h) \<Rightarrow> Some (r, h, snd s))
      else if p = freep (fst s) then
        (case morecore sbrk nunits s of
           None \<Rightarrow> None
         | Some (q, s') \<Rightarrow> if q = 0 then Some (0, s') else malloc_loop sbrk nunits q (hptr (fst s') q) s')
      else malloc_loop sbrk nunits p (hptr (fst s) p) s)"

definition malloc_units :: "u32 \<Rightarrow> u32" where
  "malloc_units nbytes = ucast ((ucast nbytes + 16 - 1) div 16 + 1 :: u64)"

definition malloc_init :: "u64 \<Rightarrow> uheap \<Rightarrow> uheap" where
  "malloc_init base h =
     (if freep h = 0 then h\<lparr>hptr := (hptr h)(base := base), freep := base, hsize := (hsize h)(base := 0)\<rparr> else h)"

definition malloc ::
  "u64 \<Rightarrow> (u32 \<Rightarrow> 'e \<Rightarrow> u64 \<times> 'e) \<Rightarrow> u32 \<Rightarrow> uheap \<times> 'e \<Rightarrow> (u64 \<times> uheap \<times> 'e) option" where
  "malloc base sbrk nbytes s =
     (let h = malloc_init base (fst s) in
      malloc_loop sbrk (malloc_units nbytes) (freep h) (hptr h (freep h)) (h, snd s))"

section \<open>Blocks\<close>

text \<open>The first address after a block.\<close>

definition fin :: "uheap \<Rightarrow> u64 \<Rightarrow> nat" where
  "fin h x = unat x + 16 * unat (hsize h x)"

definition apart :: "uheap \<Rightarrow> u64 \<Rightarrow> u64 \<Rightarrow> bool" where
  "apart h x y \<longleftrightarrow> fin h x \<le> unat y \<or> fin h y \<le> unat x"

text \<open>
  \<open>blocks h base fs A lim\<close>: the free blocks \<open>fs\<close> are in order and, with the blocks \<open>A\<close> in use, lie apart
  from each other between the static header and \<open>lim\<close>.
\<close>

definition blocks :: "uheap \<Rightarrow> u64 \<Rightarrow> u64 list \<Rightarrow> u64 set \<Rightarrow> nat \<Rightarrow> bool" where
  "blocks h base fs A lim \<longleftrightarrow>
     sorted_wrt (\<lambda>x y. fin h x \<le> unat y) fs \<and>
     (\<forall>x \<in> set fs \<union> A. unat base + 16 \<le> unat x \<and> 0 < unat (hsize h x) \<and> fin h x \<le> lim) \<and>
     (\<forall>a \<in> A. \<forall>x \<in> set fs. apart h a x) \<and> (\<forall>a \<in> A. \<forall>b \<in> A. a \<noteq> b \<longrightarrow> apart h a b)"

text \<open>No free block ends where the next one begins.\<close>

fun gaps :: "uheap \<Rightarrow> u64 list \<Rightarrow> bool" where
  "gaps h (x # y # xs) \<longleftrightarrow> fin h x \<noteq> unat y \<and> gaps h (y # xs)"
| "gaps h _ \<longleftrightarrow> True"

definition heap_ok :: "uheap \<Rightarrow> u64 \<Rightarrow> u64 list \<Rightarrow> u64 set \<Rightarrow> nat \<Rightarrow> bool" where
  "heap_ok h base fs A lim \<longleftrightarrow>
     blocks h base fs A lim \<and> gaps h (base # fs) \<and> path (hptr h) base (base # fs) base \<and> hsize h base = 0 \<and>
     freep h \<in> set (base # fs) \<and> base \<noteq> 0 \<and> unat base + 16 \<le> lim \<and> lim < 2 ^ 36"

lemma gaps_append: "gaps h (xs @ y # ys) \<longleftrightarrow> gaps h (xs @ [y]) \<and> gaps h (y # ys)"
proof (induction xs rule: induct_list012)
  case (2 x)
  then show ?case by (cases ys) auto
qed auto

lemma gaps_parts: "gaps h (xs @ ys) \<Longrightarrow> gaps h xs \<and> gaps h ys"
proof (induction xs rule: induct_list012)
  case (2 x)
  then show ?case by (cases ys) auto
qed auto

lemma gaps_cong: "(\<And>x. x \<in> set xs \<Longrightarrow> hsize h x = hsize h' x) \<Longrightarrow> gaps h xs = gaps h' xs"
  by (induction h xs rule: gaps.induct) (auto simp: fin_def)

lemma fin_upd [simp]: "x \<noteq> y \<Longrightarrow> fin (h\<lparr>hsize := (hsize h)(y := n)\<rparr>) x = fin h x"
  "fin (h\<lparr>hptr := f\<rparr>) x = fin h x" "fin (h\<lparr>freep := p\<rparr>) x = fin h x"
  by (simp_all add: fin_def)

lemma unat_hplus:
  assumes "unat x + 16 * unat n < 2 ^ 64" shows "unat (hplus x n) = unat x + 16 * unat n"
proof -
  have "unat (16 * ucast n :: u64) = 16 * unat n"
    using assms unat_bound [of n] by (simp add: unat_word_ariths unat_ucast_small)
  then show ?thesis using assms by (simp add: hplus_def unat_word_ariths)
qed

lemma hplus_fin: "fin h x < 2 ^ 64 \<Longrightarrow> hplus x (hsize h x) = y \<longleftrightarrow> fin h x = unat y"
  using unat_hplus [of x "hsize h x"] by (auto simp: fin_def word_unat_eq_iff)

lemma blocksD:
  assumes "blocks h base fs A lim" and "x \<in> set fs \<union> A"
  shows "unat base + 16 \<le> unat x" and "0 < unat (hsize h x)" and "fin h x \<le> lim" and "unat x < fin h x"
proof -
  show "unat base + 16 \<le> unat x" "0 < unat (hsize h x)" "fin h x \<le> lim" using assms unfolding blocks_def by blast+
  then show "unat x < fin h x" by (simp add: fin_def)
qed

lemma blocks_apart:
  assumes "blocks h base fs A lim" and "a \<in> A"
  shows "x \<in> set fs \<Longrightarrow> apart h a x" and "b \<in> A \<Longrightarrow> a \<noteq> b \<Longrightarrow> apart h a b"
  using assms unfolding blocks_def by blast+

lemma blocks_sorted: "blocks h base fs A lim \<Longrightarrow> sorted_wrt (\<lambda>x y. fin h x \<le> unat y) fs"
  by (simp add: blocks_def)

lemma distinct_if_sorted: "sorted_wrt P xs \<Longrightarrow> (\<And>x. x \<in> set xs \<Longrightarrow> \<not> P x x) \<Longrightarrow> distinct xs"
  by (induction xs) auto

lemma blocks_distinct:
  assumes b: "blocks h base fs A lim"
  shows "distinct (base # fs)" and "set (base # fs) \<inter> A = {}"
proof -
  have "\<not> fin h x \<le> unat x" if "x \<in> set fs" for x using blocksD(4) [OF b, of x] that by simp
  then have "distinct fs" using blocks_sorted [OF b] by (rule distinct_if_sorted [rotated])
  moreover have "base \<noteq> x" if "x \<in> set fs \<union> A" for x using blocksD(1) [OF b that] by auto
  ultimately show "distinct (base # fs)" by auto
  have "a \<notin> set fs" if "a \<in> A" for a
    using blocks_apart(1) [OF b that, of a] blocksD(4) [OF b, of a] that by (auto simp: apart_def)
  then show "set (base # fs) \<inter> A = {}" using \<open>\<And>x. x \<in> set fs \<union> A \<Longrightarrow> base \<noteq> x\<close> by auto
qed

section \<open>The search of free()\<close>

lemma path_succ:
  "path nxt a xs z \<Longrightarrow> sorted_wrt R xs \<Longrightarrow> x \<in> set xs \<Longrightarrow> R x (nxt x) \<and> nxt x \<in> set xs \<or> nxt x = z"
proof (induction xs arbitrary: a)
  case (Cons y ys)
  then show ?case by (cases ys) auto
qed simp

lemma free_find_walk:
  "path (hptr h) p xs z \<Longrightarrow> (\<And>x. x \<in> set xs \<Longrightarrow> \<not> free_stops h bp x) \<Longrightarrow> free_find h bp p = free_find h bp z"
  by (induction xs arbitrary: p) (auto simp: free_find.simps)

text \<open>The search ends at the last block below \<open>bp\<close>, wherever it starts.\<close>

lemma free_find_works:
  assumes pa: "path (hptr h) base (pre @ q # post) base" and so: "sorted_wrt (<) (pre @ q # post)"
    and lo: "\<And>x. x \<in> set (pre @ [q]) \<Longrightarrow> x < bp" and hi: "\<And>x. x \<in> set post \<Longrightarrow> bp < x" and p: "p \<in> set (pre @ q # post)"
  shows "free_find h bp p = Some q"
proof -
  let ?n = "hptr h"
  have p1: "path ?n base pre q" and p2: "path ?n (?n q) post base" using pa by auto
  have base: "base \<in> set (pre @ [q])" using p1 by (cases pre) auto
  have n1: "\<not> free_stops h bp x" if "x \<in> set pre" for x
    using path_succ [OF p1, of "(<)" x] so lo that by (fastforce simp: free_stops_def sorted_wrt_append)
  have n2: "\<not> free_stops h bp x" if "x \<in> set post" for x
    using path_succ [OF p2, of "(<)" x] so hi [OF that] hi lo [OF base] that by (fastforce simp: free_stops_def sorted_wrt_append)
  have "?n q \<in> set post \<and> q < ?n q \<or> ?n q = base" using p2 so by (cases post) (auto simp: sorted_wrt_append)
  then have st: "free_stops h bp q" using lo [of q] lo [OF base] hi so base by (auto simp: free_stops_def sorted_wrt_append)
  have e: "free_find h bp q = Some q" using st by (simp add: free_find.simps)
  have low: "free_find h bp x = Some q" if x: "x \<in> set pre" for x
  proof -
    obtain u v where "pre = u @ x # v" using split_list [OF x] by blast
    then have "path ?n x (x # v) q" using p1 by auto
    then show ?thesis using free_find_walk [of h x "x # v" q bp] n1 \<open>pre = u @ x # v\<close> e by auto
  qed
  have "free_find h bp x = Some q" if x: "x \<in> set post" for x
  proof -
    obtain u v where "post = u @ x # v" using split_list [OF x] by blast
    then have "path ?n x (x # v) base" using p2 by auto
    then have "free_find h bp x = free_find h bp base"
      using free_find_walk [of h x "x # v" base bp] n2 \<open>post = u @ x # v\<close> by auto
    then show ?thesis using low [of base] base e by auto
  qed
  then show ?thesis using p low e by auto
qed

lemma split_below:
  fixes b :: u64
  assumes "sorted_wrt (<) (x # xs)" and "x < b" and "b \<notin> set xs"
  shows "\<exists>pre q post. x # xs = pre @ q # post \<and> (\<forall>y \<in> set (pre @ [q]). y < b) \<and> (\<forall>y \<in> set post. b < y)"
  using assms
proof (induction xs arbitrary: x)
  case (Cons y ys)
  show ?case
  proof (cases "y < b")
    case True
    then obtain pre q post where "y # ys = pre @ q # post" "\<forall>y \<in> set (pre @ [q]). y < b" "\<forall>y \<in> set post. b < y"
      using Cons.IH [of y] Cons.prems by auto
    then show ?thesis using Cons.prems(2) by (intro exI [of _ "x # pre"]) auto
  next
    case False
    then have "b < y" using Cons.prems(3) by auto
    then have "\<forall>z \<in> set (y # ys). b < z" using Cons.prems(1) by auto
    then show ?thesis using Cons.prems(2) by (intro exI [of _ "[]"] exI [of _ x] exI [of _ "y # ys"]) auto
  qed
next
  case Nil
  then show ?case by (intro exI [of _ "[]"] exI [of _ x]) auto
qed

section \<open>Joining blocks\<close>

lemma gaps_last: "(\<And>x. x \<in> set xs \<Longrightarrow> hsize h x = hsize h' x) \<Longrightarrow> gaps h (xs @ [q]) = gaps h' (xs @ [q])"
proof (induction xs rule: induct_list012)
  case (3 x y zs)
  then show ?case by (auto simp: fin_def)
qed (auto simp: fin_def)

lemma gaps_first:
  "fin h x = fin h' x' \<Longrightarrow> (\<And>y. y \<in> set xs \<Longrightarrow> hsize h y = hsize h' y) \<Longrightarrow> gaps h (x # xs) = gaps h' (x' # xs)"
  using gaps_cong [of xs h h'] by (cases xs) auto

text \<open>The bytes of the free blocks.\<close>

definition covered :: "uheap \<Rightarrow> u64 list \<Rightarrow> nat set" where
  "covered h fs = (\<Union>x \<in> set fs. {unat x..<fin h x})"

lemma blocks_insert:
  assumes b: "blocks h base (us @ vs) A lim" and a: "bp \<in> A"
    and lo: "\<And>x. x \<in> set us \<Longrightarrow> x < bp" and hi: "\<And>x. x \<in> set vs \<Longrightarrow> bp < x"
  shows "blocks h base (us @ bp # vs) (A - {bp}) lim"
proof -
  have "fin h x \<le> unat bp" if "x \<in> set us" for x
    using blocks_apart(1) [OF b a, of x] blocksD(4) [OF b, of bp] lo [OF that] that a by (auto simp: apart_def word_less_nat_alt)
  moreover have "fin h bp \<le> unat x" if "x \<in> set vs" for x
    using blocks_apart(1) [OF b a, of x] blocksD(4) [OF b, of x] hi [OF that] that by (auto simp: apart_def word_less_nat_alt)
  ultimately have s: "sorted_wrt (\<lambda>x y. fin h x \<le> unat y) (us @ bp # vs)"
    using blocks_sorted [OF b] by (auto simp: sorted_wrt_append)
  have "apart h c x" if "c \<in> A - {bp}" "x \<in> set (us @ bp # vs)" for c x
    using blocks_apart [OF b, of c] that a by auto
  then show ?thesis using s b a unfolding blocks_def by auto
qed

lemma sorted_fin_cong:
  "(\<And>x. x \<in> set xs \<Longrightarrow> fin h x = fin h' x) \<Longrightarrow>
     sorted_wrt (\<lambda>x y. fin h x \<le> unat y) xs = sorted_wrt (\<lambda>x y. fin h' x \<le> unat y) xs"
  by (induction xs) auto

lemma blocks_merge:
  assumes b: "blocks h base (us @ x # y # vs) A lim" and j: "fin h x = unat y" and l: "lim < 2 ^ 36"
    and h': "h' = h\<lparr>hsize := (hsize h)(x := hsize h x + hsize h y), hptr := f\<rparr>"
  shows "fin h' x = fin h y" and "blocks h' base (us @ x # vs) A lim" and "covered h' (us @ x # vs) = covered h (us @ x # y # vs)"
    and "unat (hsize h' x) = unat (hsize h x) + unat (hsize h y)"
proof -
  have d: "x \<noteq> y" "x \<notin> set us" "x \<notin> set vs" "x \<notin> A" using blocks_distinct [OF b] by auto
  have y: "fin h y \<le> lim" "unat y < fin h y" using blocksD(3,4) [OF b, of y] by auto
  have x: "unat x < fin h x" using blocksD(4) [OF b, of x] by auto
  have "unat (hsize h x) + unat (hsize h y) < 2 ^ 32" using j y(1) l by (simp add: fin_def)
  then show s: "unat (hsize h' x) = unat (hsize h x) + unat (hsize h y)" by (simp add: h' unat_word_ariths)
  then show f: "fin h' x = fin h y" using j by (simp add: fin_def h')
  have o: "fin h' z = fin h z" if "z \<noteq> x" for z using that by (simp add: fin_def h')
  have oA: "fin h' a = fin h a" if "a \<in> A" for a using that d(4) o [of a] by auto
  have ol: "fin h' z = fin h z" if "z \<in> set us \<union> set vs" for z using that d(2,3) o [of z] by auto
  have "sorted_wrt (\<lambda>x y. fin h' x \<le> unat y) (us @ x # vs)"
    using blocks_sorted [OF b] f ol sorted_fin_cong [of us h' h] sorted_fin_cong [of vs h' h]
    by (simp add: sorted_wrt_append)
  moreover have "apart h' a z" if "a \<in> A" "z \<in> set (us @ x # vs)" for a z
  proof (cases "z = x")
    case True
    have "apart h a x" "apart h a y" "unat a < fin h a" using blocks_apart(1) [OF b that(1)] blocksD(4) [OF b, of a] that(1) by auto
    then show ?thesis using True f oA [OF that(1)] j by (auto simp: apart_def)
  next
    case False
    then have "z \<in> set us \<union> set vs" using that(2) by auto
    then show ?thesis using blocks_apart(1) [OF b that(1), of z] oA [OF that(1)] ol [of z] by (auto simp: apart_def)
  qed
  moreover have "apart h' a c" if "a \<in> A" "c \<in> A" "a \<noteq> c" for a c
    using blocks_apart(2) [OF b that(1)] that oA by (auto simp: apart_def)
  moreover have "unat base + 16 \<le> unat z \<and> 0 < unat (hsize h' z) \<and> fin h' z \<le> lim" if "z \<in> set (us @ x # vs) \<union> A" for z
    using blocksD(1-3) [OF b, of z] blocksD(2) [OF b, of x] that f y(1) s o [of z] by (cases "z = x") (auto simp: h')
  ultimately show "blocks h' base (us @ x # vs) A lim" unfolding blocks_def by blast
  have "{unat x..<fin h' x} = {unat x..<fin h x} \<union> {unat y..<fin h y}" using f j x y(2) by auto
  moreover have "(\<Union>z \<in> set us \<union> set vs. {unat z..<fin h' z}) = (\<Union>z \<in> set us \<union> set vs. {unat z..<fin h z})"
    using ol by (intro SUP_cong) auto
  ultimately show "covered h' (us @ x # vs) = covered h (us @ x # y # vs)" unfolding covered_def by auto
qed

lemma blocks_ptr [simp]: "blocks (h\<lparr>hptr := f\<rparr>) base fs A lim = blocks h base fs A lim"
  "blocks (h\<lparr>freep := p\<rparr>) base fs A lim = blocks h base fs A lim"
  by (simp_all add: blocks_def apart_def fin_def)

lemma gaps_ptr [simp]: "gaps (h\<lparr>hptr := f\<rparr>) xs = gaps h xs" "gaps (h\<lparr>freep := p\<rparr>) xs = gaps h xs"
  by (rule gaps_cong; simp)+

lemma covered_ptr [simp]: "covered (h\<lparr>hptr := f\<rparr>) xs = covered h xs" "covered (h\<lparr>freep := p\<rparr>) xs = covered h xs"
  by (simp_all add: covered_def)

lemma heap_okD:
  assumes "heap_ok h base fs A lim"
  shows "blocks h base fs A lim" "gaps h (base # fs)" "path (hptr h) base (base # fs) base" "hsize h base = 0"
    "freep h \<in> set (base # fs)" "base \<noteq> 0" "unat base + 16 \<le> lim" "lim < 2 ^ 36"
  using assms unfolding heap_ok_def by blast+

text \<open>The state between the two parts of free(): \<open>bp\<close> has its successor, \<open>q\<close> not yet.\<close>

definition half_freed :: "uheap \<Rightarrow> uheap \<Rightarrow> u64 \<Rightarrow> u64 list \<Rightarrow> u64 \<Rightarrow> u64 list \<Rightarrow> u64 \<Rightarrow> u64 set \<Rightarrow> nat \<Rightarrow> bool" where
  "half_freed h h1 base us bp post q A lim \<longleftrightarrow>
     blocks h1 base (us @ bp # post) A lim \<and> gaps h1 (bp # post) \<and> gaps h1 (base # us) \<and>
     path (hptr h1) (hptr h1 bp) post base \<and> path (hptr h1) base (butlast (base # us)) q \<and>
     (\<forall>x. x \<noteq> bp \<longrightarrow> hsize h1 x = hsize h x) \<and> unat (hsize h bp) \<le> unat (hsize h1 bp)"

lemma join_upper_works:
  assumes ok: "heap_ok h base (us @ post) A lim" and a: "bp \<in> A" and q: "last (base # us) = q"
    and lo: "\<And>x. x \<in> set us \<Longrightarrow> x < bp" and hi: "\<And>x. x \<in> set post \<Longrightarrow> bp < x"
  shows "\<exists>post'. half_freed h (join_upper bp q h) base us bp post' q (A - {bp}) lim \<and>
    covered (join_upper bp q h) (us @ bp # post') = covered h (us @ post) \<union> {unat bp..<fin h bp}"
proof -
  note b = heap_okD(1) [OF ok]
  have bp: "fin h bp \<le> lim" "unat base < fin h bp" "bp \<noteq> base" "bp \<notin> set (us @ post)"
    using blocksD [OF b, of bp] blocks_distinct [OF b] a by auto
  have L: "base # us = butlast (base # us) @ [q]" using q by (metis append_butlast_last_id list.distinct(1))
  have "path (hptr h) base ((butlast (base # us) @ [q]) @ post) base" using heap_okD(3) [OF ok] unfolding L [symmetric] by simp
  then have p: "path (hptr h) base (butlast (base # us)) q" "path (hptr h) (hptr h q) post base" by auto
  have nb: "bp \<notin> set (butlast (base # us))" using bp(3,4) by (auto dest: in_set_butlastD)
  have i: "blocks h base (us @ bp # post) (A - {bp}) lim" using blocks_insert [OF b a lo hi] .
  have g: "gaps h (base # us)" "gaps h post" using heap_okD(2) [OF ok] gaps_parts [of h "base # us" post] by simp_all
  have c: "covered h (us @ bp # post) = covered h (us @ post) \<union> {unat bp..<fin h bp}" by (auto simp: covered_def)
  have e: "hplus bp (hsize h bp) = r \<longleftrightarrow> fin h bp = unat r" for r using heap_okD(8) [OF ok] bp(1) by (intro hplus_fin) simp
  show ?thesis
  proof (cases "fin h bp = unat (hptr h q)")
    case True
    then obtain r vs where post: "post = r # vs" "hptr h q = r" using p(2) bp(2) by (cases post) auto
    have r: "r \<noteq> bp" "bp \<notin> set vs" using bp(4) post by auto
    define h1 where "h1 = h\<lparr>hsize := (hsize h)(bp := hsize h bp + hsize h r), hptr := (hptr h)(bp := hptr h r)\<rparr>"
    have ju: "join_upper bp q h = h1" using True post(2) e by (simp add: join_upper_def h1_def Let_def)
    note m = blocks_merge [OF i [unfolded post(1)] True [unfolded post(2)] heap_okD(8) [OF ok] h1_def]
    have "gaps h1 (bp # vs) = gaps h (r # vs)" using m(1) r by (intro gaps_first) (auto simp: h1_def)
    moreover have "gaps h1 (base # us) = gaps h (base # us)" using bp(3,4) by (intro gaps_cong) (auto simp: h1_def)
    ultimately have "half_freed h h1 base us bp vs q (A - {bp}) lim"
      using m(2,4) g p nb post r unfolding half_freed_def by (auto simp: h1_def)
    then show ?thesis unfolding ju using m(3) c post(1) by auto
  next
    case False
    define h1 where "h1 = h\<lparr>hptr := (hptr h)(bp := hptr h q)\<rparr>"
    have ju: "join_upper bp q h = h1" using False e by (simp add: join_upper_def h1_def Let_def)
    have "gaps h (bp # post)" using False p(2) g(2) by (cases post) auto
    then have "half_freed h h1 base us bp post q (A - {bp}) lim"
      using i g(1) p nb bp(4) unfolding half_freed_def by (auto simp: h1_def)
    then show ?thesis unfolding ju using c by (auto simp: h1_def)
  qed
qed

lemma join_lower_works:
  assumes hf: "half_freed h h1 base us bp post q A lim" and q: "last (base # us) = q" and s0: "hsize h1 base = 0"
    and l: "base \<noteq> 0" "unat base + 16 \<le> lim" "lim < 2 ^ 36"
  shows "\<exists>fs. heap_ok ((join_lower bp q h1)\<lparr>freep := q\<rparr>) base fs A lim \<and>
    covered (join_lower bp q h1) fs = covered h1 (us @ bp # post) \<and>
    (\<forall>x. x \<noteq> q \<longrightarrow> hsize (join_lower bp q h1) x = hsize h1 x) \<and>
    (\<exists>x \<in> set fs. unat (hsize h1 bp) \<le> unat (hsize (join_lower bp q h1) x))"
proof -
  note H = hf [unfolded half_freed_def]
  have b: "blocks h1 base (us @ bp # post) A lim" and g: "gaps h1 (bp # post)" "gaps h1 (base # us)"
    and p: "path (hptr h1) (hptr h1 bp) post base" "path (hptr h1) base (butlast (base # us)) q" using H by blast+
  have L: "base # us = butlast (base # us) @ [q]" using q by (metis append_butlast_last_id list.distinct(1))
  have d: "distinct ((butlast (base # us) @ [q]) @ bp # post)" using blocks_distinct(1) [OF b] unfolding L [symmetric] by simp
  have fq: "fin h1 q \<le> lim" using blocksD(3) [OF b, of q] q s0 l(2) by (cases us) (auto simp: fin_def)
  have e: "hplus q (hsize h1 q) = bp \<longleftrightarrow> fin h1 q = unat bp" using l(3) fq by (intro hplus_fin) simp
  show ?thesis
  proof (cases "fin h1 q = unat bp")
    case True
    have "us \<noteq> []"
    proof
      assume "us = []"
      then have "fin h1 q = unat base" using q s0 by (simp add: fin_def)
      then show False using True blocksD(1) [OF b, of bp] by simp
    qed
    then obtain vs where us: "us = vs @ [q]" using q by (cases us rule: rev_cases) auto
    define h2 where "h2 = h1\<lparr>hsize := (hsize h1)(q := hsize h1 q + hsize h1 bp), hptr := (hptr h1)(q := hptr h1 bp)\<rparr>"
    have jl: "join_lower bp q h1 = h2" using True e by (simp add: join_lower_def h2_def)
    have b': "blocks h1 base (vs @ q # bp # post) A lim" using b us by simp
    note m = blocks_merge [OF b' True l(3) h2_def]
    have ne: "q \<noteq> base" "q \<notin> set vs" "q \<notin> set post" using d us by auto
    have "gaps h2 (q # post) = gaps h1 (bp # post)" using m(1) ne by (intro gaps_first) (auto simp: h2_def)
    moreover have "gaps h2 ((base # vs) @ [q]) = gaps h1 ((base # vs) @ [q])" using ne by (intro gaps_last) (auto simp: h2_def)
    ultimately have "gaps h2 (base # vs @ q # post)" using g us gaps_append [of h2 "base # vs" q post] by simp
    moreover have "path (hptr h2) base (base # vs @ q # post) base"
      using p us ne by (auto simp: h2_def butlast_append)
    ultimately have "heap_ok (h2\<lparr>freep := q\<rparr>) base (vs @ q # post) A lim"
      using m(2) s0 l ne unfolding heap_ok_def by (simp add: h2_def)
    moreover have "unat (hsize h1 bp) \<le> unat (hsize h2 q)" using m(4) by simp
    ultimately show ?thesis unfolding jl using m(3) us by (intro exI [of _ "vs @ q # post"]) (auto simp: h2_def)
  next
    case False
    define h2 where "h2 = h1\<lparr>hptr := (hptr h1)(q := bp)\<rparr>"
    have jl: "join_lower bp q h1 = h2" using False e by (simp add: join_lower_def h2_def)
    have "gaps h1 (q # bp # post)" using False g(1) by simp
    then have "gaps h1 ((butlast (base # us) @ [q]) @ bp # post)"
      using gaps_append [of h1 "butlast (base # us)" q "bp # post"] g(2) L by simp
    then have "gaps h1 (base # us @ bp # post)" unfolding L [symmetric] by simp
    moreover have "path (hptr h2) base ((butlast (base # us) @ [q]) @ bp # post) base" using p d by (auto simp: h2_def)
    then have "path (hptr h2) base (base # us @ bp # post) base" unfolding L [symmetric] by simp
    ultimately have "heap_ok (h2\<lparr>freep := q\<rparr>) base (us @ bp # post) A lim"
      using b s0 l q unfolding heap_ok_def by (auto simp: h2_def)
    then show ?thesis unfolding jl by (intro exI [of _ "us @ bp # post"]) (auto simp: h2_def)
  qed
qed

section \<open>free()\<close>

lemma free_works:
  assumes ok: "heap_ok h base fs A lim" and a: "bp \<in> A"
  shows "\<exists>h' fs'. free (bp + 16) h = Some h' \<and> heap_ok h' base fs' (A - {bp}) lim \<and>
    covered h' fs' = covered h fs \<union> {unat bp..<fin h bp} \<and> (\<forall>x \<in> A - {bp}. hsize h' x = hsize h x) \<and>
    (\<exists>x \<in> set fs'. unat (hsize h bp) \<le> unat (hsize h' x))"
proof -
  note b = heap_okD(1) [OF ok]
  have so: "sorted_wrt (<) (base # fs)"
  proof -
    have "x < y" if "x \<in> set fs" "fin h x \<le> unat y" for x y
      using blocksD(4) [OF b, of x] that by (simp add: word_less_nat_alt)
    then have "sorted_wrt (<) fs" by (intro sorted_wrt_mono_rel [OF _ blocks_sorted [OF b]])
    moreover have "base < x" if "x \<in> set fs" for x using blocksD(1) [OF b, of x] that by (simp add: word_less_nat_alt)
    ultimately show ?thesis by simp
  qed
  have bb: "base < bp" "bp \<notin> set fs" using blocksD(1) [OF b, of bp] blocks_distinct(2) [OF b] a by (auto simp: word_less_nat_alt)
  obtain pre q post where L: "base # fs = pre @ q # post" "\<forall>y \<in> set (pre @ [q]). y < bp" "\<forall>y \<in> set post. bp < y"
    using split_below [OF so bb] by blast
  obtain us where us: "pre @ [q] = base # us" "fs = us @ post" "last (base # us) = q"
  proof -
    have "(pre @ [q]) @ post = base # fs" using L(1) by simp
    then obtain us where u: "pre @ [q] = base # us" "us @ post = fs" by (cases "pre @ [q]") auto
    then show thesis using that [of us] by (metis last_snoc)
  qed
  have f: "free_find h bp (freep h) = Some q"
    using free_find_works [of h base pre q post bp "freep h"] heap_okD(3,5) [OF ok] so L by simp
  obtain post' where hf: "half_freed h (join_upper bp q h) base us bp post' q (A - {bp}) lim"
    and c1: "covered (join_upper bp q h) (us @ bp # post') = covered h fs \<union> {unat bp..<fin h bp}"
    using join_upper_works [of h base us post A lim bp q] ok a us L(2,3) by auto
  define h1 where "h1 = join_upper bp q h"
  have s1: "\<forall>x. x \<noteq> bp \<longrightarrow> hsize h1 x = hsize h x" "unat (hsize h bp) \<le> unat (hsize h1 bp)"
    using hf unfolding half_freed_def h1_def by blast+
  have "hsize h1 base = 0" using s1(1) bb(1) heap_okD(4) [OF ok] by auto
  then obtain fs' where r: "heap_ok ((join_lower bp q h1)\<lparr>freep := q\<rparr>) base fs' (A - {bp}) lim"
    "covered (join_lower bp q h1) fs' = covered h fs \<union> {unat bp..<fin h bp}"
    "\<forall>x. x \<noteq> q \<longrightarrow> hsize (join_lower bp q h1) x = hsize h1 x"
    "\<exists>x \<in> set fs'. unat (hsize h1 bp) \<le> unat (hsize (join_lower bp q h1) x)"
    using join_lower_works [OF hf [folded h1_def] us(3)] heap_okD(6-8) [OF ok] c1 [folded h1_def] by auto
  have "q \<notin> A" using blocks_distinct(2) [OF b] L(1) by (metis Int_iff empty_iff in_set_conv_decomp)
  then have "hsize (join_lower bp q h1) x = hsize h x" if "x \<in> A - {bp}" for x
    using r(3) [rule_format, of x] s1(1) [rule_format, of x] that by auto
  moreover have "free (bp + 16) h = Some ((join_lower bp q h1)\<lparr>freep := q\<rparr>)" using f by (simp add: free_def h1_def)
  moreover obtain x where "x \<in> set fs'" "unat (hsize h bp) \<le> unat (hsize (join_lower bp q h1) x)" using r(4) s1(2) le_trans by blast
  ultimately show ?thesis using r(1,2) by (intro exI [of _ "(join_lower bp q h1)\<lparr>freep := q\<rparr>"] exI [of _ fs']) auto
qed

section \<open>Taking a block\<close>

lemma blocks_remove:
  assumes b: "blocks h base (us @ x # vs) A lim"
  shows "blocks h base (us @ vs) (insert x A) lim"
proof -
  have "sorted_wrt (\<lambda>x y. fin h x \<le> unat y) (us @ vs)" using blocks_sorted [OF b] by (simp add: sorted_wrt_append)
  moreover have "apart h x z" if "z \<in> set (us @ vs)" for z
    using blocks_sorted [OF b] that by (auto simp: sorted_wrt_append apart_def)
  moreover have "apart h a x \<and> apart h x a" if "a \<in> A" for a
    using blocks_apart(1) [OF b that, of x] by (auto simp: apart_def)
  ultimately show ?thesis using b unfolding blocks_def by auto
qed

lemma blocks_split:
  assumes b: "blocks h base (us @ x # vs) A lim" and n: "0 < unat l" "0 < unat n" "unat l + unat n = unat (hsize h x)"
    and q: "unat q = unat x + 16 * unat l" and h': "h' = h\<lparr>hsize := ((hsize h)(x := l))(q := n), freep := f\<rparr>"
  shows "blocks h' base (us @ x # vs) (insert q A) lim" and "fin h' x = unat q" and "fin h' q = fin h x"
    and "\<And>z. z \<in> set us \<union> set vs \<union> A \<union> {base} \<Longrightarrow> hsize h' z = hsize h z \<and> fin h' z = fin h z" and "q \<notin> set (base # us @ x # vs)" and "q \<notin> A"
proof -
  have bx: "unat base + 16 \<le> unat x" "fin h x \<le> lim" using blocksD [OF b, of x] by auto
  have qx: "unat x < unat q" "unat q < fin h x" using n q by (simp_all add: fin_def)
  have s: "\<forall>z \<in> set us. fin h z \<le> unat x" "\<forall>z \<in> set vs. fin h x \<le> unat z" using blocks_sorted [OF b] by (auto simp: sorted_wrt_append)
  have d: "x \<noteq> base" "x \<notin> set us" "x \<notin> set vs" "x \<notin> A" using blocks_distinct [OF b] by auto
  have a: "fin h z \<le> unat x \<or> fin h x \<le> unat z" if "z \<in> set us \<union> set vs \<union> A" for z
    using s blocks_apart(1) [OF b, of z x] that by (auto simp: apart_def)
  have lt: "unat z < fin h z" if "z \<in> set us \<union> set vs \<union> A" for z using blocksD(4) [OF b, of z] that by auto
  have qn: "q \<noteq> z" if "z \<in> set us \<union> set vs \<union> A" for z using a [OF that] lt [OF that] qx by auto
  show qq: "q \<notin> set (base # us @ x # vs)" "q \<notin> A" using qn qx bx(1) by fastforce+
  show f: "fin h' x = unat q" "fin h' q = fin h x" using q n qx by (auto simp: h' fin_def)
  show o: "hsize h' z = hsize h z \<and> fin h' z = fin h z" if "z \<in> set us \<union> set vs \<union> A \<union> {base}" for z
  proof -
    have "z \<noteq> x" "z \<noteq> q" using that d qq by auto
    then show ?thesis by (simp add: h' fin_def)
  qed
  have o': "fin h' z = fin h z" if "z \<in> set us \<union> set vs" for z using o [of z] that by auto
  have "\<forall>z \<in> set vs. fin h' x \<le> unat z" using s(2) f(1) qx by auto
  then have S: "sorted_wrt (\<lambda>x y. fin h' x \<le> unat y) (us @ x # vs)"
    using blocks_sorted [OF b] o' sorted_fin_cong [of us h' h] sorted_fin_cong [of vs h' h] by (simp add: sorted_wrt_append)
  have 1: "apart h' q z \<and> apart h' z q" if "z \<in> set us \<union> set vs \<union> A" for z
    using a [OF that] o [of z] that f qx by (auto simp: apart_def)
  have 2: "apart h' q x" using f by (simp add: apart_def)
  have 3: "apart h' c x" if "c \<in> A" for c using a [of c] o [of c] that f qx by (auto simp: apart_def)
  have 4: "apart h' c z" if "c \<in> A" "z \<in> set us \<union> set vs \<union> A" "c \<noteq> z" for c z
    using blocks_apart [OF b that(1)] that o [of c] o [of z] by (auto simp: apart_def)
  have 5: "apart h' c z" if "c \<in> A" "z \<in> set us \<union> set vs" for c z
    using 4 [of c z] that blocks_distinct(2) [OF b] by auto
  have 6: "unat base + 16 \<le> unat z \<and> 0 < unat (hsize h' z) \<and> fin h' z \<le> lim" if "z \<in> set us \<union> set vs \<union> A" for z
    using blocksD [OF b, of z] o [of z] that by auto
  have 7: "unat base + 16 \<le> unat q \<and> 0 < unat (hsize h' q) \<and> fin h' q \<le> lim"
    "unat base + 16 \<le> unat x \<and> 0 < unat (hsize h' x) \<and> fin h' x \<le> lim"
    using f bx qx n by (auto simp: h')
  have "\<forall>c \<in> insert q A. \<forall>z \<in> set (us @ x # vs). apart h' c z" using 1 2 3 5 by auto
  moreover have "\<forall>c \<in> insert q A. \<forall>z \<in> insert q A. c \<noteq> z \<longrightarrow> apart h' c z" using 1 4 by auto
  moreover have "\<forall>z \<in> set (us @ x # vs) \<union> insert q A. unat base + 16 \<le> unat z \<and> 0 < unat (hsize h' z) \<and> fin h' z \<le> lim"
    using 6 7 by auto
  ultimately show "blocks h' base (us @ x # vs) (insert q A) lim" using S unfolding blocks_def by blast
qed

text \<open>What malloc() promises about the block \<open>b\<close> that it takes from the heap \<open>h\<close>.\<close>

definition taken :: "uheap \<Rightarrow> uheap \<Rightarrow> u64 \<Rightarrow> u64 list \<Rightarrow> u64 list \<Rightarrow> u64 set \<Rightarrow> nat \<Rightarrow> u32 \<Rightarrow> u64 \<Rightarrow> bool" where
  "taken h h' base fs fs' A lim n b \<longleftrightarrow>
     b \<notin> A \<and> heap_ok h' base fs' (insert b A) lim \<and> hsize h' b = n \<and> (\<forall>a \<in> A. hsize h' a = hsize h a) \<and>
     covered h fs = covered h' fs' \<union> {unat b..<fin h' b}"

lemma ring_split:
  assumes ok: "heap_ok h base fs A lim" and L: "base # fs = u @ prev # x # v"
  shows "\<exists>us. u @ [prev] = base # us \<and> fs = us @ x # v \<and> prev \<in> set (base # us) \<and> x \<notin> A \<and>
    hptr h prev = x \<and> path (hptr h) base u prev \<and> path (hptr h) (hptr h x) v base \<and>
    prev \<notin> set u \<and> prev \<notin> set v \<and> x \<notin> set u \<and> prev \<noteq> x \<and> (\<forall>z \<in> set v. fin h x \<le> unat z) \<and> fin h prev \<le> unat x"
proof -
  note b = heap_okD(1) [OF ok]
  have "(u @ [prev]) @ x # v = base # fs" using L by simp
  then obtain us where us: "u @ [prev] = base # us" "fs = us @ x # v" by (cases "u @ [prev]") auto
  have d: "distinct (u @ prev # x # v)" using blocks_distinct(1) [OF b] unfolding L .
  have xA: "x \<notin> A" using blocks_distinct(2) [OF b] us(2) by auto
  have "set (u @ [prev]) = set (base # us)" using us(1) by simp
  then have m: "prev \<in> set (base # us)" by auto
  have s: "\<forall>z \<in> set v. fin h x \<le> unat z" "\<forall>z \<in> set us. fin h z \<le> unat x"
    using blocks_sorted [OF b] us(2) by (auto simp: sorted_wrt_append)
  have "fin h base \<le> unat x" using heap_okD(4) [OF ok] blocksD(1) [OF b, of x] us(2) by (simp add: fin_def)
  then have "fin h prev \<le> unat x" using m s(2) by auto
  then show ?thesis using us m d xA s(1) heap_okD(3) [OF ok] unfolding L by auto
qed

lemma take_exact:
  assumes ok: "heap_ok h base fs A lim" and L: "base # fs = u @ prev # x # v" and n: "hsize h x = n"
  shows "\<exists>b h' fs'. malloc_take n prev x h = (b + 16, h') \<and> taken h h' base fs fs' A lim n b"
proof -
  obtain us where us: "u @ [prev] = base # us" "fs = us @ x # v" "prev \<in> set (base # us)" and r: "x \<notin> A"
    "path (hptr h) base u prev" "path (hptr h) (hptr h x) v base" "prev \<notin> set u" "prev \<notin> set v" "prev \<noteq> x"
    "\<forall>z \<in> set v. fin h x \<le> unat z" "fin h prev \<le> unat x" using ring_split [OF ok L] by blast
  have bx: "blocks h base (us @ x # v) A lim" using heap_okD(1) [OF ok] us(2) by simp
  define h' where "h' = h\<lparr>hptr := (hptr h)(prev := hptr h x), freep := prev\<rparr>"
  have "gaps h (u @ [prev])" "gaps h v"
    using heap_okD(2) [OF ok] gaps_parts [of h "u @ [prev]" "x # v"] gaps_parts [of h "u @ [prev, x]" v] unfolding L by simp_all
  then have "gaps h (u @ prev # v)" using r(7,8) blocksD(4) [OF bx, of x] gaps_append [of h u prev v] by (cases v) auto
  then have "gaps h ((u @ [prev]) @ v)" by simp
  then have g: "gaps h (base # us @ v)" unfolding us(1) by simp
  have "path (hptr h') base ((u @ [prev]) @ v) base" using r by (auto simp: h'_def)
  then have p: "path (hptr h') base (base # us @ v) base" unfolding us(1) by simp
  have "heap_ok h' base (us @ v) (insert x A) lim"
    using blocks_remove [OF bx] g p heap_okD(4,6-8) [OF ok] us(3) unfolding heap_ok_def by (auto simp: h'_def)
  moreover have "covered h fs = covered h' (us @ v) \<union> {unat x..<fin h' x}" by (auto simp: us(2) covered_def h'_def)
  moreover have "malloc_take n prev x h = (x + 16, h')" using n by (simp add: malloc_take_def h'_def)
  moreover have "hsize h' x = n" "\<forall>a \<in> A. hsize h' a = hsize h a" using n by (simp_all add: h'_def)
  ultimately show ?thesis using r(1) unfolding taken_def by blast
qed

lemma take_tail:
  assumes ok: "heap_ok h base fs A lim" and L: "base # fs = u @ prev # x # v" and n: "0 < n" "n < hsize h x"
  shows "\<exists>b h' fs'. malloc_take n prev x h = (b + 16, h') \<and> taken h h' base fs fs' A lim n b"
proof -
  let ?l = "hsize h x - n" and ?q = "hplus x (hsize h x - n)"
  obtain us where us: "fs = us @ x # v" "prev \<in> set (base # us)" "\<forall>z \<in> set v. fin h x \<le> unat z"
    using ring_split [OF ok L] by blast
  have bx: "blocks h base (us @ x # v) A lim" using heap_okD(1) [OF ok] us(1) by simp
  have nn: "0 < unat n" "unat n < unat (hsize h x)" using n by (auto simp: word_less_nat_alt)
  have "unat ?l = unat (hsize h x) - unat n" using n(2) by (intro unat_sub) simp
  then have sp: "0 < unat ?l" "unat ?l + unat n = unat (hsize h x)" using nn by simp_all
  have q: "unat ?q = unat x + 16 * unat ?l"
    using blocksD(3) [OF bx, of x] heap_okD(8) [OF ok] sp by (intro unat_hplus) (simp add: fin_def)
  define h' where "h' = h\<lparr>hsize := ((hsize h)(x := ?l))(?q := n), freep := prev\<rparr>"
  note s = blocks_split [OF bx sp(1) nn(1) sp(2) q h'_def]
  have fx: "fin h' x < fin h x" using s(2) q sp nn by (simp add: fin_def)
  have "gaps h ((base # us) @ [x])" "gaps h (x # v)" using heap_okD(2) [OF ok] gaps_append [of h "base # us" x v] us(1) by auto
  then have "gaps h' ((base # us) @ [x])" "gaps h v" using gaps_last [of "base # us" h' h x] s(4) gaps_parts [of h "[x]" v] by auto
  moreover have "gaps h' v" using \<open>gaps h v\<close> gaps_cong [of v h' h] s(4) by auto
  ultimately have "gaps h' (base # us @ x # v)" using us(3) fx gaps_append [of h' "base # us" x v] by (cases v) auto
  moreover have "path (hptr h') base (base # us @ x # v) base" using heap_okD(3) [OF ok] us(1) by (simp add: h'_def)
  moreover have "hsize h' base = 0" using s(4) [of base] heap_okD(4) [OF ok] by simp
  ultimately have "heap_ok h' base fs (insert ?q A) lim"
    using s(1) heap_okD(6-8) [OF ok] us(1,2) unfolding heap_ok_def by (auto simp: h'_def)
  moreover have "covered h fs = covered h' fs \<union> {unat ?q..<fin h' ?q}"
  proof -
    have "{unat x..<fin h x} = {unat x..<fin h' x} \<union> {unat ?q..<fin h' ?q}" using s(2,3) q sp fx by auto
    moreover have "(\<Union>z \<in> set us \<union> set v. {unat z..<fin h z}) = (\<Union>z \<in> set us \<union> set v. {unat z..<fin h' z})"
      using s(4) by (intro SUP_cong) auto
    ultimately show ?thesis unfolding covered_def us(1) by auto
  qed
  moreover have "hsize h x \<noteq> n" using n(2) by simp
  then have "malloc_take n prev x h = (?q + 16, h')" by (simp add: malloc_take_def h'_def Let_def)
  ultimately show ?thesis using s(4,6) unfolding taken_def by (intro exI [of _ ?q] exI [of _ h'] exI [of _ fs]) (auto simp: h'_def)
qed

lemma take_works:
  assumes "heap_ok h base fs A lim" and "base # fs = u @ prev # x # v" and "0 < n" and "n \<le> hsize h x"
  shows "\<exists>b h' fs'. malloc_take n prev x h = (b + 16, h') \<and> taken h h' base fs fs' A lim n b"
  using take_exact [OF assms(1,2)] take_tail [OF assms(1-3)] assms(4) by (cases "hsize h x = n") (auto simp: order_less_le)

section \<open>The search of malloc()\<close>

text \<open>The blocks after \<open>freep\<close>, around the ring and back to it.\<close>

lemma ring_from:
  assumes "path nxt base (base # fs) base" and "f \<in> set (base # fs)" and "distinct (base # fs)"
  shows "\<exists>ys. path nxt (nxt f) ys f \<and> set ys \<union> {f} = set (base # fs) \<and> f \<notin> set ys"
proof -
  obtain u v where l: "base # fs = u @ f # v" using split_list [OF assms(2)] by blast
  then have "path nxt base u f" "path nxt (nxt f) v base" using assms(1) by (metis path_append path.simps(2))+
  then have "path nxt (nxt f) (v @ u) f" by auto
  moreover have "set (v @ u) \<union> {f} = set (base # fs)" "f \<notin> set (v @ u)" using assms(3) unfolding l by auto
  ultimately show ?thesis by blast
qed

lemma malloc_search:
  assumes "path (hptr h) p ys (freep h)" and "hptr h prevp = p" and "freep h \<notin> set ys"
  shows "(\<exists>prev x. x \<in> set ys \<union> {freep h} \<and> prev \<in> insert prevp (set ys) \<and> hptr h prev = x \<and> n \<le> hsize h x \<and>
        malloc_loop sbrk n prevp p (h, e) = (case malloc_take n prev x h of (r, h') \<Rightarrow> Some (r, h', e))) \<or>
     (\<forall>x \<in> set ys \<union> {freep h}. \<not> n \<le> hsize h x) \<and>
     malloc_loop sbrk n prevp p (h, e) =
       (case morecore sbrk n (h, e) of
          None \<Rightarrow> None
        | Some (q, s') \<Rightarrow> if q = 0 then Some (0, s') else malloc_loop sbrk n q (hptr (fst s') q) s')"
  using assms
proof (induction ys arbitrary: p prevp)
  case Nil
  then show ?case by (subst (1 2) malloc_loop.simps) (auto split: prod.splits)
next
  case (Cons y ys)
  show ?case
  proof (cases "n \<le> hsize h p \<or> p = freep h")
    case True
    then show ?thesis using Cons.prems by (subst (1 2) malloc_loop.simps) (auto split: prod.splits)
  next
    case False
    then have "malloc_loop sbrk n prevp p (h, e) = malloc_loop sbrk n p (hptr h p) (h, e)" by (subst malloc_loop.simps) simp
    then show ?thesis using Cons.IH [of "hptr h p" p] Cons.prems False by auto
  qed
qed

lemma ring_pred:
  assumes "path nxt base (base # fs) base" and "prev \<in> set (base # fs)" and "nxt prev \<noteq> base"
  shows "\<exists>u v. base # fs = u @ prev # nxt prev # v"
proof -
  obtain u w where l: "base # fs = u @ prev # w" using split_list [OF assms(2)] by blast
  then have "path nxt (nxt prev) w base" using assms(1) by (metis path_append path.simps(2))
  then obtain v where "w = nxt prev # v" using assms(3) by (cases w) auto
  then show ?thesis using l by blast
qed

lemma malloc_find:
  assumes ok: "heap_ok h base fs A lim" and n: "0 < n"
  shows "(\<exists>b h' fs'. malloc_loop sbrk n (freep h) (hptr h (freep h)) (h, e) = Some (b + 16, h', e) \<and> taken h h' base fs fs' A lim n b) \<or>
    (\<forall>x \<in> set fs. \<not> n \<le> hsize h x) \<and>
    malloc_loop sbrk n (freep h) (hptr h (freep h)) (h, e) =
       (case morecore sbrk n (h, e) of
          None \<Rightarrow> None
        | Some (q, s') \<Rightarrow> if q = 0 then Some (0, s') else malloc_loop sbrk n q (hptr (fst s') q) s')"
proof -
  obtain ys where ys: "path (hptr h) (hptr h (freep h)) ys (freep h)" "set ys \<union> {freep h} = set (base # fs)" "freep h \<notin> set ys"
    using ring_from [OF heap_okD(3,5) [OF ok] blocks_distinct(1) [OF heap_okD(1) [OF ok]]] by blast
  show ?thesis using malloc_search [OF ys(1) refl ys(3), of n sbrk e]
  proof
    assume "\<exists>prev x. x \<in> set ys \<union> {freep h} \<and> prev \<in> insert (freep h) (set ys) \<and> hptr h prev = x \<and> n \<le> hsize h x \<and>
      malloc_loop sbrk n (freep h) (hptr h (freep h)) (h, e) = (case malloc_take n prev x h of (r, h') \<Rightarrow> Some (r, h', e))"
    then obtain prev x where q: "prev \<in> insert (freep h) (set ys)" and x: "hptr h prev = x" and px: "n \<le> hsize h x"
      "malloc_loop sbrk n (freep h) (hptr h (freep h)) (h, e) = (case malloc_take n prev x h of (r, h') \<Rightarrow> Some (r, h', e))"
      by (elim exE conjE) (rule that)
    note p2 = px [folded x]
    have "prev \<in> set (base # fs)" using q unfolding ys(2) [symmetric] by simp
    note p = this p2
    have "hptr h prev \<noteq> base" using p(2) n heap_okD(4) [OF ok] by (auto simp: word_less_nat_alt word_le_nat_alt)
    then obtain u v where L: "base # fs = u @ prev # hptr h prev # v" using ring_pred [OF heap_okD(3) [OF ok] p(1)] by blast
    obtain b h' fs' where "malloc_take n prev (hptr h prev) h = (b + 16, h')" "taken h h' base fs fs' A lim n b"
      using take_works [OF ok L n p(2)] by blast
    then show ?thesis using p(3) by (intro disjI1 exI [of _ b] exI [of _ h'] exI [of _ fs']) simp
  next
    have "set fs \<subseteq> set ys \<union> {freep h}" using ys(2) by auto
    then show "(\<forall>x \<in> set ys \<union> {freep h}. \<not> n \<le> hsize h x) \<and> malloc_loop sbrk n (freep h) (hptr h (freep h)) (h, e) =
       (case morecore sbrk n (h, e) of None \<Rightarrow> None
        | Some (q, s') \<Rightarrow> if q = 0 then Some (0, s') else malloc_loop sbrk n q (hptr (fst s') q) s') \<Longrightarrow> ?thesis" by blast
  qed
qed

section \<open>Growing the heap\<close>

lemma blocks_grow:
  assumes b: "blocks h base fs A lim" and p: "lim \<le> unat p" "unat p + 16 * unat nu = lim'" and n: "0 < nu" and bl: "unat base + 16 \<le> lim"
  shows "blocks (h\<lparr>hsize := (hsize h)(p := nu)\<rparr>) base fs (insert p A) lim'"
proof -
  let ?h = "h\<lparr>hsize := (hsize h)(p := nu)\<rparr>"
  have np: "p \<noteq> x" if "x \<in> set fs \<union> A" for x using blocksD(3,4) [OF b that] p(1) by auto
  have o: "fin ?h x = fin h x \<and> hsize ?h x = hsize h x" if "x \<in> set fs \<union> A" for x using np [OF that] by (auto simp: fin_def)
  have fp: "fin ?h p = lim'" using p(2) by (simp add: fin_def)
  have S: "sorted_wrt (\<lambda>x y. fin ?h x \<le> unat y) fs" using sorted_fin_cong [of fs ?h h] o blocks_sorted [OF b] by simp
  have 1: "apart ?h x p \<and> apart ?h p x" if "x \<in> set fs \<union> A" for x using o [OF that] blocksD(3) [OF b that] p(1) by (simp add: apart_def)
  have 2: "apart ?h a x" if "a \<in> A" "x \<in> set fs \<union> A" "a \<noteq> x" for a x
    using blocks_apart [OF b that(1)] that o [of a] o [of x] by (auto simp: apart_def)
  have 3: "apart ?h a x" if "a \<in> A" "x \<in> set fs" for a x using 2 [of a x] that blocks_distinct(2) [OF b] by auto
  have 4: "unat base + 16 \<le> unat x \<and> 0 < unat (hsize ?h x) \<and> fin ?h x \<le> lim'" if "x \<in> set fs \<union> A" for x
    using blocksD [OF b that] o [OF that] p by auto
  have 5: "unat base + 16 \<le> unat p \<and> 0 < unat (hsize ?h p) \<and> fin ?h p \<le> lim'" using fp p n bl by (simp add: word_less_nat_alt)
  have "\<forall>a \<in> insert p A. \<forall>x \<in> set fs. apart ?h a x" using 1 3 by blast
  moreover have "\<forall>a \<in> insert p A. \<forall>x \<in> insert p A. a \<noteq> x \<longrightarrow> apart ?h a x" using 1 2 by blast
  moreover have "\<forall>x \<in> set fs \<union> insert p A. unat base + 16 \<le> unat x \<and> 0 < unat (hsize ?h x) \<and> fin ?h x \<le> lim'" using 4 5 by blast
  ultimately show ?thesis using S unfolding blocks_def by blast
qed

lemma grow_works:
  assumes ok: "heap_ok h base fs A lim" and p: "lim \<le> unat p" "unat p + 16 * unat nu = lim'" "lim' < 2 ^ 36" and n: "0 < nu"
  shows "\<exists>h' fs'. free (p + 16) (h\<lparr>hsize := (hsize h)(p := nu)\<rparr>) = Some h' \<and> heap_ok h' base fs' A lim' \<and>
    covered h' fs' = covered h fs \<union> {unat p..<lim'} \<and> (\<forall>a \<in> A. hsize h' a = hsize h a) \<and>
    (\<exists>x \<in> set fs'. nu \<le> hsize h' x) \<and> freep h' \<noteq> 0"
proof -
  note b = heap_okD(1) [OF ok]
  let ?h = "h\<lparr>hsize := (hsize h)(p := nu)\<rparr>"
  have np: "p \<noteq> x" if "x \<in> set fs \<union> A" for x using blocksD(3,4) [OF b that] p(1) by auto
  have pb: "p \<noteq> base" using heap_okD(7) [OF ok] p(1) by auto
  have "gaps ?h (base # fs) = gaps h (base # fs)" using np pb by (intro gaps_cong) auto
  then have ok': "heap_ok ?h base fs (insert p A) lim'"
    using blocks_grow [OF b p(1,2) n heap_okD(7) [OF ok]] heap_okD(2-8) [OF ok] pb p unfolding heap_ok_def by auto
  have pA: "p \<notin> A" "insert p A - {p} = A" using np by blast+
  obtain h' fs' where f: "free (p + 16) ?h = Some h'" "heap_ok h' base fs' A lim'" "covered h' fs' = covered ?h fs \<union> {unat p..<fin ?h p}"
    "\<forall>x \<in> A. hsize h' x = hsize ?h x" "\<exists>x \<in> set fs'. unat (hsize ?h p) \<le> unat (hsize h' x)"
    using free_works [OF ok', of p] unfolding pA(2) by blast
  have "fin ?h x = fin h x" if "x \<in> set fs" for x using np [of x] that by (auto simp: fin_def)
  then have "covered ?h fs = covered h fs" unfolding covered_def by (intro SUP_cong) auto
  moreover have "fin ?h p = lim'" using p(2) by (simp add: fin_def)
  moreover have "\<forall>a \<in> A. hsize h' a = hsize h a" using f(4) pA(1) by auto
  moreover have "freep h' \<noteq> 0"
    using heap_okD(5,6) [OF f(2)] blocksD(1) [OF heap_okD(1) [OF f(2)], of "freep h'"] by auto
  moreover have "\<exists>x \<in> set fs'. nu \<le> hsize h' x" using f(5) by (auto simp: word_le_nat_alt)
  ultimately show ?thesis using f(1-3) by (intro exI [of _ h'] exI [of _ fs']) simp
qed

section \<open>malloc()\<close>

text \<open>The invariant of the allocator, before its first call too: \<open>A\<close> are the blocks in use.\<close>

definition heap_inv :: "uheap \<Rightarrow> u64 \<Rightarrow> u64 set \<Rightarrow> nat \<Rightarrow> bool" where
  "heap_inv h base A lim \<longleftrightarrow>
     base \<noteq> 0 \<and> unat base + 16 \<le> lim \<and> lim < 2 ^ 36 \<and> (if freep h = 0 then A = {} else \<exists>fs. heap_ok h base fs A lim)"

lemma heap_ok_inv: "heap_ok h base fs A lim \<Longrightarrow> heap_inv h base A lim"
proof -
  assume ok: "heap_ok h base fs A lim"
  have "freep h \<noteq> 0" using heap_okD(5,6) [OF ok] blocksD(1) [OF heap_okD(1) [OF ok], of "freep h"] by auto
  then show ?thesis using ok heap_okD(6-8) [OF ok] by (auto simp: heap_inv_def)
qed

lemma heap_inv_ok: "heap_inv h base A lim \<Longrightarrow> a \<in> A \<Longrightarrow> \<exists>fs. heap_ok h base fs A lim"
  unfolding heap_inv_def by (cases "freep h = 0") auto

lemma malloc_init_ok:
  assumes "heap_inv h base A lim"
  shows "\<exists>fs. heap_ok (malloc_init base h) base fs A lim \<and> (\<forall>a \<in> A. hsize (malloc_init base h) a = hsize h a)"
proof (cases "freep h = 0")
  case True
  have "heap_ok (malloc_init base h) base [] {} lim"
    using assms True by (simp add: heap_ok_def heap_inv_def malloc_init_def blocks_def)
  then show ?thesis using assms True by (auto simp: heap_inv_def)
qed (use assms in \<open>auto simp: heap_inv_def malloc_init_def\<close>)

lemma unat_malloc_units: "unat (malloc_units n) = (unat n + 15) div 16 + 1"
proof -
  have n: "unat n < 2 ^ 32" using unat_bound [of n] by simp
  have a: "unat (ucast n + 16 - 1 :: u64) = unat n + 15"
    using n by (simp add: unat_word_ariths unat_ucast_small)
  have b: "(unat n + 15) div 16 + 1 < 2 ^ 32" using n by simp
  have "unat ((ucast n + 16 - 1) div 16 + 1 :: u64) = (unat n + 15) div 16 + 1"
    using a b unat_bound [of "(ucast n + 16 - 1) div 16 :: u64"] by (simp add: unat_word_ariths unat_div)
  then show ?thesis using b by (simp add: malloc_units_def unat_ucast_small)
qed

text \<open>The invariant speaks of the headers of the blocks only.\<close>

lemma heap_ok_cong:
  assumes ok: "heap_ok h base fs A lim" and p: "\<And>x. x \<in> set (base # fs) \<Longrightarrow> hptr h' x = hptr h x"
    and s: "\<And>x. x \<in> set (base # fs) \<union> A \<Longrightarrow> hsize h' x = hsize h x" and f: "freep h' = freep h"
  shows "heap_ok h' base fs A lim"
proof -
  note b = heap_okD(1) [OF ok]
  have e: "fin h' x = fin h x" if "x \<in> set fs \<union> A" for x using s [of x] that by (auto simp: fin_def)
  have "sorted_wrt (\<lambda>x y. fin h' x \<le> unat y) fs" using blocks_sorted [OF b] sorted_fin_cong [of fs h' h] e by simp
  moreover have "apart h' x y = apart h x y" if "x \<in> set fs \<union> A" "y \<in> set fs \<union> A" for x y using e that by (simp add: apart_def)
  ultimately have "blocks h' base fs A lim" using b e s unfolding blocks_def by auto
  moreover have "gaps h' (base # fs) = gaps h (base # fs)" using s by (intro gaps_cong) auto
  moreover have "path (hptr h') base (base # fs) base = path (hptr h) base (base # fs) base" using p by (intro path_cong) auto
  ultimately show ?thesis using heap_okD(2-8) [OF ok] s [of base] f unfolding heap_ok_def by simp
qed

text \<open>The contract of sbrk() on which malloc() relies: it moves the end of the heap by \<open>n\<close> and returns the old end, or fails.\<close>

locale heap_growth =
  fixes sbrk :: "u32 \<Rightarrow> 'e \<Rightarrow> u64 \<times> 'e" and brk :: "'e \<Rightarrow> nat"
  assumes grows: "0 \<le> sint n \<Longrightarrow> brk e < 2 ^ 36 \<Longrightarrow> sbrk n e = (p, e') \<Longrightarrow>
    p = -1 \<and> brk e' = brk e \<or> unat p = brk e \<and> brk e' = brk e + unat n"
begin

lemma morecore_works:
  assumes ok: "heap_ok h base fs A (brk e)" and r: "brk e + 2 ^ 31 \<le> 2 ^ 36" and n: "16 * unat n < 2 ^ 31"
  shows "(\<exists>e'. morecore sbrk n (h, e) = Some (0, h, e') \<and> brk e' = brk e \<and> fst (sbrk (morecore_bytes n) e) = -1) \<or>
    (\<exists>h' fs' e'. morecore sbrk n (h, e) = Some (freep h', h', e') \<and> freep h' \<noteq> 0 \<and> heap_ok h' base fs' A (brk e') \<and>
       (\<forall>a \<in> A. hsize h' a = hsize h a) \<and> (\<exists>x \<in> set fs'. n \<le> hsize h' x))"
proof -
  define nu where "nu = morecore_units n"
  have nu: "16 * unat nu < 2 ^ 31" "0 < nu" "n \<le> nu" using n by (auto simp: nu_def morecore_units_def word_less_nat_alt word_le_nat_alt)
  let ?b = "morecore_bytes n"
  have b: "unat ?b = 16 * unat nu" using nu(1) by (simp add: morecore_bytes_def nu_def [symmetric] unat_ucast_small unat_word_ariths)
  then have s: "0 \<le> sint ?b" using nu(1) by (simp add: sint_cases del: of_nat_unat)
  obtain p e' where sb: "sbrk ?b e = (p, e')" by fastforce
  have m: "morecore sbrk n (h, e) = (if p = -1 then Some (0, h, e')
      else map_option (\<lambda>h. (freep h, h, e')) (free (p + 16) (h\<lparr>hsize := (hsize h)(p := nu)\<rparr>)))"
    using sb by (simp add: morecore_def nu_def)
  show ?thesis
  proof (cases "p = -1 \<and> brk e' = brk e")
    case True
    then show ?thesis using m sb by auto
  next
    case False
    then have p: "unat p = brk e" "brk e' = brk e + 16 * unat nu" using grows [OF s _ sb] heap_okD(8) [OF ok] b by auto
    have "unat (-1 :: u64) = 2 ^ 64 - 1" by (simp add: unsigned_minus_1_eq_mask mask_eq_exp_minus_1)
    then have "p \<noteq> -1" using p(1) heap_okD(8) [OF ok] by auto
    moreover have "brk e \<le> unat p" "unat p + 16 * unat nu = brk e'" "brk e' < 2 ^ 36" using p nu r by auto
    ultimately obtain h' fs' x where "free (p + 16) (h\<lparr>hsize := (hsize h)(p := nu)\<rparr>) = Some h'" "heap_ok h' base fs' A (brk e')"
      "\<forall>a \<in> A. hsize h' a = hsize h a" "x \<in> set fs'" "n \<le> hsize h' x" "freep h' \<noteq> 0"
      using grow_works [OF ok, of p nu "brk e'"] nu(2,3) order_trans by blast
    then show ?thesis using m \<open>p \<noteq> -1\<close> by (intro disjI2 exI [of _ h'] exI [of _ fs'] exI [of _ e']) auto
  qed
qed

text \<open>
  malloc() returns, keeps the invariant, leaves the blocks in use alone, and gives a new block with room
  for \<open>nbytes\<close>, or a null pointer.
\<close>

lemma malloc_works:
  assumes inv: "heap_inv h base A (brk e)" and r: "brk e + 2 ^ 31 \<le> 2 ^ 36" and n: "unat nbytes + 32 \<le> 2 ^ 31"
  shows "\<exists>r h' e'. malloc base sbrk nbytes (h, e) = Some (r, h', e') \<and> (\<forall>a \<in> A. hsize h' a = hsize h a) \<and>
    (r = 0 \<and> heap_inv h' base A (brk e') \<and> fst (sbrk (morecore_bytes (malloc_units nbytes)) e) = -1 \<or>
     (\<exists>b. r = b + 16 \<and> b \<notin> A \<and> heap_inv h' base (insert b A) (brk e') \<and> unat nbytes + 16 \<le> 16 * unat (hsize h' b)))"
proof -
  let ?n = "malloc_units nbytes"
  have n1: "0 < ?n" "16 * unat ?n < 2 ^ 31" "unat nbytes + 16 \<le> 16 * unat ?n"
    using n by (auto simp: unat_malloc_units word_less_nat_alt)
  define h0 where "h0 = malloc_init base h"
  obtain fs where ok: "heap_ok h0 base fs A (brk e)" and s0: "\<forall>a \<in> A. hsize h0 a = hsize h a"
    using malloc_init_ok [OF inv] unfolding h0_def by blast
  have m: "malloc base sbrk nbytes (h, e) = malloc_loop sbrk ?n (freep h0) (hptr h0 (freep h0)) (h0, e)"
    by (simp add: malloc_def h0_def Let_def)
  have result: ?thesis if "malloc base sbrk nbytes (h, e) = Some (b + 16, h', e')" "taken h1 h' base fs1 fs' A (brk e') ?n b"
    "\<forall>a \<in> A. hsize h1 a = hsize h a" for b h' e' h1 fs1 fs'
    using that heap_ok_inv n1(3) unfolding taken_def by (intro exI [of _ "b + 16"] exI [of _ h'] exI [of _ e']) auto
  show ?thesis using malloc_find [OF ok n1(1), of sbrk e]
  proof (elim disjE exE conjE)
    fix b h' fs' assume "malloc_loop sbrk ?n (freep h0) (hptr h0 (freep h0)) (h0, e) = Some (b + 16, h', e)" "taken h0 h' base fs fs' A (brk e) ?n b"
    then show ?thesis using result m s0 by simp
  next
    assume l: "malloc_loop sbrk ?n (freep h0) (hptr h0 (freep h0)) (h0, e) =
       (case morecore sbrk ?n (h0, e) of None \<Rightarrow> None
        | Some (q, s') \<Rightarrow> if q = 0 then Some (0, s') else malloc_loop sbrk ?n q (hptr (fst s') q) s')"
    show ?thesis using morecore_works [OF ok r n1(2)]
    proof (elim disjE exE conjE)
      fix e' assume "morecore sbrk ?n (h0, e) = Some (0, h0, e')" "brk e' = brk e" "fst (sbrk (morecore_bytes ?n) e) = -1"
      then show ?thesis using l m s0 heap_ok_inv [OF ok] by (intro exI [of _ 0] exI [of _ h0] exI [of _ e']) simp
    next
      fix h1 fs1 e1 assume c: "morecore sbrk ?n (h0, e) = Some (freep h1, h1, e1)" "freep h1 \<noteq> 0"
        "\<forall>a \<in> A. hsize h1 a = hsize h0 a" "\<exists>x \<in> set fs1. ?n \<le> hsize h1 x" and ok1: "heap_ok h1 base fs1 A (brk e1)"
      obtain b h' fs' where "malloc_loop sbrk ?n (freep h1) (hptr h1 (freep h1)) (h1, e1) = Some (b + 16, h', e1)"
        "taken h1 h' base fs1 fs' A (brk e1) ?n b"
        using malloc_find [OF ok1 n1(1), of sbrk e1] c(4) by blast
      then show ?thesis using result l m c(1-3) s0 by simp
    qed
  qed
qed

end

end
