(* ===== verification/Vm_Grow.thy ===== *)
theory Vm_Grow
  imports Vm_Copy
begin

text \<open>
  uvmalloc() of kernel/vm.c: with enough free pages it gives the process fresh pages, filled with zeros.
\<close>

text \<open>
  \<open>grown pt s ps k a perm t qs fs\<close>: from \<open>s\<close> to \<open>t\<close> the pages from \<open>a\<close> on have been mapped to the frames \<open>fs\<close>,
  which come from the free list and hold zeros; other entries, and memory that is neither free nor part of
  the table, are kept.
\<close>

definition grown ::
  "u64 \<Rightarrow> 'z machine_scheme \<Rightarrow> u64 list \<Rightarrow> u64 \<Rightarrow> u64 \<Rightarrow> 'z machine_scheme \<Rightarrow> u64 list \<Rightarrow> u64 list \<Rightarrow> bool" where
  "grown pt s ps a perm t qs fs \<longleftrightarrow>
     pt_inv pt t qs \<and> set qs \<subseteq> set ps \<and> length ps \<le> length qs + 3 * length fs \<and> distinct fs \<and>
     set fs \<subseteq> set ps - set qs - tables (pmem t) pt \<and> tables (pmem t) pt \<subseteq> tables (pmem s) pt \<union> (set ps - set qs) \<and>
     (\<forall>x. page_of x \<notin> set ps \<union> tables (pmem s) pt \<longrightarrow> pmem t x = pmem s x) \<and>
     (\<forall>x. page_of x \<in> set fs \<longrightarrow> pmem t x = 0) \<and>
     (\<forall>vb<MAXVA. pte_of (pmem t) pt vb =
        (if unat a \<le> unat vb \<and> unat vb < unat a + 4096 * length fs
         then PA2PTE (fs ! ((unat vb - unat a) div 4096)) OR perm OR PTE_V else pte_of (pmem s) pt vb))"

lemma mappages_page:
  assumes inv: "pt_inv pt s ps" and al: "aligned a" and a: "unat a + 4096 \<le> 2 ^ 38" and un: "pte_of (pmem s) pt a AND PTE_V = 0"
    and n: "2 \<le> length ps"
  shows "\<exists>t qs. mappages pt a PGSIZE pa perm s = Ok 0 t \<and> vm_ext pt s ps t qs \<and> length ps \<le> length qs + 2 \<and>
    (\<forall>vb<MAXVA. pte_of (pmem t) pt vb = (if page_of vb = a then PA2PTE pa OR perm OR PTE_V else pte_of (pmem s) pt vb))"
proof -
  have va: "a < MAXVA" using a by (simp add: layout_defs word_less_nat_alt)
  have m: "mappages pt a PGSIZE pa perm s = mappages_loop pt a a pa perm s"
    using al by (simp add: mappages_def PGSIZE_def aligned_def)
  from inv va un show ?thesis
  proof (cases rule: map_one [where v = "PA2PTE pa OR perm OR PTE_V"])
    case (full t)
    then show ?thesis using n by simp
  next
    case (mapped r t qs u)
    have "mappages_loop pt a a pa perm s = Ok 0 u" using mapped(1-4) by (subst mappages_loop.simps) simp
    then show ?thesis using mapped(5-7) page_of_aligned [OF al] unfolding m by (intro exI [of _ u] exI [of _ qs]) simp
  qed
qed

text \<open>The page taken by kalloc() and cleared by memset() leaves the table alone.\<close>

lemma kalloc_page:
  assumes inv: "pt_inv pt s (r # ps)"
  shows "\<exists>t. kalloc s = Ok r t \<and> r \<noteq> 0 \<and> frame_ok s r \<and> r \<notin> set ps \<and> r \<notin> tables (pmem s) pt \<and>
    (let u = t\<lparr>pmem := memset (pmem t) r 0 (ucast PGSIZE)\<rparr> in
     pt_inv pt u ps \<and> kend u = kend s \<and> (\<forall>x. pmem u x = (if page_of x = r then 0 else pmem s x)) \<and>
     tables (pmem u) pt = tables (pmem s) pt \<and> (\<forall>va. pte_of (pmem u) pt va = pte_of (pmem s) pt va))"
proof -
  have f: "free_pages s (r # ps)" using inv by (simp add: pt_inv_def)
  have r: "frame_ok s r" "r \<notin> set ps" "r \<noteq> 0" using f frame_ok_nonzero by (auto simp: free_pages_def)
  have rt: "r \<notin> tables (pmem s) pt" using inv by (auto simp: pt_inv_def)
  have al: "aligned r" using r(1) by (simp add: frame_ok_def)
  obtain t where t: "kalloc s = Ok r t" "free_pages t ps" "kend t = kend s" "\<forall>x. pmem t x = (if page_of x = r then 5 else pmem s x)"
    using kalloc_cons [OF f] by blast
  define u where "u = t\<lparr>pmem := memset (pmem t) r 0 (ucast PGSIZE)\<rparr>"
  have um: "pmem u x = (if page_of x = r then 0 else pmem s x)" for x
    using t(4) by (simp add: u_def PGSIZE_def memset_page [OF al])
  have "\<forall>x. page_of x \<in> tables (pmem s) pt \<longrightarrow> pmem u x = pmem s x" using um rt by auto
  note T = tables_frame [OF pt_inv_aligned [OF inv] this]
  have "free_pages u ps"
  proof (rule free_pages_frame [OF t(2)])
    fix x assume "page_of x \<in> set ps"
    then show "pmem u x = pmem t x" using um t(4) r(2) by auto
  qed (simp_all add: u_def)
  then have "pt_inv pt u ps" using inv T(1,2) t(3) by (auto simp: pt_inv_def tree_inj_def frame_ok_def u_def)
  moreover have "kend u = kend s" using t(3) by (simp add: u_def)
  ultimately have "pt_inv pt u ps \<and> kend u = kend s \<and> (\<forall>x. pmem u x = (if page_of x = r then 0 else pmem s x)) \<and>
     tables (pmem u) pt = tables (pmem s) pt \<and> (\<forall>va. pte_of (pmem u) pt va = pte_of (pmem s) pt va)"
    using um T(2,3) by (intro conjI allI)
  then show ?thesis using t(1) r rt unfolding Let_def u_def by (intro exI [of _ t] conjI) simp_all
qed


lemma grown_nil: "pt_inv pt s ps \<Longrightarrow> grown pt s ps a perm s ps []"
  by (auto simp: grown_def)

lemma div_page: "x + 4096 \<le> y \<Longrightarrow> (y - x) div 4096 = Suc ((y - (x + 4096)) div 4096)" for x y :: nat
proof -
  assume "x + 4096 \<le> y"
  then obtain z where "y = x + 4096 + z" using le_Suc_ex by blast
  then show ?thesis by simp
qed

lemma grown_step:
  assumes al: "aligned a" and up: "unat (a + 4096) = unat a + 4096" and rp: "r \<notin> set ps" "r \<notin> tables (pmem s) pt"
    and u: "\<forall>x. pmem u x = (if page_of x = r then 0 else pmem s x)" "tables (pmem u) pt = tables (pmem s) pt"
      "\<forall>va. pte_of (pmem u) pt va = pte_of (pmem s) pt va"
    and v: "vm_ext pt u ps v ps1" "length ps \<le> length ps1 + 2"
      "\<forall>vb<MAXVA. pte_of (pmem v) pt vb = (if page_of vb = a then PA2PTE r OR perm OR PTE_V else pte_of (pmem u) pt vb)"
    and g: "grown pt v ps1 (a + 4096) perm t qs fs"
  shows "grown pt s (r # ps) a perm t qs (r # fs)"
proof -
  have s1: "set ps1 \<subseteq> set ps" "tables (pmem v) pt \<subseteq> tables (pmem s) pt \<union> (set ps - set ps1)"
    "\<forall>x. page_of x \<notin> set ps \<union> tables (pmem s) pt \<longrightarrow> pmem v x = pmem u x"
    using v(1) u(2) by (auto simp: vm_ext_def dest: set_mono_suffix)
  have s2: "set qs \<subseteq> set ps1" "length ps1 \<le> length qs + 3 * length fs" "distinct fs" "set fs \<subseteq> set ps1 - set qs - tables (pmem t) pt"
    "tables (pmem t) pt \<subseteq> tables (pmem v) pt \<union> (set ps1 - set qs)"
    "\<forall>x. page_of x \<notin> set ps1 \<union> tables (pmem v) pt \<longrightarrow> pmem t x = pmem v x" "\<forall>x. page_of x \<in> set fs \<longrightarrow> pmem t x = 0" "pt_inv pt t qs"
    using g unfolding grown_def by blast+
  have r: "r \<notin> set ps1 \<union> tables (pmem v) pt" "r \<notin> tables (pmem t) pt" "r \<notin> set fs" "r \<notin> set qs"
    using rp s1(1,2) s2(1,4,5) by blast+
  have keep: "pmem t x = pmem u x" if "page_of x \<notin> set ps \<union> tables (pmem s) pt" for x
  proof -
    have "page_of x \<notin> set ps1 \<union> tables (pmem v) pt" using that s1(1,2) by blast
    then show ?thesis using s1(3) s2(6) that by simp
  qed
  have "pmem t x = 0" if "page_of x = r" for x using keep [of x] u(1) rp that by simp
  moreover have "pmem t x = pmem s x" if "page_of x \<notin> set (r # ps) \<union> tables (pmem s) pt" for x
    using keep [of x] u(1) that by simp
  moreover have "pte_of (pmem t) pt vb = (if unat a \<le> unat vb \<and> unat vb < unat a + 4096 * length (r # fs)
         then PA2PTE ((r # fs) ! ((unat vb - unat a) div 4096)) OR perm OR PTE_V else pte_of (pmem s) pt vb)" if vb: "vb < MAXVA" for vb
  proof -
    have t1: "pte_of (pmem t) pt vb = (if unat a + 4096 \<le> unat vb \<and> unat vb < unat a + 4096 + 4096 * length fs
         then PA2PTE (fs ! ((unat vb - (unat a + 4096)) div 4096)) OR perm OR PTE_V else pte_of (pmem v) pt vb)"
      using g vb unfolding grown_def up by simp
    consider "unat vb < unat a \<or> unat a + 4096 * Suc (length fs) \<le> unat vb" | "unat a \<le> unat vb" "unat vb < unat a + 4096"
      | "unat a + 4096 \<le> unat vb" "unat vb < unat a + 4096 * Suc (length fs)" by linarith
    then show ?thesis
    proof cases
      case 3
      then have "(unat vb - unat a) div 4096 = Suc ((unat vb - (unat a + 4096)) div 4096)" by (intro div_page)
      then show ?thesis using 3 t1 by simp
    qed (use t1 u(3) v(3) vb in_page_range [OF al, of vb] in auto)
  qed
  moreover have "length (r # ps) \<le> length qs + 3 * length (r # fs)" using v(2) s2(2) by simp
  ultimately show ?thesis
    using s1(1,2) s2(1,3-5,7,8) r unfolding grown_def by auto
qed

lemma uvmalloc_loop_grows:
  assumes "pt_inv pt s ps" and "aligned a" and "unat a + 4096 * k \<le> 2 ^ 38" and "3 * k \<le> length ps"
    and "\<forall>vb<MAXVA. unat a \<le> unat vb \<and> unat vb < unat a + 4096 * k \<longrightarrow> pte_of (pmem s) pt vb AND PTE_V = 0"
    and "unat newsz \<le> unat a + 4096 * k" and "k = 0 \<or> unat a + 4096 * (k - 1) < unat newsz"
  shows "\<exists>t qs fs. uvmalloc_loop pt oldsz a newsz xperm s = Ok newsz t \<and> length fs = k \<and>
    grown pt s ps a (PTE_R OR PTE_U OR xperm) t qs fs"
  using assms
proof (induction k arbitrary: a s ps)
  case 0
  then have "\<not> a < newsz" by (simp add: word_less_nat_alt)
  then have "uvmalloc_loop pt oldsz a newsz xperm s = Ok newsz s" by (subst uvmalloc_loop.simps) simp
  then show ?case using grown_nil [OF 0(1)] by (intro exI [of _ s] exI [of _ ps] exI [of _ "[]"]) simp
next
  case (Suc k)
  let ?perm = "PTE_R OR PTE_U OR xperm"
  obtain r ps' where ps: "ps = r # ps'" using Suc.prems(4) by (cases ps) auto
  obtain t where ka: "kalloc s = Ok r t" "r \<noteq> 0" "r \<notin> set ps'" "r \<notin> tables (pmem s) pt"
    and u0: "let u = t\<lparr>pmem := memset (pmem t) r 0 (ucast PGSIZE)\<rparr> in
     pt_inv pt u ps' \<and> kend u = kend s \<and> (\<forall>x. pmem u x = (if page_of x = r then 0 else pmem s x)) \<and>
     tables (pmem u) pt = tables (pmem s) pt \<and> (\<forall>va. pte_of (pmem u) pt va = pte_of (pmem s) pt va)"
    using kalloc_page [OF Suc.prems(1) [unfolded ps]] by (elim exE conjE) (rule that)
  define u where "u = t\<lparr>pmem := memset (pmem t) r 0 (ucast PGSIZE)\<rparr>"
  have u: "pt_inv pt u ps'" "\<forall>x. pmem u x = (if page_of x = r then 0 else pmem s x)"
     "tables (pmem u) pt = tables (pmem s) pt" "\<forall>va. pte_of (pmem u) pt va = pte_of (pmem s) pt va"
    using u0 unfolding Let_def u_def by blast+
  have a: "a < MAXVA" "a < newsz" using Suc.prems(3,7) by (simp_all add: layout_defs word_less_nat_alt)
  have up: "unat (a + 4096) = unat a + 4096" using Suc.prems(3) by (subst unat_add_lem [THEN iffD1]) simp_all
  have al: "aligned (a + 4096)" using Suc.prems(2) by (simp add: aligned_iff_unat up)
  have "pte_of (pmem u) pt a AND PTE_V = 0" using Suc.prems(5) a(1) u(4) by simp
  then obtain v ps1 where v: "mappages pt a PGSIZE r ?perm u = Ok 0 v" "vm_ext pt u ps' v ps1" "length ps' \<le> length ps1 + 2"
    "\<forall>vb<MAXVA. pte_of (pmem v) pt vb = (if page_of vb = a then PA2PTE r OR ?perm OR PTE_V else pte_of (pmem u) pt vb)"
    using mappages_page [OF u(1) Suc.prems(2), of r ?perm] Suc.prems(3,4) ps by auto
  have un: "pte_of (pmem v) pt vb AND PTE_V = 0" if "vb < MAXVA" "unat (a + 4096) \<le> unat vb \<and> unat vb < unat (a + 4096) + 4096 * k" for vb
    using that v(4) u(4) Suc.prems(5) in_page_range [OF Suc.prems(2), of vb] by (simp add: up)
  have kk: "k = 0 \<or> unat (a + 4096) + 4096 * (k - 1) < unat newsz" using Suc.prems(7) up by (cases k) auto
  obtain w qs fs where w: "uvmalloc_loop pt oldsz (a + 4096) newsz xperm v = Ok newsz w" "length fs = k"
    "grown pt v ps1 (a + 4096) ?perm w qs fs"
    using Suc.IH [OF vm_ext_inv [OF v(2)] al] Suc.prems(3,4,6) kk un v(3) ps by (auto simp: up)
  have "uvmalloc_loop pt oldsz a newsz xperm s = Ok newsz w"
    using a(2) ka(1,2) v(1) [unfolded u_def] w(1) by (subst uvmalloc_loop.simps) (simp add: PGSIZE_def)
  moreover have "grown pt s ps a ?perm w qs (r # fs)"
    using grown_step [OF Suc.prems(2) up ka(3,4) u(2-4) v(2-4) w(3)] ps by simp
  ultimately show ?case using w(2) by (intro exI [of _ w] exI [of _ qs] exI [of _ "r # fs"]) simp
qed

lemma uvmalloc_grows:
  assumes inv: "pt_inv pt s ps" and sz: "oldsz \<le> newsz" "unat newsz \<le> 2 ^ 38"
    and n: "n = (unat newsz + 4095) div 4096 - (unat oldsz + 4095) div 4096" "3 * n \<le> length ps"
    and un: "\<forall>vb<MAXVA. unat oldsz \<le> unat (page_of vb) \<and> unat vb < unat newsz + 4096 \<longrightarrow> pte_of (pmem s) pt vb AND PTE_V = 0"
  shows "\<exists>t qs fs. uvmalloc pt oldsz newsz xperm s = Ok newsz t \<and> length fs = n \<and>
    grown pt s ps (PGROUNDUP oldsz) (PTE_R OR PTE_U OR xperm) t qs fs"
proof -
  let ?a = "PGROUNDUP oldsz"
  have le: "unat oldsz \<le> unat newsz" using sz(1) by (simp add: word_le_nat_alt)
  have a: "unat ?a = (unat oldsz + 4095) div 4096 * 4096" using le sz(2) by (intro unat_PGROUNDUP) simp
  have al: "aligned ?a" by (simp add: aligned_iff_unat a)
  define i j where "i = (unat oldsz + 4095) div 4096" and "j = (unat newsz + 4095) div 4096"
  have ij: "i \<le> j" unfolding i_def j_def using le by (intro div_le_mono) simp
  have j: "4096 * j < unat newsz + 4096" "unat newsz \<le> 4096 * j" unfolding j_def by linarith+
  have i: "unat oldsz \<le> 4096 * i" unfolding i_def by linarith
  have nn: "n = j - i" "unat ?a = 4096 * i" using n(1) a by (simp_all add: i_def j_def)
  have e: "unat ?a + 4096 * n = 4096 * j" using nn ij by (simp add: algebra_simps)
  have j38: "j \<le> 2 ^ 26" unfolding j_def using sz(2) by (simp add: div_le_mono)
  have "pte_of (pmem s) pt vb AND PTE_V = 0" if vb: "vb < MAXVA" "unat ?a \<le> unat vb" "unat vb < unat ?a + 4096 * n" for vb
  proof -
    have "i \<le> unat vb div 4096" using div_le_mono [OF vb(2), of 4096] nn(2) by simp
    then have "4096 * i \<le> unat (page_of vb)" by (simp add: unat_page_of minus_mod_eq_div_mult)
    then show ?thesis using un vb(1,3) i j(1) e by auto
  qed
  moreover have "n = 0 \<or> unat ?a + 4096 * (n - 1) < unat newsz" using nn j e by auto
  ultimately have "\<exists>t qs fs. uvmalloc_loop pt ?a ?a newsz xperm s = Ok newsz t \<and> length fs = n \<and>
      grown pt s ps ?a (PTE_R OR PTE_U OR xperm) t qs fs"
    using inv al e j j38 n(2) by (intro uvmalloc_loop_grows) auto
  moreover have "uvmalloc pt oldsz newsz xperm s = uvmalloc_loop pt ?a ?a newsz xperm s"
    using leD [OF sz(1)] by (simp add: uvmalloc_def Let_def)
  ultimately show ?thesis by simp
qed

text \<open>A machine of 256 pages, the last of which is an empty page table.\<close>

lemma grow_machine:
  "\<exists>(u :: machine) ps. pt_inv 0x87FFF000 u ps \<and> length ps = 255 \<and> (\<forall>va. pte_of (pmem u) 0x87FFF000 va = 0) \<and>
     tables (pmem u) 0x87FFF000 = {0x87FFF000} \<and> kend u = 0x87F00000"
proof -
  let ?s = "\<lparr>pmem = (\<lambda>_. 0), freelist = 0, kend = 0x87F00000\<rparr> :: machine"
  let ?f = "\<lambda>i. 0x87F00000 + of_nat (4096 * i) :: u64"
  have "\<exists>t. freerange_loop 0x87F00000 0x88000000 ?s = Ok () t \<and> kend t = kend ?s \<and> free_pages t (rev (map ?f [0..<Suc 255]) @ [])"
    by (rule freerange_loop_pages) (simp_all add: free_pages_Nil layout_defs aligned_iff_unat)
  then obtain t :: machine where t0: "free_pages t (rev (map ?f [0..<Suc 255]) @ [])" "kend t = 0x87F00000" by auto
  have eq: "rev (map ?f [0..<Suc n]) @ [] = ?f n # rev (map ?f [0..<n])" "length (rev (map ?f [0..<n])) = n" for n by simp_all
  define ps where "ps = rev (map ?f [0..<255])"
  have "?f 255 = 0x87FFF000" by simp
  then have t: "free_pages t (0x87FFF000 # ps)" "length ps = 255" using t0(1) eq(2) [of 255] unfolding eq(1) ps_def [symmetric] by simp_all
  obtain u :: machine where u: "free_pages u ps" "kend u = kend t" using kalloc_cons [OF t(1)] by blast
  define v where "v = u\<lparr>pmem := memset (pmem u) 0x87FFF000 0 4096\<rparr>"
  have al: "aligned (0x87FFF000 :: u64)" by (simp add: aligned_iff_unat)
  have n: "0x87FFF000 \<notin> set ps" using t(1) by (simp add: free_pages_def)
  have fv: "free_pages v ps"
  proof (rule free_pages_frame [OF u(1)])
    fix x assume "page_of x \<in> set ps"
    then show "pmem v x = pmem u x" using n by (auto simp: v_def memset_page [OF al])
  qed (simp_all add: v_def)
  have ok: "frame_ok v 0x87FFF000" using al t0(2) u(2) by (simp add: frame_ok_def layout_defs v_def)
  have z: "\<forall>j<512. load64 (pmem v) (slot 0x87FFF000 j) = 0"
  proof (intro allI impI)
    fix j :: nat assume "j < 512"
    then show "load64 (pmem v) (slot 0x87FFF000 j) = 0" using load64_memset_zero [OF al, of "8 * j" "pmem u"] by (simp add: slot_def v_def)
  qed
  have "kend v = 0x87F00000" using t0(2) u(2) by (simp add: v_def)
  then show ?thesis using empty_table [OF fv ok n z] t(2) by (intro exI [of _ v] exI [of _ ps] conjI allI)
qed

section \<open>Properties\<close>

text \<open>
  C8: uvmalloc() gives a process fresh memory. With at least three free pages for every page to be added
  (one for the page and two for tables) it returns the new size; every page between the old and the new
  size is then mapped with the requested permissions to a frame of its own, which was on the free list, is
  neither free nor a table page any more, and holds zeros. All other entries of the page table, and all
  memory that was in use, are unchanged.
\<close>

theorem uvmalloc_fresh_pages:
  assumes "pt_inv pt s ps" and "oldsz \<le> newsz" and "unat newsz \<le> 2 ^ 38"
    and "n = (unat newsz + 4095) div 4096 - (unat oldsz + 4095) div 4096" and "3 * n \<le> length ps"
    and "\<forall>vb<MAXVA. unat oldsz \<le> unat (page_of vb) \<and> unat vb < unat newsz + 4096 \<longrightarrow> pte_of (pmem s) pt vb AND PTE_V = 0"
  shows "\<exists>t qs fs. uvmalloc pt oldsz newsz xperm s = Ok newsz t \<and> pt_inv pt t qs \<and> length fs = n \<and> distinct fs \<and>
    set fs \<subseteq> set ps - set qs - tables (pmem t) pt \<and> (\<forall>x. page_of x \<in> set fs \<longrightarrow> pmem t x = 0) \<and>
    (\<forall>x. page_of x \<notin> set ps \<union> tables (pmem s) pt \<longrightarrow> pmem t x = pmem s x) \<and>
    (\<forall>vb<MAXVA. pte_of (pmem t) pt vb =
       (if unat (PGROUNDUP oldsz) \<le> unat vb \<and> unat vb < unat (PGROUNDUP oldsz) + 4096 * n
        then PA2PTE (fs ! ((unat vb - unat (PGROUNDUP oldsz)) div 4096)) OR (PTE_R OR PTE_U OR xperm) OR PTE_V
        else pte_of (pmem s) pt vb))"
proof -
  obtain t qs fs where "uvmalloc pt oldsz newsz xperm s = Ok newsz t" "length fs = n"
    "grown pt s ps (PGROUNDUP oldsz) (PTE_R OR PTE_U OR xperm) t qs fs"
    using uvmalloc_grows [OF assms] by blast
  then show ?thesis unfolding grown_def by (intro exI [of _ t] exI [of _ qs] exI [of _ fs]) simp
qed

theorem uvmalloc_fresh_pages_witness:
  "\<exists>(s :: machine) t fs. uvmalloc 0x87FFF000 0 8192 PTE_W s = Ok 8192 t \<and> length fs = 2 \<and>
     (\<forall>vb<8192. pte_of (pmem t) 0x87FFF000 vb = PA2PTE (fs ! (unat vb div 4096)) OR (PTE_R OR PTE_U OR PTE_W) OR PTE_V)"
proof -
  obtain s :: machine and ps where s: "pt_inv 0x87FFF000 s ps" "length ps = 255" "\<forall>va. pte_of (pmem s) 0x87FFF000 va = 0"
    using grow_machine by blast
  have p0: "PGROUNDUP 0 = 0" by (simp add: PGROUNDUP_def PGSIZE_def)
  have h: "0 \<le> (8192 :: u64)" "unat (8192 :: u64) \<le> 2 ^ 38" "2 = (unat (8192 :: u64) + 4095) div 4096 - (unat (0 :: u64) + 4095) div 4096"
    "3 * 2 \<le> length ps" "\<forall>vb<MAXVA. unat (0 :: u64) \<le> unat (page_of vb) \<and> unat vb < unat (8192 :: u64) + 4096 \<longrightarrow>
      pte_of (pmem s) 0x87FFF000 vb AND PTE_V = 0" using s(2,3) by simp_all
  obtain t qs fs where t: "uvmalloc 0x87FFF000 0 8192 PTE_W s = Ok 8192 t" "length fs = 2"
    "\<forall>vb<MAXVA. pte_of (pmem t) 0x87FFF000 vb =
       (if unat (PGROUNDUP 0) \<le> unat vb \<and> unat vb < unat (PGROUNDUP 0) + 4096 * 2
        then PA2PTE (fs ! ((unat vb - unat (PGROUNDUP 0)) div 4096)) OR (PTE_R OR PTE_U OR PTE_W) OR PTE_V
        else pte_of (pmem s) 0x87FFF000 vb)"
    using uvmalloc_fresh_pages [OF s(1) h, of PTE_W] by (elim exE conjE) (rule that; assumption)
  have "pte_of (pmem t) 0x87FFF000 vb = PA2PTE (fs ! (unat vb div 4096)) OR (PTE_R OR PTE_U OR PTE_W) OR PTE_V" if "vb < 8192" for vb
    using t(3) [rule_format, of vb] that by (simp add: p0 layout_defs word_less_nat_alt)
  then show ?thesis using t(1,2) by blast
qed

end
