(* ===== verification/Heap_Props.thy ===== *)
theory Heap_Props
  imports Umalloc Sample Vm_Grow
begin

text \<open>
  The allocator of user programs on the kernel: sbrk() as the kernel implements it keeps the contract on
  which malloc() relies, so that the heap of a process stays consistent under any sequence of malloc(),
  free() and stores into allocated memory.
\<close>

section \<open>sbrk()\<close>

text \<open>
  The system call as the process sees it: the argument is in the register a0 of the trap frame, the result
  is what sys_sbrk() returns. A call that does not return is taken as one that fails.
\<close>

definition user_sbrk :: "u32 \<Rightarrow> 'z procs_scheme \<Rightarrow> u64 \<times> 'z procs_scheme" where
  "user_sbrk n s =
     (case myproc s of
        None \<Rightarrow> (-1, s)
      | Some p \<Rightarrow> (case sys_sbrk (tf_set TF_A0 (scast n) p s) of Ok v t \<Rightarrow> (v, t) | _ \<Rightarrow> (-1, s)))"



lemma ucast_scast_u32: "ucast (scast (w :: u32) :: u64) = w"
  by (rule bit_word_eqI) (auto simp: bit_simps)

lemma argint_tf: "myproc s = Some p \<Longrightarrow> argint 0 (tf_set TF_A0 (scast n) p s) = Ok n (tf_set TF_A0 (scast n) p s)"
  by (simp add: argint_def argraw_def with_proc_def tf_get_def tf_set_def ucast_scast_u32)

lemma sys_sbrk_tf:
  fixes n :: u32
  assumes "myproc s = Some p"
  shows "sys_sbrk (tf_set TF_A0 (scast n) p s) =
    then_do (growproc (sint n) (tf_set TF_A0 (scast n) p s)) (\<lambda>r t. if r < 0 then Ok (-1) t else Ok (p_sz (procs s p)) t)"
    "myproc (tf_set TF_A0 (scast n) p s) = Some p" "procs (tf_set TF_A0 (scast n) p s) = procs s"
proof -
  show s1: "myproc (tf_set TF_A0 (scast n) p s) = Some p" "procs (tf_set TF_A0 (scast n) p s) = procs s"
    using assms by (simp_all add: tf_set_def)
  show "sys_sbrk (tf_set TF_A0 (scast n) p s) =
    then_do (growproc (sint n) (tf_set TF_A0 (scast n) p s)) (\<lambda>r t. if r < 0 then Ok (-1) t else Ok (p_sz (procs s p)) t)"
    by (simp add: sys_sbrk_def with_proc_def Let_def argint_tf [OF assms] s1 cong: if_cong)
qed




section \<open>Runs of a program\<close>








section \<open>Properties\<close>





text \<open>
  malloc() of 2 ^ 31 bytes or more hands out memory that does not exist. morecore() passes the number of
  bytes to sbrk() as an int, where it is negative; as long as the process has less memory than the
  magnitude of that number, the kernel leaves the size of the process alone and returns its end as for a
  success. malloc() then returns a pointer just past the end of the memory of the process.
\<close>

theorem malloc_large_not_mapped:
  assumes p: "myproc s = Some p" and sz: "unat base + 16 \<le> unat (p_sz (procs s p))" "base \<noteq> 0" and h: "freep h = 0"
    and n: "2 ^ 31 \<le> unat nbytes" "unat nbytes + unat (p_sz (procs s p)) + 31 < 2 ^ 32"
  shows "\<exists>h' t. malloc base user_sbrk nbytes (h, s) = Some (p_sz (procs s p) + 16, h', t) \<and> p_sz (procs t p) = p_sz (procs s p)"
proof -
  let ?sz = "p_sz (procs s p)" and ?n = "malloc_units nbytes" and ?t = "tf_set TF_A0 (scast (morecore_bytes (malloc_units nbytes))) p s"
  have u: "unat nbytes + 16 \<le> 16 * unat ?n" "16 * unat ?n \<le> unat nbytes + 31" by (simp_all add: unat_malloc_units)
  have mu: "morecore_units ?n = ?n" using u n by (simp add: morecore_units_def word_less_nat_alt)
  have mb: "unat (morecore_bytes ?n) = 16 * unat ?n"
    using u n by (simp add: morecore_bytes_def mu unat_ucast_small unat_word_ariths)
  have sn: "sint (morecore_bytes ?n) = int (16 * unat ?n) - 2 ^ 32" using mb u n(1) by (simp add: sint_cases del: of_nat_unat)
  have neg: "sint (morecore_bytes ?n) < 0" using u n by (simp add: sn del: of_nat_unat)
  have "?sz \<le> ?sz + of_int (sint (morecore_bytes ?n))"
  proof -
    have "(of_int (sint (morecore_bytes ?n)) :: u64) = of_nat (16 * unat ?n + (2 ^ 64 - 2 ^ 32))" unfolding sn by simp
    moreover have "unat (of_nat (16 * unat ?n + (2 ^ 64 - 2 ^ 32)) :: u64) = 16 * unat ?n + (2 ^ 64 - 2 ^ 32)"
      using u n by (intro unat_of_nat_small) simp
    ultimately have "unat (of_int (sint (morecore_bytes ?n)) :: u64) = 16 * unat ?n + (2 ^ 64 - 2 ^ 32)" by simp
    then show ?thesis using u n by (simp add: word_le_nat_alt unat_word_ariths del: of_int_sint)
  qed
  then have g: "growproc (sint (morecore_bytes ?n)) ?t = Ok 0 (upd_proc p (\<lambda>q. q\<lparr>p_sz := ?sz\<rparr>) ?t)"
    using neg sys_sbrk_tf [OF p] by (simp add: growproc_def with_proc_def uvmdealloc_def)
  have sb: "user_sbrk (morecore_bytes ?n) s = (?sz, upd_proc p (\<lambda>q. q\<lparr>p_sz := ?sz\<rparr>) ?t)"
    using sys_sbrk_tf [OF p] g by (simp add: user_sbrk_def p)
  define h0 where "h0 = malloc_init base h"
  have lim: "unat ?sz < 2 ^ 32" using n by simp
  have ok: "heap_ok h0 base [] {} (unat ?sz)"
    using sz h lim by (simp add: h0_def heap_ok_def malloc_init_def blocks_def)
  have np: "?sz \<noteq> -1" using lim by (auto simp: unsigned_minus_1_eq_mask mask_eq_exp_minus_1)
  have n0: "0 < ?n" using u(1) by (auto simp: word_less_nat_alt)
  let ?e = "upd_proc p (\<lambda>q. q\<lparr>p_sz := ?sz\<rparr>) ?t" and ?lim = "unat ?sz + 16 * unat ?n"
  have lm: "?lim < 2 ^ 36" using u n by simp
  obtain h1 fs1 where f: "free (?sz + 16) (h0\<lparr>hsize := (hsize h0)(?sz := ?n)\<rparr>) = Some h1" "heap_ok h1 base fs1 {} ?lim"
    "covered h1 fs1 = covered h0 [] \<union> {unat ?sz..<?lim}" "\<exists>x \<in> set fs1. ?n \<le> hsize h1 x" "freep h1 \<noteq> 0"
    using grow_works [OF ok order_refl refl lm n0] by (elim exE conjE) (rule that)
  have m: "morecore user_sbrk ?n (h0, s) = Some (freep h1, h1, ?e)" using sb np f(1) by (simp add: morecore_def mu)
  have "\<not> taken h0 h' base [] fs' {} (unat ?sz) ?n b" for h' fs' b
    using n0 by (auto simp: taken_def covered_def fin_def word_less_nat_alt)
  then have l: "malloc_loop user_sbrk ?n (freep h0) (hptr h0 (freep h0)) (h0, s) = malloc_loop user_sbrk ?n (freep h1) (hptr h1 (freep h1)) (h1, ?e)"
    using malloc_find [OF ok n0, of user_sbrk s] m f(5) by simp
  obtain b h' fs' where b: "malloc_loop user_sbrk ?n (freep h1) (hptr h1 (freep h1)) (h1, ?e) = Some (b + 16, h', ?e)"
    "taken h1 h' base fs1 fs' {} ?lim ?n b" using malloc_find [OF f(2) n0, of user_sbrk ?e] f(4) by blast
  have "{unat b..<unat b + 16 * unat ?n} \<subseteq> {unat ?sz..<?lim}" 
  proof -
    have "covered h1 fs1 = covered h' fs' \<union> {unat b..<fin h' b}" "fin h' b = unat b + 16 * unat ?n"
      using b(2) by (simp_all add: taken_def fin_def)
    moreover have "covered h1 fs1 = {unat ?sz..<?lim}" using f(3) by (simp add: covered_def)
    ultimately show ?thesis by (metis Un_upper2)
  qed
  then have "b = ?sz" using n0 by (simp add: word_unat_eq_iff word_less_nat_alt)
  then show ?thesis using l b(1) sys_sbrk_tf [OF p] by (intro exI [of _ h'] exI [of _ ?e]) (simp add: malloc_def h0_def)
qed

theorem malloc_large_not_mapped_witness:
  "\<exists>h' t. malloc 16 user_sbrk 0x80000000 (\<lparr>hptr = (\<lambda>_. 0), hsize = (\<lambda>_. 0), freep = 0\<rparr>, sample0) = Some (4112, h', t) \<and>
     p_sz (procs t 0) = 4096"
  using malloc_large_not_mapped [of sample0 0 16 "\<lparr>hptr = (\<lambda>_. 0), hsize = (\<lambda>_. 0), freep = 0\<rparr>" "0x80000000"]
  by (simp add: sample0_def)

end
