(* ===== verification/Log_Props.thy ===== *)
theory Log_Props
  imports Sample
begin

text \<open>
  Recovery from the log, kernel/log.c: what recover_from_log() makes of the disk, and that a crash in the
  middle of it does no harm.
\<close>

section \<open>The disk after recovery\<close>

text \<open>The count and the block numbers of the log header in block \<open>st\<close> of a disk.\<close>

definition logged :: "u32 \<Rightarrow> (u32 \<Rightarrow> u8 list) \<Rightarrow> nat" where
  "logged st dk = nat (sint (word_of (dk st) 0))"

definition home :: "u32 \<Rightarrow> (u32 \<Rightarrow> u8 list) \<Rightarrow> nat \<Rightarrow> u32" where
  "home st dk i = word_of (dk st) (i + 1)"

primrec installed :: "(nat \<Rightarrow> 'b) \<Rightarrow> (nat \<Rightarrow> 'c) \<Rightarrow> nat \<Rightarrow> ('b \<Rightarrow> 'c) \<Rightarrow> 'b \<Rightarrow> 'c" where
  "installed f g 0 dk = dk"
| "installed f g (Suc n) dk = (installed f g n dk)(f n := g n)"

text \<open>Every logged block is copied to its home location, and the count in the header is cleared.\<close>

definition redone :: "u32 \<Rightarrow> (u32 \<Rightarrow> u8 list) \<Rightarrow> u32 \<Rightarrow> u8 list" where
  "redone st dk = (installed (home st dk) (\<lambda>i. dk (st + of_nat i + 1)) (logged st dk) dk)(st := set_word 0 0 (dk st))"

text \<open>A log as commit() writes it: no home location lies in the log.\<close>

definition log_ok :: "u32 \<Rightarrow> (u32 \<Rightarrow> u8 list) \<Rightarrow> bool" where
  "log_ok st dk \<longleftrightarrow> sint (word_of (dk st) 0) \<le> int LOGSIZE \<and>
     (\<forall>i < logged st dk. home st dk i \<noteq> st \<and> (\<forall>j < logged st dk. home st dk i \<noteq> st + of_nat j + 1))"

definition apply_writes :: "(u32 \<times> u8 list) list \<Rightarrow> (u32 \<Rightarrow> u8 list) \<Rightarrow> u32 \<Rightarrow> u8 list" where
  "apply_writes ws dk = fold (\<lambda>(n, x) dk. dk(n := x)) ws dk"

lemma installed_other: "m \<notin> f ` {..<n} \<Longrightarrow> installed f g n dk m = dk m"
  by (induction n) (simp_all add: lessThan_Suc)

lemma installed_hit: "m \<in> f ` {..<n} \<Longrightarrow> installed f g n dk m = installed f g n dk' m"
  by (induction n) (auto simp: lessThan_Suc)

lemma installed_twice:
  assumes "k \<le> n"
  shows "installed f g n (installed f g k dk) = installed f g n dk"
proof
  fix m
  show "installed f g n (installed f g k dk) m = installed f g n dk m"
  proof (cases "m \<in> f ` {..<n}")
    case False
    moreover have "m \<notin> f ` {..<k}" using False assms by auto
    ultimately show ?thesis by (simp add: installed_other)
  qed (rule installed_hit)
qed

lemma apply_installed: "apply_writes (map (\<lambda>i. (f i, g i)) [0..<n]) dk = installed f g n dk"
  by (induction n) (simp_all add: apply_writes_def)

lemma set_word_0: "length xs = BSIZE \<Longrightarrow> word_of (set_word 0 0 xs) 0 = 0" "length xs = BSIZE \<Longrightarrow> set_word 0 0 (set_word 0 0 xs) = set_word 0 0 xs"
  "length xs = BSIZE \<Longrightarrow> length (set_word 0 0 xs) = BSIZE"
  by (simp_all add: word_of_def set_word_def put_bytes_def BSIZE_def le_word_bytes)

section \<open>The steps of recovery\<close>

lemma bio_frame_log: "bio_frame s t \<Longrightarrow> log (t :: 'z logs_scheme) = log s"
  by (cases s; cases t) (simp add: bio_frame_def)

text \<open>One block is copied from the log to its home location: one write to the disk, and the cache is clean again.\<close>

lemma install_step:
  assumes ok: "cache_ok d {} s" and d: "lg_dev (log s) = d" and ne: "h \<noteq> l"
  shows "\<exists>t1 lb t2 db t3 t4 t. bread d l s = Ok lb t1 \<and> bread d h t1 = Ok db t2 \<and>
    bwrite db (set_data db (b_data (bufs t2 lb)) t2) = Ok () t3 \<and> brelse lb t3 = Ok () t4 \<and> brelse db t4 = Ok () t \<and>
    log t1 = log s \<and> log t2 = log s \<and> log t3 = log s \<and> log t4 = log s \<and> log t = log s \<and>
    cache_ok d {} t \<and> disk t = (disk s)(h := disk s l) \<and> dtrace t = dtrace s @ [(h, disk s l)]"
proof -
  have v: "view d s n = disk s n" for n using view_disk [OF ok] by simp
  have c: "card {} < NBUF" "card {x} < NBUF" for x :: nat by (simp_all add: NBUF_def MAXOPBLOCKS_def)
  have nh0: "\<forall>i\<in>{}. b_blockno (bufs s i) \<noteq> l" by simp
  obtain lb k where L: "lb < NBUF" "lb \<notin> {}" "bread d l s = Ok lb (s\<lparr>bufs := (bufs s)(lb := k)\<rparr>)" "b_blockno k = l"
    "b_data k = view d s l" "cache_ok d {lb} (s\<lparr>bufs := (bufs s)(lb := k)\<rparr>)" "view d (s\<lparr>bufs := (bufs s)(lb := k)\<rparr>) = view d s"
    by (rule bread_ok [OF ok c(1) nh0])
  define t1 where "t1 = s\<lparr>bufs := (bufs s)(lb := k)\<rparr>"
  note L = L [folded t1_def]
  have nh: "\<forall>i\<in>{lb}. b_blockno (bufs t1 i) \<noteq> h" using L(4) ne by (simp add: t1_def)
  obtain db k2 where D: "db < NBUF" "db \<notin> {lb}" "bread d h t1 = Ok db (t1\<lparr>bufs := (bufs t1)(db := k2)\<rparr>)" "b_blockno k2 = h"
    "b_data k2 = view d t1 h" "cache_ok d {db, lb} (t1\<lparr>bufs := (bufs t1)(db := k2)\<rparr>)" "view d (t1\<lparr>bufs := (bufs t1)(db := k2)\<rparr>) = view d t1"
    by (rule bread_ok [OF L(6) c(2) nh])
  define t2 where "t2 = t1\<lparr>bufs := (bufs t1)(db := k2)\<rparr>"
  note D = D [folded t2_def]
  have lb: "b_data (bufs t2 lb) = disk s l" "b_blockno (bufs t2 lb) = l" "b_blockno (bufs t2 db) = h" "disk t2 = disk s" "dtrace t2 = dtrace s"
    using L D(2,4) v by (auto simp: t2_def t1_def)
  have len: "length (disk s l) = BSIZE" by (rule cache_okD(12) [OF ok])
  let ?p = "set_data db (disk s l) t2"
  have mdb: "db \<in> {db, lb}" by simp
  have p: "cache_ok d {db, lb} ?p" by (rule set_data_ok(1) [OF D(6) mdb len])
  have pb: "bufs ?p db = (bufs t2 db)\<lparr>b_data := disk s l\<rparr>" "disk ?p = disk s" "dtrace ?p = dtrace s" "log ?p = log t2"
    using lb(4,5) by simp_all
  define t3 where "t3 = disk_rw db True ?p"
  note W = bwrite_ok [OF p mdb, folded t3_def, unfolded pb]
  have w3: "disk t3 = (disk s)(h := disk s l)" "dtrace t3 = dtrace s @ [(h, disk s l)]"
    unfolding W(4,5) by (simp_all add: lb(3))
  note w = W(1,2) w3 W(6)
  have w6: "log t3 = log t2" unfolding t3_def by (simp add: disk_rw_def Let_def)
  have c3: "b_data (bufs t3 lb) = disk t3 (b_blockno (bufs t3 lb))" using w(3,5) lb ne D(2) by simp
  have m3: "lb \<in> {db, lb}" by simp
  obtain t4 where r4: "brelse lb t3 = Ok () t4" "cache_ok d ({db, lb} - {lb}) t4" "view d t4 = view d t3" "disk t4 = disk t3"
    "dtrace t4 = dtrace t3" "bio_frame t3 t4"
    "\<forall>i\<in>{db, lb} - {lb}. b_blockno (bufs t4 i) = b_blockno (bufs t3 i) \<and> b_data (bufs t4 i) = b_data (bufs t3 i)"
    by (rule brelse_ok [OF w(2) m3 c3])
  have m4: "db \<in> {db, lb} - {lb}" using D(2) by simp
  have c4: "b_data (bufs t4 db) = disk t4 (b_blockno (bufs t4 db))" using bspec [OF r4(7) m4] r4(4) w(3,5) lb(3) by simp
  obtain t where r: "brelse db t4 = Ok () t" "cache_ok d ({db, lb} - {lb} - {db}) t" "view d t = view d t4" "disk t = disk t4"
    "dtrace t = dtrace t4" "bio_frame t4 t"
    "\<forall>i\<in>{db, lb} - {lb} - {db}. b_blockno (bufs t i) = b_blockno (bufs t4 i) \<and> b_data (bufs t i) = b_data (bufs t4 i)"
    by (rule brelse_ok [OF r4(2) m4 c4])
  have e: "{db, lb} - {lb} - {db} = {}" by auto
  have "log t1 = log s" "log t2 = log s" by (simp_all add: t1_def t2_def)
  then show ?thesis
    using L(3) D(3) w w6 r4(1,4,5) r(1,2,4,5) bio_frame_log [OF r4(6)] bio_frame_log [OF r(6)] unfolding e
    by (intro exI [of _ t1] exI [of _ lb] exI [of _ t2] exI [of _ db] exI [of _ t3] exI [of _ t4] exI [of _ t]) (simp add: lb)
qed

lemma install_loop_ok:
  assumes "cache_ok d {} s" and "lg_dev (log s) = d"
    and "\<forall>i\<in>set is. \<forall>j\<in>set is. lh_block (log s) i \<noteq> lg_start (log s) + of_nat j + 1"
  shows "\<exists>t. install_loop True is s = Ok () t \<and> cache_ok d {} t \<and> log t = log s \<and>
    disk t = apply_writes (map (\<lambda>i. (lh_block (log s) i, disk s (lg_start (log s) + of_nat i + 1))) is) (disk s) \<and>
    dtrace t = dtrace s @ map (\<lambda>i. (lh_block (log s) i, disk s (lg_start (log s) + of_nat i + 1))) is"
  using assms
proof (induction "is" arbitrary: s)
  case Nil
  then show ?case by (simp add: apply_writes_def)
next
  case (Cons i "is")
  let ?h = "lh_block (log s) i" and ?l = "lg_start (log s) + of_nat i + 1"
  have ne: "?h \<noteq> lg_start (log s) + of_nat j + 1" if "j \<in> set (i # is)" for j
    by (rule Cons.prems(3) [rule_format, OF _ that]) simp
  have "?h \<noteq> ?l" by (rule ne) simp
  from install_step [OF Cons.prems(1,2) this] obtain t1 lb t2 db t3 t4 u where
    u: "bread d ?l s = Ok lb t1" "bread d ?h t1 = Ok db t2" "bwrite db (set_data db (b_data (bufs t2 lb)) t2) = Ok () t3"
      "brelse lb t3 = Ok () t4" "brelse db t4 = Ok () u" "log t1 = log s" "log u = log s" "cache_ok d {} u"
      "disk u = (disk s)(?h := disk s ?l)" "dtrace u = dtrace s @ [(?h, disk s ?l)]" by blast
  have e: "install_loop True (i # is) s = install_loop True is u" using u Cons.prems(2) by simp
  have same: "map (\<lambda>j. (lh_block (log u) j, disk u (lg_start (log u) + of_nat j + 1))) is =
      map (\<lambda>j. (lh_block (log s) j, disk s (lg_start (log s) + of_nat j + 1))) is"
    by (intro map_cong refl) (simp add: u(7,9) ne [symmetric])
  have prems3: "\<forall>a\<in>set is. \<forall>b\<in>set is. lh_block (log u) a \<noteq> lg_start (log u) + of_nat b + 1"
  proof (intro ballI)
    fix a b assume "a \<in> set is" "b \<in> set is"
    then have m: "a \<in> set (i # is)" "b \<in> set (i # is)" by simp_all
    show "lh_block (log u) a \<noteq> lg_start (log u) + of_nat b + 1"
      by (subst u(7), subst u(7)) (rule bspec [OF bspec [OF Cons.prems(3) m(1)] m(2)])
  qed
  obtain t where t: "install_loop True is u = Ok () t" "cache_ok d {} t" "log t = log u"
    "disk t = apply_writes (map (\<lambda>j. (lh_block (log s) j, disk s (lg_start (log s) + of_nat j + 1))) is) (disk u)"
    "dtrace t = dtrace u @ map (\<lambda>j. (lh_block (log s) j, disk s (lg_start (log s) + of_nat j + 1))) is"
    using Cons.IH [OF u(8) _ prems3, unfolded same] Cons.prems(2) unfolding u(7) by blast
  then show ?case unfolding e using u(7,9,10) by (intro exI [of _ t]) (simp add: apply_writes_def)
qed

text \<open>A block is read, replaced and written back.\<close>

lemma write_block:
  assumes ok: "cache_ok d {} s" and len: "length x = BSIZE"
  shows "\<exists>b t1 t2 t. bread d n s = Ok b t1 \<and> b_data (bufs t1 b) = disk s n \<and> log t1 = log s \<and>
    bwrite b (set_data b x t1) = Ok () t2 \<and> brelse b t2 = Ok () t \<and> log t = log s \<and>
    cache_ok d {} t \<and> disk t = (disk s)(n := x) \<and> dtrace t = dtrace s @ [(n, x)]"
proof -
  have c: "card {} < NBUF" by (simp add: NBUF_def MAXOPBLOCKS_def)
  have nh: "\<forall>i\<in>{}. b_blockno (bufs s i) \<noteq> n" by simp
  obtain b k where B: "b < NBUF" "b \<notin> {}" "bread d n s = Ok b (s\<lparr>bufs := (bufs s)(b := k)\<rparr>)" "b_blockno k = n"
    "b_data k = view d s n" "cache_ok d {b} (s\<lparr>bufs := (bufs s)(b := k)\<rparr>)" "view d (s\<lparr>bufs := (bufs s)(b := k)\<rparr>) = view d s"
    by (rule bread_ok [OF ok c nh])
  define t1 where "t1 = s\<lparr>bufs := (bufs s)(b := k)\<rparr>"
  note B = B [folded t1_def]
  let ?p = "set_data b x t1"
  have m: "b \<in> {b}" by simp
  have p: "cache_ok d {b} ?p" by (rule set_data_ok(1) [OF B(6) m len])
  have pb: "bufs ?p b = (bufs t1 b)\<lparr>b_data := x\<rparr>" "disk ?p = disk s" "dtrace ?p = dtrace s" by (simp_all add: t1_def)
  define t2 where "t2 = disk_rw b True ?p"
  note W = bwrite_ok [OF p m, folded t2_def, unfolded pb]
  have w: "disk t2 = (disk s)(n := x)" "dtrace t2 = dtrace s @ [(n, x)]"
    unfolding W(4,5) using B(4) by (simp_all add: t1_def)
  have cl: "b_data (bufs t2 b) = disk t2 (b_blockno (bufs t2 b))" unfolding w W(6) using B(4) by (simp add: t1_def)
  obtain t where r: "brelse b t2 = Ok () t" "cache_ok d ({b} - {b}) t" "view d t = view d t2" "disk t = disk t2"
    "dtrace t = dtrace t2" "bio_frame t2 t"
    "\<forall>i\<in>{b} - {b}. b_blockno (bufs t i) = b_blockno (bufs t2 i) \<and> b_data (bufs t i) = b_data (bufs t2 i)"
    by (rule brelse_ok [OF W(2) m cl])
  have l: "log t1 = log s" "log t2 = log s" "b_data (bufs t1 b) = disk s n"
    using B(5) view_disk [OF ok nh] by (simp_all add: t1_def t2_def disk_rw_def Let_def)
  have e: "{b} - {b} = {}" by simp
  show ?thesis
    using B(3) l W(1) r(1,2,4,5) w bio_frame_log [OF r(6)] unfolding e
    by (intro exI [of _ b] exI [of _ t1] exI [of _ t2] exI [of _ t]) simp
qed

lemma write_head_empty:
  assumes ok: "cache_ok d {} s" and d: "lg_dev (log s) = d" and n: "lh_n (log s) = 0"
  shows "\<exists>t. write_head s = Ok () t \<and> cache_ok d {} t \<and> disk t = (disk s)(lg_start (log s) := set_word 0 0 (disk s (lg_start (log s)))) \<and>
    dtrace t = dtrace s @ [(lg_start (log s), set_word 0 0 (disk s (lg_start (log s))))]"
proof -
  have "length (set_word 0 0 (disk s (lg_start (log s)))) = BSIZE" by (rule set_word_0(3) [OF cache_okD(12) [OF ok]])
  from write_block [OF ok this, of "lg_start (log s)"] obtain b t1 t2 t where
    w: "bread d (lg_start (log s)) s = Ok b t1" "b_data (bufs t1 b) = disk s (lg_start (log s))" "log t1 = log s"
      "bwrite b (set_data b (set_word 0 0 (disk s (lg_start (log s)))) t1) = Ok () t2" "brelse b t2 = Ok () t" "log t = log s" "cache_ok d {} t"
      "disk t = (disk s)(lg_start (log s) := set_word 0 0 (disk s (lg_start (log s))))"
      "dtrace t = dtrace s @ [(lg_start (log s), set_word 0 0 (disk s (lg_start (log s))))]" by (elim exE conjE) (rule that)
  have "write_head s = Ok () t" 
    unfolding write_head_def d w(1) then_do.simps Let_def w(2,3) n of_int_0 nat_0 head_blocks.simps w(4,5) ..
  then show ?thesis using w(7-9) by (intro exI [of _ t] conjI)
qed

lemma cache_ok_log: "cache_ok d H (s\<lparr>log := l\<rparr>) = cache_ok d H s"
  unfolding cache_ok_def key_unique_def by simp

lemma read_head_ok:
  assumes ok: "cache_ok d {} s" and d: "lg_dev (log s) = d" and n: "sint (word_of (disk s (lg_start (log s))) 0) \<le> int LOGSIZE"
  shows "\<exists>t. read_head s = Ok () t \<and> cache_ok d {} t \<and> disk t = disk s \<and> dtrace t = dtrace s \<and>
    lg_dev (log t) = d \<and> lg_start (log t) = lg_start (log s) \<and> lh_n (log t) = sint (word_of (disk s (lg_start (log s))) 0) \<and>
    (\<forall>i < logged (lg_start (log s)) (disk s). lh_block (log t) i = home (lg_start (log s)) (disk s) i)"
proof -
  let ?st = "lg_start (log s)"
  have c: "card {} < NBUF" by (simp add: NBUF_def MAXOPBLOCKS_def)
  have nh: "\<forall>i\<in>{}. b_blockno (bufs s i) \<noteq> ?st" by simp
  obtain b k where B: "b < NBUF" "b \<notin> {}" "bread d ?st s = Ok b (s\<lparr>bufs := (bufs s)(b := k)\<rparr>)" "b_blockno k = ?st"
    "b_data k = view d s ?st" "cache_ok d {b} (s\<lparr>bufs := (bufs s)(b := k)\<rparr>)" "view d (s\<lparr>bufs := (bufs s)(b := k)\<rparr>) = view d s"
    by (rule bread_ok [OF ok c nh])
  define L where "L = (\<lambda>l :: logstate. l\<lparr>lh_n := sint (word_of (disk s ?st) 0),
    lh_block := (\<lambda>i. if int i < sint (word_of (disk s ?st) 0) then word_of (disk s ?st) (i + 1) else lh_block l i)\<rparr>)"
  define t1 where "t1 = s\<lparr>bufs := (bufs s)(b := k)\<rparr>"
  note B = B [folded t1_def]
  have t1: "b_data (bufs t1 b) = disk s ?st" "log t1 = log s" "disk t1 = disk s" "dtrace t1 = dtrace s" "b_blockno (bufs t1 b) = ?st"
    using B(4,5) view_disk [OF ok nh] by (simp_all add: t1_def)
  define u where "u = t1\<lparr>log := L (log s)\<rparr>"
  have u: "cache_ok d {b} u" unfolding u_def cache_ok_log by (rule B(6))
  have bu: "bufs u = bufs t1" "disk u = disk s" "dtrace u = dtrace s" "log u = L (log s)" by (simp_all add: u_def t1)
  have m: "b \<in> {b}" by simp
  have cl: "b_data (bufs u b) = disk u (b_blockno (bufs u b))" unfolding bu t1 ..
  obtain t where r: "brelse b u = Ok () t" "cache_ok d ({b} - {b}) t" "view d t = view d u" "disk t = disk u"
    "dtrace t = dtrace u" "bio_frame u t"
    "\<forall>i\<in>{b} - {b}. b_blockno (bufs t i) = b_blockno (bufs u i) \<and> b_data (bufs t i) = b_data (bufs u i)"
    by (rule brelse_ok [OF u m cl])
  have q: "(int LOGSIZE < sint (word_of (disk s ?st) 0)) = False" using n by simp
  have h: "read_head s = Ok () t"
    unfolding read_head_def d B(3) then_do.simps Let_def t1 q if_False r(1) [unfolded u_def L_def] ..
  have lt: "log t = L (log s)" using bio_frame_log [OF r(6)] unfolding bu .
  have ls: "lg_dev (L l) = lg_dev l" "lg_start (L l) = lg_start l" "lh_n (L l) = sint (word_of (disk s ?st) 0)"
    "i < logged ?st (disk s) \<Longrightarrow> lh_block (L l) i = home ?st (disk s) i" for l i
    by (simp_all add: L_def logged_def home_def zless_nat_eq_int_zless)
  have ct: "cache_ok d {} t" using r(2) by simp
  show ?thesis
    by (intro exI [of _ t] conjI allI impI; (subst lt)?) (simp_all only: h ct r(4,5) bu ls d)
qed

section \<open>Recovery\<close>

text \<open>The writes of recovery, in their order: the home locations, then the header.\<close>

definition redo_writes :: "u32 \<Rightarrow> (u32 \<Rightarrow> u8 list) \<Rightarrow> (u32 \<times> u8 list) list" where
  "redo_writes st dk = map (\<lambda>i. (home st dk i, dk (st + of_nat i + 1))) [0..<logged st dk] @ [(st, set_word 0 0 (dk st))]"

lemma apply_writes_append: "apply_writes (xs @ ys) dk = apply_writes ys (apply_writes xs dk)"
  by (simp add: apply_writes_def)

lemma apply_redo_writes: "apply_writes (redo_writes st dk) dk = redone st dk"
  unfolding redo_writes_def redone_def apply_writes_append apply_installed by (simp add: apply_writes_def)

text \<open>Copying blocks home changes neither the header nor the logged blocks.\<close>

lemma installed_log:
  assumes "log_ok st dk" and "k \<le> logged st dk"
  defines "dk' \<equiv> installed (home st dk) (\<lambda>i. dk (st + of_nat i + 1)) k dk"
  shows "dk' st = dk st" and "i < logged st dk \<Longrightarrow> dk' (st + of_nat i + 1) = dk (st + of_nat i + 1)"
proof -
  note h = assms(1) [unfolded log_ok_def, THEN conjunct2, rule_format]
  have n: "home st dk j \<noteq> st" "i < logged st dk \<Longrightarrow> home st dk j \<noteq> st + of_nat i + 1" if "j < k" for j i
    using h [of j] that assms(2) by simp_all
  show "dk' st = dk st" unfolding dk'_def
  proof (intro installed_other notI, elim imageE)
    fix j assume "st = home st dk j" "j \<in> {..<k}"
    then show False using n(1) [of j] by simp
  qed
  show "dk' (st + of_nat i + 1) = dk (st + of_nat i + 1)" if "i < logged st dk" unfolding dk'_def
  proof (intro installed_other notI, elim imageE)
    fix j assume "st + of_nat i + 1 = home st dk j" "j \<in> {..<k}"
    then show False using n(2) [of j i] that by simp
  qed
qed

lemma recover_from_log_ok:
  assumes ok: "cache_ok d {} s" and d: "lg_dev (log s) = d" and l: "log_ok (lg_start (log s)) (disk s)"
  shows "\<exists>t. recover_from_log s = Ok () t \<and> cache_ok d {} t \<and> disk t = redone (lg_start (log s)) (disk s) \<and>
    dtrace t = dtrace s @ redo_writes (lg_start (log s)) (disk s)"
proof -
  let ?st = "lg_start (log s)" and ?dk = "disk s"
  let ?n = "logged ?st ?dk"
  note h = l [unfolded log_ok_def, THEN conjunct2, rule_format]
  obtain t1 where a: "read_head s = Ok () t1" "cache_ok d {} t1" "disk t1 = ?dk" "dtrace t1 = dtrace s" "lg_dev (log t1) = d"
    "lg_start (log t1) = ?st" "lh_n (log t1) = sint (word_of (?dk ?st) 0)" "\<forall>i < ?n. lh_block (log t1) i = home ?st ?dk i"
    using read_head_ok [OF ok d l [unfolded log_ok_def, THEN conjunct1]] by (elim exE conjE) (rule that)
  have n: "nat (lh_n (log t1)) = ?n" unfolding a(7) logged_def ..
  have ws: "map (\<lambda>i. (lh_block (log t1) i, ?dk (?st + of_nat i + 1))) [0..<?n] = map (\<lambda>i. (home ?st ?dk i, ?dk (?st + of_nat i + 1))) [0..<?n]"
    using a(8) by (intro map_cong refl) simp
  have far: "\<forall>i\<in>set [0..<?n]. \<forall>j\<in>set [0..<?n]. lh_block (log t1) i \<noteq> lg_start (log t1) + of_nat j + 1"
    using h a(8) unfolding a(6) by (intro ballI) simp
  obtain t2 where b: "install_loop True [0..<?n] t1 = Ok () t2" "cache_ok d {} t2" "log t2 = log t1"
    "disk t2 = apply_writes (map (\<lambda>i. (home ?st ?dk i, ?dk (?st + of_nat i + 1))) [0..<?n]) ?dk"
    "dtrace t2 = dtrace s @ map (\<lambda>i. (home ?st ?dk i, ?dk (?st + of_nat i + 1))) [0..<?n]"
    using install_loop_ok [OF a(2,5) far] unfolding a(3,4,6) ws by (elim exE conjE) (rule that)
  define t3 where "t3 = t2\<lparr>log := (log t2)\<lparr>lh_n := 0\<rparr>\<rparr>"
  have c: "cache_ok d {} t3" "lg_dev (log t3) = d" "lh_n (log t3) = 0" "lg_start (log t3) = ?st" "disk t3 = disk t2" "dtrace t3 = dtrace t2"
    unfolding t3_def cache_ok_log using b(2,3) a(5,6) by simp_all
  have same: "disk t2 ?st = ?dk ?st" unfolding b(4) apply_installed by (rule installed_log(1) [OF l order_refl])
  obtain t where w: "write_head t3 = Ok () t" "cache_ok d {} t" "disk t = (disk t2)(?st := set_word 0 0 (?dk ?st))"
    "dtrace t = dtrace t2 @ [(?st, set_word 0 0 (?dk ?st))]"
    using write_head_empty [OF c(1-3)] unfolding c(4-6) same by (elim exE conjE) (rule that)
  have "recover_from_log s = Ok () t"
    unfolding recover_from_log_def a(1) then_do.simps install_trans_def n b(1) w(1) [unfolded t3_def] ..
  moreover have "disk t = redone ?st ?dk" unfolding w(3) b(4) redone_def apply_installed ..
  moreover have "dtrace t = dtrace s @ redo_writes ?st ?dk" unfolding w(4) b(5) redo_writes_def by simp
  ultimately show ?thesis using w(2) by (intro exI [of _ t] conjI)
qed

text \<open>The disk that a crash after any number of these writes leaves has a log with the same outcome.\<close>

lemma logged_cong: "dk' st = dk st \<Longrightarrow> logged st dk' = logged st dk \<and> home st dk' = home st dk"
  by (simp add: logged_def home_def fun_eq_iff)

lemma crash_copying:
  assumes l: "log_ok st dk" and k: "k \<le> logged st dk"
  defines "dk' \<equiv> installed (home st dk) (\<lambda>i. dk (st + of_nat i + 1)) k dk"
  shows "log_ok st dk'" and "redone st dk' = redone st dk"
proof -
  note i = installed_log [OF l k, folded dk'_def]
  have c: "logged st dk' = logged st dk" "home st dk' = home st dk" using logged_cong [of dk' st dk, OF i(1)] by simp_all
  show "log_ok st dk'" using l unfolding log_ok_def c i(1) .
  have g: "installed (home st dk) (\<lambda>i. dk' (st + of_nat i + 1)) n x = installed (home st dk) (\<lambda>i. dk (st + of_nat i + 1)) n x"
    if "n \<le> logged st dk" for n x
    using that by (induction n) (simp_all add: i(2))
  show "redone st dk' = redone st dk"
    unfolding redone_def c i(1) g [OF order_refl] unfolding dk'_def installed_twice [OF k] ..
qed

lemma crash_cleared:
  assumes len: "\<And>n. length (dk n) = BSIZE"
  shows "log_ok st (redone st dk)" and "redone st (redone st dk) = redone st dk"
proof -
  have h: "redone st dk st = set_word 0 0 (dk st)" by (simp add: redone_def)
  have z: "word_of (redone st dk st) 0 = 0" unfolding h by (rule set_word_0(1) [OF len])
  have n: "logged st (redone st dk) = 0" by (simp add: logged_def z)
  show "log_ok st (redone st dk)" by (simp add: log_ok_def z n)
  have "redone st (redone st dk) = (redone st dk)(st := set_word 0 0 (redone st dk st))"
    by (simp add: redone_def [of st "redone st dk"] n)
  also have "\<dots> = redone st dk" unfolding h set_word_0(2) [OF len] using h by (simp add: fun_upd_idem)
  finally show "redone st (redone st dk) = redone st dk" .
qed

lemma crash_anywhere:
  assumes l: "log_ok st dk" and len: "\<And>n. length (dk n) = BSIZE"
  shows "log_ok st (apply_writes (take k (redo_writes st dk)) dk) \<and>
    redone st (apply_writes (take k (redo_writes st dk)) dk) = redone st dk"
proof (cases "k \<le> logged st dk")
  case True
  then have "take k (redo_writes st dk) = map (\<lambda>i. (home st dk i, dk (st + of_nat i + 1))) [0..<k]"
    by (simp add: redo_writes_def take_map)
  then show ?thesis using crash_copying [OF l True] by (simp add: apply_installed)
next
  case False
  then have "take k (redo_writes st dk) = redo_writes st dk" by (simp add: redo_writes_def)
  then show ?thesis using crash_cleared [OF len] by (simp add: apply_redo_writes)
qed

text \<open>
  C5: Recovery from the log copies every logged block to its home location and clears the header, and it
  can be interrupted: when the machine stops after any number of the block writes that recover_from_log() makes,
  recovery on the next start, from the disk as it then is, ends with exactly the disk that the first recovery would
  have left. The log is one whose header has at most LOGSIZE entries and whose home locations lie outside it.
\<close>

theorem recovery_survives_crashes:
  fixes s :: "'z logs_scheme"
  assumes ok: "cache_ok d {} s" and d: "lg_dev (log s) = d" and l: "log_ok (lg_start (log s)) (disk s)"
  shows "\<exists>t ws. recover_from_log s = Ok () t \<and> dtrace t = dtrace s @ ws \<and> disk t = redone (lg_start (log s)) (disk s) \<and>
    (\<forall>k. \<forall>s' :: 'z logs_scheme. cache_ok d {} s' \<and> lg_dev (log s') = d \<and> lg_start (log s') = lg_start (log s) \<and>
       disk s' = apply_writes (take k ws) (disk s) \<longrightarrow> (\<exists>t'. recover_from_log s' = Ok () t' \<and> disk t' = disk t))"
proof -
  let ?st = "lg_start (log s)"
  obtain t where t: "recover_from_log s = Ok () t" "cache_ok d {} t" "disk t = redone ?st (disk s)"
    "dtrace t = dtrace s @ redo_writes ?st (disk s)"
    using recover_from_log_ok [OF ok d l] by (elim exE conjE) (rule that)
  have again: "\<exists>t'. recover_from_log s' = Ok () t' \<and> disk t' = disk t"
    if s': "cache_ok d {} s'" "lg_dev (log s') = d" "lg_start (log s') = ?st" "disk s' = apply_writes (take k (redo_writes ?st (disk s))) (disk s)"
    for s' :: "'z logs_scheme" and k
  proof -
    note c = crash_anywhere [OF l cache_okD(12) [OF ok], of k]
    have "log_ok (lg_start (log s')) (disk s')" unfolding s'(3,4) by (rule c [THEN conjunct1])
    from recover_from_log_ok [OF s'(1,2) this] obtain t' where "recover_from_log s' = Ok () t'" "disk t' = redone ?st (disk s')"
      unfolding s'(3) by (elim exE conjE) (rule that)
    then show ?thesis using c [THEN conjunct2] unfolding s'(4) t(3) by (intro exI [of _ t']) simp
  qed
  show ?thesis using t again by (intro exI [of _ t] exI [of _ "redo_writes ?st (disk s)"]) simp
qed

definition crash_disk :: "u32 \<Rightarrow> u8 list" where
  "crash_disk n =
     (if n = 2 then le_bytes 4 (1 :: u32) @ le_bytes 4 (50 :: u32) @ replicate (BSIZE - 8) 0 else if n = 3 then replicate BSIZE 7 else replicate BSIZE 0)"

abbreviation crash_sample :: vkern where
  "crash_sample \<equiv> sample0\<lparr>disk := crash_disk, log := blank_log\<lparr>lg_dev := 1, lg_start := 2\<rparr>\<rparr>"

lemma crash_disk_log: "logged 2 crash_disk = 1" "home 2 crash_disk 0 = 50" "sint (word_of (crash_disk 2) 0) = 1"
  by (simp_all add: logged_def home_def word_of_def crash_disk_def le_word_bytes)

lemma crash_disk_ok: "log_ok 2 crash_disk" "length (crash_disk n) = BSIZE"
  by (simp_all add: log_ok_def crash_disk_log LOGSIZE_def MAXOPBLOCKS_def) (simp add: crash_disk_def BSIZE_def)

theorem recovery_survives_crashes_witness:
  "\<exists>t t'. recover_from_log crash_sample = Ok () t \<and> disk t 50 = replicate BSIZE 7 \<and>
     recover_from_log (crash_sample\<lparr>disk := crash_disk(50 := replicate BSIZE 7)\<rparr>) = Ok () t' \<and> disk t' = disk t"
proof -
  let ?s' = "crash_sample\<lparr>disk := crash_disk(50 := replicate BSIZE 7)\<rparr>"
  have c: "cache_ok 1 {} crash_sample" "cache_ok 1 {} ?s'"
    using fresh_cache(1) [of crash_sample 0 1] fresh_cache(1) [of ?s' 0 1] by (simp_all add: crash_disk_ok sample0_def)
  have l: "lg_dev (log crash_sample) = 1" "log_ok (lg_start (log crash_sample)) (disk crash_sample)" by (simp_all add: crash_disk_ok)
  obtain t ws where t: "recover_from_log crash_sample = Ok () t" "dtrace t = dtrace crash_sample @ ws"
    "disk t = redone (lg_start (log crash_sample)) (disk crash_sample)"
    "\<forall>k. \<forall>s' :: vkern. cache_ok 1 {} s' \<and> lg_dev (log s') = 1 \<and> lg_start (log s') = lg_start (log crash_sample) \<and>
       disk s' = apply_writes (take k ws) (disk crash_sample) \<longrightarrow> (\<exists>t'. recover_from_log s' = Ok () t' \<and> disk t' = disk t)"
    using recovery_survives_crashes [OF c(1) l] by (elim exE conjE) (rule that)
  have "ws = redo_writes 2 crash_disk" using recover_from_log_ok [OF c(1) l] t(1,2) by auto
  then have w: "take 1 ws = [(50, replicate BSIZE 7)]" by (simp add: redo_writes_def crash_disk_log) (simp add: crash_disk_def)
  have "\<exists>t'. recover_from_log ?s' = Ok () t' \<and> disk t' = disk t"
    by (rule t(4) [rule_format, of _ 1], intro conjI, rule c(2)) (simp_all add: w apply_writes_def del: One_nat_def)
  moreover have "disk t 50 = replicate BSIZE 7" unfolding t(3) by (simp add: redone_def crash_disk_log) (simp add: crash_disk_def)
  ultimately show ?thesis using t(1) by blast
qed

end
