(* ===== verification/User_Env.thy ===== *)
theory User_Env
  imports Kprintf Kstring
begin

text \<open>
  The view that a user program has of the kernel (user/user.h, user/usys.pl), and user/ulib.c.

  A user program reaches the kernel only through the system calls of user/user.h. It runs against the
  sequence of the replies that the kernel gives to its calls, and leaves the sequence of the calls it
  makes: \<open>replies\<close> are the answers still to come, \<open>calls\<close> the calls made so far. After fork() the
  program goes on as the parent or as the child, as the reply says. The outcomes are those of kernel
  operations: \<open>Exits\<close> is the end of a run, after exit() or when a call is made that does not return
  any more (there is no further reply), and \<open>Panic\<close> stands for undefined behaviour of the program.

  Strings are lists of the bytes before the terminating NUL unless a routine depends on the memory
  around them.
\<close>

section \<open>System calls\<close>

abbreviation newline :: u8 where "newline \<equiv> 10"

datatype ucall =
    UFork
  | UExit int
  | UWait                                \<comment> \<open>with a null pointer for the status\<close>
  | UWaitStatus                          \<comment> \<open>with a pointer to an int\<close>
  | UPipe
  | UWrite int "u8 list"
  | URead int nat
  | UClose int
  | UKill u32
  | UExec "u8 list" "u8 list list"
  | UOpen "u8 list" u32
  | UUnlink "u8 list"
  | UFstat int
  | ULink "u8 list" "u8 list"
  | UMkdir "u8 list"
  | UChdir "u8 list"
  | UDup int
  | UGetpid
  | USbrk u32
  | USleep int
  | UUptime
  | UPrintinfo u32 "u8 list"
  | UCatsys "u8 list"

text \<open>struct stat as fstat() fills it in.\<close>

record ustat =
  us_dev :: u32
  us_ino :: u32
  us_type :: u16
  us_nlink :: u16
  us_size :: u64

datatype reply =
    RInt int                             \<comment> \<open>the value returned\<close>
  | RBytes "u8 list"                     \<comment> \<open>read(): the bytes delivered; it returns their number\<close>
  | RStat ustat                          \<comment> \<open>fstat(): it returns 0\<close>
  | RFds int int                         \<comment> \<open>pipe(): the two descriptors; it returns 0\<close>
  | RWait int int                        \<comment> \<open>wait(): the pid, which it returns, and the exit status\<close>

record uenv =
  replies :: "reply list"
  calls :: "ucall list"

type_synonym ('z, 'a) uresult = "('z uenv_scheme, 'a) result"

text \<open>A system call: the call is made, and the program goes on when there is a reply.\<close>

definition usys :: "ucall \<Rightarrow> 'z uenv_scheme \<Rightarrow> ('z, reply) uresult" where
  "usys c s =
     (let s1 = s\<lparr>calls := calls s @ [c]\<rparr> in
      case replies s of [] \<Rightarrow> Exits s1 | r # rs \<Rightarrow> Ok r (s1\<lparr>replies := rs\<rparr>))"

text \<open>Calls that return an int and nothing else.\<close>

definition usys_int :: "ucall \<Rightarrow> 'z uenv_scheme \<Rightarrow> ('z, int) uresult" where
  "usys_int c s = then_do (usys c s) (\<lambda>r s. case r of RInt k \<Rightarrow> Ok k s | _ \<Rightarrow> Panic ''reply'')"

definition u_exit :: "int \<Rightarrow> 'z uenv_scheme \<Rightarrow> ('z, 'a) uresult" where
  "u_exit status s = Exits (s\<lparr>calls := calls s @ [UExit status]\<rparr>)"

text \<open>read() returns a negative number, or the number of bytes that it stored, at most \<open>n\<close>.\<close>

definition u_read :: "int \<Rightarrow> nat \<Rightarrow> 'z uenv_scheme \<Rightarrow> ('z, int \<times> u8 list) uresult" where
  "u_read fd n s =
     then_do (usys (URead fd n) s) (\<lambda>r s.
       case r of
         RBytes bs \<Rightarrow> if length bs \<le> n then Ok (int (length bs), bs) s else Panic ''reply''
       | RInt k \<Rightarrow> if k < 0 then Ok (k, []) s else Panic ''reply''
       | _ \<Rightarrow> Panic ''reply'')"

definition u_write :: "int \<Rightarrow> u8 list \<Rightarrow> 'z uenv_scheme \<Rightarrow> ('z, int) uresult" where
  "u_write fd bs s = usys_int (UWrite fd bs) s"

definition u_fstat :: "int \<Rightarrow> 'z uenv_scheme \<Rightarrow> ('z, ustat option) uresult" where
  "u_fstat fd s =
     then_do (usys (UFstat fd) s) (\<lambda>r s.
       case r of RStat st \<Rightarrow> Ok (Some st) s | RInt k \<Rightarrow> if k < 0 then Ok None s else Panic ''reply'' | _ \<Rightarrow> Panic ''reply'')"

definition u_pipe :: "'z uenv_scheme \<Rightarrow> ('z, (int \<times> int) option) uresult" where
  "u_pipe s =
     then_do (usys UPipe s) (\<lambda>r s.
       case r of RFds a b \<Rightarrow> Ok (Some (a, b)) s | RInt k \<Rightarrow> if k < 0 then Ok None s else Panic ''reply'' | _ \<Rightarrow> Panic ''reply'')"

text \<open>wait(&status): the status is not stored when it fails.\<close>

definition u_wait :: "'z uenv_scheme \<Rightarrow> ('z, int \<times> int option) uresult" where
  "u_wait s =
     then_do (usys UWaitStatus s) (\<lambda>r s.
       case r of RWait pid st \<Rightarrow> Ok (pid, Some st) s | RInt k \<Rightarrow> if k < 0 then Ok (k, None) s else Panic ''reply'' | _ \<Rightarrow> Panic ''reply'')"

text \<open>A call whose result is not looked at, and a sequence of such calls.\<close>

definition u_call :: "ucall \<Rightarrow> 'z uenv_scheme \<Rightarrow> ('z, unit) uresult" where
  "u_call c s = then_do (usys_int c s) (\<lambda>_ s. Ok () s)"

primrec u_calls :: "ucall list \<Rightarrow> 'z uenv_scheme \<Rightarrow> ('z, unit) uresult" where
  "u_calls [] s = Ok () s"
| "u_calls (c # cs) s = then_do (u_call c s) (\<lambda>_ s. u_calls cs s)"

text \<open>Every call takes a reply, so that a loop that makes a call in every round ends with the replies.\<close>

named_theorems replies_less \<open>calls take a reply\<close>

lemma usys_less [replies_less]: "usys c s = Ok r t \<Longrightarrow> length (replies t) < length (replies s)"
  by (auto simp: usys_def Let_def split: list.splits)

lemma usys_int_less [replies_less]: "usys_int c s = Ok r t \<Longrightarrow> length (replies t) < length (replies s)"
  by (cases "usys c s") (auto simp: usys_int_def dest: usys_less split: reply.splits if_splits)

lemma u_read_less [replies_less]: "u_read fd n s = Ok r t \<Longrightarrow> length (replies t) < length (replies s)"
  by (cases "usys (URead fd n) s") (auto simp: u_read_def dest: usys_less split: reply.splits if_splits)

lemma u_write_less [replies_less]: "u_write fd bs s = Ok r t \<Longrightarrow> length (replies t) < length (replies s)"
  by (auto simp: u_write_def dest: usys_int_less)

lemma u_pipe_less [replies_less]: "u_pipe s = Ok r t \<Longrightarrow> length (replies t) < length (replies s)"
  by (cases "usys UPipe s") (auto simp: u_pipe_def dest: usys_less split: reply.splits if_splits)

lemma u_wait_less [replies_less]: "u_wait s = Ok r t \<Longrightarrow> length (replies t) < length (replies s)"
  by (cases "usys UWaitStatus s") (auto simp: u_wait_def dest: usys_less split: reply.splits if_splits)

lemma u_call_less [replies_less]: "u_call c s = Ok r t \<Longrightarrow> length (replies t) < length (replies s)"
  by (cases "usys_int c s") (auto simp: u_call_def dest: usys_int_less)

lemma u_calls_le: "u_calls cs s = Ok r t \<Longrightarrow> length (replies t) \<le> length (replies s)"
proof (induction cs arbitrary: s)
  case (Cons c cs)
  show ?case
  proof (cases "u_call c s")
    case (Ok x u)
    then show ?thesis using Cons.IH [of u] Cons.prems u_call_less [OF Ok] by simp
  qed (use Cons.prems in simp_all)
qed simp

lemma u_fstat_less [replies_less]: "u_fstat fd s = Ok r t \<Longrightarrow> length (replies t) < length (replies s)"
  by (cases "usys (UFstat fd) s") (auto simp: u_fstat_def dest: usys_less split: reply.splits if_splits)

lemma u_exit_not_Ok [simp]: "u_exit n s \<noteq> Ok r t" "Ok r t \<noteq> u_exit n s"
  by (auto simp: u_exit_def)

definition O_RDONLY :: u32 where "O_RDONLY = 0"
definition O_WRONLY :: u32 where "O_WRONLY = 1"
definition O_RDWR :: u32 where "O_RDWR = 2"

section \<open>user/ulib.c\<close>

text \<open>start() calls main and exits.\<close>

definition u_start :: "('z uenv_scheme \<Rightarrow> ('z, 'a) uresult) \<Rightarrow> 'z uenv_scheme \<Rightarrow> ('z, 'b) uresult" where
  "u_start main s = then_do (main s) (\<lambda>_ s. u_exit 0 s)"

partial_function (option) strcpy_loop :: "mem \<Rightarrow> u64 \<Rightarrow> u64 \<Rightarrow> mem option" where
  "strcpy_loop m s t = (let m' = m(s := m t) in if m t \<noteq> 0 then strcpy_loop m' (s + 1) (t + 1) else Some m')"

definition strcpy :: "mem \<Rightarrow> u64 \<Rightarrow> u64 \<Rightarrow> mem option" where
  "strcpy m s t = strcpy_loop m s t"

partial_function (option) strcmp_from :: "cstr \<Rightarrow> cstr \<Rightarrow> nat \<Rightarrow> int option" where
  "strcmp_from p q i =
     (if p i \<noteq> 0 \<and> p i = q i then strcmp_from p q (Suc i) else Some (uint (p i) - uint (q i)))"

definition strcmp :: "cstr \<Rightarrow> cstr \<Rightarrow> int option" where
  "strcmp p q = strcmp_from p q 0"

text \<open>strlen() of user/ulib.c counts as the one of the kernel does.\<close>

partial_function (option) ulib_strlen_from :: "cstr \<Rightarrow> nat \<Rightarrow> nat option" where
  "ulib_strlen_from s n = (if s n \<noteq> 0 then ulib_strlen_from s (Suc n) else Some n)"

definition ulib_strlen :: "cstr \<Rightarrow> u32 option" where
  "ulib_strlen s = map_option of_nat (ulib_strlen_from s 0)"

definition ulib_memset :: "mem \<Rightarrow> u64 \<Rightarrow> u32 \<Rightarrow> u32 \<Rightarrow> mem" where
  "ulib_memset m dst c n = memset_loop m dst (ucast c) (unat n)"

text \<open>strchr() on the bytes before the NUL: the index of the first occurrence.\<close>

primrec strchr :: "u8 list \<Rightarrow> u8 \<Rightarrow> nat option" where
  "strchr [] c = None"
| "strchr (x # xs) c = (if x = c then Some 0 else map_option Suc (strchr xs c))"

text \<open>gets(): at most \<open>max - 1\<close> characters, up to and including a newline or carriage return.\<close>

fun gets_loop :: "nat \<Rightarrow> u8 list \<Rightarrow> 'z uenv_scheme \<Rightarrow> ('z, u8 list) uresult" where
  "gets_loop room acc s =
     (if room \<le> 1 then Ok acc s
      else then_do (u_read 0 1 s) (\<lambda>(cc, bs) s.
        if cc < 1 then Ok acc s
        else (let c = hd bs; acc' = acc @ [c] in
          if c = newline \<or> c = 13 then Ok acc' s else gets_loop (room - 1) acc' s)))"

declare gets_loop.simps [simp del]

definition gets :: "nat \<Rightarrow> 'z uenv_scheme \<Rightarrow> ('z, u8 list) uresult" where
  "gets n s = gets_loop n [] s"

definition u_stat :: "u8 list \<Rightarrow> 'z uenv_scheme \<Rightarrow> ('z, ustat option) uresult" where
  "u_stat n s =
     then_do (usys_int (UOpen n O_RDONLY) s) (\<lambda>fd s.
       if fd < 0 then Ok None s
       else then_do (u_fstat fd s) (\<lambda>r s. then_do (usys_int (UClose fd) s) (\<lambda>_ s. Ok r s)))"

primrec atoi_from :: "u8 list \<Rightarrow> u32 \<Rightarrow> u32" where
  "atoi_from [] n = n"
| "atoi_from (c # cs) n =
     (if chr CHR ''0'' \<le> c \<and> c \<le> chr CHR ''9'' then atoi_from cs (n * 10 + ucast c - 48) else n)"

definition atoi :: "u8 list \<Rightarrow> u32" where
  "atoi s = atoi_from s 0"

primrec ulib_memcmp_from :: "cstr \<Rightarrow> cstr \<Rightarrow> nat \<Rightarrow> int" where
  "ulib_memcmp_from p1 p2 0 = 0"
| "ulib_memcmp_from p1 p2 (Suc n) =
     (if p1 0 \<noteq> p2 0 then uint (p1 0) - uint (p2 0)
      else ulib_memcmp_from (\<lambda>i. p1 (Suc i)) (\<lambda>i. p2 (Suc i)) n)"

definition ulib_memcmp :: "cstr \<Rightarrow> cstr \<Rightarrow> u32 \<Rightarrow> int" where
  "ulib_memcmp s1 s2 n = ulib_memcmp_from s1 s2 (unat n)"

definition ulib_memcpy :: "mem \<Rightarrow> u64 \<Rightarrow> u64 \<Rightarrow> u32 \<Rightarrow> mem" where
  "ulib_memcpy m dst src n = ulib_memmove m dst src (sint n)"

end
