(* ===== verification/Uprintf.thy ===== *)
theory Uprintf
  imports User_Env
begin

text \<open>
  Formatted output of user programs, user/printf.c. Every character is written by a call of write() of
  its own. \<open>vprintf_bytes fmt args\<close> are the characters in their order; numbers are printed from 32 bits
  whatever the width of the conversion. An argument is the 64-bit value of its slot or a string, and
  \<open>None\<close> stands for an argument that is missing or of the wrong kind.
\<close>

definition udigits :: "u8 list" where
  "udigits = bytes_of ''0123456789ABCDEF''"

definition putc :: "int \<Rightarrow> u8 \<Rightarrow> 'z uenv_scheme \<Rightarrow> ('z, unit) uresult" where
  "putc fd c s = then_do (u_write fd [c] s) (\<lambda>_ s. Ok () s)"

primrec putcs :: "int \<Rightarrow> u8 list \<Rightarrow> 'z uenv_scheme \<Rightarrow> ('z, unit) uresult" where
  "putcs fd [] s = Ok () s"
| "putcs fd (c # cs) s = then_do (putc fd c s) (\<lambda>_ s. putcs fd cs s)"

text \<open>The digits of a number, least significant first; there is at least one.\<close>

function udigit_list :: "nat \<Rightarrow> nat \<Rightarrow> u8 list" where
  "udigit_list base x =
     udigits ! (x mod base) # (if base \<le> 1 \<or> x div base = 0 then [] else udigit_list base (x div base))"
  by pat_completeness auto
termination by (relation "measure snd") (auto simp: div_eq_0_iff)

declare udigit_list.simps [simp del]

definition uprintint :: "u32 \<Rightarrow> nat \<Rightarrow> bool \<Rightarrow> u8 list" where
  "uprintint xx base sign =
     (let neg = (sign \<and> sint xx < 0);
          x = (if neg then - xx else xx)
      in rev (udigit_list base (unat x) @ (if neg then [chr CHR ''-''] else [])))"

primrec uprintptr_loop :: "nat \<Rightarrow> u64 \<Rightarrow> u8 list" where
  "uprintptr_loop 0 x = []"
| "uprintptr_loop (Suc n) x = udigits ! unat (drop_bit 60 x) # uprintptr_loop n (push_bit 4 x)"

definition uprintptr :: "u64 \<Rightarrow> u8 list" where
  "uprintptr x = [chr CHR ''0'', chr CHR ''x''] @ uprintptr_loop 16 x"

text \<open>One conversion: the output, the arguments left, and how many further characters of the format it takes.\<close>

definition uconversion :: "u8 \<Rightarrow> u8 \<Rightarrow> u8 \<Rightarrow> parg list \<Rightarrow> (u8 list \<times> parg list \<times> nat) option" where
  "uconversion c0 c1 c2 args =
     (let num = (\<lambda>base sign k. num_conv args (\<lambda>v. Some (uprintint (ucast v) base sign)) k) in
      if c0 = chr CHR ''d'' then num 10 True 0
      else if c0 = chr CHR ''l'' \<and> c1 = chr CHR ''d'' then num 10 True 1
      else if c0 = chr CHR ''l'' \<and> c1 = chr CHR ''l'' \<and> c2 = chr CHR ''d'' then num 10 True 2
      else if c0 = chr CHR ''u'' then num 10 False 0
      else if c0 = chr CHR ''l'' \<and> c1 = chr CHR ''u'' then num 10 False 1
      else if c0 = chr CHR ''l'' \<and> c1 = chr CHR ''l'' \<and> c2 = chr CHR ''u'' then num 10 False 2
      else if c0 = chr CHR ''x'' then num 16 False 0
      else if c0 = chr CHR ''l'' \<and> c1 = chr CHR ''x'' then num 16 False 1
      else if c0 = chr CHR ''l'' \<and> c1 = chr CHR ''l'' \<and> c2 = chr CHR ''x'' then num 16 False 2
      else if c0 = chr CHR ''p'' then num_conv args (\<lambda>v. Some (uprintptr v)) 0
      else if c0 = chr CHR ''s'' then
        (case args of
           PStr str # rest \<Rightarrow> Some (case str of None \<Rightarrow> bytes_of ''(null)'' | Some bs \<Rightarrow> bs, rest, 0)
         | _ \<Rightarrow> None)
      else if c0 = chr CHR ''%'' then Some ([chr CHR ''%''], args, 0)
      else Some ([chr CHR ''%'', c0], args, 0))"

function vprintf_bytes :: "u8 list \<Rightarrow> parg list \<Rightarrow> u8 list option" where
  "vprintf_bytes fmt args =
     (case fmt of
        [] \<Rightarrow> Some []
      | c # rest \<Rightarrow>
          if c \<noteq> chr CHR ''%'' then map_option (Cons c) (vprintf_bytes rest args)
          else
            (case rest of
               [] \<Rightarrow> Some []
             | c0 # rest' \<Rightarrow>
                 (case uconversion c0 (byte_or_0 0 rest') (byte_or_0 1 rest') args of
                    None \<Rightarrow> None
                  | Some (out, args', k) \<Rightarrow> map_option (append out) (vprintf_bytes (drop k rest') args'))))"
  by pat_completeness auto
termination by (relation "measure (\<lambda>(fmt, args). length fmt)") auto

declare vprintf_bytes.simps [simp del]

definition vprintf :: "int \<Rightarrow> u8 list \<Rightarrow> parg list \<Rightarrow> 'z uenv_scheme \<Rightarrow> ('z, unit) uresult" where
  "vprintf fd fmt args s =
     (case vprintf_bytes fmt args of None \<Rightarrow> Panic ''arguments'' | Some bs \<Rightarrow> putcs fd bs s)"

definition u_fprintf :: "int \<Rightarrow> string \<Rightarrow> parg list \<Rightarrow> 'z uenv_scheme \<Rightarrow> ('z, unit) uresult" where
  "u_fprintf fd fmt args s = vprintf fd (bytes_of fmt) args s"

definition u_printf :: "string \<Rightarrow> parg list \<Rightarrow> 'z uenv_scheme \<Rightarrow> ('z, unit) uresult" where
  "u_printf fmt args s = vprintf 1 (bytes_of fmt) args s"

lemma putcs_le: "putcs fd bs s = Ok r t \<Longrightarrow> length (replies t) \<le> length (replies s)"
  by (induction bs arbitrary: s) (fastforce simp: putc_def result_iff dest: u_write_less)+

lemma printf_le:
  "u_printf fmt args s = Ok r t \<Longrightarrow> length (replies t) \<le> length (replies s)"
  "u_fprintf fd fmt args s = Ok r t \<Longrightarrow> length (replies t) \<le> length (replies s)"
  by (auto simp: u_printf_def u_fprintf_def vprintf_def dest: putcs_le split: option.splits)

text \<open>An int as an argument.\<close>

abbreviation pint :: "u32 \<Rightarrow> parg" where
  "pint v \<equiv> PNum (scast v)"

abbreviation pstr :: "u8 list \<Rightarrow> parg" where
  "pstr bs \<equiv> PStr (Some bs)"

end
