(* ===== verification/User_Progs.thy ===== *)
theory User_Progs
  imports Uprintf Sysfile
begin

text \<open>
  The small programs of user/: init, echo, cat, kill, ln, mkdir, rm, ls, wc, zombie, stressfs, forktest
  and the three programs that print through the kernel (rootls, dirls, catfile). A program is its
  function main; \<open>argv\<close> is the list of its arguments, the name of the program first.
\<close>

abbreviation ustr :: "string \<Rightarrow> u8 list" where "ustr \<equiv> bytes_of"

section \<open>echo, kill, ln, mkdir, rm, zombie\<close>

fun echo_loop :: "u8 list list \<Rightarrow> 'z uenv_scheme \<Rightarrow> ('z, unit) uresult" where
  "echo_loop [] s = u_exit 0 s"
| "echo_loop (a # rest) s =
     then_do (u_write 1 a s) (\<lambda>_ s.
     then_do (u_write 1 (if rest \<noteq> [] then ustr '' '' else [newline]) s) (\<lambda>_ s.
     echo_loop rest s))"

definition echo_main :: "u8 list list \<Rightarrow> 'z uenv_scheme \<Rightarrow> ('z, unit) uresult" where
  "echo_main argv s = echo_loop (drop 1 argv) s"

fun kill_loop :: "u8 list list \<Rightarrow> 'z uenv_scheme \<Rightarrow> ('z, unit) uresult" where
  "kill_loop [] s = u_exit 0 s"
| "kill_loop (a # rest) s = then_do (usys_int (UKill (atoi a)) s) (\<lambda>_ s. kill_loop rest s)"

definition kill_main :: "u8 list list \<Rightarrow> 'z uenv_scheme \<Rightarrow> ('z, unit) uresult" where
  "kill_main argv s =
     (if length argv < 2 then then_do (u_fprintf 2 (''usage: kill pid...'' @ [CHR 0x0A]) [] s) (\<lambda>_ s. u_exit 1 s)
      else kill_loop (drop 1 argv) s)"

definition ln_main :: "u8 list list \<Rightarrow> 'z uenv_scheme \<Rightarrow> ('z, unit) uresult" where
  "ln_main argv s =
     (if length argv \<noteq> 3 then then_do (u_fprintf 2 (''Usage: ln old new'' @ [CHR 0x0A]) [] s) (\<lambda>_ s. u_exit 1 s)
      else
        then_do (usys_int (ULink (argv ! 1) (argv ! 2)) s) (\<lambda>r s.
        then_do (if r < 0 then u_fprintf 2 (''link %s %s: failed'' @ [CHR 0x0A]) [pstr (argv ! 1), pstr (argv ! 2)] s
                 else Ok () s) (\<lambda>_ s.
        u_exit 0 s)))"

fun mkdir_loop :: "u8 list list \<Rightarrow> 'z uenv_scheme \<Rightarrow> ('z, unit) uresult" where
  "mkdir_loop [] s = Ok () s"
| "mkdir_loop (a # rest) s =
     then_do (usys_int (UMkdir a) s) (\<lambda>r s.
     if r < 0 then u_fprintf 2 (''mkdir: %s failed to create'' @ [CHR 0x0A]) [pstr a] s
     else mkdir_loop rest s)"

definition mkdir_main :: "u8 list list \<Rightarrow> 'z uenv_scheme \<Rightarrow> ('z, unit) uresult" where
  "mkdir_main argv s =
     (if length argv < 2 then then_do (u_fprintf 2 (''Usage: mkdir files...'' @ [CHR 0x0A]) [] s) (\<lambda>_ s. u_exit 1 s)
      else then_do (mkdir_loop (drop 1 argv) s) (\<lambda>_ s. u_exit 0 s))"

fun rm_loop :: "u8 list list \<Rightarrow> 'z uenv_scheme \<Rightarrow> ('z, unit) uresult" where
  "rm_loop [] s = Ok () s"
| "rm_loop (a # rest) s =
     then_do (usys_int (UUnlink a) s) (\<lambda>r s.
     if r < 0 then u_fprintf 2 (''rm: %s failed to delete'' @ [CHR 0x0A]) [pstr a] s
     else rm_loop rest s)"

definition rm_main :: "u8 list list \<Rightarrow> 'z uenv_scheme \<Rightarrow> ('z, unit) uresult" where
  "rm_main argv s =
     (if length argv < 2 then then_do (u_fprintf 2 (''Usage: rm files...'' @ [CHR 0x0A]) [] s) (\<lambda>_ s. u_exit 1 s)
      else then_do (rm_loop (drop 1 argv) s) (\<lambda>_ s. u_exit 0 s))"

definition zombie_main :: "'z uenv_scheme \<Rightarrow> ('z, unit) uresult" where
  "zombie_main s =
     then_do (usys_int UFork s) (\<lambda>pid s.
     then_do (if pid > 0 then usys_int (USleep 5) s else Ok 0 s) (\<lambda>_ s.
     u_exit 0 s))"

section \<open>rootls, dirls, catfile\<close>

definition ROOT_FILES :: u32 where "ROOT_FILES = 0"
definition CWDFILES :: u32 where "CWDFILES = 1"
definition CATFILE :: u32 where "CATFILE = 2"

definition rootls_main :: "'z uenv_scheme \<Rightarrow> ('z, unit) uresult" where
  "rootls_main s =
     then_do (usys_int (UPrintinfo ROOT_FILES []) s) (\<lambda>_ s.
     then_do (u_printf ''here'' [] s) (\<lambda>_ s.
     u_exit 0 s))"

definition dirls_main :: "u8 list list \<Rightarrow> 'z uenv_scheme \<Rightarrow> ('z, unit) uresult" where
  "dirls_main argv s =
     (if length argv < 2 then then_do (u_printf (''enter directory'' @ [CHR 0x0A]) [] s) (\<lambda>_ s. u_exit 0 s)
      else
        then_do (usys_int (UChdir (argv ! 1)) s) (\<lambda>r s.
        if r < 0 then then_do (u_printf (''invalid directory'' @ [CHR 0x0A]) [] s) (\<lambda>_ s. u_exit 0 s)
        else then_do (usys_int (UPrintinfo CWDFILES []) s) (\<lambda>_ s. u_exit 0 s)))"

text \<open>Without an argument catfile passes the null pointer of argv[1].\<close>

definition catfile_main :: "u8 list list \<Rightarrow> 'z uenv_scheme \<Rightarrow> ('z, unit) uresult" where
  "catfile_main argv s =
     then_do (usys_int (UPrintinfo CATFILE (if length argv < 2 then [] else argv ! 1)) s) (\<lambda>_ s. u_exit 0 s)"

section \<open>cat\<close>

function cat_fd :: "int \<Rightarrow> 'z uenv_scheme \<Rightarrow> ('z, unit) uresult" where
  "cat_fd fd s =
     then_do (u_read fd 512 s) (\<lambda>x s.
       case x of (n, buf) \<Rightarrow>
       if n > 0 then
         then_do (u_write 1 buf s) (\<lambda>r s.
           if r \<noteq> n then then_do (u_fprintf 2 (''cat: write error'' @ [CHR 0x0A]) [] s) (\<lambda>_ s. u_exit 1 s)
           else cat_fd fd s)
       else if n < 0 then then_do (u_fprintf 2 (''cat: read error'' @ [CHR 0x0A]) [] s) (\<lambda>_ s. u_exit 1 s)
       else Ok () s)"
  by pat_completeness auto
termination by (relation "measure (\<lambda>(fd, s). length (replies s))") (auto dest!: replies_less)

declare cat_fd.simps [simp del]

fun cat_loop :: "u8 list list \<Rightarrow> 'z uenv_scheme \<Rightarrow> ('z, unit) uresult" where
  "cat_loop [] s = u_exit 0 s"
| "cat_loop (a # rest) s =
     then_do (usys_int (UOpen a O_RDONLY) s) (\<lambda>fd s.
     if fd < 0 then then_do (u_fprintf 2 (''cat: cannot open %s'' @ [CHR 0x0A]) [pstr a] s) (\<lambda>_ s. u_exit 1 s)
     else then_do (cat_fd fd s) (\<lambda>_ s. then_do (usys_int (UClose fd) s) (\<lambda>_ s. cat_loop rest s)))"

definition cat_main :: "u8 list list \<Rightarrow> 'z uenv_scheme \<Rightarrow> ('z, unit) uresult" where
  "cat_main argv s =
     (if length argv \<le> 1 then then_do (cat_fd 0 s) (\<lambda>_ s. u_exit 0 s) else cat_loop (drop 1 argv) s)"

section \<open>wc\<close>

text \<open>The counts of lines, words and characters, ints of the source, and whether a word is open.\<close>

record wc_counts =
  wl :: u32
  ww :: u32
  wch :: u32
  inword :: bool

definition wc_char :: "u8 \<Rightarrow> wc_counts \<Rightarrow> wc_counts" where
  "wc_char b k =
     (let k = k\<lparr>wch := wch k + 1\<rparr>;
          k = (if b = newline then k\<lparr>wl := wl k + 1\<rparr> else k)
      in if strchr [chr CHR '' '', 0x0D, 0x09, 0x0A, 0x0B] b \<noteq> None then k\<lparr>inword := False\<rparr>
         else if \<not> inword k then k\<lparr>ww := ww k + 1, inword := True\<rparr>
         else k)"

function wc_loop :: "int \<Rightarrow> wc_counts \<Rightarrow> 'z uenv_scheme \<Rightarrow> ('z, wc_counts) uresult" where
  "wc_loop fd k s =
     then_do (u_read fd 512 s) (\<lambda>x s.
       case x of (n, buf) \<Rightarrow>
       if n > 0 then wc_loop fd (fold wc_char buf k) s
       else if n < 0 then then_do (u_printf (''wc: read error'' @ [CHR 0x0A]) [] s) (\<lambda>_ s. u_exit 1 s)
       else Ok k s)"
  by pat_completeness auto
termination by (relation "measure (\<lambda>(fd, k, s). length (replies s))") (auto dest!: replies_less)

declare wc_loop.simps [simp del]

definition wc_fd :: "int \<Rightarrow> u8 list \<Rightarrow> 'z uenv_scheme \<Rightarrow> ('z, unit) uresult" where
  "wc_fd fd name s =
     then_do (wc_loop fd \<lparr>wl = 0, ww = 0, wch = 0, inword = False\<rparr> s) (\<lambda>k s.
     u_printf (''%d %d %d %s'' @ [CHR 0x0A]) [pint (wl k), pint (ww k), pint (wch k), pstr name] s)"

fun wc_args :: "u8 list list \<Rightarrow> 'z uenv_scheme \<Rightarrow> ('z, unit) uresult" where
  "wc_args [] s = u_exit 0 s"
| "wc_args (a # rest) s =
     then_do (usys_int (UOpen a O_RDONLY) s) (\<lambda>fd s.
     if fd < 0 then then_do (u_printf (''wc: cannot open %s'' @ [CHR 0x0A]) [pstr a] s) (\<lambda>_ s. u_exit 1 s)
     else then_do (wc_fd fd a s) (\<lambda>_ s. then_do (usys_int (UClose fd) s) (\<lambda>_ s. wc_args rest s)))"

definition wc_main :: "u8 list list \<Rightarrow> 'z uenv_scheme \<Rightarrow> ('z, unit) uresult" where
  "wc_main argv s =
     (if length argv \<le> 1 then then_do (wc_fd 0 [] s) (\<lambda>_ s. u_exit 0 s) else wc_args (drop 1 argv) s)"

section \<open>ls\<close>

text \<open>The name after the last slash, padded with blanks to DIRSIZ characters.\<close>

definition fmtname :: "u8 list \<Rightarrow> u8 list" where
  "fmtname p =
     (let q = rev (takeWhile (\<lambda>c. c \<noteq> chr CHR ''/'') (rev p)) in
      if length q \<ge> DIRSIZ then q else q @ replicate (DIRSIZ - length q) (chr CHR '' ''))"

definition ls_line :: "u8 list \<Rightarrow> ustat \<Rightarrow> 'z uenv_scheme \<Rightarrow> ('z, unit) uresult" where
  "ls_line p st s =
     u_printf (''%s %d %d %d'' @ [CHR 0x0A])
       [pstr (fmtname p), pint (ucast (us_type st)), pint (us_ino st), pint (ucast (us_size st))] s"

text \<open>
  The loop over a directory reads entries of struct dirent, 16 bytes each. \<open>p\<close> is the path with a slash; the
  name is the string in the DIRSIZ bytes behind it.
\<close>

lemma ls_line_le: "ls_line p st s = Ok r t \<Longrightarrow> length (replies t) \<le> length (replies s)"
  by (auto simp: ls_line_def dest: printf_le)

lemma u_stat_le: "u_stat n s = Ok r t \<Longrightarrow> length (replies t) \<le> length (replies s)"
  by (cases "usys_int (UOpen n O_RDONLY) s")
     (auto simp: u_stat_def result_iff split: if_splits dest!: replies_less)

function ls_dir :: "int \<Rightarrow> u8 list \<Rightarrow> 'z uenv_scheme \<Rightarrow> ('z, unit) uresult" where
  "ls_dir fd p s =
     then_do (u_read fd 16 s) (\<lambda>x s.
       case x of (n, de) \<Rightarrow>
       if n \<noteq> 16 then Ok () s
       else if (half_at de 0 :: u16) = 0 then ls_dir fd p s
       else
         (let buf = p @ takeWhile (\<lambda>c. c \<noteq> 0) (drop 2 de) in
          then_do (u_stat buf s) (\<lambda>r s.
          then_do (case r of None \<Rightarrow> u_printf (''ls: cannot stat %s'' @ [CHR 0x0A]) [pstr buf] s
                   | Some st \<Rightarrow> ls_line buf st s) (\<lambda>_ s.
          ls_dir fd p s))))"
  by pat_completeness auto
termination
  by (relation "measure (\<lambda>(fd, p, s). length (replies s))")
     (auto dest!: replies_less u_stat_le split: option.splits dest!: ls_line_le printf_le)

declare ls_dir.simps [simp del]

definition ls_path :: "u8 list \<Rightarrow> 'z uenv_scheme \<Rightarrow> ('z, unit) uresult" where
  "ls_path p s =
     then_do (usys_int (UOpen p O_RDONLY) s) (\<lambda>fd s.
     if fd < 0 then u_fprintf 2 (''ls: cannot open %s'' @ [CHR 0x0A]) [pstr p] s
     else
       then_do (u_fstat fd s) (\<lambda>r s.
       case r of
         None \<Rightarrow>
           then_do (u_fprintf 2 (''ls: cannot stat %s'' @ [CHR 0x0A]) [pstr p] s) (\<lambda>_ s.
           then_do (usys_int (UClose fd) s) (\<lambda>_ s. Ok () s))
       | Some st \<Rightarrow>
           then_do
             (if us_type st = T_DEVICE \<or> us_type st = T_FILE then ls_line p st s
              else if us_type st = T_DIR then
                if length p + 1 + DIRSIZ + 1 > 512 then u_printf (''ls: path too long'' @ [CHR 0x0A]) [] s
                else ls_dir fd (p @ [chr CHR ''/'']) s
              else Ok () s) (\<lambda>_ s.
           then_do (usys_int (UClose fd) s) (\<lambda>_ s. Ok () s))))"

fun ls_args :: "u8 list list \<Rightarrow> 'z uenv_scheme \<Rightarrow> ('z, unit) uresult" where
  "ls_args [] s = u_exit 0 s"
| "ls_args (a # rest) s = then_do (ls_path a s) (\<lambda>_ s. ls_args rest s)"

definition ls_main :: "u8 list list \<Rightarrow> 'z uenv_scheme \<Rightarrow> ('z, unit) uresult" where
  "ls_main argv s =
     (if length argv < 2 then then_do (ls_path (ustr ''.'') s) (\<lambda>_ s. u_exit 0 s) else ls_args (drop 1 argv) s)"

section \<open>init\<close>

function init_wait :: "int \<Rightarrow> 'z uenv_scheme \<Rightarrow> ('z, unit) uresult" where
  "init_wait pid s =
     then_do (usys_int UWait s) (\<lambda>wpid s.
       if wpid = pid then Ok () s
       else if wpid < 0 then then_do (u_printf (''init: wait returned an error'' @ [CHR 0x0A]) [] s) (\<lambda>_ s. u_exit 1 s)
       else init_wait pid s)"
  by pat_completeness auto
termination by (relation "measure (\<lambda>(pid, s). length (replies s))") (auto dest!: replies_less)

declare init_wait.simps [simp del]

lemma init_wait_le: "init_wait pid s = Ok r t \<Longrightarrow> length (replies t) \<le> length (replies s)"
proof (induction pid s rule: init_wait.induct)
  case (1 pid s)
  show ?case
  proof (cases "usys_int UWait s")
    case (Ok w u)
    then show ?thesis using 1 usys_int_less [OF Ok]
      by (subst (asm) (2) init_wait.simps) (auto simp: result_iff split: if_splits)
  qed (use 1 in \<open>auto simp: init_wait.simps [of pid s]\<close>)
qed

function init_loop :: "'z uenv_scheme \<Rightarrow> ('z, unit) uresult" where
  "init_loop s =
     then_do (u_printf (''init: starting sh'' @ [CHR 0x0A]) [] s) (\<lambda>_ s.
     then_do (usys_int UFork s) (\<lambda>pid s.
       if pid < 0 then then_do (u_printf (''init: fork failed'' @ [CHR 0x0A]) [] s) (\<lambda>_ s. u_exit 1 s)
       else if pid = 0 then
         then_do (usys_int (UExec (ustr ''sh'') [ustr ''sh'']) s) (\<lambda>_ s.
         then_do (u_printf (''init: exec sh failed'' @ [CHR 0x0A]) [] s) (\<lambda>_ s. u_exit 1 s))
       else then_do (init_wait pid s) (\<lambda>_ s. init_loop s)))"
  by pat_completeness auto
termination
  by (relation "measure (\<lambda>s. length (replies s))") (auto dest!: replies_less init_wait_le printf_le)

declare init_loop.simps [simp del]

definition init_main :: "'z uenv_scheme \<Rightarrow> ('z, unit) uresult" where
  "init_main s =
     then_do (usys_int (UOpen (ustr ''console'') O_RDWR) s) (\<lambda>fd s.
     then_do (if fd < 0 then usys_int (UOpen (ustr ''console'') O_RDWR) s else Ok fd s) (\<lambda>_ s.
     then_do (usys_int (UDup 0) s) (\<lambda>_ s.
     then_do (usys_int (UDup 0) s) (\<lambda>_ s.
     init_loop s))))"

section \<open>stressfs and forktest\<close>

fun stress_fork :: "nat \<Rightarrow> nat \<Rightarrow> 'z uenv_scheme \<Rightarrow> ('z, nat) uresult" where
  "stress_fork i 0 s = Ok i s"
| "stress_fork i (Suc n) s =
     then_do (usys_int UFork s) (\<lambda>pid s. if pid > 0 then Ok i s else stress_fork (Suc i) n s)"

primrec stress_write :: "nat \<Rightarrow> int \<Rightarrow> 'z uenv_scheme \<Rightarrow> ('z, unit) uresult" where
  "stress_write 0 fd s = Ok () s"
| "stress_write (Suc n) fd s =
     then_do (u_write fd (replicate 512 (chr CHR ''a'')) s) (\<lambda>_ s. stress_write n fd s)"

primrec stress_read :: "nat \<Rightarrow> int \<Rightarrow> 'z uenv_scheme \<Rightarrow> ('z, unit) uresult" where
  "stress_read 0 fd s = Ok () s"
| "stress_read (Suc n) fd s = then_do (u_read fd 512 s) (\<lambda>_ s. stress_read n fd s)"

definition stressfs_main :: "'z uenv_scheme \<Rightarrow> ('z, unit) uresult" where
  "stressfs_main s =
     then_do (u_printf (''stressfs starting'' @ [CHR 0x0A]) [] s) (\<lambda>_ s.
     then_do (stress_fork 0 4 s) (\<lambda>i s.
     then_do (u_printf (''write %d'' @ [CHR 0x0A]) [pint (of_nat i)] s) (\<lambda>_ s.
     let name = ustr ''stressfs'' @ [chr CHR ''0'' + of_nat i] in
     then_do (usys_int (UOpen name (O_CREATE OR O_RDWR)) s) (\<lambda>fd s.
     then_do (stress_write 20 fd s) (\<lambda>_ s.
     then_do (usys_int (UClose fd) s) (\<lambda>_ s.
     then_do (u_printf (''read'' @ [CHR 0x0A]) [] s) (\<lambda>_ s.
     then_do (usys_int (UOpen name O_RDONLY) s) (\<lambda>fd s.
     then_do (stress_read 20 fd s) (\<lambda>_ s.
     then_do (usys_int (UClose fd) s) (\<lambda>_ s.
     then_do (usys_int UWait s) (\<lambda>_ s.
     u_exit 0 s)))))))))))"

definition ft_print :: "string \<Rightarrow> 'z uenv_scheme \<Rightarrow> ('z, int) uresult" where
  "ft_print str s = u_write 1 (ustr str) s"

definition FT_N :: nat where "FT_N = 1000"

text \<open>The loops of forktest(): the number of children made, and waiting for them.\<close>

fun ft_fork :: "nat \<Rightarrow> nat \<Rightarrow> 'z uenv_scheme \<Rightarrow> ('z, nat) uresult" where
  "ft_fork n 0 s = Ok n s"
| "ft_fork n (Suc k) s =
     then_do (usys_int UFork s) (\<lambda>pid s.
       if pid < 0 then Ok n s else if pid = 0 then u_exit 0 s else ft_fork (Suc n) k s)"

primrec ft_wait :: "nat \<Rightarrow> 'z uenv_scheme \<Rightarrow> ('z, unit) uresult" where
  "ft_wait 0 s = Ok () s"
| "ft_wait (Suc n) s =
     then_do (usys_int UWait s) (\<lambda>r s.
       if r < 0 then then_do (ft_print (''wait stopped early'' @ [CHR 0x0A]) s) (\<lambda>_ s. u_exit 1 s)
       else ft_wait n s)"

definition forktest :: "'z uenv_scheme \<Rightarrow> ('z, unit) uresult" where
  "forktest s =
     then_do (ft_print (''fork test'' @ [CHR 0x0A]) s) (\<lambda>_ s.
     then_do (ft_fork 0 FT_N s) (\<lambda>n s.
       if n = FT_N then
         then_do (ft_print (''fork claimed to work N times!'' @ [CHR 0x0A]) s) (\<lambda>_ s. u_exit 1 s)
       else
         then_do (ft_wait n s) (\<lambda>_ s.
         then_do (usys_int UWait s) (\<lambda>r s.
         if r \<noteq> -1 then then_do (ft_print (''wait got too many'' @ [CHR 0x0A]) s) (\<lambda>_ s. u_exit 1 s)
         else then_do (ft_print (''fork test OK'' @ [CHR 0x0A]) s) (\<lambda>_ s. Ok () s)))))"

definition forktest_main :: "'z uenv_scheme \<Rightarrow> ('z, unit) uresult" where
  "forktest_main s = then_do (forktest s) (\<lambda>_ s. u_exit 0 s)"

end
