(* ===== verification/Grep.thy ===== *)
theory Grep
  imports Uprintf
begin

text \<open>
  user/grep.c: the regular expression matcher for the operators ^ . * $, and the loop that cuts the
  input into lines. The patterns and texts of the matcher are strings without their NUL.

  The matcher is compared with the language that a pattern denotes. The loop is compared with the list
  of the lines of the whole input, however read() cuts it into pieces.
\<close>

section \<open>The matcher\<close>

function matchhere :: "u8 list \<Rightarrow> u8 list \<Rightarrow> bool" and matchstar :: "u8 \<Rightarrow> u8 list \<Rightarrow> u8 list \<Rightarrow> bool" where
  "matchhere re tx =
     (case re of
        [] \<Rightarrow> True
      | c # re1 \<Rightarrow>
          if byte_or_0 0 re1 = chr CHR ''*'' then matchstar c (drop 1 re1) tx
          else if c = chr CHR ''$'' \<and> re1 = [] then tx = []
          else
            (case tx of
               [] \<Rightarrow> False
             | t # ts \<Rightarrow> (c = chr CHR ''.'' \<or> c = t) \<and> matchhere re1 ts))"
| "matchstar c re tx =
     (if matchhere re tx then True
      else
        (case tx of
           [] \<Rightarrow> False
         | t # ts \<Rightarrow> (t = c \<or> c = chr CHR ''.'') \<and> matchstar c re ts))"
  by pat_completeness auto
termination
  by (relation "measure (\<lambda>x. case x of Inl (re, tx) \<Rightarrow> 2 * (length re + length tx)
        | Inr (c, re, tx) \<Rightarrow> 2 * (length re + length tx) + 1)")
     (auto simp: byte_or_0_def split: if_splits)

declare matchhere.simps [simp del] matchstar.simps [simp del]

primrec match_from :: "u8 list \<Rightarrow> u8 list \<Rightarrow> bool" where
  "match_from re [] = matchhere re []"
| "match_from re (t # ts) = (matchhere re (t # ts) \<or> match_from re ts)"

definition match :: "u8 list \<Rightarrow> u8 list \<Rightarrow> bool" where
  "match re tx =
     (if byte_or_0 0 re = chr CHR ''^'' then matchhere (drop 1 re) tx else match_from re tx)"

section \<open>grep\<close>

text \<open>
  The inner loop over the complete lines of the buffer, from \<open>p\<close> on; it returns what follows the last of
  them. strchr() stops at a NUL.
\<close>

lemma strchr_less: "strchr xs c = Some i \<Longrightarrow> i < length xs"
  by (induction xs arbitrary: i) (auto split: if_splits)

lemma strchr_cut_less: "strchr (takeWhile P xs) c = Some i \<Longrightarrow> i < length xs"
  using strchr_less [of "takeWhile P xs" c i] length_takeWhile_le [of P xs] by simp

function grep_lines :: "u8 list \<Rightarrow> u8 list \<Rightarrow> 'z uenv_scheme \<Rightarrow> ('z, u8 list) uresult" where
  "grep_lines pattern p s =
     (case strchr (takeWhile (\<lambda>c. c \<noteq> 0) p) (newline) of
        None \<Rightarrow> Ok p s
      | Some i \<Rightarrow>
          then_do (if match pattern (take i p) then u_write 1 (take (Suc i) p) s else Ok 0 s) (\<lambda>_ s.
          grep_lines pattern (drop (Suc i) p) s))"
  by pat_completeness auto
termination
  by (relation "measure (\<lambda>(pattern, p, s). length p)")
     (auto dest!: strchr_cut_less)

declare grep_lines.simps [simp del]

lemma grep_lines_le: "grep_lines pattern p s = Ok r t \<Longrightarrow> length (replies t) \<le> length (replies s)"
proof (induction pattern p s rule: grep_lines.induct)
  case (1 pattern p s)
  show ?case
  proof (cases "strchr (takeWhile (\<lambda>c. c \<noteq> 0) p) (newline)")
    case None
    then show ?thesis using 1 by (simp add: grep_lines.simps [of pattern p s])
  next
    case (Some i)
    then obtain k u where "(if match pattern (take i p) then u_write 1 (take (Suc i) p) s else Ok 0 s) = Ok k u"
      "grep_lines pattern (drop (Suc i) p) u = Ok r t"
      using 1(2) by (auto simp: grep_lines.simps [of pattern p s] result_iff simp del: if_split)
    moreover from this(1) have "length (replies u) \<le> length (replies s)" by (auto split: if_splits dest: u_write_less)
    ultimately show ?thesis using 1(1) [OF Some, of k u] by simp
  qed
qed

definition GREP_BUF :: nat where "GREP_BUF = 1024"

text \<open>\<open>held\<close> are the \<open>m\<close> bytes kept in the buffer from the last round.\<close>

function grep_loop :: "u8 list \<Rightarrow> int \<Rightarrow> u8 list \<Rightarrow> 'z uenv_scheme \<Rightarrow> ('z, unit) uresult" where
  "grep_loop pattern fd held s =
     then_do (u_read fd (GREP_BUF - length held - 1) s) (\<lambda>x s.
       case x of (n, bs) \<Rightarrow>
       if n > 0 then then_do (grep_lines pattern (held @ bs) s) (\<lambda>p s. grep_loop pattern fd p s)
       else Ok () s)"
  by pat_completeness auto
termination
  by (relation "measure (\<lambda>(pattern, fd, held, s). length (replies s))") (auto dest!: replies_less grep_lines_le)

declare grep_loop.simps [simp del]

definition grep :: "u8 list \<Rightarrow> int \<Rightarrow> 'z uenv_scheme \<Rightarrow> ('z, unit) uresult" where
  "grep pattern fd s = grep_loop pattern fd [] s"

fun grep_args :: "u8 list \<Rightarrow> u8 list list \<Rightarrow> 'z uenv_scheme \<Rightarrow> ('z, unit) uresult" where
  "grep_args pattern [] s = u_exit 0 s"
| "grep_args pattern (a # rest) s =
     then_do (usys_int (UOpen a O_RDONLY) s) (\<lambda>fd s.
     if fd < 0 then then_do (u_printf (''grep: cannot open %s'' @ [CHR 0x0A]) [pstr a] s) (\<lambda>_ s. u_exit 1 s)
     else
       then_do (grep pattern fd s) (\<lambda>_ s.
       then_do (usys_int (UClose fd) s) (\<lambda>_ s.
       grep_args pattern rest s)))"

definition grep_main :: "u8 list list \<Rightarrow> 'z uenv_scheme \<Rightarrow> ('z, unit) uresult" where
  "grep_main argv s =
     (if length argv \<le> 1 then
        then_do (u_fprintf 2 (''usage: grep pattern [file ...]'' @ [CHR 0x0A]) [] s) (\<lambda>_ s. u_exit 1 s)
      else if length argv \<le> 2 then then_do (grep (argv ! 1) 0 s) (\<lambda>_ s. u_exit 0 s)
      else grep_args (argv ! 1) (drop 2 argv) s)"

section \<open>The language of a pattern\<close>

datatype item = Once u8 | Many u8

fun items :: "u8 list \<Rightarrow> item list" where
  "items [] = []"
| "items (c # re) =
     (if byte_or_0 0 re = chr CHR ''*'' then Many c # items (drop 1 re)
      else if c = chr CHR ''$'' \<and> re = [] then []
      else Once c # items re)"

fun at_end :: "u8 list \<Rightarrow> bool" where
  "at_end [] \<longleftrightarrow> False"
| "at_end (c # re) \<longleftrightarrow>
     (if byte_or_0 0 re = chr CHR ''*'' then at_end (drop 1 re) else c = chr CHR ''$'' \<and> re = [] \<or> at_end re)"

definition char_ok :: "u8 \<Rightarrow> u8 \<Rightarrow> bool" where
  "char_ok c t \<longleftrightarrow> c = chr CHR ''.'' \<or> c = t"

primrec item_lang :: "item \<Rightarrow> u8 list set" where
  "item_lang (Once c) = {[t] |t. char_ok c t}"
| "item_lang (Many c) = {ts. \<forall>t \<in> set ts. char_ok c t}"

primrec lang :: "item list \<Rightarrow> u8 list set" where
  "lang [] = {[]}"
| "lang (i # is) = {u @ v |u v. u \<in> item_lang i \<and> v \<in> lang is}"

text \<open>The text contains a word of the language of the pattern, in the place that ^ and $ ask for.\<close>

definition denoted_by :: "u8 list \<Rightarrow> u8 list \<Rightarrow> bool" where
  "denoted_by re tx \<longleftrightarrow>
     (let start = (byte_or_0 0 re = chr CHR ''^''); body = (if start then drop 1 re else re) in
      \<exists>pre mid post. tx = pre @ mid @ post \<and> mid \<in> lang (items body) \<and>
        (start \<longrightarrow> pre = []) \<and> (at_end body \<longrightarrow> post = []))"

text \<open>A prefix of the text is in the language, and all of it when the pattern ends with a dollar sign.\<close>

definition prefix_in :: "u8 list \<Rightarrow> u8 list \<Rightarrow> bool" where
  "prefix_in re tx \<longleftrightarrow> (\<exists>mid post. tx = mid @ post \<and> mid \<in> lang (items re) \<and> (at_end re \<longrightarrow> post = []))"

lemma prefix_in_nil: "prefix_in [] tx"
  by (simp add: prefix_in_def)

lemma prefix_in_dollar: "prefix_in [36] tx \<longleftrightarrow> tx = []"
  by (simp add: prefix_in_def byte_or_0_def)

lemma lang_once: "lang (Once c # is) = {t # v |t v. char_ok c t \<and> v \<in> lang is}"
proof
  show "{t # v |t v. char_ok c t \<and> v \<in> lang is} \<subseteq> lang (Once c # is)"
  proof
    fix x assume "x \<in> {t # v |t v. char_ok c t \<and> v \<in> lang is}"
    then obtain t v where "x = [t] @ v" "char_ok c t" "v \<in> lang is" by auto
    then show "x \<in> lang (Once c # is)" unfolding lang.simps item_lang.simps by blast
  qed
qed auto

lemma prefix_in_once:
  assumes "byte_or_0 0 re \<noteq> 42" and "\<not> (c = 36 \<and> re = [])"
  shows "prefix_in (c # re) tx \<longleftrightarrow> (\<exists>t ts. tx = t # ts \<and> char_ok c t \<and> prefix_in re ts)"
proof -
  have i: "items (c # re) = Once c # items re" using assms by simp
  have l: "lang (items (c # re)) = {t # v |t v. char_ok c t \<and> v \<in> lang (items re)}" "at_end (c # re) = at_end re"
    unfolding i lang_once using assms by auto
  show ?thesis
  proof (cases tx)
    case (Cons t ts)
    have "prefix_in (c # re) (t # ts) \<longleftrightarrow> char_ok c t \<and> prefix_in re ts"
      unfolding prefix_in_def l by (simp add: Cons_eq_append_conv) blast
    then show ?thesis using Cons by simp
  qed (simp add: prefix_in_def l del: items.simps at_end.simps)
qed

lemma prefix_in_many:
  "prefix_in (c # 42 # re) tx \<longleftrightarrow>
     (\<exists>u rest. tx = u @ rest \<and> (\<forall>t \<in> set u. char_ok c t) \<and> prefix_in re rest)" (is "?l \<longleftrightarrow> ?r")
proof -
  have l: "lang (items (c # 42 # re)) = {u @ v |u v. (\<forall>t \<in> set u. char_ok c t) \<and> v \<in> lang (items re)}"
    "at_end (c # 42 # re) = at_end re"
    by (simp_all add: byte_or_0_def)
  show ?thesis
  proof
    assume ?l
    then obtain u v post where "tx = (u @ v) @ post" "\<forall>t \<in> set u. char_ok c t" "v \<in> lang (items re)" "at_end re \<longrightarrow> post = []"
      unfolding prefix_in_def l by blast
    then show ?r unfolding prefix_in_def by (intro exI [of _ u] exI [of _ "v @ post"]) auto
  next
    assume ?r
    then obtain u v post where "tx = u @ v @ post" "\<forall>t \<in> set u. char_ok c t" "v \<in> lang (items re)" "at_end re \<longrightarrow> post = []"
      unfolding prefix_in_def by blast
    then show ?l unfolding prefix_in_def l by (intro exI [of _ "u @ v"] exI [of _ post]) auto
  qed
qed

lemma prefix_in_star:
  "prefix_in (c # 42 # re) tx \<longleftrightarrow>
     prefix_in re tx \<or> (\<exists>t ts. tx = t # ts \<and> char_ok c t \<and> prefix_in (c # 42 # re) ts)" (is "?l \<longleftrightarrow> ?r")
proof
  assume ?l
  then obtain u rest where "tx = u @ rest" "\<forall>t \<in> set u. char_ok c t" "prefix_in re rest" by (auto simp: prefix_in_many)
  then show ?r by (cases u) (auto simp: prefix_in_many)
next
  assume r: ?r
  have "prefix_in re tx \<Longrightarrow> ?l" unfolding prefix_in_many by (intro exI [of _ "[]"] exI [of _ tx]) auto
  moreover have "?l" if "tx = t # ts" "char_ok c t" and p: "prefix_in (c # 42 # re) ts" for t ts
  proof -
    obtain u rest where "ts = u @ rest" "\<forall>t \<in> set u. char_ok c t" "prefix_in re rest" using p by (auto simp: prefix_in_many)
    then show ?l using that(1,2) unfolding prefix_in_many by (intro exI [of _ "t # u"] exI [of _ rest]) auto
  qed
  ultimately show ?l using r by blast
qed

lemma matchhere_matchstar:
  "matchhere re tx \<longleftrightarrow> prefix_in re tx"
  "matchstar c re tx \<longleftrightarrow> prefix_in (c # 42 # re) tx"
proof (induction re tx and c re tx rule: matchhere_matchstar.induct)
  case (1 re tx)
  show ?case
  proof (cases re)
    case Nil
    then show ?thesis by (simp add: matchhere.simps [of "[]" tx] prefix_in_nil)
  next
    case (Cons c re1)
    consider "byte_or_0 0 re1 = 42" | "byte_or_0 0 re1 \<noteq> 42" "c = 36 \<and> re1 = []"
      | "byte_or_0 0 re1 \<noteq> 42" "\<not> (c = 36 \<and> re1 = [])" by blast
    then show ?thesis
    proof cases
      case 1
      then have r: "42 # drop 1 re1 = re1" by (cases re1) (auto simp: byte_or_0_def)
      have "matchstar c (drop 1 re1) tx \<longleftrightarrow> prefix_in (c # re1) tx" using "1.IH"(1) [OF Cons] 1 unfolding r by simp
      then show ?thesis using 1 unfolding Cons by (subst matchhere.simps) simp
    next
      case 2
      then show ?thesis using prefix_in_dollar unfolding Cons by (subst matchhere.simps) simp
    next
      case 3
      have "matchhere re1 ts \<longleftrightarrow> prefix_in re1 ts" if "tx = t # ts" for t ts using "1.IH"(2) [OF Cons _ _ that] 3 by simp
      then show ?thesis using 3 prefix_in_once [OF 3] unfolding Cons
        by (subst matchhere.simps) (auto simp: char_ok_def split: list.splits)
    qed
  qed
next
  case (2 c re tx)
  then show ?case
    by (subst matchstar.simps, subst prefix_in_star) (auto simp: char_ok_def split: list.splits)
qed

lemma match_from_iff: "match_from re tx \<longleftrightarrow> (\<exists>pre rest. tx = pre @ rest \<and> prefix_in re rest)"
proof (induction tx)
  case (Cons t ts)
  have "(\<exists>pre rest. t # ts = pre @ rest \<and> prefix_in re rest) \<longleftrightarrow>
      prefix_in re (t # ts) \<or> (\<exists>pre rest. ts = pre @ rest \<and> prefix_in re rest)"
    by (auto simp: Cons_eq_append_conv)
  then show ?case using Cons matchhere_matchstar(1) by simp
qed (simp add: matchhere_matchstar)

section \<open>Lines\<close>

text \<open>The complete lines of an input after the bytes \<open>cur\<close>, without their newlines, and what follows the last newline.\<close>

primrec lines_of :: "u8 list \<Rightarrow> u8 list \<Rightarrow> u8 list list \<times> u8 list" where
  "lines_of cur [] = ([], cur)"
| "lines_of cur (c # cs) =
     (if c = newline then let (ls, r) = lines_of [] cs in (cur # ls, r) else lines_of (cur @ [c]) cs)"

lemma lines_of_append:
  "lines_of cur (xs @ ys) = (let (ls, r) = lines_of cur xs; (ls', r') = lines_of r ys in (ls @ ls', r'))"
  by (induction xs arbitrary: cur) (auto simp: Let_def split: prod.splits)

lemma lines_of_none: "newline \<notin> set xs \<Longrightarrow> lines_of cur xs = ([], cur @ xs)"
  by (induction xs arbitrary: cur) auto

lemma strchr_None_iff: "strchr xs c = None \<longleftrightarrow> c \<notin> set xs"
  by (induction xs) auto

lemma strchr_SomeD: "strchr xs c = Some i \<Longrightarrow> xs = take i xs @ c # drop (Suc i) xs \<and> c \<notin> set (take i xs)"
  by (induction xs arbitrary: i) (auto split: if_splits)

lemma takeWhile_all: "0 \<notin> set p \<Longrightarrow> takeWhile (\<lambda>c. c \<noteq> (0 :: u8)) p = p"
  by (induction p) auto

lemma u_write_reply:
  "replies s = RInt k # rs \<Longrightarrow> u_write fd bs s = Ok k (s\<lparr>replies := rs, calls := calls s @ [UWrite fd bs]\<rparr>)"
  by (simp add: u_write_def usys_int_def usys_def Let_def)

definition matched :: "u8 list \<Rightarrow> u8 list \<Rightarrow> u8 list \<Rightarrow> u8 list list" where
  "matched pattern cur xs = filter (match pattern) (fst (lines_of cur xs))"

text \<open>The reply of write() to a line: everything is written.\<close>

definition line_reply :: "u8 list \<Rightarrow> reply" where
  "line_reply l = RInt (int (length l) + 1)"

definition line_write :: "u8 list \<Rightarrow> ucall" where
  "line_write l = UWrite 1 (l @ [newline])"

lemma grep_lines_works:
  assumes "0 \<notin> set p" and "replies s = map line_reply (matched pattern [] p) @ rs"
  shows "grep_lines pattern p s =
    Ok (snd (lines_of [] p)) (s\<lparr>replies := rs, calls := calls s @ map line_write (matched pattern [] p)\<rparr>)"
  using assms
proof (induction pattern p s rule: grep_lines.induct)
  case (1 pattern p s)
  show ?case
  proof (cases "strchr p (newline)")
    case None
    then have "lines_of [] p = ([], p)" using lines_of_none [of p "[]"] by (simp add: strchr_None_iff)
    then show ?thesis using 1(2,3) None by (subst grep_lines.simps) (simp add: takeWhile_all matched_def)
  next
    case (Some i)
    let ?l = "take i p" and ?p = "drop (Suc i) p"
    have p: "p = ?l @ newline # ?p" "newline \<notin> set ?l" using strchr_SomeD [OF Some] by simp_all
    have w: "take (Suc i) p = ?l @ [newline]"
    proof -
      have "i < length p" using Some by (rule strchr_less)
      then have "take (Suc i) p = ?l @ [p ! i]" by (rule take_Suc_conv_app_nth)
      moreover have "p ! i = newline" using p(1) \<open>i < length p\<close> by (metis length_take min.absorb4 nth_append_length)
      ultimately show ?thesis by simp
    qed
    have "lines_of [] (?l @ newline # ?p) = (?l # fst (lines_of [] ?p), snd (lines_of [] ?p))"
      unfolding lines_of_append lines_of_none [OF p(2)] by (simp split: prod.splits)
    then have l: "lines_of [] p = (?l # fst (lines_of [] ?p), snd (lines_of [] ?p))" using p(1) by simp
    have m: "matched pattern [] p = (if match pattern ?l then [?l] else []) @ matched pattern [] ?p"
      by (simp add: matched_def l)
    have s: "strchr (takeWhile (\<lambda>c. c \<noteq> 0) p) (newline) = Some i" unfolding takeWhile_all [OF 1(2)] by (rule Some)
    have z: "0 \<notin> set ?p" using 1(2) by (meson in_set_dropD)
    show ?thesis
    proof (cases "match pattern ?l")
      case True
      let ?rs = "map line_reply (matched pattern [] ?p) @ rs"
      let ?t = "s\<lparr>replies := ?rs, calls := calls s @ [line_write ?l]\<rparr>"
      have "u_write 1 (take (Suc i) p) s = Ok (int (length ?l) + 1) ?t"
        using 1(3) True unfolding w line_write_def by (intro u_write_reply) (simp add: m line_reply_def)
      then show ?thesis using 1(1) [OF s, of "int (length ?l) + 1" ?t] True z m l
        by (subst grep_lines.simps) (simp add: s)
    next
      case False
      then show ?thesis using 1(1) [OF s, of 0 s] 1(3) z m l by (subst grep_lines.simps) (simp add: s)
    qed
  qed
qed

text \<open>The input arrives in pieces that read() delivers; \<open>held\<close> are the bytes kept from the pieces before.\<close>

primrec pieces_fit :: "u8 list \<Rightarrow> u8 list list \<Rightarrow> bool" where
  "pieces_fit held [] \<longleftrightarrow> True"
| "pieces_fit held (c # cs) \<longleftrightarrow> c \<noteq> [] \<and> length held + length c < GREP_BUF \<and> 0 \<notin> set c \<and>
     pieces_fit (snd (lines_of held c)) cs"

primrec grep_replies :: "u8 list \<Rightarrow> u8 list \<Rightarrow> u8 list list \<Rightarrow> reply list" where
  "grep_replies pattern held [] = [RBytes []]"
| "grep_replies pattern held (c # cs) =
     RBytes c # map line_reply (matched pattern held c) @ grep_replies pattern (snd (lines_of held c)) cs"

definition written :: "ucall list \<Rightarrow> u8 list list" where
  "written cs = concat (map (\<lambda>c. case c of UWrite fd bs \<Rightarrow> if fd = 1 then [bs] else [] | _ \<Rightarrow> []) cs)"

lemma written_simps [simp]:
  "written (xs @ ys) = written xs @ written ys" "written [] = []" "written (URead fd n # xs) = written xs"
  "written (map line_write ls) = map (\<lambda>l. l @ [newline]) ls"
  by (induction ls) (simp_all add: written_def line_write_def)

lemma lines_of_no_newline: "newline \<notin> set cur \<Longrightarrow> newline \<notin> set (snd (lines_of cur xs))"
proof (induction xs arbitrary: cur)
  case (Cons c xs)
  obtain ls r where l: "lines_of [] xs = (ls, r)" by fastforce
  then have "newline \<notin> set r" using Cons.IH [of "[]"] by simp
  then show ?case using Cons.prems Cons.IH [of "cur @ [c]"] l by simp
qed simp

lemma lines_of_subset: "set (snd (lines_of cur xs)) \<subseteq> set cur \<union> set xs"
proof (induction xs arbitrary: cur)
  case (Cons c xs)
  then show ?case using Cons [of "[]"] Cons [of "cur @ [c]"] by (auto split: prod.splits)
qed simp

lemma lines_of_held: "newline \<notin> set held \<Longrightarrow> lines_of [] (held @ c) = lines_of held c"
  by (simp add: lines_of_append lines_of_none)

lemma u_read_reply:
  "replies s = RBytes bs # rs \<Longrightarrow> length bs \<le> n \<Longrightarrow>
     u_read fd n s = Ok (int (length bs), bs) (s\<lparr>replies := rs, calls := calls s @ [URead fd n]\<rparr>)"
  by (simp add: u_read_def usys_def Let_def)

lemma grep_loop_works:
  assumes "pieces_fit held cs" and "newline \<notin> set held" and "0 \<notin> set held"
    and "replies s = grep_replies pattern held cs @ rs"
  shows "\<exists>t. grep_loop pattern fd held s = Ok () t \<and> replies t = rs \<and>
    written (calls t) = written (calls s) @ map (\<lambda>l. l @ [newline]) (matched pattern held (concat cs))"
  using assms
proof (induction cs arbitrary: held s)
  case Nil
  then have "u_read fd n s = Ok (0, []) (s\<lparr>replies := rs, calls := calls s @ [URead fd n]\<rparr>)" for n
    using u_read_reply [of s "[]" rs n fd] by simp
  then show ?case by (subst grep_loop.simps) (simp add: matched_def)
next
  case (Cons c cs)
  let ?h = "snd (lines_of held c)" and ?n = "GREP_BUF - length held - 1"
  let ?t = "s\<lparr>replies := map line_reply (matched pattern held c) @ grep_replies pattern ?h cs @ rs, calls := calls s @ [URead fd ?n]\<rparr>"
  let ?u = "?t\<lparr>replies := grep_replies pattern ?h cs @ rs, calls := calls ?t @ map line_write (matched pattern held c)\<rparr>"
  have r: "u_read fd ?n s = Ok (int (length c), c) ?t"
    using Cons.prems(1,4) by (intro u_read_reply) (auto simp del: diff_diff_left)
  have l: "lines_of [] (held @ c) = lines_of held c" using Cons.prems(2) by (rule lines_of_held)
  have g: "grep_lines pattern (held @ c) ?t = Ok ?h ?u"
    using grep_lines_works [of "held @ c" ?t pattern "grep_replies pattern ?h cs @ rs"] Cons.prems(1,3)
    by (simp add: matched_def l)
  have z: "newline \<notin> set ?h" "0 \<notin> set ?h"
    using lines_of_no_newline [OF Cons.prems(2)] lines_of_subset [of held c] Cons.prems(1,3) by auto
  obtain v where v: "grep_loop pattern fd ?h ?u = Ok () v" "replies v = rs"
    "written (calls v) = written (calls ?u) @ map (\<lambda>l. l @ [newline]) (matched pattern ?h (concat cs))"
    using Cons.IH [of ?h ?u] Cons.prems(1) z by auto
  have m: "matched pattern held (concat (c # cs)) = matched pattern held c @ matched pattern ?h (concat cs)"
    by (simp add: matched_def lines_of_append split: prod.splits)
  have "grep_loop pattern fd held s = Ok () v"
    using r g v(1) Cons.prems(1) by (subst grep_loop.simps) simp
  then show ?case using v(2,3) m by simp
qed

section \<open>Properties\<close>

text \<open>
  C18: The recursive matcher of grep decides the language of the pattern. A pattern is a sequence of
  characters, dots, and starred ones of these, with an optional ^ in front and an optional $ at the end;
  match() is true exactly when the text contains a word of the language of that sequence, at the beginning
  for ^ and at the end for $. It ends for every pattern and text.
\<close>

theorem match_decides_language: "match re tx \<longleftrightarrow> denoted_by re tx"
proof (cases "byte_or_0 0 re = chr CHR ''^''")
  case True
  then have "match re tx \<longleftrightarrow> prefix_in (drop 1 re) tx" by (simp add: match_def matchhere_matchstar)
  then show ?thesis using True by (simp add: prefix_in_def denoted_by_def Let_def)
next
  case False
  then have "match re tx \<longleftrightarrow> (\<exists>pre rest. tx = pre @ rest \<and> prefix_in re rest)" by (simp add: match_def match_from_iff)
  then show ?thesis using False by (simp add: prefix_in_def denoted_by_def Let_def) blast
qed

text \<open>
  C19: grep prints exactly the complete lines of its input that match, in order and with their newlines,
  and returns at the end of the input, however read() cuts the input into pieces; a last line without
  newline is not considered. The input has no NUL, and no line together with the piece that completes it
  exceeds the buffer of 1024 bytes.
\<close>

theorem grep_prints_matching_lines:
  assumes "pieces_fit [] cs" and "replies s = grep_replies pattern [] cs @ rs"
  shows "\<exists>t. grep pattern fd s = Ok () t \<and> replies t = rs \<and>
    written (calls t) = written (calls s) @
      map (\<lambda>l. l @ [newline]) (filter (match pattern) (fst (lines_of [] (concat cs))))"
  using grep_loop_works [of "[]" cs s pattern rs fd] assms by (simp add: grep_def matched_def)

theorem grep_prints_matching_lines_witness:
  "\<exists>t. grep (bytes_of ''b'') 0 \<lparr>replies = [RBytes (bytes_of ''a''), RBytes [98, 10, 99, 10, 98], RInt 3, RBytes []], calls = []\<rparr> = Ok () t \<and>
     written (calls t) = [[97, 98, 10]]"
proof -
  let ?cs = "[bytes_of ''a'', [98, 10, 99, 10, 98]]"
  have m: "match (bytes_of ''b'') [97, 98]" "\<not> match (bytes_of ''b'') [99]" by code_simp+
  have f: "pieces_fit [] ?cs" by (simp add: bytes_of_def GREP_BUF_def)
  have r: "grep_replies (bytes_of ''b'') [] ?cs = [RBytes (bytes_of ''a''), RBytes [98, 10, 99, 10, 98], RInt 3, RBytes []]"
    using m by (simp add: matched_def line_reply_def bytes_of_def)
  have w: "filter (match (bytes_of ''b'')) (fst (lines_of [] (concat ?cs))) = [[97, 98]]"
    using m by (simp add: bytes_of_def)
  show ?thesis
    using grep_prints_matching_lines [OF f, of "\<lparr>replies = [RBytes (bytes_of ''a''), RBytes [98, 10, 99, 10, 98], RInt 3, RBytes []], calls = []\<rparr>" "bytes_of ''b''" "[]" 0]
    unfolding r w by auto
qed

end
