(* ===== verification/Sh.thy ===== *)
theory Sh
  imports Uprintf Sysfile
begin

text \<open>
  The shell, user/sh.c. The line is a list of bytes without NUL; the pointers of the parser are offsets
  into it, so that \<open>es\<close> is its length. The parsing routines run on the position \<^verbatim>\<open>*ps\<close> as their state:
  \<open>Ok x s\<close> returns \<open>x\<close> with \<^verbatim>\<open>*ps\<close> at \<open>s\<close>, and \<open>Panic msg\<close> is a call of the shell's own panic(). The four
  mutually recursive routines carry a bound on the depth of their calls; \<open>Hang\<close> is running out of it. A
  command is the tree that the source builds with malloc(); running out of memory is not modelled.
\<close>

section \<open>Commands\<close>

text \<open>A word of the line is the pair of the pointers to its first character and past its last one; the tree is
  a \<open>span cmd\<close>, and a \<open>u8 list cmd\<close> once the words are read as strings.\<close>

type_synonym span = "nat \<times> nat"

datatype 'w cmd =
    ExecCmd "'w list"                   \<comment> \<open>argv and eargv\<close>
  | RedirCmd "'w cmd" 'w u32 int        \<comment> \<open>cmd, file and efile, mode, fd\<close>
  | PipeCmd "'w cmd" "'w cmd"
  | ListCmd "'w cmd" "'w cmd"
  | BackCmd "'w cmd"

definition MAXARGS :: nat where "MAXARGS = 10"

section \<open>Tokens\<close>

definition whitespace :: "u8 list" where "whitespace = [32, 9, 13, 10, 11]"
definition symbols :: "u8 list" where "symbols = bytes_of ''<|>&;()''"

definition char_at :: "u8 list \<Rightarrow> nat \<Rightarrow> u8" where
  "char_at line i = (if i < length line then line ! i else 0)"

definition is_ws :: "u8 \<Rightarrow> bool" where "is_ws c \<longleftrightarrow> strchr whitespace c \<noteq> None"

definition is_word :: "u8 \<Rightarrow> bool" where "is_word c \<longleftrightarrow> \<not> is_ws c \<and> strchr symbols c = None"

function skip_ws :: "u8 list \<Rightarrow> nat \<Rightarrow> nat" where
  "skip_ws line s = (if s < length line \<and> is_ws (char_at line s) then skip_ws line (Suc s) else s)"
  by pat_completeness auto
termination by (relation "measure (\<lambda>(line, s). length line - s)") auto

declare skip_ws.simps [simp del]

function skip_word :: "u8 list \<Rightarrow> nat \<Rightarrow> nat" where
  "skip_word line s = (if s < length line \<and> is_word (char_at line s) then skip_word line (Suc s) else s)"
  by pat_completeness auto
termination by (relation "measure (\<lambda>(line, s). length line - s)") auto

declare skip_word.simps [simp del]

text \<open>gettoken() returns the token and its span; the position moves past it and the blanks after it.\<close>

definition gettoken :: "u8 list \<Rightarrow> nat \<Rightarrow> (nat, u8 \<times> span) result" where
  "gettoken line ps =
     (let q = skip_ws line ps; c = char_at line q;
          (ret, eq) =
            (if c = 0 then (c, q)
             else if c \<in> set (bytes_of ''|();&<'') then (c, Suc q)
             else if c = chr CHR ''>'' then
               if char_at line (Suc q) = chr CHR ''>'' then (chr CHR ''+'', Suc (Suc q)) else (c, Suc q)
             else (chr CHR ''a'', skip_word line q))
      in Ok (ret, q, eq) (skip_ws line eq))"

definition peek :: "u8 list \<Rightarrow> u8 list \<Rightarrow> nat \<Rightarrow> (nat, bool) result" where
  "peek line toks ps = (let s = skip_ws line ps; c = char_at line s in Ok (c \<noteq> 0 \<and> strchr toks c \<noteq> None) s)"

lemma skip_ws_ge: "s \<le> skip_ws line s"
  by (induction line s rule: skip_ws.induct) (subst skip_ws.simps, auto)

lemma skip_word_ge: "s \<le> skip_word line s"
  by (induction line s rule: skip_word.induct) (subst skip_word.simps, auto)

lemma skip_ws_le: "s \<le> length line \<Longrightarrow> skip_ws line s \<le> length line"
  by (induction line s rule: skip_ws.induct) (subst skip_ws.simps, auto)

lemma skip_word_le: "s \<le> length line \<Longrightarrow> skip_word line s \<le> length line"
  by (induction line s rule: skip_word.induct) (subst skip_word.simps, auto)

lemma skip_word_gr: "s < length line \<Longrightarrow> is_word (char_at line s) \<Longrightarrow> s < skip_word line s"
  using skip_word_ge [of "Suc s" line] by (subst skip_word.simps) simp

lemma is_word_default:
  "c \<notin> set (bytes_of ''|();&<'') \<Longrightarrow> c \<noteq> chr CHR ''>'' \<Longrightarrow> \<not> is_ws c \<Longrightarrow> is_word c"
  by (auto simp: is_word_def symbols_def bytes_of_def)

lemma char_at_nonzero: "char_at line s \<noteq> 0 \<Longrightarrow> s < length line"
  by (simp add: char_at_def split: if_splits)

lemma skip_ws_stop: "skip_ws line s < length line \<Longrightarrow> \<not> is_ws (char_at line (skip_ws line s))"
proof (induction line s rule: skip_ws.induct)
  case (1 line s)
  then show ?case by (cases "s < length line \<and> is_ws (char_at line s)") (simp_all add: skip_ws.simps [of line s])
qed

text \<open>A token other than the end of the line moves the position forward.\<close>

lemma gettoken_forward:
  assumes "gettoken line ps = Ok (ret, q, eq) s"
  shows "ps \<le> q" "q \<le> eq" "eq \<le> s" "char_at line (skip_ws line ps) \<noteq> 0 \<Longrightarrow> ps < s" "ps \<le> length line \<Longrightarrow> s \<le> length line"
    "ps \<le> length line \<Longrightarrow> eq \<le> length line" "ret = 0 \<longleftrightarrow> char_at line (skip_ws line ps) = 0"
proof -
  let ?q = "skip_ws line ps"
  have r: "q = ?q" "s = skip_ws line eq" using assms by (auto simp: gettoken_def Let_def split: if_splits)
  have e: "(ret, eq) = (let c = char_at line q in if c = 0 then (c, q)
             else if c \<in> set (bytes_of ''|();&<'') then (c, Suc q)
             else if c = chr CHR ''>'' then
               if char_at line (Suc q) = chr CHR ''>'' then (chr CHR ''+'', Suc (Suc q)) else (c, Suc q)
             else (chr CHR ''a'', skip_word line q))"
    using assms r(1) by (auto simp: gettoken_def Let_def split: if_splits)
  show 1: "ps \<le> q" using skip_ws_ge r by simp
  show 2: "q \<le> eq" using e skip_word_ge by (auto simp: Let_def split: if_splits)
  show 3: "eq \<le> s" using r skip_ws_ge by simp
  show 4: "ps < s" if c: "char_at line ?q \<noteq> 0"
  proof -
    have "q < length line" using char_at_nonzero c r(1) by simp
    then have "\<not> is_ws (char_at line q)" using skip_ws_stop r(1) by simp
    then have "q < eq" using e c r(1) skip_word_gr [OF \<open>q < length line\<close>] is_word_default by (auto simp: Let_def split: if_splits)
    then show ?thesis using 1 3 by simp
  qed
  have "eq \<le> length line" if "ps \<le> length line"
    using e skip_word_le [of q line] skip_ws_le [OF that] r(1) char_at_nonzero [of line q] char_at_nonzero [of line "Suc q"]
    by (auto simp: Let_def split: if_splits)
  then show "ps \<le> length line \<Longrightarrow> eq \<le> length line" "ps \<le> length line \<Longrightarrow> s \<le> length line" using r(2) skip_ws_le by simp_all
  show "ret = 0 \<longleftrightarrow> char_at line ?q = 0" using e r(1) by (auto simp: Let_def split: if_splits)
qed

lemma peek_eq: "peek line toks ps = Ok b s \<longleftrightarrow> s = skip_ws line ps \<and> (b \<longleftrightarrow> char_at line s \<noteq> 0 \<and> strchr toks (char_at line s) \<noteq> None)"
  by (auto simp: peek_def Let_def)

lemma skip_ws_idem [simp]: "skip_ws line (skip_ws line s) = skip_ws line s"
proof (induction line s rule: skip_ws.induct)
  case (1 line s)
  show ?case
  proof (cases "s < length line \<and> is_ws (char_at line s)")
    case True
    then show ?thesis using 1 by (simp add: skip_ws.simps [of line s])
  next
    case False
    then have "skip_ws line s = s" by (subst skip_ws.simps) auto
    then show ?thesis by simp
  qed
qed

section \<open>Parsing\<close>

text \<open>Looking for one of \<open>toks\<close> and then taking the token moves the position forward, so that the loops end.\<close>

lemma peek_gettoken:
  assumes "peek line toks ps = Ok True s" and "gettoken line s = Ok (ret, q, eq) t"
  shows "ps < t" and "ps < length line"
proof -
  have s: "s = skip_ws line ps" "char_at line s \<noteq> 0" using assms(1) by (auto simp: peek_eq)
  then show "ps < t" using gettoken_forward(4) [OF assms(2)] skip_ws_ge [of ps line] by simp
  show "ps < length line" using s char_at_nonzero skip_ws_ge [of ps line] by (metis le_less_trans)
qed

definition redir_of :: "u8 \<Rightarrow> 'w cmd \<Rightarrow> 'w \<Rightarrow> 'w cmd" where
  "redir_of tok c f =
     (if tok = chr CHR ''<'' then RedirCmd c f O_RDONLY 0
      else if tok = chr CHR ''>'' then RedirCmd c f (O_WRONLY OR O_CREATE OR O_TRUNC) 1
      else RedirCmd c f (O_WRONLY OR O_CREATE) 1)"

function parseredirs :: "span cmd \<Rightarrow> u8 list \<Rightarrow> nat \<Rightarrow> (nat, span cmd) result" where
  "parseredirs c line ps =
     then_do (peek line (bytes_of ''<>'') ps) (\<lambda>b s.
       if \<not> b then Ok c s
       else
         then_do (gettoken line s) (\<lambda>x s. case x of (tok, _, _) \<Rightarrow>
         then_do (gettoken line s) (\<lambda>y s. case y of (tok2, q, eq) \<Rightarrow>
           if tok2 \<noteq> chr CHR ''a'' then Panic ''missing file for redirection''
           else
             parseredirs (redir_of tok c (q, eq)) line s)))"
  by pat_completeness auto
termination
proof (relation "measure (\<lambda>(c, line, ps). length line - ps)")
  fix c line ps b s x s1 y s2 tok z w tok2 q eq and c' :: "span cmd"
  assume "peek line (bytes_of ''<>'') ps = Ok b s" "\<not> \<not> b" "gettoken line s = Ok x s1" "gettoken line s1 = Ok y s2"
  then have "ps < s1" "ps < length line" "s1 \<le> s2"
    using peek_gettoken [of line _ ps s] gettoken_forward(1-3) [of line s1] by (cases x; cases y; force)+
  then show "((c', line, s2), c, line, ps) \<in> measure (\<lambda>(c, line, ps). length line - ps)" by auto
qed simp

declare parseredirs.simps [simp del]

text \<open>The loop of parseline() over the ampersands.\<close>

function parse_backs :: "span cmd \<Rightarrow> u8 list \<Rightarrow> nat \<Rightarrow> (nat, span cmd) result" where
  "parse_backs c line ps =
     then_do (peek line (bytes_of ''&'') ps) (\<lambda>b s.
       if \<not> b then Ok c s
       else then_do (gettoken line s) (\<lambda>_ s. parse_backs (BackCmd c) line s))"
  by pat_completeness auto
termination
proof (relation "measure (\<lambda>(c, line, ps). length line - ps)")
  fix c line ps b s x s1
  assume "peek line (bytes_of ''&'') ps = Ok b s" "\<not> \<not> b" "gettoken line s = Ok x s1"
  then show "((BackCmd c, line, s1), c, line, ps) \<in> measure (\<lambda>(c, line, ps). length line - ps)"
    using peek_gettoken [of line _ ps s] by (cases x) force
qed simp

declare parse_backs.simps [simp del]

text \<open>The argument is stored in the struct execcmd below the redirections.\<close>

primrec add_arg :: "'w cmd \<Rightarrow> 'w \<Rightarrow> 'w cmd" where
  "add_arg (ExecCmd ws) w = ExecCmd (ws @ [w])"
| "add_arg (RedirCmd c f mode fd) w = RedirCmd (add_arg c w) f mode fd"
| "add_arg (PipeCmd l r) w = PipeCmd l r"
| "add_arg (ListCmd l r) w = ListCmd l r"
| "add_arg (BackCmd c) w = BackCmd c"

lemma gettoken_total: obtains ret q eq t where "gettoken line s = Ok (ret, q, eq) t"
  by (cases "gettoken line s") (auto simp: gettoken_def Let_def split: prod.splits)

lemma peek_total: obtains b where "peek line toks ps = Ok b (skip_ws line ps)"
  by (simp add: peek_def Let_def)

lemma parseredirs_cases:
  obtains (none) "peek line (bytes_of ''<>'') ps = Ok False (skip_ws line ps)" "parseredirs c line ps = Ok c (skip_ws line ps)"
  | (bad) "parseredirs c line ps = Panic ''missing file for redirection''"
  | (one) tok q0 e0 s q eq s' where "peek line (bytes_of ''<>'') ps = Ok True (skip_ws line ps)" "gettoken line (skip_ws line ps) = Ok (tok, q0, e0) s" "gettoken line s = Ok (chr CHR ''a'', q, eq) s'"
      "parseredirs c line ps = parseredirs (redir_of tok c (q, eq)) line s'"
proof -
  obtain b where p: "peek line (bytes_of ''<>'') ps = Ok b (skip_ws line ps)" by (rule peek_total)
  obtain tok q0 e0 s where t: "gettoken line (skip_ws line ps) = Ok (tok, q0, e0) s" by (rule gettoken_total)
  obtain tok2 q eq s' where u: "gettoken line s = Ok (tok2, q, eq) s'" by (rule gettoken_total)
  have eq: "parseredirs c line ps = (if \<not> b then Ok c (skip_ws line ps) else if tok2 \<noteq> chr CHR ''a'' then Panic ''missing file for redirection'' else parseredirs (redir_of tok c (q, eq)) line s')"
    by (subst parseredirs.simps) (simp add: p t u)
  show thesis
  proof (cases b)
    case False then show ?thesis using none p eq by simp
  next
    case True then show ?thesis using bad one [OF _ t] p u eq by (cases "tok2 = chr CHR ''a''") simp_all
  qed
qed

lemma parseredirs_induct [case_names redirs]:
  assumes "\<And>c line ps. (\<And>tok q eq s. ps < s \<Longrightarrow> ps < length line \<Longrightarrow> P (redir_of tok c (q, eq)) line s) \<Longrightarrow> P c line ps"
  shows "P c line ps"
proof (induction "length line - ps" arbitrary: c ps rule: less_induct)
  case less
  show ?case by (rule assms, rule less) simp
qed

lemma parseredirs_ge: "parseredirs c line ps = Ok c' s \<Longrightarrow> ps \<le> s"
proof (induction c line ps rule: parseredirs_induct)
  case (redirs c line ps)
  show ?case
  proof (cases rule: parseredirs_cases [where c = c and line = line and ps = ps])
    case none then show ?thesis using redirs(2) skip_ws_ge by simp
  next
    case bad then show ?thesis using redirs(2) by simp
  next
    case (one tok q0 e0 t q eq t')
    then have "ps < t" "ps < length line" "t \<le> t'" using peek_gettoken gettoken_forward(1-3) [OF one(3)] by fastforce+
    then have "t' \<le> s" using redirs(2) one(4) by (intro redirs(1)) auto
    then show ?thesis using \<open>ps < t\<close> \<open>t \<le> t'\<close> by simp
  qed
qed

function parse_args :: "span cmd \<Rightarrow> nat \<Rightarrow> u8 list \<Rightarrow> nat \<Rightarrow> (nat, span cmd) result" where
  "parse_args ret argc line ps =
     then_do (peek line (bytes_of ''|)&;'') ps) (\<lambda>b s.
       if b then Ok ret s
       else
         then_do (gettoken line s) (\<lambda>x s. case x of (tok, q, eq) \<Rightarrow>
           if tok = 0 then Ok ret s
           else if tok \<noteq> chr CHR ''a'' then Panic ''syntax''
           else if argc + 1 \<ge> MAXARGS then Panic ''too many args''
           else then_do (parseredirs (add_arg ret (q, eq)) line s) (\<lambda>ret s. parse_args ret (argc + 1) line s)))"
  by pat_completeness auto
termination
proof (relation "measure (\<lambda>(ret, argc, line, ps). length line - ps)")
  fix ret :: "span cmd" and argc line ps b s x s1 tok y q eq r s2
  assume "peek line (bytes_of ''|)&;'') ps = Ok b s" "gettoken line s = Ok x s1" "(tok, y) = x" "(q, eq) = y" "tok \<noteq> 0"
    "parseredirs (add_arg ret (q, eq)) line s1 = Ok r s2"
  then have g: "gettoken line s = Ok (tok, q, eq) s1" "tok \<noteq> 0" and s: "skip_ws line s = s" "ps \<le> s" "s1 \<le> s2"
    using parseredirs_ge skip_ws_ge by (auto simp: peek_eq)
  then have "char_at line s \<noteq> 0" using gettoken_forward(7) [OF g(1)] by simp
  then have "s < s1" "s < length line" using gettoken_forward(4) [OF g(1)] char_at_nonzero s(1) by simp_all
  then show "((r, argc + 1, line, s2), ret, argc, line, ps) \<in> measure (\<lambda>(ret, argc, line, ps). length line - ps)" using s by simp
qed simp

declare parse_args.simps [simp del]

fun parseline :: "nat \<Rightarrow> u8 list \<Rightarrow> nat \<Rightarrow> (nat, span cmd) result"
  and parsepipe :: "nat \<Rightarrow> u8 list \<Rightarrow> nat \<Rightarrow> (nat, span cmd) result"
  and parseexec :: "nat \<Rightarrow> u8 list \<Rightarrow> nat \<Rightarrow> (nat, span cmd) result"
  and parseblock :: "nat \<Rightarrow> u8 list \<Rightarrow> nat \<Rightarrow> (nat, span cmd) result" where
  "parseline 0 line s = Hang"
| "parseline (Suc d) line s =
     then_do (parsepipe d line s) (\<lambda>c s.
     then_do (parse_backs c line s) (\<lambda>c s.
     then_do (peek line (bytes_of '';'') s) (\<lambda>b s.
       if b then
         then_do (gettoken line s) (\<lambda>_ s.
         then_do (parseline d line s) (\<lambda>r s. Ok (ListCmd c r) s))
       else Ok c s)))"
| "parsepipe 0 line s = Hang"
| "parsepipe (Suc d) line s =
     then_do (parseexec d line s) (\<lambda>c s.
     then_do (peek line (bytes_of ''|'') s) (\<lambda>b s.
       if b then
         then_do (gettoken line s) (\<lambda>_ s.
         then_do (parsepipe d line s) (\<lambda>r s. Ok (PipeCmd c r) s))
       else Ok c s))"
| "parseexec 0 line s = Hang"
| "parseexec (Suc d) line s =
     then_do (peek line (bytes_of ''('') s) (\<lambda>b s.
       if b then parseblock d line s
       else
         then_do (parseredirs (ExecCmd []) line s) (\<lambda>ret s.
         parse_args ret 0 line s))"
| "parseblock 0 line s = Hang"
| "parseblock (Suc d) line s =
     then_do (peek line (bytes_of ''('') s) (\<lambda>b s.
       if \<not> b then Panic ''parseblock''
       else
         then_do (gettoken line s) (\<lambda>_ s.
         then_do (parseline d line s) (\<lambda>c s.
         then_do (peek line (bytes_of '')'') s) (\<lambda>b s.
           if \<not> b then Panic ''syntax - missing )''
           else then_do (gettoken line s) (\<lambda>_ s. parseredirs c line s)))))"

declare parseline.simps [simp del] parsepipe.simps [simp del] parseexec.simps [simp del] parseblock.simps [simp del]

text \<open>The first half of parsecmd(): the tree and the position where parsing stopped, or a panic.\<close>

definition parse_depth :: "u8 list \<Rightarrow> nat" where
  "parse_depth line = 4 * length line + 4"

definition parse_all :: "u8 list \<Rightarrow> (nat, span cmd) result" where
  "parse_all line =
     then_do (parseline (parse_depth line) line 0) (\<lambda>c s.
     then_do (peek line [] s) (\<lambda>_ s. Ok c s))"

text \<open>The buffer holds the line and its NUL; nulterminate() overwrites the character after every word.\<close>

primrec nulterminate :: "span cmd \<Rightarrow> u8 list \<Rightarrow> u8 list" where
  "nulterminate (ExecCmd ws) buf = fold (\<lambda>w b. b[snd w := 0]) ws buf"
| "nulterminate (RedirCmd c f mode fd) buf = (nulterminate c buf)[snd f := 0]"
| "nulterminate (PipeCmd l r) buf = nulterminate r (nulterminate l buf)"
| "nulterminate (ListCmd l r) buf = nulterminate r (nulterminate l buf)"
| "nulterminate (BackCmd c) buf = nulterminate c buf"

text \<open>The string that a pointer into the buffer denotes.\<close>

definition str_at :: "u8 list \<Rightarrow> nat \<Rightarrow> u8 list" where
  "str_at buf i = takeWhile (\<lambda>c. c \<noteq> 0) (drop i buf)"

definition cmd_strings :: "u8 list \<Rightarrow> span cmd \<Rightarrow> u8 list cmd" where
  "cmd_strings buf c = map_cmd (\<lambda>w. str_at buf (fst w)) c"

section \<open>Running a command\<close>

definition sh_panic :: "string \<Rightarrow> 'z uenv_scheme \<Rightarrow> ('z, 'a) uresult" where
  "sh_panic msg s = then_do (u_fprintf 2 (''%s'' @ [CHR 0x0A]) [pstr (bytes_of msg)] s) (\<lambda>_ s. u_exit 1 s)"

definition fork1 :: "'z uenv_scheme \<Rightarrow> ('z, int) uresult" where
  "fork1 s = then_do (usys_int UFork s) (\<lambda>pid s. if pid = -1 then sh_panic ''fork'' s else Ok pid s)"

text \<open>The second half of parsecmd(): what is left of the line is reported, the words are terminated.\<close>

definition parsecmd :: "u8 list \<Rightarrow> 'z uenv_scheme \<Rightarrow> ('z, u8 list cmd) uresult" where
  "parsecmd line s =
     (case parse_all line of
        Ok c ps \<Rightarrow>
          if ps \<noteq> length line then
            then_do (u_fprintf 2 (''leftovers: %s'' @ [CHR 0x0A]) [pstr (drop ps line)] s) (\<lambda>_ s. sh_panic ''syntax'' s)
          else Ok (cmd_strings (nulterminate c (line @ [0])) c) s
      | Panic msg \<Rightarrow> sh_panic msg s
      | _ \<Rightarrow> Hang)"

primrec runcmd :: "u8 list cmd \<Rightarrow> 'z uenv_scheme \<Rightarrow> ('z, unit) uresult" where
  "runcmd (ExecCmd argv) s =
     (if argv = [] then u_exit 1 s
      else
        then_do (usys_int (UExec (hd argv) argv) s) (\<lambda>_ s.
        then_do (u_fprintf 2 (''exec %s failed'' @ [CHR 0x0A]) [pstr (hd argv)] s) (\<lambda>_ s. u_exit 0 s)))"
| "runcmd (RedirCmd c f mode fd) s =
     then_do (usys_int (UClose fd) s) (\<lambda>_ s.
     then_do (usys_int (UOpen f mode) s) (\<lambda>r s.
       if r < 0 then
         then_do (u_fprintf 2 (''open %s failed'' @ [CHR 0x0A]) [pstr f] s) (\<lambda>_ s. u_exit 1 s)
       else then_do (runcmd c s) (\<lambda>_ s. u_exit 0 s)))"
| "runcmd (ListCmd l r) s =
     then_do (fork1 s) (\<lambda>pid s.
     then_do (if pid = 0 then runcmd l s else Ok () s) (\<lambda>_ s.
     then_do (usys_int UWait s) (\<lambda>_ s.
     then_do (runcmd r s) (\<lambda>_ s. u_exit 0 s))))"
| "runcmd (PipeCmd l r) s =
     then_do (u_pipe s) (\<lambda>p s. case p of
       None \<Rightarrow> sh_panic ''pipe'' s
     | Some (p0, p1) \<Rightarrow>
         then_do (fork1 s) (\<lambda>pid s.
         then_do (if pid = 0 then
             then_do (usys_int (UClose 1) s) (\<lambda>_ s.
             then_do (usys_int (UDup p1) s) (\<lambda>_ s.
             then_do (usys_int (UClose p0) s) (\<lambda>_ s.
             then_do (usys_int (UClose p1) s) (\<lambda>_ s. runcmd l s))))
           else Ok () s) (\<lambda>_ s.
         then_do (fork1 s) (\<lambda>pid s.
         then_do (if pid = 0 then
             then_do (usys_int (UClose 0) s) (\<lambda>_ s.
             then_do (usys_int (UDup p0) s) (\<lambda>_ s.
             then_do (usys_int (UClose p0) s) (\<lambda>_ s.
             then_do (usys_int (UClose p1) s) (\<lambda>_ s. runcmd r s))))
           else Ok () s) (\<lambda>_ s.
         then_do (usys_int (UClose p0) s) (\<lambda>_ s.
         then_do (usys_int (UClose p1) s) (\<lambda>_ s.
         then_do (usys_int UWait s) (\<lambda>_ s.
         then_do (usys_int UWait s) (\<lambda>_ s. u_exit 0 s)))))))))"
| "runcmd (BackCmd c) s =
     then_do (fork1 s) (\<lambda>pid s.
     then_do (if pid = 0 then runcmd c s else Ok () s) (\<lambda>_ s. u_exit 0 s))"

text \<open>getcmd() leaves the line in the buffer, with NULs after it; a line that is empty is the end of the input.\<close>

definition SH_BUF :: nat where "SH_BUF = 100"

definition getcmd :: "'z uenv_scheme \<Rightarrow> ('z, u8 list option) uresult" where
  "getcmd s =
     then_do (u_write 2 (bytes_of ''$ '') s) (\<lambda>_ s.
     then_do (gets SH_BUF s) (\<lambda>cs s.
       (let buf = cs @ replicate (SH_BUF - length cs) 0 in
        if hd buf = 0 then Ok None s else Ok (Some buf) s)))"

text \<open>The built-in cd: the last character of the line is chopped.\<close>

definition is_cd :: "u8 list \<Rightarrow> bool" where
  "is_cd buf \<longleftrightarrow> buf ! 0 = chr CHR ''c'' \<and> buf ! 1 = chr CHR ''d'' \<and> buf ! 2 = chr CHR '' ''"

definition sh_cd :: "u8 list \<Rightarrow> 'z uenv_scheme \<Rightarrow> ('z, unit) uresult" where
  "sh_cd buf s =
     (let buf = buf[length (str_at buf 0) - 1 := 0] in
      then_do (usys_int (UChdir (str_at buf 3)) s) (\<lambda>r s.
        if r < 0 then u_fprintf 2 (''cannot cd %s'' @ [CHR 0x0A]) [pstr (str_at buf 3)] s else Ok () s))"

definition sh_run :: "u8 list \<Rightarrow> 'z uenv_scheme \<Rightarrow> ('z, unit) uresult" where
  "sh_run buf s =
     then_do (fork1 s) (\<lambda>pid s.
     then_do (if pid = 0 then then_do (parsecmd (str_at buf 0) s) (\<lambda>c s. runcmd c s) else Ok () s) (\<lambda>_ s.
     then_do (usys_int UWait s) (\<lambda>_ s. Ok () s)))"

lemma sh_panic_not_Ok [simp]: "sh_panic msg s \<noteq> Ok r t"
  by (cases "u_fprintf 2 (''%s'' @ [CHR 0x0A]) [pstr (bytes_of msg)] s") (simp_all add: sh_panic_def)

lemma runcmd_no_return [simp]: "runcmd c s \<noteq> Ok r t"
  by (induction c arbitrary: s r t) (simp_all add: result_iff split: option.splits)

lemma gets_loop_le: "gets_loop n acc s = Ok r t \<Longrightarrow> length (replies t) \<le> length (replies s)"
proof (induction n acc s arbitrary: r t rule: gets_loop.induct)
  case (1 room acc s)
  show ?case
  proof (cases "u_read 0 1 s")
    case (Ok x u)
    obtain cc bs where x: "x = (cc, bs)" by force
    have u: "length (replies u) < length (replies s)" by (rule u_read_less [OF Ok])
    show ?thesis
    proof (cases "room \<le> 1 \<or> cc < 1 \<or> hd bs = newline \<or> hd bs = 13")
      case True
      then show ?thesis using 1(2) Ok x u by (subst (asm) gets_loop.simps) (auto simp: Let_def split: if_splits)
    next
      case False
      then have "gets_loop (room - 1) (acc @ [hd bs]) u = Ok r t" using 1(2) Ok x by (subst (asm) gets_loop.simps) (simp add: Let_def)
      then have "length (replies t) \<le> length (replies u)"
        using False Ok x by (intro 1(1) [OF _ _ _ _ refl refl]) auto
      then show ?thesis using u by simp
    qed
  qed (use 1(2) in \<open>auto simp: gets_loop.simps [of room acc s] split: if_splits\<close>)
qed

lemma getcmd_less: "getcmd s = Ok r t \<Longrightarrow> length (replies t) < length (replies s)"
  by (auto simp: getcmd_def gets_def result_iff Let_def split: if_splits dest!: u_write_less gets_loop_le)

lemma sh_cd_le: "sh_cd buf s = Ok r t \<Longrightarrow> length (replies t) \<le> length (replies s)"
  by (auto simp: sh_cd_def result_iff Let_def split: if_splits dest!: usys_int_less printf_le)

lemma sh_run_le: "sh_run buf s = Ok r t \<Longrightarrow> length (replies t) \<le> length (replies s)"
  by (auto simp: sh_run_def fork1_def result_iff Let_def split: if_splits dest!: usys_int_less)

function open_consoles :: "'z uenv_scheme \<Rightarrow> ('z, unit) uresult" where
  "open_consoles s =
     then_do (usys_int (UOpen (bytes_of ''console'') O_RDWR) s) (\<lambda>fd s.
       if fd < 0 then Ok () s
       else if fd \<ge> 3 then then_do (usys_int (UClose fd) s) (\<lambda>_ s. Ok () s)
       else open_consoles s)"
  by pat_completeness auto
termination by (relation "measure (\<lambda>s. length (replies s))") (auto dest!: replies_less)

declare open_consoles.simps [simp del]

function sh_loop :: "'z uenv_scheme \<Rightarrow> ('z, unit) uresult" where
  "sh_loop s =
     then_do (getcmd s) (\<lambda>x s. case x of
       None \<Rightarrow> u_exit 0 s
     | Some buf \<Rightarrow> then_do (if is_cd buf then sh_cd buf s else sh_run buf s) (\<lambda>_ s. sh_loop s))"
  by pat_completeness auto
termination
  by (relation "measure (\<lambda>s. length (replies s))") (auto split: if_splits dest!: getcmd_less sh_cd_le sh_run_le)

declare sh_loop.simps [simp del]

definition sh_main :: "'z uenv_scheme \<Rightarrow> ('z, unit) uresult" where
  "sh_main s = then_do (open_consoles s) (\<lambda>_ s. sh_loop s)"

end
