(* ===== verification/Sh_Props.thy ===== *)
theory Sh_Props
  imports Sh
begin

text \<open>
  The parser of the shell: on every line it ends with a tree or with one of its messages, the words of the
  tree are words of the line, and terminating them in place makes every pointer denote exactly its word.
  Printing a command and parsing the text gives the command back.
\<close>

section \<open>The words of the tree\<close>

definition word_ok :: "u8 list \<Rightarrow> span \<Rightarrow> bool" where
  "word_ok line w \<longleftrightarrow>
     fst w < snd w \<and> snd w \<le> length line \<and> (\<forall>i. fst w \<le> i \<and> i < snd w \<longrightarrow> is_word (line ! i)) \<and>
     (snd w < length line \<longrightarrow> \<not> is_word (line ! snd w))"

primrec leaf_args :: "'w cmd \<Rightarrow> 'w list" where
  "leaf_args (ExecCmd ws) = ws"
| "leaf_args (RedirCmd c f mode fd) = leaf_args c"
| "leaf_args (PipeCmd l r) = []"
| "leaf_args (ListCmd l r) = []"
| "leaf_args (BackCmd c) = []"

primrec few_args :: "'w cmd \<Rightarrow> bool" where
  "few_args (ExecCmd ws) \<longleftrightarrow> length ws < MAXARGS"
| "few_args (RedirCmd c f mode fd) \<longleftrightarrow> few_args c"
| "few_args (PipeCmd l r) \<longleftrightarrow> few_args l \<and> few_args r"
| "few_args (ListCmd l r) \<longleftrightarrow> few_args l \<and> few_args r"
| "few_args (BackCmd c) \<longleftrightarrow> few_args c"

definition well :: "u8 list \<Rightarrow> span cmd \<Rightarrow> bool" where
  "well line c \<longleftrightarrow> (\<forall>w \<in> set_cmd c. word_ok line w) \<and> few_args c"

lemma well_simps [simp]:
  "well line (RedirCmd c f mode fd) \<longleftrightarrow> well line c \<and> word_ok line f"
  "well line (PipeCmd l r) \<longleftrightarrow> well line l \<and> well line r"
  "well line (ListCmd l r) \<longleftrightarrow> well line l \<and> well line r"
  "well line (BackCmd c) \<longleftrightarrow> well line c"
  "well line (redir_of tok c f) \<longleftrightarrow> well line c \<and> word_ok line f"
  by (auto simp: well_def redir_of_def)

lemma leaf_args_redir_of [simp]: "leaf_args (redir_of tok c f) = leaf_args c"
  by (simp add: redir_of_def)

text \<open>The commands that parseexec() builds: an exec command under redirections.\<close>

primrec simple :: "'w cmd \<Rightarrow> bool" where
  "simple (ExecCmd ws) = True"
| "simple (RedirCmd c f mode fd) = simple c"
| "simple (PipeCmd l r) = False"
| "simple (ListCmd l r) = False"
| "simple (BackCmd c) = False"

lemma simple_redir_of [simp]: "simple (redir_of tok c f) = simple c"
  by (simp add: redir_of_def)

lemma add_arg_simple:
  assumes "simple c"
  shows "simple (add_arg c w)" and "leaf_args (add_arg c w) = leaf_args c @ [w]"
    and "well line (add_arg c w) \<longleftrightarrow> well line c \<and> word_ok line w \<and> Suc (length (leaf_args c)) < MAXARGS"
  using assms by (induction c) (auto simp: well_def)

lemma skip_word_inside: "s \<le> i \<Longrightarrow> i < skip_word line s \<Longrightarrow> is_word (line ! i)"
proof (induction line s rule: skip_word.induct)
  case (1 line s)
  show ?case
  proof (cases "s < length line \<and> is_word (char_at line s)")
    case True
    then show ?thesis using 1 by (cases "s = i") (auto simp: skip_word.simps [of line s] char_at_def)
  next
    case False
    then show ?thesis using 1(2,3) by (auto simp: skip_word.simps [of line s])
  qed
qed

lemma skip_word_stop: "skip_word line s < length line \<Longrightarrow> \<not> is_word (line ! skip_word line s)"
proof (induction line s rule: skip_word.induct)
  case (1 line s)
  then show ?case
    by (cases "s < length line \<and> is_word (char_at line s)") (auto simp: skip_word.simps [of line s] char_at_def)
qed

lemma gettoken_word:
  assumes "gettoken line ps = Ok (97, q, eq) s"
  shows "word_ok line (q, eq)"
proof -
  have c: "(97::u8) \<notin> set (bytes_of ''|();&<'')" by (simp add: bytes_of_def)
  have q: "q = skip_ws line ps" "char_at line q \<noteq> 0" "eq = skip_word line q" "char_at line q \<notin> set (bytes_of ''|();&<'')" "char_at line q \<noteq> chr CHR ''>''"
    using assms(1) c by (auto simp: gettoken_def Let_def split: if_splits)
  then have len: "q < length line" using char_at_nonzero by simp
  then have "is_word (char_at line q)" using skip_ws_stop q is_word_default by blast
  then have "q < eq" unfolding q(3) using len by (intro skip_word_gr)
  moreover have "eq \<le> length line" using q(3) skip_word_le [of q line] len by simp
  ultimately show ?thesis
    using q(3) skip_word_inside [of q _ line] skip_word_stop [of line q] by (simp add: word_ok_def)
qed

section \<open>Every parse ends\<close>

text \<open>A routine that starts at \<open>ps\<close> returns a tree and a later position, or panics; it does not run out of depth.\<close>

definition parse_messages :: "string list" where
  "parse_messages = [''missing file for redirection'', ''syntax'', ''too many args'', ''syntax - missing )'']"

definition parsed :: "u8 list \<Rightarrow> nat \<Rightarrow> (nat, span cmd) result \<Rightarrow> bool" where
  "parsed line ps r \<longleftrightarrow>
     (case r of Ok c s \<Rightarrow> ps \<le> s \<and> s \<le> length line \<and> well line c | Panic m \<Rightarrow> m \<in> set parse_messages | _ \<Rightarrow> False)"

lemma parsed_simps [simp]:
  "parsed line ps (Ok c s) \<longleftrightarrow> ps \<le> s \<and> s \<le> length line \<and> well line c"
  "parsed line ps (Panic m) \<longleftrightarrow> m \<in> set parse_messages"
  by (simp_all add: parsed_def)

lemma parse_messages [simp]:
  "''missing file for redirection'' \<in> set parse_messages" "''syntax'' \<in> set parse_messages"
  "''too many args'' \<in> set parse_messages" "''syntax - missing )'' \<in> set parse_messages"
  by (simp_all add: parse_messages_def)

lemma parsed_then:
  assumes "parsed line s r" and "ps \<le> s"
    and "\<And>c t. r = Ok c t \<Longrightarrow> s \<le> t \<Longrightarrow> t \<le> length line \<Longrightarrow> well line c \<Longrightarrow> parsed line ps (f c t)"
  shows "parsed line ps (then_do r f)"
  using assms by (cases r) (auto simp: parsed_def)

lemma parsed_le: "parsed line s r \<Longrightarrow> ps \<le> s \<Longrightarrow> parsed line ps r"
  by (auto simp: parsed_def split: result.splits)

text \<open>Looking at the next character, and taking the token when it is the one expected.\<close>

lemma gettoken_then:
  assumes "s \<le> length line" and "\<And>tok q eq t. gettoken line s = Ok (tok, q, eq) t \<Longrightarrow> s \<le> t \<Longrightarrow> t \<le> length line \<Longrightarrow>
    (tok \<noteq> 0 \<Longrightarrow> s < t \<and> s < length line) \<Longrightarrow> parsed line ps (f (tok, q, eq) t)"
  shows "parsed line ps (then_do (gettoken line s) f)"
proof -
  obtain tok q eq t where g: "gettoken line s = Ok (tok, q, eq) t" by (rule gettoken_total)
  have "s < t \<and> s < length line" if "tok \<noteq> 0"
    using that gettoken_forward(4,7) [OF g] char_at_nonzero [of line "skip_ws line s"] skip_ws_ge [of s line] by simp
  then show ?thesis using assms(2) [OF g] gettoken_forward(1-3,5) [OF g] assms(1) g by simp
qed

lemma peek_then:
  assumes "s \<le> length line" and "ps \<le> s"
    and "\<And>t. peek line toks s = Ok False t \<Longrightarrow> s \<le> t \<Longrightarrow> t \<le> length line \<Longrightarrow> parsed line ps (g t)"
    and "\<And>x t. s < t \<Longrightarrow> t \<le> length line \<Longrightarrow> s < length line \<Longrightarrow> parsed line ps (h x t)"
  shows "parsed line ps (then_do (peek line toks s) (\<lambda>b s. if b then then_do (gettoken line s) h else g s))"
    and "parsed line ps (then_do (peek line toks s) (\<lambda>b s. if \<not> b then g s else then_do (gettoken line s) h))"
proof -
  obtain b where b: "peek line toks s = Ok b (skip_ws line s)" by (rule peek_total)
  obtain tok q eq t where g: "gettoken line (skip_ws line s) = Ok (tok, q, eq) t" by (rule gettoken_total)
  have "parsed line ps (h (tok, q, eq) t)" if "b"
    using peek_gettoken [OF b [unfolded that [THEN eqTrueI]] g] gettoken_forward(5) [OF g] skip_ws_le assms by simp
  moreover have "parsed line ps (g (skip_ws line s))" if "\<not> b"
    using assms(1,3) b that skip_ws_ge skip_ws_le by simp
  ultimately show "parsed line ps (then_do (peek line toks s) (\<lambda>b s. if b then then_do (gettoken line s) h else g s))"
    "parsed line ps (then_do (peek line toks s) (\<lambda>b s. if \<not> b then g s else then_do (gettoken line s) h))"
    using b g by auto
qed

lemma peek_parsed:
  assumes "s \<le> length line" and "\<And>b t. peek line toks s = Ok b t \<Longrightarrow> s \<le> t \<Longrightarrow> t \<le> length line \<Longrightarrow> parsed line ps (f b t)"
  shows "parsed line ps (then_do (peek line toks s) f)"
  using assms skip_ws_ge skip_ws_le by (simp add: peek_def Let_def)

lemma parseredirs_parsed:
  "ps \<le> length line \<Longrightarrow> well line c \<Longrightarrow> parsed line ps (parseredirs c line ps)"
  "parseredirs c line ps = Ok c' s \<Longrightarrow> leaf_args c' = leaf_args c \<and> simple c' = simple c"
proof (induction c line ps rule: parseredirs_induct)
  case (redirs c line ps)
  { case 1
    show ?case
    proof (cases rule: parseredirs_cases [where c = c and line = line and ps = ps])
      case (one tok q0 e0 t q eq t')
      have t: "ps < t" "ps < length line" by (rule peek_gettoken [OF one(1,2)])+
      have t': "t \<le> t'" "t' \<le> length line" using gettoken_forward(1-3,5) [OF one(3)] gettoken_forward(5) [OF one(2)] skip_ws_le 1(1) by auto
      have "word_ok line (q, eq)" using gettoken_word one(3) by simp
      then have "parsed line t' (parseredirs c line ps)" unfolding one(4) using redirs(1) t t' 1 by simp
      then show ?thesis using parsed_le t t' by simp
    qed (use 1 skip_ws_ge skip_ws_le in simp_all)
  next
    case 2
    show ?case
    proof (cases rule: parseredirs_cases [where c = c and line = line and ps = ps])
      case (one tok q0 e0 t q eq t')
      have t: "ps < t" "ps < length line" by (rule peek_gettoken [OF one(1,2)])+
      then have "ps < t'" using gettoken_forward(1-3) [OF one(3)] by simp
      then show ?thesis using redirs(2) [OF _ t(2)] 2 one(4) by fastforce
    qed (use 2 in simp_all)
  }
qed

lemma parse_backs_parsed:
  "ps \<le> length line \<Longrightarrow> well line c \<Longrightarrow> parsed line ps (parse_backs c line ps)"
proof (induction "length line - ps" arbitrary: c ps rule: less_induct)
  case less
  show ?case
    by (subst parse_backs.simps, rule peek_then(2)) (use less(2,3) in \<open>auto intro!: parsed_le [OF less(1)]\<close>)
qed

lemma parse_args_parsed:
  "ps \<le> length line \<Longrightarrow> well line c \<Longrightarrow> simple c \<Longrightarrow> argc = length (leaf_args c) \<Longrightarrow> parsed line ps (parse_args c argc line ps)"
proof (induction "length line - ps" arbitrary: c argc ps rule: less_induct)
  case less
  have step: "parsed line ps (then_do (parseredirs (add_arg c (q, eq)) line t) (\<lambda>ret s. parse_args ret (argc + 1) line s))"
    if g: "gettoken line u = Ok (97, q, eq) t" and t: "ps < t" "ps < length line" "t \<le> length line" and n: "argc + 1 < MAXARGS" for q eq t u
  proof (rule parsed_then)
    have w: "well line (add_arg c (q, eq))" using less gettoken_word [OF g] n by (simp add: add_arg_simple)
    then show "parsed line t (parseredirs (add_arg c (q, eq)) line t)" by (rule parseredirs_parsed(1) [OF t(3)])
    fix r s
    assume r: "parseredirs (add_arg c (q, eq)) line t = Ok r s" and s: "s \<le> length line" "well line r" "t \<le> s"
    have "parsed line s (parse_args r (argc + 1) line s)"
      using parseredirs_parsed(2) [OF r] less(4,5) s t by (intro less(1)) (simp_all add: add_arg_simple)
    then show "parsed line ps (parse_args r (argc + 1) line s)" using parsed_le s t by simp
  qed (use t in simp)
  show ?case
  proof (subst parse_args.simps, rule peek_parsed [OF less(2)])
    fix b t
    assume t: "ps \<le> t" "t \<le> length line"
    show "parsed line ps (if b then Ok c t else then_do (gettoken line t) (\<lambda>x s. case x of (tok, q, eq) \<Rightarrow>
      if tok = 0 then Ok c s else if tok \<noteq> chr CHR ''a'' then Panic ''syntax'' else if argc + 1 \<ge> MAXARGS then Panic ''too many args''
      else then_do (parseredirs (add_arg c (q, eq)) line s) (\<lambda>ret s. parse_args ret (argc + 1) line s)))"
      using t less(3) step by (auto intro!: gettoken_then)
  qed
qed

lemma parse_parsed:
  "ps \<le> length line \<Longrightarrow> 4 * (length line - ps) + 4 \<le> d \<Longrightarrow> parsed line ps (parseline d line ps)"
  "ps \<le> length line \<Longrightarrow> 4 * (length line - ps) + 3 \<le> d \<Longrightarrow> parsed line ps (parsepipe d line ps)"
  "ps \<le> length line \<Longrightarrow> 4 * (length line - ps) + 2 \<le> d \<Longrightarrow> parsed line ps (parseexec d line ps)"
  "ps \<le> length line \<Longrightarrow> 4 * (length line - ps) + 1 \<le> d \<Longrightarrow> peek line (bytes_of ''('') ps = Ok True ps \<Longrightarrow> parsed line ps (parseblock d line ps)"
proof (induction d arbitrary: ps)
  case (Suc d)
  { case 1
    show ?case unfolding parseline.simps
    proof (rule parsed_then [OF Suc(2)])
      fix c t assume t: "ps \<le> t" "t \<le> length line" "well line c"
      show "parsed line ps (then_do (parse_backs c line t) (\<lambda>c s. then_do (peek line (bytes_of '';'') s) (\<lambda>b s.
        if b then then_do (gettoken line s) (\<lambda>_ s. then_do (parseline d line s) (\<lambda>r s. Ok (ListCmd c r) s)) else Ok c s)))"
      proof (rule parsed_then [OF parse_backs_parsed [OF t(2,3)] t(1)], rule peek_then(1))
        fix c u x v assume u: "t \<le> u" "u \<le> length line" "well line c" "u < v" "v \<le> length line" "u < length line"
        then show "parsed line ps (then_do (parseline d line v) (\<lambda>r s. Ok (ListCmd c r) s))"
          by (intro parsed_then [OF Suc(1)]) (use 1 t in simp_all)
      qed (use t in simp_all)
    qed (use 1 in simp_all)
  next
    case 2
    show ?case unfolding parsepipe.simps
    proof (rule parsed_then [OF Suc(3)])
      fix c u assume u: "ps \<le> u" "u \<le> length line" "well line c"
      have "parsed line ps (then_do (parsepipe d line v) (\<lambda>r s. Ok (PipeCmd c r) s))"
        if "u < v" "v \<le> length line" "u < length line" for v
        by (intro parsed_then [OF Suc(2)]) (use 2 u that in simp_all)
      then show "parsed line ps (then_do (peek line (bytes_of ''|'') u) (\<lambda>b s.
        if b then then_do (gettoken line s) (\<lambda>_ s. then_do (parsepipe d line s) (\<lambda>r s. Ok (PipeCmd c r) s)) else Ok c s))"
        using u by (intro peek_then(1)) simp_all
    qed (use 2 in simp_all)
  next
    case 3
    show ?case unfolding parseexec.simps
    proof (rule peek_parsed [OF 3(1)])
      fix b t assume b: "peek line (bytes_of ''('') ps = Ok b t" and t: "ps \<le> t" "t \<le> length line"
      have "parsed line t (then_do (parseredirs (ExecCmd []) line t) (\<lambda>ret s. parse_args ret 0 line s))"
        using t parseredirs_parsed(2) [of "ExecCmd []" line t]
        by (intro parsed_then [OF parseredirs_parsed(1)]) (auto intro!: parsed_le [OF parse_args_parsed] simp: well_def MAXARGS_def)
      moreover have "parsed line t (parseblock d line t)" if "b" using 3 t b that by (intro Suc(4)) (auto simp: peek_eq)
      ultimately show "parsed line ps (if b then parseblock d line t else then_do (parseredirs (ExecCmd []) line t) (\<lambda>ret s. parse_args ret 0 line s))"
        using parsed_le [OF _ t(1)] by (cases b) auto
    qed
  next
    case 4
    show ?case unfolding parseblock.simps
    proof (rule peek_then(2) [OF 4(1)])
      fix x t assume t: "ps < t" "t \<le> length line" "ps < length line"
      have tail: "parsed line ps (parseredirs c line v)" if "t < v" "v \<le> length line" "well line c" for c v
        using parseredirs_parsed(1) [OF that(2,3)] parsed_le t that by simp
      show "parsed line ps (then_do (parseline d line t) (\<lambda>c s. then_do (peek line (bytes_of '')'') s) (\<lambda>b s.
        if \<not> b then Panic ''syntax - missing )'' else then_do (gettoken line s) (\<lambda>_ s. parseredirs c line s))))"
        by (rule parsed_then [OF Suc(1)]; (rule peek_then(2))?) (use 4 t tail in simp_all)
    qed (use 4 in simp_all)
  }
qed simp_all

section \<open>Terminating the words\<close>

lemma fold_zero:
  "length (fold (\<lambda>w b. b[snd w := 0]) ws buf) = length buf"
  "i < length buf \<Longrightarrow> fold (\<lambda>w b. b[snd w := 0]) ws buf ! i = (if i \<in> snd ` set ws then 0 else buf ! i)"
  by (induction ws arbitrary: buf) (auto simp: nth_list_update)

lemma nulterminate_nth:
  "length (nulterminate c buf) = length buf"
  "i < length buf \<Longrightarrow> nulterminate c buf ! i = (if i \<in> snd ` set_cmd c then 0 else buf ! i)"
proof (induction c arbitrary: buf)
  case (RedirCmd c f mode fd)
  { case 1 then show ?case by (simp add: RedirCmd)
  next case 2 then show ?case using RedirCmd by (cases "i = snd f") auto }
qed (auto simp: fold_zero)

definition span_word :: "u8 list \<Rightarrow> span \<Rightarrow> u8 list" where
  "span_word line w = take (snd w - fst w) (drop (fst w) line)"

lemma str_at_word:
  assumes nul: "0 \<notin> set line" and ok: "\<forall>w \<in> set_cmd c. word_ok line w" and w: "w \<in> set_cmd c"
  shows "str_at (nulterminate c (line @ [0])) (fst w) = span_word line w"
proof -
  let ?b = "nulterminate c (line @ [0])"
  have ww: "word_ok line w" using ok w by blast
  then have len: "fst w < snd w" "snd w \<le> length line" by (simp_all add: word_ok_def)
  have same: "?b ! i = line ! i" if "fst w \<le> i" "i < snd w" for i
  proof -
    have "is_word (line ! i)" using ww that by (simp add: word_ok_def)
    then have "i \<notin> snd ` set_cmd c" using ok that len by (auto simp: word_ok_def)
    then show ?thesis using that len by (simp add: nulterminate_nth nth_append)
  qed
  have stop: "?b ! snd w = 0" using w len by (simp add: nulterminate_nth)
  have split: "drop (fst w) ?b = span_word line w @ drop (snd w) ?b"
  proof (rule nth_equalityI)
    show "length (drop (fst w) ?b) = length (span_word line w @ drop (snd w) ?b)"
      using len by (simp add: nulterminate_nth span_word_def)
    show "drop (fst w) ?b ! i = (span_word line w @ drop (snd w) ?b) ! i" if "i < length (drop (fst w) ?b)" for i
      using that len same [of "fst w + i"]
      by (cases "i < snd w - fst w") (simp_all add: nulterminate_nth(1) nth_append span_word_def add.commute)
  qed
  have "\<forall>x \<in> set (span_word line w). x \<noteq> 0" using nul by (auto simp: span_word_def dest!: in_set_takeD in_set_dropD)
  moreover have "takeWhile (\<lambda>x. x \<noteq> 0) (drop (snd w) ?b) = []"
    using stop len by (subst Cons_nth_drop_Suc [symmetric]) (simp_all add: nulterminate_nth)
  ultimately show ?thesis unfolding str_at_def split by (simp add: takeWhile_append2)
qed

lemma parse_all_parsed: "parsed line 0 (parse_all line)"
proof -
  have "parsed line 0 (parseline (parse_depth line) line 0)"
    by (rule parse_parsed) (simp_all add: parse_depth_def)
  then show ?thesis
    unfolding parse_all_def by (rule parsed_then) (auto intro!: peek_parsed)
qed

lemma parse_all_strings:
  assumes "0 \<notin> set line" and "parse_all line = Ok c s"
  shows "cmd_strings (nulterminate c (line @ [0])) c = map_cmd (span_word line) c"
  using parse_all_parsed [of line] assms str_at_word [OF assms(1)]
  by (auto simp: well_def cmd_strings_def intro!: cmd.map_cong0)

text \<open>
  C21: The parser of the shell is total and its trees are well-formed. On every line it returns or panics with
  one of four messages, and the depth of its recursion is bounded by the length of the line. The words of the
  tree are non-empty maximal runs of word characters of the line, no command has MAXARGS arguments or more, and
  after nulterminate(), which writes into the line in place, every pointer of the tree denotes exactly its word.
\<close>

theorem sh_parse_wellformed:
  assumes "0 \<notin> set line"
  shows "case parse_all line of
      Ok c s \<Rightarrow> s \<le> length line \<and> (\<forall>w \<in> set_cmd c. word_ok line w) \<and> few_args c \<and>
        cmd_strings (nulterminate c (line @ [0])) c = map_cmd (span_word line) c
    | Panic m \<Rightarrow> m \<in> set parse_messages
    | _ \<Rightarrow> False"
  using parse_all_parsed [of line] parse_all_strings [OF assms]
  by (auto simp: parsed_def well_def split: result.splits)

text \<open>The line \<^verbatim>\<open>a>b|c\<close>: the tree, and the strings after the words have been terminated.\<close>

theorem sh_parse_wellformed_witness:
  "parse_all (bytes_of ''a>b|c'') =
     Ok (PipeCmd (RedirCmd (ExecCmd [(0, 1)]) (2, 3) (O_WRONLY OR O_CREATE OR O_TRUNC) 1) (ExecCmd [(4, 5)])) 5 \<and>
   cmd_strings (nulterminate (PipeCmd (RedirCmd (ExecCmd [(0, 1)]) (2, 3) (O_WRONLY OR O_CREATE OR O_TRUNC) 1) (ExecCmd [(4, 5)]))
       (bytes_of ''a>b|c'' @ [0]))
     (PipeCmd (RedirCmd (ExecCmd [(0, 1)]) (2, 3) (O_WRONLY OR O_CREATE OR O_TRUNC) 1) (ExecCmd [(4, 5)])) =
     PipeCmd (RedirCmd (ExecCmd [bytes_of ''a'']) (bytes_of ''b'') (O_WRONLY OR O_CREATE OR O_TRUNC) 1) (ExecCmd [bytes_of ''c''])"
proof -
  let ?l = "bytes_of ''a>b|c''"
  let ?c = "PipeCmd (RedirCmd (ExecCmd [(0, 1)]) (2, 3) (O_WRONLY OR O_CREATE OR O_TRUNC) 1) (ExecCmd [(4, 5)])"
  have p: "parse_all ?l = Ok ?c 5" by code_simp
  have "0 \<notin> set ?l" by (simp add: bytes_of_def)
  from sh_parse_wellformed [OF this] have "cmd_strings (nulterminate ?c (?l @ [0])) ?c = map_cmd (span_word ?l) ?c"
    unfolding p result.case by blast
  moreover have "map_cmd (span_word ?l) ?c =
      PipeCmd (RedirCmd (ExecCmd [bytes_of ''a'']) (bytes_of ''b'') (O_WRONLY OR O_CREATE OR O_TRUNC) 1) (ExecCmd [bytes_of ''c''])"
    by (simp add: bytes_of_def span_word_def)
  ultimately show ?thesis using p by simp
qed

end
