(* ===== verification/Sh_Print.thy ===== *)
theory Sh_Print
  imports Sh_Props
begin

text \<open>
  Printing commands and reading them back. A command whose words are strings is printed as a list of tokens,
  with parentheses where the grammar of the shell needs them, and the tokens as a line. The parser of user/sh.c
  turns the line back into the command.
\<close>

section \<open>Lines made of tokens\<close>

definition word_tok :: "u8 list \<Rightarrow> bool" where
  "word_tok t \<longleftrightarrow> t \<noteq> [] \<and> (\<forall>c \<in> set t. is_word c \<and> c \<noteq> 0)"

definition sym_toks :: "u8 list list" where
  "sym_toks = map bytes_of [''|'', ''('', '')'', '';'', ''&'', ''<'', ''>'', ''>>'']"

definition tok_ok :: "u8 list \<Rightarrow> bool" where
  "tok_ok t \<longleftrightarrow> word_tok t \<or> t \<in> set sym_toks"

definition tok_code :: "u8 list \<Rightarrow> u8" where
  "tok_code t = (if word_tok t then chr CHR ''a'' else if t = bytes_of ''>>'' then chr CHR ''+'' else hd t)"

definition toks_text :: "u8 list list \<Rightarrow> u8 list" where
  "toks_text ts = concat (map (\<lambda>t. t @ [32]) ts)"

text \<open>The tokens of the line from the position \<open>ps\<close> on.\<close>

definition rests :: "u8 list \<Rightarrow> nat \<Rightarrow> u8 list list \<Rightarrow> bool" where
  "rests line ps ts \<longleftrightarrow> drop ps line = toks_text ts \<and> (\<forall>t \<in> set ts. tok_ok t)"

definition starts :: "u8 list \<Rightarrow> u8 list list \<Rightarrow> bool" where
  "starts cs ts \<longleftrightarrow> ts \<noteq> [] \<and> hd (hd ts) \<in> set cs"

lemma starts_simps [simp]: "\<not> starts cs []" "starts cs (t # ts) \<longleftrightarrow> hd t \<in> set cs"
  by (simp_all add: starts_def)

lemma toks_text_simps [simp]: "toks_text [] = []" "toks_text (t # ts) = t @ 32 # toks_text ts"
  by (simp_all add: toks_text_def)

lemma char_at_drop: "char_at line s = (case drop s line of [] \<Rightarrow> 0 | c # _ \<Rightarrow> c)"
  by (cases "s < length line") (auto simp: char_at_def Cons_nth_drop_Suc [symmetric])

lemma skip_ws_drop: "skip_ws line s = s + length (takeWhile is_ws (drop s line))"
proof (induction line s rule: skip_ws.induct)
  case (1 line s)
  then show ?case
    by (cases "s < length line") (auto simp: skip_ws.simps [of line s] char_at_def Cons_nth_drop_Suc [symmetric])
qed

lemma skip_word_drop: "skip_word line s = s + length (takeWhile is_word (drop s line))"
proof (induction line s rule: skip_word.induct)
  case (1 line s)
  then show ?case
    by (cases "s < length line") (auto simp: skip_word.simps [of line s] char_at_def Cons_nth_drop_Suc [symmetric])
qed

lemma blank [simp]: "is_ws 32" "\<not> is_word 32"
  by (simp_all add: is_ws_def is_word_def whitespace_def)

lemma is_word_not_sym:
  "is_word c \<Longrightarrow> \<not> is_ws c \<and> c \<notin> set (bytes_of ''|();&<'') \<and> c \<noteq> 62"
  by (auto simp: is_word_def symbols_def bytes_of_def split: if_splits)

lemma sym_toks_cases:
  assumes "t \<in> set sym_toks"
  obtains c where "t = [c]" "c \<in> set (bytes_of ''|();&<>'')" | "t = [62, 62]"
  using assms by (auto simp: sym_toks_def bytes_of_def)

lemma sym_not_ws: "c \<in> set (bytes_of ''|();&<>'') \<Longrightarrow> \<not> is_ws c \<and> c \<noteq> 0 \<and> \<not> is_word c"
  by (auto simp: is_ws_def is_word_def whitespace_def symbols_def bytes_of_def)

lemma tok_ok_hd: "tok_ok t \<Longrightarrow> t \<noteq> [] \<and> \<not> is_ws (hd t) \<and> hd t \<noteq> 0"
  using is_word_not_sym [of "hd t"] sym_not_ws [of "hd t"]
  by (auto simp: tok_ok_def word_tok_def elim!: sym_toks_cases) (simp_all add: bytes_of_def is_ws_def whitespace_def)

lemma rests_skip: "rests line ps ts \<Longrightarrow> skip_ws line ps = ps"
proof -
  assume r: "rests line ps ts"
  have "takeWhile is_ws (toks_text ts) = []"
  proof (cases ts)
    case (Cons t ts')
    then have "t \<noteq> []" "\<not> is_ws (hd t)" using r tok_ok_hd by (auto simp: rests_def)
    then show ?thesis using Cons by (cases t) simp_all
  qed simp
  then show ?thesis using r by (simp add: skip_ws_drop rests_def)
qed

lemma peek_rests: "rests line ps ts \<Longrightarrow> peek line cs ps = Ok (starts cs ts) ps"
proof -
  have strchr: "strchr xs c \<noteq> None \<longleftrightarrow> c \<in> set xs" for xs and c :: u8 by (induction xs) auto
  assume r: "rests line ps ts"
  have "char_at line ps \<noteq> 0 \<and> strchr cs (char_at line ps) \<noteq> None \<longleftrightarrow> starts cs ts"
  proof (cases ts)
    case (Cons t ts')
    then have "t \<noteq> []" "hd t \<noteq> 0" using r tok_ok_hd by (auto simp: rests_def)
    then show ?thesis using Cons r by (cases t) (simp_all add: char_at_drop rests_def strchr del: not_None_eq)
  qed (use r in \<open>simp add: char_at_drop rests_def\<close>)
  then show ?thesis using rests_skip [OF r] by (simp add: peek_def Let_def)
qed

lemma gettoken_end: "rests line ps [] \<Longrightarrow> gettoken line ps = Ok (0, ps, ps) ps"
  using rests_skip [of line ps "[]"] by (simp add: gettoken_def rests_def char_at_drop)

lemma rests_Cons: "rests line ps (t # ts) \<Longrightarrow> rests line (ps + length t + 1) ts \<and> skip_ws line (ps + length t) = ps + length t + 1"
proof -
  assume r: "rests line ps (t # ts)"
  have d: "drop (ps + length t) line = 32 # toks_text ts"
    using r by (simp add: rests_def add.commute [of ps] flip: drop_drop)
  have d1: "drop (Suc (ps + length t)) line = toks_text ts"
    using arg_cong [OF d, of tl] by (simp add: drop_Suc tl_drop)
  then have next_ok: "rests line (ps + length t + 1) ts" using r by (simp add: rests_def)
  have "skip_ws line (ps + length t) = skip_ws line (ps + length t + 1)"
    using d d1 by (simp add: skip_ws_drop)
  then show ?thesis using next_ok rests_skip [OF next_ok] by simp
qed

lemma gettoken_rests:
  assumes r: "rests line ps (t # ts)"
  shows "gettoken line ps = Ok (tok_code t, ps, ps + length t) (ps + length t + 1)"
proof -
  have ok: "tok_ok t" and d: "drop ps line = t @ 32 # toks_text ts" using r by (auto simp: rests_def)
  have c: "skip_ws line ps = ps" "skip_ws line (ps + length t) = ps + length t + 1"
    using rests_skip [OF r] rests_Cons [OF r] by simp_all
  have h: "char_at line ps = hd t" "hd t \<noteq> 0" "t \<noteq> []"
    using d tok_ok_hd [OF ok] by (auto simp: char_at_drop split: list.splits) (cases t; simp)
  show ?thesis
  proof (cases "word_tok t")
    case True
    then have "is_word (hd t)" "skip_word line ps = ps + length t"
      using h(3) d by (auto simp: word_tok_def skip_word_drop takeWhile_append2)
    then show ?thesis using True c h is_word_not_sym [of "hd t"] by (simp add: gettoken_def Let_def tok_code_def)
  next
    case False
    then have s: "t \<in> set sym_toks" using ok by (simp add: tok_ok_def)
    have second: "char_at line (Suc ps) = (case tl t of [] \<Rightarrow> 32 | x # _ \<Rightarrow> x)"
      using d h(3) by (cases t; cases "tl t") (simp_all add: char_at_drop drop_Suc tl_drop [symmetric])
    show ?thesis
      using s
    proof (cases rule: sym_toks_cases)
      case (1 x)
      then show ?thesis using False c h second by (auto simp: gettoken_def Let_def tok_code_def bytes_of_def)
    next
      case 2
      then show ?thesis using False c h second by (auto simp: gettoken_def Let_def tok_code_def bytes_of_def)
    qed
  qed
qed

lemma span_word_rests: "rests line ps (t # ts) \<Longrightarrow> span_word line (ps, ps + length t) = t"
  by (simp add: rests_def span_word_def)

lemma rests_length: "rests line ps ts \<Longrightarrow> length line - ps = length (toks_text ts)"
  by (metis length_drop rests_def)

section \<open>Printing\<close>

text \<open>The three kinds of redirection that the parser knows, with the token for each.\<close>

definition redir_tok :: "u32 \<Rightarrow> int \<Rightarrow> u8 list" where
  "redir_tok mode fd =
     (if fd = 0 then bytes_of ''<'' else if mode AND O_TRUNC = 0 then bytes_of ''>>'' else bytes_of ''>'')"

definition redir_known :: "u32 \<Rightarrow> int \<Rightarrow> bool" where
  "redir_known mode fd \<longleftrightarrow>
     (mode, fd) \<in> {(O_RDONLY, 0), (O_WRONLY OR O_CREATE OR O_TRUNC, 1), (O_WRONLY OR O_CREATE, 1)}"

definition parens :: "bool \<Rightarrow> u8 list list \<Rightarrow> u8 list list" where
  "parens b ts = (if b then bytes_of ''('' # ts @ [bytes_of '')''] else ts)"

text \<open>The level is 0 where a line, 1 where a pipeline with ampersands, 2 where a pipeline and 3 where a simple command is due.\<close>

primrec print_cmd :: "nat \<Rightarrow> u8 list cmd \<Rightarrow> u8 list list" where
  "print_cmd n (ExecCmd ws) = ws"
| "print_cmd n (RedirCmd c f mode fd) = print_cmd 3 c @ [redir_tok mode fd, f]"
| "print_cmd n (PipeCmd l r) = parens (2 < n) (print_cmd 3 l @ bytes_of ''|'' # print_cmd 2 r)"
| "print_cmd n (ListCmd l r) = parens (0 < n) (print_cmd 1 l @ bytes_of '';'' # print_cmd 0 r)"
| "print_cmd n (BackCmd c) = parens (1 < n) (print_cmd 1 c @ [bytes_of ''&''])"

primrec printable :: "u8 list cmd \<Rightarrow> bool" where
  "printable (ExecCmd ws) \<longleftrightarrow> (\<forall>w \<in> set ws. word_tok w) \<and> length ws < MAXARGS"
| "printable (RedirCmd c f mode fd) \<longleftrightarrow> printable c \<and> word_tok f \<and> redir_known mode fd"
| "printable (PipeCmd l r) \<longleftrightarrow> printable l \<and> printable r"
| "printable (ListCmd l r) \<longleftrightarrow> printable l \<and> printable r"
| "printable (BackCmd c) \<longleftrightarrow> printable c"

definition cmd_line :: "u8 list cmd \<Rightarrow> u8 list" where
  "cmd_line c = toks_text (print_cmd 0 c)"

lemma sym_tok [simp]:
  "tok_ok (bytes_of ''('')" "tok_ok (bytes_of '')'')" "tok_ok (bytes_of ''|'')" "tok_ok (bytes_of '';'')"
  "tok_ok (bytes_of ''&'')" "tok_ok (redir_tok mode fd)"
  by (simp_all add: tok_ok_def sym_toks_def redir_tok_def)

lemma word_tok_ok: "word_tok t \<Longrightarrow> tok_ok t"
  by (simp add: tok_ok_def)

lemma print_cmd_ok: "printable c \<Longrightarrow> \<forall>t \<in> set (print_cmd n c). tok_ok t"
  by (induction c arbitrary: n) (auto simp: parens_def word_tok_ok)

section \<open>Reading it back\<close>

text \<open>The outcome \<open>r\<close> is the command \<open>c\<close>, and what is left of the line are the tokens \<open>post\<close>.\<close>

definition reads :: "u8 list \<Rightarrow> u8 list list \<Rightarrow> u8 list cmd \<Rightarrow> (nat, span cmd) result \<Rightarrow> bool" where
  "reads line post c r \<longleftrightarrow> (\<exists>c' s. r = Ok c' s \<and> rests line s post \<and> map_cmd (span_word line) c' = c)"

lemma reads_then:
  assumes "reads line post c r"
    and "\<And>c' s. rests line s post \<Longrightarrow> map_cmd (span_word line) c' = c \<Longrightarrow> reads line post' d (f c' s)"
  shows "reads line post' d (then_do r f)"
  using assms by (auto simp: reads_def)

definition redirs_text :: "(u8 list \<times> u32 \<times> int) list \<Rightarrow> u8 list list" where
  "redirs_text rs = concat (map (\<lambda>(f, mode, fd). [redir_tok mode fd, f]) rs)"

definition add_redirs :: "u8 list cmd \<Rightarrow> (u8 list \<times> u32 \<times> int) list \<Rightarrow> u8 list cmd" where
  "add_redirs c rs = foldl (\<lambda>c (f, mode, fd). RedirCmd c f mode fd) c rs"

lemma redirs_simps [simp]:
  "redirs_text [] = []" "redirs_text ((f, mode, fd) # rs) = redir_tok mode fd # f # redirs_text rs"
  "add_redirs c [] = c" "add_redirs c ((f, mode, fd) # rs) = add_redirs (RedirCmd c f mode fd) rs"
  by (simp_all add: redirs_text_def add_redirs_def)

definition redirs_known :: "(u8 list \<times> u32 \<times> int) list \<Rightarrow> bool" where
  "redirs_known rs \<longleftrightarrow> (\<forall>(f, mode, fd) \<in> set rs. word_tok f \<and> redir_known mode fd)"

lemma redir_of_known: "redir_known mode fd \<Longrightarrow> redir_of (tok_code (redir_tok mode fd)) c f = RedirCmd c f mode fd"
  by (auto simp: redir_known_def redir_of_def redir_tok_def tok_code_def word_tok_def is_word_def symbols_def bytes_of_def
      O_RDONLY_def O_WRONLY_def O_CREATE_def O_TRUNC_def)

lemma starts_redir [simp]: "hd (redir_tok mode fd) \<in> set (bytes_of ''<>'')"
  by (simp add: redir_tok_def bytes_of_def)

lemma word_tok_simps:
  assumes "word_tok t"
  shows "tok_code t = 97" "hd t \<notin> set (bytes_of ''|)&;'')" "hd t \<notin> set (bytes_of ''<>'')" "hd t \<notin> set (bytes_of ''('')"
proof -
  have "is_word (hd t)" using assms by (simp add: word_tok_def)
  then have "hd t \<notin> set (bytes_of ''|();&<'') \<and> hd t \<noteq> 62" using is_word_not_sym by blast
  then show "hd t \<notin> set (bytes_of ''|)&;'')" "hd t \<notin> set (bytes_of ''<>'')" "hd t \<notin> set (bytes_of ''('')"
    by (auto simp: bytes_of_def)
qed (use assms in \<open>simp add: tok_code_def\<close>)

lemma parseredirs_reads:
  "rests line ps (redirs_text rs @ post) \<Longrightarrow> redirs_known rs \<Longrightarrow> \<not> starts (bytes_of ''<>'') post \<Longrightarrow>
   reads line post (add_redirs (map_cmd (span_word line) c) rs) (parseredirs c line ps)"
proof (induction rs arbitrary: c ps)
  case Nil
  then show ?case using peek_rests by (subst parseredirs.simps) (simp add: reads_def)
next
  case (Cons x rs)
  obtain f mode fd where x: "x = (f, mode, fd)" by (cases x)
  have k: "word_tok f" "redir_known mode fd" "redirs_known rs" using Cons.prems(2) by (auto simp: x redirs_known_def)
  have r: "rests line ps (redir_tok mode fd # f # redirs_text rs @ post)" using Cons.prems(1) by (simp add: x)
  note r1 = rests_Cons [OF r, THEN conjunct1]
  note r2 = rests_Cons [OF r1, THEN conjunct1]
  have "reads line post (add_redirs (map_cmd (span_word line) (redir_of (tok_code (redir_tok mode fd)) c
      (ps + length (redir_tok mode fd) + 1, ps + length (redir_tok mode fd) + 1 + length f))) rs)
    (parseredirs (redir_of (tok_code (redir_tok mode fd)) c
      (ps + length (redir_tok mode fd) + 1, ps + length (redir_tok mode fd) + 1 + length f)) line
      (ps + length (redir_tok mode fd) + 1 + length f + 1))"
    by (rule Cons.IH [OF r2 k(3) Cons.prems(3)])
  then show ?case
    using k peek_rests [OF r] gettoken_rests [OF r] gettoken_rests [OF r1] span_word_rests [OF r1]
    by (subst parseredirs.simps) (simp add: x word_tok_simps redir_of_known)
qed

lemma map_add_arg [simp]: "map_cmd g (add_arg c w) = add_arg (map_cmd g c) (g w)"
  by (induction c) auto

lemma parse_args_reads:
  "rests line ps (ws @ redirs_text rs @ post) \<Longrightarrow> \<forall>w \<in> set ws. word_tok w \<Longrightarrow> redirs_known rs \<Longrightarrow>
   argc + length ws < MAXARGS \<Longrightarrow> ws = [] \<longrightarrow> rs = [] \<Longrightarrow> post \<noteq> [] \<longrightarrow> starts (bytes_of ''|)&;'') post \<Longrightarrow>
   reads line post (add_redirs (foldl add_arg (map_cmd (span_word line) c) ws) rs) (parse_args c argc line ps)"
proof (induction ws arbitrary: c argc ps rs)
  case Nil
  then show ?case
    using peek_rests gettoken_end
    by (subst parse_args.simps) (cases "post = []"; auto simp: reads_def)
next
  case (Cons w ws)
  have w: "word_tok w" using Cons.prems(2) by simp
  have r: "rests line ps (w # ws @ redirs_text rs @ post)" using Cons.prems(1) by simp
  note r1 = rests_Cons [OF r, THEN conjunct1]
  let ?c = "add_arg c (ps, ps + length w)" and ?here = "if ws = [] then rs else []" and ?later = "if ws = [] then [] else rs"
  have "\<not> starts (bytes_of ''<>'') (ws @ redirs_text ?later @ post)"
  proof (cases ws)
    case Nil
    then show ?thesis using Cons.prems(6) by (cases post) (auto simp: bytes_of_def)
  qed (use Cons.prems(2) word_tok_simps in auto)
  then have "reads line (ws @ redirs_text ?later @ post) (add_redirs (map_cmd (span_word line) ?c) ?here)
      (parseredirs ?c line (ps + length w + 1))"
    using r1 Cons.prems(3) by (intro parseredirs_reads) (auto simp: redirs_known_def)
  then have "reads line post (add_redirs (foldl add_arg (map_cmd (span_word line) c) (w # ws)) rs)
      (then_do (parseredirs ?c line (ps + length w + 1)) (\<lambda>ret s. parse_args ret (argc + 1) line s))"
  proof (rule reads_then)
    fix c' s
    assume "rests line s (ws @ redirs_text ?later @ post)" "map_cmd (span_word line) c' = add_redirs (map_cmd (span_word line) ?c) ?here"
    then show "reads line post (add_redirs (foldl add_arg (map_cmd (span_word line) c) (w # ws)) rs) (parse_args c' (argc + 1) line s)"
      using Cons.IH [of s ?later "argc + 1" c'] Cons.prems(2-6) span_word_rests [OF r]
      by (cases "ws = []") (simp_all add: redirs_known_def)
  qed
  then show ?case
    using peek_rests [OF r] gettoken_rests [OF r] word_tok_simps [OF w] Cons.prems(4) by (subst parse_args.simps) simp
qed

lemma foldl_add_arg: "foldl add_arg (ExecCmd us) ws = ExecCmd (us @ ws)"
  by (induction ws arbitrary: us) simp_all

lemma parseexec_simple:
  assumes r: "rests line ps (ws @ redirs_text rs @ post)" and ws: "\<forall>w \<in> set ws. word_tok w" "length ws < MAXARGS"
    and rs: "redirs_known rs" and post: "post \<noteq> [] \<longrightarrow> starts (bytes_of ''|)&;'') post"
  shows "reads line post (add_redirs (ExecCmd ws) rs) (parseexec (Suc d) line ps)"
proof -
  let ?here = "if ws = [] then rs else []" and ?later = "if ws = [] then [] else rs"
  have s: "\<not> starts (bytes_of ''('') (ws @ redirs_text rs @ post)" "\<not> starts (bytes_of ''<>'') (ws @ redirs_text ?later @ post)"
  proof -
    show "\<not> starts (bytes_of ''('') (ws @ redirs_text rs @ post)"
    proof (cases ws)
      case Nil
      then show ?thesis using post
        by (cases rs; cases post) (auto simp: bytes_of_def redir_tok_def split: if_splits)
    qed (use ws word_tok_simps in auto)
    show "\<not> starts (bytes_of ''<>'') (ws @ redirs_text ?later @ post)"
    proof (cases ws)
      case Nil
      then show ?thesis using post by (cases post) (auto simp: bytes_of_def)
    qed (use ws word_tok_simps in auto)
  qed
  have "reads line (ws @ redirs_text ?later @ post) (add_redirs (map_cmd (span_word line) (ExecCmd [])) ?here)
      (parseredirs (ExecCmd []) line ps)"
    using r rs s(2) by (intro parseredirs_reads) (auto simp: redirs_known_def)
  then have "reads line post (add_redirs (ExecCmd ws) rs)
      (then_do (parseredirs (ExecCmd []) line ps) (\<lambda>ret s. parse_args ret 0 line s))"
  proof (rule reads_then)
    fix c' s
    assume "rests line s (ws @ redirs_text ?later @ post)" "map_cmd (span_word line) c' = add_redirs (map_cmd (span_word line) (ExecCmd [])) ?here"
    then show "reads line post (add_redirs (ExecCmd ws) rs) (parse_args c' 0 line s)"
      using parse_args_reads [of line s ws ?later post 0 c'] ws rs post
      by (cases "ws = []") (simp_all add: redirs_known_def foldl_add_arg)
  qed
  then show ?thesis using peek_rests [OF r] s(1) by (simp add: parseexec.simps)
qed

text \<open>A command is its innermost part under a list of redirections.\<close>

primrec core :: "u8 list cmd \<Rightarrow> u8 list cmd" where
  "core (ExecCmd ws) = ExecCmd ws"
| "core (RedirCmd c f mode fd) = core c"
| "core (PipeCmd l r) = PipeCmd l r"
| "core (ListCmd l r) = ListCmd l r"
| "core (BackCmd c) = BackCmd c"

primrec redirs :: "u8 list cmd \<Rightarrow> (u8 list \<times> u32 \<times> int) list" where
  "redirs (ExecCmd ws) = []"
| "redirs (RedirCmd c f mode fd) = redirs c @ [(f, mode, fd)]"
| "redirs (PipeCmd l r) = []"
| "redirs (ListCmd l r) = []"
| "redirs (BackCmd c) = []"

lemma core_redirs:
  "add_redirs (core c) (redirs c) = c" "print_cmd 3 c = print_cmd 3 (core c) @ redirs_text (redirs c)"
  "printable c \<longleftrightarrow> printable (core c) \<and> redirs_known (redirs c)" "size (core c) + length (redirs c) \<le> size c"
  by (induction c) (auto simp: add_redirs_def redirs_text_def redirs_known_def)

section \<open>The round trip\<close>

text \<open>What each of the parsing routines reads, when the line goes on with the tokens that may follow.\<close>

definition reads_line :: "u8 list cmd \<Rightarrow> bool" where
  "reads_line c \<longleftrightarrow> (\<forall>line ps post d. rests line ps (print_cmd 0 c @ post) \<and> (post \<noteq> [] \<longrightarrow> starts (bytes_of '')'') post) \<and>
     4 * (length line - ps) + 4 \<le> d \<longrightarrow> reads line post c (parseline d line ps))"

definition reads_pipe :: "u8 list cmd \<Rightarrow> bool" where
  "reads_pipe c \<longleftrightarrow> (\<forall>line ps post d. rests line ps (print_cmd 2 c @ post) \<and> (post \<noteq> [] \<longrightarrow> starts (bytes_of '')&;'') post) \<and>
     4 * (length line - ps) + 3 \<le> d \<longrightarrow> reads line post c (parsepipe d line ps))"

definition reads_exec :: "u8 list cmd \<Rightarrow> bool" where
  "reads_exec c \<longleftrightarrow> (\<forall>line ps post d. rests line ps (print_cmd 3 c @ post) \<and> (post \<noteq> [] \<longrightarrow> starts (bytes_of ''|)&;'') post) \<and>
     4 * (length line - ps) + 2 \<le> d \<longrightarrow> reads line post c (parseexec d line ps))"

lemma starts_apart: "starts cs ts \<Longrightarrow> set cs \<inter> set ds = {} \<Longrightarrow> \<not> starts ds ts"
  by (auto simp: starts_def)

lemma toks_text_append [simp]: "toks_text (ts @ us) = toks_text ts @ toks_text us"
  by (simp add: toks_text_def)

lemma rests_shrink_Cons: "rests line ps (ts @ t # us) \<Longrightarrow> rests line s us \<Longrightarrow> length line - s < length line - ps"
  using rests_length [of line ps "ts @ t # us"] rests_length [of line s us] by simp

text \<open>A block in parentheses, with redirections behind it.\<close>

lemma parseexec_block:
  assumes c: "reads_line c" and rs: "redirs_known rs" and post: "post \<noteq> [] \<longrightarrow> starts (bytes_of ''|)&;'') post"
    and r: "rests line ps (bytes_of ''('' # print_cmd 0 c @ bytes_of '')'' # redirs_text rs @ post)"
    and d: "4 * (length line - ps) + 2 \<le> d"
  shows "reads line post (add_redirs c rs) (parseexec d line ps)"
proof -
  obtain d2 where d2: "d = Suc (Suc d2)" using d by (cases d; cases "d - 1") auto
  note r1 = rests_Cons [OF r, THEN conjunct1]
  let ?p = "ps + length (bytes_of ''('') + 1" and ?post = "bytes_of '')'' # redirs_text rs @ post"
  have "length line - ?p < length line - ps" using rests_length [OF r] rests_length [OF r1] by simp
  then have "4 * (length line - ?p) + 4 \<le> d2" using d d2 by linarith
  then have "reads line ?post c (parseline d2 line ?p)"
    using r1 by (intro c [unfolded reads_line_def, rule_format] conjI) (simp_all add: bytes_of_def)
  then have "reads line post (add_redirs c rs) (then_do (parseline d2 line ?p) (\<lambda>c s. then_do (peek line (bytes_of '')'') s) (\<lambda>b s.
        if \<not> b then Panic ''syntax - missing )'' else then_do (gettoken line s) (\<lambda>_ s. parseredirs c line s))))"
  proof (rule reads_then)
    fix c' s
    assume s: "rests line s ?post" and c': "map_cmd (span_word line) c' = c"
    have "\<not> starts (bytes_of ''<>'') post" using post starts_apart by (cases post) (auto simp: bytes_of_def)
    then have "reads line post (add_redirs c rs) (parseredirs c' line (s + length (bytes_of '')'') + 1))"
      using parseredirs_reads [OF rests_Cons [OF s, THEN conjunct1] rs, of c'] c' by simp
    then show "reads line post (add_redirs c rs) (then_do (peek line (bytes_of '')'') s) (\<lambda>b s.
        if \<not> b then Panic ''syntax - missing )'' else then_do (gettoken line s) (\<lambda>_ s. parseredirs c' line s)))"
      using peek_rests [OF s] gettoken_rests [OF s] by (simp add: bytes_of_def)
  qed
  then show ?thesis
    using peek_rests [OF r] gettoken_rests [OF r] d2 by (simp add: parseexec.simps parseblock.simps bytes_of_def)
qed

lemma print_core:
  "\<forall>ws. core c \<noteq> ExecCmd ws \<Longrightarrow> print_cmd 3 (core c) = bytes_of ''('' # print_cmd 0 (core c) @ [bytes_of '')'']"
  by (induction c) (simp_all add: parens_def)

lemma exec_from_core:
  assumes p: "printable c" and core: "\<And>b. size b \<le> size (core c) \<Longrightarrow> printable b \<Longrightarrow> b = core c \<Longrightarrow> (\<forall>ws. b \<noteq> ExecCmd ws) \<Longrightarrow> reads_line b"
  shows "reads_exec c"
  unfolding reads_exec_def
proof (intro allI impI, elim conjE)
  fix line ps post d
  assume r: "rests line ps (print_cmd 3 c @ post)" and post: "post \<noteq> [] \<longrightarrow> starts (bytes_of ''|)&;'') post" and d: "4 * (length line - ps) + 2 \<le> d"
  have k: "printable (core c)" "redirs_known (redirs c)" using p core_redirs(3) [of c] by simp_all
  obtain d' where d': "d = Suc d'" using d by (cases d) auto
  show "reads line post c (parseexec d line ps)"
  proof (cases "\<exists>ws. core c = ExecCmd ws")
    case True
    then obtain ws where ws: "core c = ExecCmd ws" by blast
    have "rests line ps (ws @ redirs_text (redirs c) @ post)" using r unfolding core_redirs(2) [of c] ws by simp
    then have "reads line post (add_redirs (ExecCmd ws) (redirs c)) (parseexec (Suc d') line ps)"
      using k(1) unfolding ws by (intro parseexec_simple k(2) post) simp_all
    then show ?thesis unfolding ws [symmetric] core_redirs(1) d' .
  next
    case False
    then have not_exec: "\<forall>ws. core c \<noteq> ExecCmd ws" by simp
    have line: "reads_line (core c)" by (rule core [OF order_refl k(1) refl not_exec])
    have "rests line ps (bytes_of ''('' # print_cmd 0 (core c) @ bytes_of '')'' # redirs_text (redirs c) @ post)"
      using r unfolding core_redirs(2) [of c] print_core [OF not_exec] by simp
    then have "reads line post (add_redirs (core c) (redirs c)) (parseexec d line ps)"
      by (rule parseexec_block [OF line k(2) post _ d])
    then show ?thesis unfolding core_redirs(1) .
  qed
qed

lemma pipe_from_exec:
  assumes c: "reads_exec c" and np: "print_cmd 2 c = print_cmd 3 c"
  shows "reads_pipe c"
  unfolding reads_pipe_def
proof (intro allI impI, elim conjE)
  fix line ps post d
  assume r: "rests line ps (print_cmd 2 c @ post)" and post: "post \<noteq> [] \<longrightarrow> starts (bytes_of '')&;'') post" and d: "4 * (length line - ps) + 3 \<le> d"
  obtain d' where d': "d = Suc d'" using d by (cases d) auto
  have wide: "post \<noteq> [] \<longrightarrow> starts (bytes_of ''|)&;'') post" and no_bar: "\<not> starts (bytes_of ''|'') post"
    using post by (cases post; auto simp: bytes_of_def)+
  have "reads line post c (parseexec d' line ps)"
    using r np wide d d' by (intro c [unfolded reads_exec_def, rule_format] conjI) simp_all
  then have "reads line post c (then_do (parseexec d' line ps) (\<lambda>c s. then_do (peek line (bytes_of ''|'') s) (\<lambda>b s.
      if b then then_do (gettoken line s) (\<lambda>_ s. then_do (parsepipe d' line s) (\<lambda>r s. Ok (PipeCmd c r) s)) else Ok c s)))"
    by (rule reads_then) (use no_bar in \<open>auto simp: peek_rests reads_def\<close>)
  then show "reads line post c (parsepipe d line ps)" unfolding d' parsepipe.simps .
qed

lemma pipe_from_parts:
  assumes l: "reads_exec l" and r: "reads_pipe r"
  shows "reads_pipe (PipeCmd l r)"
  unfolding reads_pipe_def
proof (intro allI impI, elim conjE)
  fix line ps post d
  assume rs: "rests line ps (print_cmd 2 (PipeCmd l r) @ post)" and post: "post \<noteq> [] \<longrightarrow> starts (bytes_of '')&;'') post"
    and d: "4 * (length line - ps) + 3 \<le> d"
  obtain d' where d': "d = Suc d'" using d by (cases d) auto
  let ?rest = "bytes_of ''|'' # print_cmd 2 r @ post"
  have rs': "rests line ps (print_cmd 3 l @ ?rest)" using rs by (simp add: parens_def)
  have "reads line ?rest l (parseexec d' line ps)"
    using rs' d d' by (intro l [unfolded reads_exec_def, rule_format] conjI) (simp_all add: bytes_of_def)
  then have "reads line post (PipeCmd l r) (then_do (parseexec d' line ps) (\<lambda>c s. then_do (peek line (bytes_of ''|'') s) (\<lambda>b s.
      if b then then_do (gettoken line s) (\<lambda>_ s. then_do (parsepipe d' line s) (\<lambda>r s. Ok (PipeCmd c r) s)) else Ok c s)))"
  proof (rule reads_then)
    fix c' s
    assume s: "rests line s ?rest" and c': "map_cmd (span_word line) c' = l"
    let ?s = "s + length (bytes_of ''|'') + 1"
    have s': "rests line ?s (print_cmd 2 r @ post)" using rests_Cons [OF s] by simp
    have "length line - ?s < length line - ps" using rests_shrink_Cons [OF rs' s'] .
    then have "reads line post r (parsepipe d' line ?s)"
      using s' post d d' by (intro r [unfolded reads_pipe_def, rule_format] conjI) simp_all
    then have "reads line post (PipeCmd l r) (then_do (parsepipe d' line ?s) (\<lambda>r s. Ok (PipeCmd c' r) s))"
      by (rule reads_then) (simp add: reads_def c')
    then show "reads line post (PipeCmd l r) (then_do (peek line (bytes_of ''|'') s) (\<lambda>b s.
      if b then then_do (gettoken line s) (\<lambda>_ s. then_do (parsepipe d' line s) (\<lambda>r s. Ok (PipeCmd c' r) s)) else Ok c' s))"
      using peek_rests [OF s] gettoken_rests [OF s] by (simp add: bytes_of_def)
  qed
  then show "reads line post (PipeCmd l r) (parsepipe d line ps)" unfolding d' parsepipe.simps .
qed

text \<open>The pipeline under the ampersands, and their number.\<close>

primrec fore :: "u8 list cmd \<Rightarrow> u8 list cmd" where
  "fore (ExecCmd ws) = ExecCmd ws"
| "fore (RedirCmd c f mode fd) = RedirCmd c f mode fd"
| "fore (PipeCmd l r) = PipeCmd l r"
| "fore (ListCmd l r) = ListCmd l r"
| "fore (BackCmd c) = fore c"

primrec backs :: "u8 list cmd \<Rightarrow> nat" where
  "backs (ExecCmd ws) = 0"
| "backs (RedirCmd c f mode fd) = 0"
| "backs (PipeCmd l r) = 0"
| "backs (ListCmd l r) = 0"
| "backs (BackCmd c) = Suc (backs c)"

lemma fore_backs:
  "(BackCmd ^^ backs c) (fore c) = c" "print_cmd 1 c = print_cmd 2 (fore c) @ replicate (backs c) (bytes_of ''&'')"
  "printable (fore c) = printable c" "size (fore c) \<le> size c"
  by (induction c) (auto simp: parens_def replicate_append_same)

lemma parse_backs_reads:
  "rests line ps (replicate k (bytes_of ''&'') @ post) \<Longrightarrow> \<not> starts (bytes_of ''&'') post \<Longrightarrow>
   reads line post ((BackCmd ^^ k) (map_cmd (span_word line) c)) (parse_backs c line ps)"
proof (induction k arbitrary: c ps)
  case 0
  then show ?case using peek_rests by (subst parse_backs.simps) (simp add: reads_def)
next
  case (Suc k)
  have r: "rests line ps (bytes_of ''&'' # replicate k (bytes_of ''&'') @ post)" using Suc.prems(1) by simp
  show ?case
    using Suc.IH [OF rests_Cons [OF r, THEN conjunct1] Suc.prems(2), of "BackCmd c"] peek_rests [OF r] gettoken_rests [OF r]
    by (subst parse_backs.simps) (simp add: funpow_swap1 bytes_of_def)
qed

lemma line_head:
  assumes c: "reads_pipe (fore c)" and r: "rests line ps (print_cmd 1 c @ post)"
    and post: "post \<noteq> [] \<longrightarrow> starts (bytes_of '');'') post" and d: "4 * (length line - ps) + 3 \<le> d"
  shows "reads line post c (then_do (parsepipe d line ps) (\<lambda>c s. parse_backs c line s))"
proof (rule reads_then)
  let ?post = "replicate (backs c) (bytes_of ''&'') @ post"
  have "?post \<noteq> [] \<longrightarrow> starts (bytes_of '')&;'') ?post"
    using post by (cases "backs c"; cases post) (auto simp: bytes_of_def)
  then show "reads line ?post (fore c) (parsepipe d line ps)"
    using r d fore_backs(2) [of c] by (intro c [unfolded reads_pipe_def, rule_format] conjI) simp_all
  fix c' s
  assume s: "rests line s ?post" and c': "map_cmd (span_word line) c' = fore c"
  have "\<not> starts (bytes_of ''&'') post" using post by (cases post) (auto simp: bytes_of_def)
  then show "reads line post c (parse_backs c' line s)"
    using parse_backs_reads [OF s, of c'] c' fore_backs(1) [of c] by simp
qed

lemma line_single:
  assumes c: "reads_pipe (fore c)" and nl: "print_cmd 0 c = print_cmd 1 c"
  shows "reads_line c"
  unfolding reads_line_def
proof (intro allI impI, elim conjE)
  fix line ps post d
  assume r: "rests line ps (print_cmd 0 c @ post)" and post: "post \<noteq> [] \<longrightarrow> starts (bytes_of '')'') post" and d: "4 * (length line - ps) + 4 \<le> d"
  obtain d' where d': "d = Suc d'" using d by (cases d) auto
  have wide: "post \<noteq> [] \<longrightarrow> starts (bytes_of '');'') post" and no_semi: "\<not> starts (bytes_of '';'') post"
    using post by (cases post; auto simp: bytes_of_def)+
  have "reads line post c (then_do (parsepipe d' line ps) (\<lambda>c s. parse_backs c line s))"
    using r d d' nl by (intro line_head c wide) simp_all
  then have "reads line post c (then_do (then_do (parsepipe d' line ps) (\<lambda>c s. parse_backs c line s)) (\<lambda>c s. then_do (peek line (bytes_of '';'') s) (\<lambda>b s.
      if b then then_do (gettoken line s) (\<lambda>_ s. then_do (parseline d' line s) (\<lambda>r s. Ok (ListCmd c r) s)) else Ok c s)))"
    by (rule reads_then) (use no_semi in \<open>auto simp: peek_rests reads_def\<close>)
  then show "reads line post c (parseline d line ps)" unfolding d' parseline.simps then_do_assoc .
qed

lemma line_list:
  assumes l: "reads_pipe (fore l)" and r: "reads_line r"
  shows "reads_line (ListCmd l r)"
  unfolding reads_line_def
proof (intro allI impI, elim conjE)
  fix line ps post d
  assume rs: "rests line ps (print_cmd 0 (ListCmd l r) @ post)" and post: "post \<noteq> [] \<longrightarrow> starts (bytes_of '')'') post"
    and d: "4 * (length line - ps) + 4 \<le> d"
  obtain d' where d': "d = Suc d'" using d by (cases d) auto
  let ?rest = "bytes_of '';'' # print_cmd 0 r @ post"
  have rs': "rests line ps (print_cmd 1 l @ ?rest)" using rs by (simp add: parens_def)
  have "reads line ?rest l (then_do (parsepipe d' line ps) (\<lambda>c s. parse_backs c line s))"
    using rs' d d' by (intro line_head l) (simp_all add: bytes_of_def)
  then have "reads line post (ListCmd l r) (then_do (then_do (parsepipe d' line ps) (\<lambda>c s. parse_backs c line s)) (\<lambda>c s. then_do (peek line (bytes_of '';'') s) (\<lambda>b s.
      if b then then_do (gettoken line s) (\<lambda>_ s. then_do (parseline d' line s) (\<lambda>r s. Ok (ListCmd c r) s)) else Ok c s)))"
  proof (rule reads_then)
    fix c' s
    assume s: "rests line s ?rest" and c': "map_cmd (span_word line) c' = l"
    let ?s = "s + length (bytes_of '';'') + 1"
    have s': "rests line ?s (print_cmd 0 r @ post)" using rests_Cons [OF s] by simp
    have "length line - ?s < length line - ps" using rests_shrink_Cons [OF rs' s'] .
    then have "reads line post r (parseline d' line ?s)"
      using s' post d d' by (intro r [unfolded reads_line_def, rule_format] conjI) simp_all
    then have "reads line post (ListCmd l r) (then_do (parseline d' line ?s) (\<lambda>r s. Ok (ListCmd c' r) s))"
      by (rule reads_then) (simp add: reads_def c')
    then show "reads line post (ListCmd l r) (then_do (peek line (bytes_of '';'') s) (\<lambda>b s.
      if b then then_do (gettoken line s) (\<lambda>_ s. then_do (parseline d' line s) (\<lambda>r s. Ok (ListCmd c' r) s)) else Ok c' s))"
      using peek_rests [OF s] gettoken_rests [OF s] by (simp add: bytes_of_def)
  qed
  then show "reads line post (ListCmd l r) (parseline d line ps)" unfolding d' parseline.simps then_do_assoc .
qed

lemma reads_all: "printable c \<Longrightarrow> reads_line c \<and> reads_pipe c \<and> reads_exec c"
proof (induction "size c" arbitrary: c rule: less_induct)
  case less
  have fore: "reads_pipe (fore b)" if "size b < size c" "printable b" for b
    using less(1) [of "fore b"] fore_backs(3,4) [of b] that by simp
  show ?case
  proof (cases c)
    case (ExecCmd ws)
    have x: "reads_exec c" by (rule exec_from_core [OF less(2)]) (use ExecCmd in simp)
    then have p: "reads_pipe c" by (rule pipe_from_exec) (use ExecCmd in simp)
    then have "reads_line c" using ExecCmd by (intro line_single) simp_all
    then show ?thesis using x p by simp
  next
    case (RedirCmd b f mode fd)
    have "size (core b) < size c" using core_redirs(4) [of b] RedirCmd by simp
    then have x: "reads_exec c" by (intro exec_from_core [OF less(2)]) (use less(1) RedirCmd in auto)
    then have p: "reads_pipe c" by (rule pipe_from_exec) (use RedirCmd in simp)
    then have "reads_line c" using RedirCmd by (intro line_single) simp_all
    then show ?thesis using x p by simp
  next
    case (PipeCmd l r)
    have p: "reads_pipe c" using less PipeCmd by (auto intro: pipe_from_parts)
    then have n: "reads_line c" using PipeCmd by (auto intro!: line_single simp: parens_def)
    then have "reads_exec c" by (intro exec_from_core [OF less(2)]) (use PipeCmd in simp)
    then show ?thesis using p n by simp
  next
    case (ListCmd l r)
    have n: "reads_line c" unfolding ListCmd by (rule line_list) (use less ListCmd fore in auto)
    then have x: "reads_exec c" by (intro exec_from_core [OF less(2)]) (use ListCmd in simp)
    then have "reads_pipe c" by (rule pipe_from_exec) (use ListCmd in \<open>simp add: parens_def\<close>)
    then show ?thesis using n x by simp
  next
    case (BackCmd b)
    have n: "reads_line c" by (rule line_single) (use less BackCmd fore [of b] in \<open>simp_all add: parens_def\<close>)
    then have x: "reads_exec c" by (intro exec_from_core [OF less(2)]) (use BackCmd in simp)
    then have "reads_pipe c" by (rule pipe_from_exec) (use BackCmd in \<open>simp add: parens_def\<close>)
    then show ?thesis using n x by simp
  qed
qed

lemma tok_ok_no_nul: "tok_ok t \<Longrightarrow> 0 \<notin> set t"
  by (auto simp: tok_ok_def word_tok_def sym_toks_def bytes_of_def)

lemma cmd_line_no_nul: "printable c \<Longrightarrow> 0 \<notin> set (cmd_line c)"
  using print_cmd_ok [of c 0] tok_ok_no_nul by (auto simp: cmd_line_def toks_text_def)

text \<open>
  C20: Printing a command and parsing the line gives the command back. For every command whose words are
  non-empty strings of word characters, with fewer than MAXARGS arguments each and redirections of the three
  kinds the shell knows, in any nesting, parsecmd() of the printed line returns exactly that command, with
  every word terminated in place, and makes no system call.
\<close>

theorem sh_print_parse:
  assumes "printable c"
  shows "parsecmd (cmd_line c) s = Ok c s"
proof -
  let ?l = "cmd_line c"
  have "rests ?l 0 (print_cmd 0 c @ [])" using print_cmd_ok [OF assms] by (simp add: rests_def cmd_line_def)
  then have "reads ?l [] c (parseline (parse_depth ?l) ?l 0)"
    using reads_all [OF assms] by (simp add: reads_line_def parse_depth_def)
  then obtain c' t where p: "parseline (parse_depth ?l) ?l 0 = Ok c' t" "rests ?l t []" "map_cmd (span_word ?l) c' = c"
    by (auto simp: reads_def)
  then have a: "parse_all ?l = Ok c' t" using peek_rests by (simp add: parse_all_def)
  then have "t = length ?l" using p(2) parse_all_parsed [of ?l] by (simp add: rests_def)
  then show ?thesis using a p(3) parse_all_strings [OF cmd_line_no_nul [OF assms] a] by (simp add: parsecmd_def)
qed

text \<open>The command \<^verbatim>\<open>(a ; b &) > f | c\<close>, whose list needs the parentheses.\<close>

theorem sh_print_parse_witness:
  "parsecmd (bytes_of ''( a ; b & ) > f | c '') \<lparr>replies = [], calls = []\<rparr> =
     Ok (PipeCmd (RedirCmd (ListCmd (ExecCmd [bytes_of ''a'']) (BackCmd (ExecCmd [bytes_of ''b''])))
           (bytes_of ''f'') (O_WRONLY OR O_CREATE OR O_TRUNC) 1) (ExecCmd [bytes_of ''c'']))
       \<lparr>replies = [], calls = []\<rparr>"
proof -
  let ?c = "PipeCmd (RedirCmd (ListCmd (ExecCmd [bytes_of ''a'']) (BackCmd (ExecCmd [bytes_of ''b''])))
           (bytes_of ''f'') (O_WRONLY OR O_CREATE OR O_TRUNC) 1) (ExecCmd [bytes_of ''c''])"
  have "printable ?c"
    by (simp add: word_tok_def bytes_of_def is_word_def is_ws_def whitespace_def symbols_def MAXARGS_def redir_known_def)
  moreover have "cmd_line ?c = bytes_of ''( a ; b & ) > f | c ''"
    by (simp add: cmd_line_def parens_def redir_tok_def bytes_of_def O_WRONLY_def O_CREATE_def O_TRUNC_def)
  ultimately show ?thesis using sh_print_parse [of ?c] by metis
qed

end
