(* ===== verification/Grind.thy ===== *)
theory Grind
  imports Uprintf Sysfile
begin

text \<open>
  user/grind.c, which makes random system calls in parallel for ever: the random number generator, one round of
  go() for each of its 23 actions, and the two endless loops. The loops take the number of their rounds; \<open>Hang\<close> is
  a run that goes on after them.
\<close>

section \<open>Random numbers\<close>

text \<open>\<open>x\<close>, \<open>hi\<close> and \<open>lo\<close> are longs; the result is the int that is returned and the new context.\<close>

definition do_rand :: "u64 \<Rightarrow> u32 \<times> u64" where
  "do_rand ctx =
     (let x = ctx mod 0x7ffffffe + 1;
          hi = x div 127773;
          lo = x mod 127773;
          x = 16807 * lo - 2836 * hi;
          x = (if x <s 0 then x + 0x7fffffff else x);
          x = x - 1
      in (ucast x, x))"

definition rand :: "u64 \<Rightarrow> u32 \<times> u64" where
  "rand rand_next = do_rand rand_next"

section \<open>The actions\<close>

abbreviation nl :: string where "nl \<equiv> [CHR 0x0A]"

definition u_create :: "string \<Rightarrow> ucall" where
  "u_create p = UOpen (bytes_of p) (O_CREATE OR O_RDWR)"

text \<open>\<^verbatim>\<open>close(open(p, O_CREATE|O_RDWR))\<close>\<close>

definition touch :: "string \<Rightarrow> 'z uenv_scheme \<Rightarrow> ('z, unit) uresult" where
  "touch p s = then_do (usys_int (u_create p) s) (\<lambda>fd s. u_call (UClose fd) s)"

definition u_unlink :: "string \<Rightarrow> ucall" where "u_unlink p = UUnlink (bytes_of p)"

definition grind_fail :: "string \<Rightarrow> 'z uenv_scheme \<Rightarrow> ('z, 'a) uresult" where
  "grind_fail msg s = then_do (u_printf (''grind: '' @ msg @ nl) [] s) (\<lambda>_ s. u_exit 1 s)"

text \<open>fork(), with the code of the child, which ends in exit(), and the message when it fails.\<close>

definition grind_fork :: "('z uenv_scheme \<Rightarrow> ('z, int) uresult) \<Rightarrow> 'z uenv_scheme \<Rightarrow> ('z, int) uresult" where
  "grind_fork child s =
     then_do (usys_int UFork s) (\<lambda>pid s.
       if pid = 0 then child s else if pid < 0 then grind_fail ''fork failed'' s else Ok pid s)"

record grind_vars =
  g_fd :: int
  g_buf :: "u8 list"                     \<comment> \<open>static char buf[999]\<close>

definition go_pipe :: "'z uenv_scheme \<Rightarrow> ('z, unit) uresult" where
  "go_pipe s =
     then_do (u_pipe s) (\<lambda>p s. case p of
       None \<Rightarrow> grind_fail ''pipe failed'' s
     | Some (fd0, fd1) \<Rightarrow>
         then_do (grind_fork (\<lambda>s.
           then_do (u_calls [UFork, UFork] s) (\<lambda>_ s.
           then_do (u_write fd1 (bytes_of ''x'') s) (\<lambda>r s.
           then_do (if r \<noteq> 1 then u_printf (''grind: pipe write failed'' @ nl) [] s else Ok () s) (\<lambda>_ s.
           then_do (u_read fd0 1 s) (\<lambda>(n, bs) s.
           then_do (if n \<noteq> 1 then u_printf (''grind: pipe read failed'' @ nl) [] s else Ok () s) (\<lambda>_ s.
           u_exit 0 s)))))) s) (\<lambda>_ s.
         u_calls [UClose fd0, UClose fd1, UWait] s))"

definition go_stat :: "'z uenv_scheme \<Rightarrow> ('z, unit) uresult" where
  "go_stat s =
     then_do (u_call (u_unlink ''c'') s) (\<lambda>_ s.
     then_do (usys_int (u_create ''c'') s) (\<lambda>fd1 s.
       if fd1 < 0 then grind_fail ''create c failed'' s
       else
         then_do (u_write fd1 (bytes_of ''x'') s) (\<lambda>r s.
         if r \<noteq> 1 then grind_fail ''write c failed'' s
         else
           then_do (u_fstat fd1 s) (\<lambda>st s. case st of
             None \<Rightarrow> grind_fail ''fstat failed'' s
           | Some st \<Rightarrow>
               if us_size st \<noteq> 1 then
                 then_do (u_printf (''grind: fstat reports wrong size %d'' @ nl) [pint (ucast (us_size st))] s) (\<lambda>_ s. u_exit 1 s)
               else if us_ino st > 200 then
                 then_do (u_printf (''grind: fstat reports crazy i-number %d'' @ nl) [pint (us_ino st)] s) (\<lambda>_ s. u_exit 1 s)
               else u_calls [UClose fd1, u_unlink ''c''] s))))"

text \<open>\<^verbatim>\<open>echo hi | cat\<close>, with every exit status of the children's code.\<close>

definition go_pipeline_fail :: "string \<Rightarrow> int \<Rightarrow> 'z uenv_scheme \<Rightarrow> ('z, 'a) uresult" where
  "go_pipeline_fail msg status s = then_do (u_fprintf 2 (''grind: '' @ msg @ nl) [] s) (\<lambda>_ s. u_exit status s)"

definition go_echo :: "int \<times> int \<Rightarrow> int \<times> int \<Rightarrow> 'z uenv_scheme \<Rightarrow> ('z, 'a) uresult" where
  "go_echo aa bb s =
     then_do (u_calls [UClose (fst bb), UClose (snd bb), UClose (fst aa), UClose 1] s) (\<lambda>_ s.
     then_do (usys_int (UDup (snd aa)) s) (\<lambda>r s.
       if r \<noteq> 1 then go_pipeline_fail ''dup failed'' 1 s
       else
         then_do (u_calls [UClose (snd aa), UExec (bytes_of ''grindir/../echo'') [bytes_of ''echo'', bytes_of ''hi'']] s) (\<lambda>_ s.
         go_pipeline_fail ''echo: not found'' 2 s)))"

definition go_cat :: "int \<times> int \<Rightarrow> int \<times> int \<Rightarrow> 'z uenv_scheme \<Rightarrow> ('z, 'a) uresult" where
  "go_cat aa bb s =
     then_do (u_calls [UClose (snd aa), UClose (fst bb), UClose 0] s) (\<lambda>_ s.
     then_do (usys_int (UDup (fst aa)) s) (\<lambda>r s.
       if r \<noteq> 0 then go_pipeline_fail ''dup failed'' 4 s
       else
         then_do (u_calls [UClose (fst aa), UClose 1] s) (\<lambda>_ s.
         then_do (usys_int (UDup (snd bb)) s) (\<lambda>r s.
           if r \<noteq> 1 then go_pipeline_fail ''dup failed'' 5 s
           else
             then_do (u_calls [UClose (snd bb), UExec (bytes_of ''/cat'') [bytes_of ''cat'']] s) (\<lambda>_ s.
             go_pipeline_fail ''cat: not found'' 6 s)))))"

text \<open>A read of one byte into a zeroed buffer: the byte, or the zero that was there.\<close>

definition read_byte :: "int \<Rightarrow> 'z uenv_scheme \<Rightarrow> ('z, u8) uresult" where
  "read_byte fd s = then_do (u_read fd 1 s) (\<lambda>x s. Ok (case snd x of [] \<Rightarrow> 0 | b # _ \<Rightarrow> b) s)"

definition go_check :: "int option \<Rightarrow> int option \<Rightarrow> u8 list \<Rightarrow> 'z uenv_scheme \<Rightarrow> ('z, unit) uresult" where
  "go_check st1 st2 buf s =
     (case (st1, st2) of
        (Some a, Some b) \<Rightarrow>
          if a \<noteq> 0 \<or> b \<noteq> 0 \<or> buf \<noteq> bytes_of ''hi'' @ [newline] then
            then_do (u_printf (''grind: exec pipeline failed %d %d \"%s\"'' @ nl)
              [pint (of_int a), pint (of_int b), pstr (takeWhile (\<lambda>c. c \<noteq> 0) buf)] s) (\<lambda>_ s. u_exit 1 s)
          else Ok () s
      | _ \<Rightarrow> Panic ''uninitialised'')"

definition go_pipeline :: "'z uenv_scheme \<Rightarrow> ('z, unit) uresult" where
  "go_pipeline s =
     then_do (u_pipe s) (\<lambda>a s. case a of None \<Rightarrow> go_pipeline_fail ''pipe failed'' 1 s | Some aa \<Rightarrow>
     then_do (u_pipe s) (\<lambda>b s. case b of None \<Rightarrow> go_pipeline_fail ''pipe failed'' 1 s | Some bb \<Rightarrow>
     then_do (usys_int UFork s) (\<lambda>pid1 s.
       if pid1 = 0 then go_echo aa bb s
       else if pid1 < 0 then go_pipeline_fail ''fork failed'' 3 s
       else
         then_do (usys_int UFork s) (\<lambda>pid2 s.
           if pid2 = 0 then go_cat aa bb s
           else if pid2 < 0 then go_pipeline_fail ''fork failed'' 7 s
           else
             then_do (u_calls [UClose (fst aa), UClose (snd aa), UClose (snd bb)] s) (\<lambda>_ s.
             then_do (read_byte (fst bb) s) (\<lambda>b0 s.
             then_do (read_byte (fst bb) s) (\<lambda>b1 s.
             then_do (read_byte (fst bb) s) (\<lambda>b2 s.
             then_do (u_call (UClose (fst bb)) s) (\<lambda>_ s.
             then_do (u_wait s) (\<lambda>w1 s.
             then_do (u_wait s) (\<lambda>w2 s.
             go_check (snd w1) (snd w2) [b0, b1, b2] s)))))))))))"

definition go_shrink :: "int \<Rightarrow> 'z uenv_scheme \<Rightarrow> ('z, unit) uresult" where
  "go_shrink break0 s =
     then_do (usys_int (USbrk 0) s) (\<lambda>b s.
       if b > break0 then then_do (usys_int (USbrk 0) s) (\<lambda>b s. u_call (USbrk (of_int (- (b - break0)))) s) else Ok () s)"

definition go_reopen :: "grind_vars \<Rightarrow> string \<Rightarrow> 'z uenv_scheme \<Rightarrow> ('z, grind_vars) uresult" where
  "go_reopen v p s =
     then_do (u_call (UClose (g_fd v)) s) (\<lambda>_ s.
     then_do (usys_int (u_create p) s) (\<lambda>fd s. Ok (v\<lparr>g_fd := fd\<rparr>) s))"

text \<open>The actions that do not touch the variables of go().\<close>

definition go_action :: "int \<Rightarrow> int \<Rightarrow> 'z uenv_scheme \<Rightarrow> ('z, unit) uresult" where
  "go_action what break0 s =
     (if what = 1 then touch ''grindir/../a'' s
      else if what = 2 then touch ''grindir/../grindir/../b'' s
      else if what = 3 then u_call (u_unlink ''grindir/../a'') s
      else if what = 4 then
        then_do (usys_int (UChdir (bytes_of ''grindir'')) s) (\<lambda>r s.
          if r \<noteq> 0 then grind_fail ''chdir grindir failed'' s
          else u_calls [u_unlink ''../b'', UChdir (bytes_of ''/'')] s)
      else if what = 9 then
        then_do (u_call (UMkdir (bytes_of ''grindir/../a'')) s) (\<lambda>_ s.
        then_do (touch ''a/../a/./a'' s) (\<lambda>_ s. u_call (u_unlink ''a/a'') s))
      else if what = 10 then
        then_do (u_call (UMkdir (bytes_of ''/../b'')) s) (\<lambda>_ s.
        then_do (touch ''grindir/../b/b'' s) (\<lambda>_ s. u_call (u_unlink ''b/b'') s))
      else if what = 11 then u_calls [u_unlink ''b'', ULink (bytes_of ''../grindir/./../a'') (bytes_of ''../b'')] s
      else if what = 12 then u_calls [u_unlink ''../grindir/../a'', ULink (bytes_of ''.././b'') (bytes_of ''/grindir/../a'')] s
      else if what = 13 then then_do (grind_fork (u_exit 0) s) (\<lambda>_ s. u_call UWait s)
      else if what = 14 then
        then_do (grind_fork (\<lambda>s. then_do (u_calls [UFork, UFork] s) (\<lambda>_ s. u_exit 0 s)) s) (\<lambda>_ s. u_call UWait s)
      else if what = 15 then u_call (USbrk 6011) s
      else if what = 16 then go_shrink break0 s
      else if what = 17 then
        then_do (grind_fork (\<lambda>s. then_do (touch ''a'' s) (\<lambda>_ s. u_exit 0 s)) s) (\<lambda>pid s.
        then_do (usys_int (UChdir (bytes_of ''../grindir/..'')) s) (\<lambda>r s.
          if r \<noteq> 0 then grind_fail ''chdir failed'' s else u_calls [UKill (of_int pid), UWait] s))
      else if what = 18 then
        then_do (grind_fork (\<lambda>s. then_do (usys_int UGetpid s) (\<lambda>me s.
          then_do (u_call (UKill (of_int me)) s) (\<lambda>_ s. u_exit 0 s))) s) (\<lambda>_ s. u_call UWait s)
      else if what = 19 then go_pipe s
      else if what = 20 then
        then_do (grind_fork (\<lambda>s. then_do (u_calls [u_unlink ''a'', UMkdir (bytes_of ''a''), UChdir (bytes_of ''a''),
          u_unlink ''../a'', u_create ''x'', u_unlink ''x''] s) (\<lambda>_ s. u_exit 0 s)) s) (\<lambda>_ s. u_call UWait s)
      else if what = 21 then go_stat s
      else if what = 22 then go_pipeline s
      else Ok () s)"

definition go_vars :: "int \<Rightarrow> int \<Rightarrow> grind_vars \<Rightarrow> 'z uenv_scheme \<Rightarrow> ('z, grind_vars) uresult" where
  "go_vars what break0 v s =
     (if what = 5 then go_reopen v ''/grindir/../a'' s
      else if what = 6 then go_reopen v ''/./grindir/./../b'' s
      else if what = 7 then then_do (u_write (g_fd v) (g_buf v) s) (\<lambda>_ s. Ok v s)
      else if what = 8 then
        then_do (u_read (g_fd v) 999 s) (\<lambda>x s. Ok (v\<lparr>g_buf := snd x @ drop (length (snd x)) (g_buf v)\<rparr>) s)
      else then_do (go_action what break0 s) (\<lambda>_ s. Ok v s))"

text \<open>\<^verbatim>\<open>rand() % 23\<close> rounds towards zero.\<close>

definition pick :: "u32 \<Rightarrow> int" where
  "pick r = (if sint r < 0 then - ((- sint r) mod 23) else sint r mod 23)"

primrec go_loop :: "nat \<Rightarrow> bool \<Rightarrow> int \<Rightarrow> u64 \<Rightarrow> u64 \<Rightarrow> grind_vars \<Rightarrow> 'z uenv_scheme \<Rightarrow> ('z, unit) uresult" where
  "go_loop 0 which_child break0 iters rand_next v s = Hang"
| "go_loop (Suc n) which_child break0 iters rand_next v s =
     (let iters = iters + 1 in
      then_do (if iters mod 500 = 0 then u_write 1 (bytes_of (if which_child then ''B'' else ''A'')) s else Ok 0 s) (\<lambda>_ s.
      let (r, rand_next) = rand rand_next in
      then_do (go_vars (pick r) break0 v s) (\<lambda>v s. go_loop n which_child break0 iters rand_next v s)))"

definition go :: "nat \<Rightarrow> bool \<Rightarrow> u64 \<Rightarrow> 'z uenv_scheme \<Rightarrow> ('z, unit) uresult" where
  "go n which_child rand_next s =
     then_do (usys_int (USbrk 0) s) (\<lambda>break0 s.
     then_do (u_call (UMkdir (bytes_of ''grindir'')) s) (\<lambda>_ s.
     then_do (usys_int (UChdir (bytes_of ''grindir'')) s) (\<lambda>r s.
       if r \<noteq> 0 then grind_fail ''chdir grindir failed'' s
       else
         then_do (u_call (UChdir (bytes_of ''/'')) s) (\<lambda>_ s.
         go_loop n which_child break0 0 rand_next \<lparr>g_fd = -1, g_buf = replicate 999 0\<rparr> s))))"

definition iter :: "nat \<Rightarrow> u64 \<Rightarrow> 'z uenv_scheme \<Rightarrow> ('z, unit) uresult" where
  "iter n rand_next s =
     then_do (u_calls [u_unlink ''a'', u_unlink ''b''] s) (\<lambda>_ s.
     then_do (usys_int UFork s) (\<lambda>pid1 s.
       if pid1 < 0 then grind_fail ''fork failed'' s
       else if pid1 = 0 then then_do (go n False (rand_next XOR 31) s) (\<lambda>_ s. u_exit 0 s)
       else
         then_do (usys_int UFork s) (\<lambda>pid2 s.
           if pid2 < 0 then grind_fail ''fork failed'' s
           else if pid2 = 0 then then_do (go n True (rand_next XOR 7177) s) (\<lambda>_ s. u_exit 0 s)
           else
             then_do (u_wait s) (\<lambda>w s.
             then_do (if snd w \<noteq> Some 0 then u_calls [UKill (of_int pid1), UKill (of_int pid2)] s else Ok () s) (\<lambda>_ s.
             then_do (u_wait s) (\<lambda>_ s. u_exit 0 s))))))"

primrec grind_main :: "nat \<Rightarrow> nat \<Rightarrow> u64 \<Rightarrow> 'z uenv_scheme \<Rightarrow> ('z, unit) uresult" where
  "grind_main 0 n rand_next s = Hang"
| "grind_main (Suc k) n rand_next s =
     then_do (usys_int UFork s) (\<lambda>pid s.
     then_do (if pid = 0 then then_do (iter n rand_next s) (\<lambda>_ s. u_exit 0 s)
              else if pid > 0 then u_call UWait s else Ok () s) (\<lambda>_ s.
     then_do (u_call (USleep 20) s) (\<lambda>_ s. grind_main k n (rand_next + 1) s)))"

section \<open>The generator\<close>

text \<open>Schrage's method: the two halves of the state give the product modulo 2 ^ 31 - 1 without a large product.\<close>

lemma schrage:
  fixes x :: int
  assumes x: "0 < x" "x < 2147483647"
  defines "v \<equiv> 16807 * (x mod 127773) - 2836 * (x div 127773)"
  shows "(16807 * x) mod 2147483647 = (if v < 0 then v + 2147483647 else v)"
    and "v \<noteq> 0" and "- 2147483647 < v" and "v < 2147483647"
proof -
  have "x = 127773 * (x div 127773) + x mod 127773" by simp
  then have eq: "16807 * x = v + 2147483647 * (x div 127773)" unfolding v_def by linarith
  have "x div 127773 \<le> 2147483647 div 127773" using x by (intro zdiv_mono1) simp_all
  then have "x div 127773 \<le> 16807" by simp
  moreover have "0 \<le> x mod 127773" "x mod 127773 < 127773" "0 \<le> x div 127773" using x by simp_all
  ultimately show b: "- 2147483647 < v" "v < 2147483647" unfolding v_def by linarith+
  have "(16807 * x) mod 2147483647 = v mod 2147483647" unfolding eq by simp
  also have "\<dots> = (if v < 0 then v + 2147483647 else v)"
    using b mod_add_self2 [of v 2147483647] by (cases "v < 0") (simp_all add: mod_pos_pos_trivial del: mod_add_self2)
  finally show "(16807 * x) mod 2147483647 = (if v < 0 then v + 2147483647 else v)" .
  show "v \<noteq> 0"
  proof
    assume "v = 0"
    then have "16807 * x = 2147483647 * (x div 127773)" using eq by simp
    then have "x = 2147483647 * (5790 * x - 739806647 * (x div 127773))" by (simp add: algebra_simps)
    then have "2147483647 dvd x" by (metis dvd_triv_left)
    then show False using x zdvd_not_zless by blast
  qed
qed

text \<open>
  C31: do_rand() computes the generator of Park and Miller. Its result plus one is 7^5 times the state plus one
  (both reduced to the range 1 to 2^31 - 2), modulo 2^31 - 1; no intermediate value overflows, the int that is
  returned is the new state, and it lies between 0 and 2^31 - 3 for every context.
\<close>

theorem do_rand_park_miller:
  "unat (snd (do_rand ctx)) + 1 = 7 ^ 5 * (unat ctx mod (2 ^ 31 - 2) + 1) mod (2 ^ 31 - 1) \<and>
   sint (fst (do_rand ctx)) = int (unat (snd (do_rand ctx))) \<and> unat (snd (do_rand ctx)) \<le> 2 ^ 31 - 3"
proof -
  define x where "x = uint ctx mod 2147483646 + 1"
  define v where "v = 16807 * (x mod 127773) - 2836 * (x div 127773)"
  have x: "0 < x" "x < 2147483647" unfolding x_def using pos_mod_bound [of 2147483646 "uint ctx"] by simp_all
  note s = schrage [OF x, folded v_def]
  have u: "uint (word_of_int k :: u64) = k" "sint (word_of_int k :: u32) = k" if "0 \<le> k" "k < 2147483647" for k
    using that by (simp_all add: uint_word_of_int_eq take_bit_int_eq_self signed_of_int signed_take_bit_int_eq_self)
  have sg: "sint (word_of_int v :: u64) = v"
    using s(3,4) by (simp add: signed_of_int signed_take_bit_int_eq_self)
  have w: "ctx mod 0x7ffffffe + 1 = word_of_int x" by (simp add: x_def word_mod_def)
  have d: "(word_of_int x :: u64) div 127773 = word_of_int (x div 127773)" "(word_of_int x :: u64) mod 127773 = word_of_int (x mod 127773)"
    using x by (simp_all add: word_div_def word_mod_def u)
  have p: "16807 * word_of_int (x mod 127773) - 2836 * word_of_int (x div 127773) = (word_of_int v :: u64)"
    by (simp add: v_def)
  define z where "z = (if v < 0 then v + 2147483647 else v) - 1"
  have z: "0 \<le> z" "z < 2147483646" using s(2-4) by (auto simp: z_def)
  have r: "snd (do_rand ctx) = word_of_int z" "fst (do_rand ctx) = ucast (snd (do_rand ctx))"
    using sg by (simp_all add: do_rand_def Let_def w d p z_def word_sless_alt)
  have us: "uint (snd (do_rand ctx)) = z" unfolding r using z by (intro u(1)) simp_all
  then have "fst (do_rand ctx) = (word_of_int z :: u32)" unfolding r(2) by (metis of_int_uint)
  then have sf: "sint (fst (do_rand ctx)) = z" using u(2) z by simp
  have "z + 1 = 16807 * x mod 2147483647" using s(1) by (simp add: z_def)
  then have "int (unat (snd (do_rand ctx)) + 1) = int (16807 * (unat ctx mod 2147483646 + 1) mod 2147483647)"
    using us by (simp add: x_def zmod_int add.commute del: of_nat_unat flip: uint_nat)
  then have "unat (snd (do_rand ctx)) + 1 = 16807 * (unat ctx mod 2147483646 + 1) mod 2147483647" by (simp only: of_nat_eq_iff)
  moreover have "int (unat (snd (do_rand ctx))) \<le> int 2147483645" using us z by simp
  ultimately show ?thesis using sf us by simp
qed

end
