(* ===== verification/Mkfs.thy ===== *)
theory Mkfs
  imports Fs_Dir
begin

text \<open>
  mkfs/mkfs.c, the program of the build host that writes the initial file system image: the list of its sectors,
  the next free inode and block, and what main() makes of the files named on its command line. The image has
  the layout of the original xv6 file system (struct superblock, struct dinode, struct dirent), not that of ext2.

  \<open>Panic\<close> is a failed assertion and \<open>Exits\<close> the exit of die(). The host is little-endian; the messages are left out.
\<close>

section \<open>Layout\<close>

definition NINODES :: nat where "NINODES = 200"
definition FSSIZE :: nat where "FSSIZE = 2000"
definition BPB :: nat where "BPB = BSIZE * 8"
definition DINODE_SIZE :: nat where "DINODE_SIZE = 64"
definition IPB :: nat where "IPB = BSIZE div DINODE_SIZE"
definition NDIRECT :: nat where "NDIRECT = 12"
definition NINDIRECT :: nat where "NINDIRECT = BSIZE div 4"
definition MAXFILE :: nat where "MAXFILE = NDIRECT + NINDIRECT"
definition FSMAGIC :: u32 where "FSMAGIC = 0x10203040"
definition ROOTINO :: u32 where "ROOTINO = 1"

definition nbitmap :: nat where "nbitmap = FSSIZE div BPB + 1"
definition ninodeblocks :: nat where "ninodeblocks = NINODES div IPB + 1"
definition nlog :: nat where "nlog = LOGSIZE"
definition nmeta :: nat where "nmeta = 2 + nlog + ninodeblocks + nbitmap"
definition nblocks :: nat where "nblocks = FSSIZE - nmeta"

record superblock =
  sb_magic :: u32
  sb_size :: u32
  sb_nblocks :: u32
  sb_ninodes :: u32
  sb_nlog :: u32
  sb_logstart :: u32
  sb_inodestart :: u32
  sb_bmapstart :: u32

definition sb_bytes :: "superblock \<Rightarrow> u8 list" where
  "sb_bytes b =
     concat (map (le_bytes 4) [sb_magic b, sb_size b, sb_nblocks b, sb_ninodes b, sb_nlog b, sb_logstart b, sb_inodestart b, sb_bmapstart b])"

record dinode =
  di_type :: u16
  di_major :: u16
  di_minor :: u16
  di_nlink :: u16
  di_size :: u32
  di_addrs :: "u32 list"

definition dinode_bytes :: "dinode \<Rightarrow> u8 list" where
  "dinode_bytes d =
     concat (map (le_bytes 2) [di_type d, di_major d, di_minor d, di_nlink d]) @ le_bytes 4 (di_size d) @ concat (map (le_bytes 4) (di_addrs d))"

definition dinode_at :: "u8 list \<Rightarrow> nat \<Rightarrow> dinode" where
  "dinode_at bs off =
     \<lparr>di_type = half_at bs off, di_major = half_at bs (off + 2), di_minor = half_at bs (off + 4), di_nlink = half_at bs (off + 6),
      di_size = word_at bs (off + 8), di_addrs = map (\<lambda>i. word_at bs (off + 12 + 4 * i)) [0..<NDIRECT + 1]\<rparr>"

text \<open>xshort() and xint() store a number byte by byte and read it back in the byte order of the host.\<close>

definition xshort :: "u16 \<Rightarrow> u16" where "xshort x = le_word [ucast x, ucast (drop_bit 8 x)]"

definition xint :: "u32 \<Rightarrow> u32" where
  "xint x = le_word [ucast x, ucast (drop_bit 8 x), ucast (drop_bit 16 x), ucast (drop_bit 24 x)]"

section \<open>Sectors and inodes\<close>

record mkfs =
  img :: "u8 list list"
  freeinode :: u32
  freeblock :: u32
  mk_sb :: superblock

definition zeroes :: "u8 list" where "zeroes = replicate BSIZE 0"

text \<open>The offset is a product of uints; a write past the end of the file fills the gap with zeroes.\<close>

definition sector :: "u32 \<Rightarrow> nat" where "sector sec = unat (sec * of_nat BSIZE) div BSIZE"

definition wsect :: "u32 \<Rightarrow> u8 list \<Rightarrow> mkfs \<Rightarrow> mkfs" where
  "wsect sec buf s =
     (let i = sector sec; old = img s @ replicate (i + 1 - length (img s)) zeroes in s\<lparr>img := old[i := buf]\<rparr>)"

definition rsect :: "u32 \<Rightarrow> mkfs \<Rightarrow> (mkfs, u8 list) result" where
  "rsect sec s = (if sector sec < length (img s) then Ok (img s ! sector sec) s else Exits s)"

definition IBLOCK :: "u32 \<Rightarrow> mkfs \<Rightarrow> u32" where "IBLOCK i s = i div of_nat IPB + sb_inodestart (mk_sb s)"

definition winode :: "u32 \<Rightarrow> dinode \<Rightarrow> mkfs \<Rightarrow> (mkfs, unit) result" where
  "winode inum ip s =
     then_do (rsect (IBLOCK inum s) s) (\<lambda>buf s.
     Ok () (wsect (IBLOCK inum s) (put_bytes (unat (inum mod of_nat IPB) * DINODE_SIZE) (dinode_bytes ip) buf) s))"

definition rinode :: "u32 \<Rightarrow> mkfs \<Rightarrow> (mkfs, dinode) result" where
  "rinode inum s =
     then_do (rsect (IBLOCK inum s) s) (\<lambda>buf s. Ok (dinode_at buf (unat (inum mod of_nat IPB) * DINODE_SIZE)) s)"

definition mk_ialloc :: "u16 \<Rightarrow> mkfs \<Rightarrow> (mkfs, u32) result" where
  "mk_ialloc type s =
     (let inum = freeinode s; s = s\<lparr>freeinode := inum + 1\<rparr>;
          din = \<lparr>di_type = xshort type, di_major = 0, di_minor = 0, di_nlink = xshort 1, di_size = xint 0, di_addrs = replicate (NDIRECT + 1) 0\<rparr>
      in then_do (winode inum din s) (\<lambda>_ s. Ok inum s))"

text \<open>The bits of the first \<open>used\<close> blocks are set in the one bitmap block.\<close>

definition used_bits :: "nat \<Rightarrow> u8 list" where
  "used_bits used = fold (\<lambda>i buf. buf[i div 8 := buf ! (i div 8) OR push_bit (i mod 8) 1]) [0..<used] zeroes"

definition mk_balloc :: "u32 \<Rightarrow> mkfs \<Rightarrow> (mkfs, unit) result" where
  "mk_balloc used s =
     (if \<not> sint used < int BPB then Panic ''assert''
      else Ok () (wsect (sb_bmapstart (mk_sb s)) (used_bits (nat (sint used))) s))"

section \<open>Appending to a file\<close>

definition take_block :: "mkfs \<Rightarrow> u32 \<times> mkfs" where
  "take_block s = (xint (freeblock s), s\<lparr>freeblock := freeblock s + 1\<rparr>)"

text \<open>The block for position \<open>fbn\<close> of the file, with a new one where there is none yet.\<close>

definition direct_block :: "nat \<Rightarrow> dinode \<Rightarrow> mkfs \<Rightarrow> (mkfs, u32 \<times> dinode) result" where
  "direct_block fbn din s =
     (let (din, s) = (if xint (di_addrs din ! fbn) = 0 then
                        (let (b, s) = take_block s in (din\<lparr>di_addrs := (di_addrs din)[fbn := b]\<rparr>, s))
                      else (din, s))
      in Ok (xint (di_addrs din ! fbn), din) s)"

definition indirect_block :: "nat \<Rightarrow> dinode \<Rightarrow> mkfs \<Rightarrow> (mkfs, u32 \<times> dinode) result" where
  "indirect_block i din s =
     then_do (direct_block NDIRECT din s) (\<lambda>x s. case x of (ind, din) \<Rightarrow>
     then_do (rsect ind s) (\<lambda>buf s.
       if word_at buf (4 * i) = 0 then
         (let (b, s) = take_block s in Ok (xint b, din) (wsect ind (put_bytes (4 * i) (le_bytes 4 b) buf) s))
       else Ok (xint (word_at buf (4 * i)), din) s))"

function iappend_loop :: "u8 list \<Rightarrow> u32 \<Rightarrow> dinode \<Rightarrow> mkfs \<Rightarrow> (mkfs, u32 \<times> dinode) result" where
  "iappend_loop p off din s =
     (if p = [] then Ok (off, din) s
      else
        (let fbn = unat off div BSIZE in
         if \<not> fbn < MAXFILE then Panic ''assert''
         else
           then_do (if fbn < NDIRECT then direct_block fbn din s else indirect_block (fbn - NDIRECT) din s) (\<lambda>y s. case y of (x, din) \<Rightarrow>
           (let n1 = min (length p) ((fbn + 1) * BSIZE - unat off) in
            then_do (rsect x s) (\<lambda>buf s.
            iappend_loop (drop n1 p) (off + of_nat n1) din (wsect x (put_bytes (unat off - fbn * BSIZE) (take n1 p) buf) s))))))"
  by pat_completeness auto
termination
proof (relation "measure (\<lambda>(p, off, din, s). length p)", goal_cases)
  case (2 p off din s fbn)
  have "unat off < (unat off div BSIZE + 1) * BSIZE"
    by (rule dividend_less_times_div [of BSIZE, THEN order_less_le_trans]) (simp_all add: BSIZE_def)
  with 2 show ?case by simp
qed simp

declare iappend_loop.simps [simp del]

definition iappend :: "u32 \<Rightarrow> u8 list \<Rightarrow> mkfs \<Rightarrow> (mkfs, unit) result" where
  "iappend inum p s =
     then_do (rinode inum s) (\<lambda>din s.
     then_do (iappend_loop p (xint (di_size din)) din s) (\<lambda>x s. case x of (off, din) \<Rightarrow>
     winode inum (din\<lparr>di_size := xint off\<rparr>) s))"

section \<open>The whole image\<close>

definition mk_dirent :: "u32 \<Rightarrow> u8 list \<Rightarrow> u8 list" where
  "mk_dirent inum name = le_bytes 2 (xshort (ucast inum)) @ strncpy_bytes DIRSIZ name"

definition new_image :: mkfs where
  "new_image =
     (let sb = \<lparr>sb_magic = FSMAGIC, sb_size = xint (of_nat FSSIZE), sb_nblocks = xint (of_nat nblocks), sb_ninodes = xint (of_nat NINODES),
               sb_nlog = xint (of_nat nlog), sb_logstart = xint 2, sb_inodestart = xint (of_nat (2 + nlog)),
               sb_bmapstart = xint (of_nat (2 + nlog + ninodeblocks))\<rparr>;
          s = \<lparr>img = [], freeinode = 1, freeblock = of_nat nmeta, mk_sb = sb\<rparr>;
          s = fold (\<lambda>i. wsect (of_nat i) zeroes) [0..<FSSIZE] s
      in wsect 1 (put_bytes 0 (sb_bytes sb) zeroes) s)"

text \<open>One call of iappend() per read(), of a whole block except at the end of the file.\<close>

fun append_all :: "u32 \<Rightarrow> u8 list list \<Rightarrow> mkfs \<Rightarrow> (mkfs, unit) result" where
  "append_all inum [] s = Ok () s"
| "append_all inum (b # bs) s = then_do (iappend inum b s) (\<lambda>_ s. append_all inum bs s)"

function chunks :: "u8 list \<Rightarrow> u8 list list" where
  "chunks bs = (if bs = [] then [] else take BSIZE bs # chunks (drop BSIZE bs))"
  by pat_completeness auto
termination by (relation "measure length") (simp_all add: BSIZE_def)

declare chunks.simps [simp del]

definition shortname :: "u8 list \<Rightarrow> u8 list" where
  "shortname arg = (if take 5 arg = [0x75, 0x73, 0x65, 0x72, 0x2F] then drop 5 arg else arg)"

definition strip_underscore :: "u8 list \<Rightarrow> u8 list" where
  "strip_underscore name = (if name \<noteq> [] \<and> hd name = 0x5F then tl name else name)"

definition add_file :: "(u8 list \<Rightarrow> u8 list option) \<Rightarrow> u8 list \<Rightarrow> mkfs \<Rightarrow> (mkfs, unit) result" where
  "add_file host arg s =
     (if SLASH \<in> set (shortname arg) then Panic ''assert''
      else
        case host arg of
          None \<Rightarrow> Exits s
        | Some content \<Rightarrow>
            (let name = strip_underscore (shortname arg) in
             if \<not> length name \<le> DIRSIZ then Panic ''assert''
             else
               then_do (mk_ialloc T_FILE s) (\<lambda>inum s.
               then_do (iappend ROOTINO (mk_dirent inum name) s) (\<lambda>_ s.
               append_all inum (chunks content) s))))"

fun add_files :: "(u8 list \<Rightarrow> u8 list option) \<Rightarrow> u8 list list \<Rightarrow> mkfs \<Rightarrow> (mkfs, unit) result" where
  "add_files host [] s = Ok () s"
| "add_files host (a # as) s = then_do (add_file host a s) (\<lambda>_ s. add_files host as s)"

definition fix_root_size :: "mkfs \<Rightarrow> (mkfs, unit) result" where
  "fix_root_size s =
     then_do (rinode ROOTINO s) (\<lambda>din s.
     winode ROOTINO (din\<lparr>di_size := xint ((xint (di_size din) div of_nat BSIZE + 1) * of_nat BSIZE)\<rparr>) s)"

text \<open>
  main() on its arguments: the name of the image, which the host lets it create, and those of the files.
  \<open>host\<close> gives the contents of a file that can be opened.
\<close>

definition mkfs_main :: "(u8 list \<Rightarrow> u8 list option) \<Rightarrow> u8 list list \<Rightarrow> mkfs \<Rightarrow> (mkfs, unit) result" where
  "mkfs_main host args s =
     (case args of
        [] \<Rightarrow> Exits s
      | _ # files \<Rightarrow>
          then_do (mk_ialloc T_DIR new_image) (\<lambda>rootino s.
          if rootino \<noteq> ROOTINO then Panic ''assert''
          else
            then_do (iappend rootino (mk_dirent rootino [0x2E]) s) (\<lambda>_ s.
            then_do (iappend rootino (mk_dirent rootino [0x2E, 0x2E]) s) (\<lambda>_ s.
            then_do (add_files host files s) (\<lambda>_ s.
            then_do (fix_root_size s) (\<lambda>_ s.
            mk_balloc (freeblock s) s))))))"

end
