(* ===== verification/Spec2Isabelle.thy ===== *)
theory Spec2Isabelle
  imports Vm_Copy Spinlock Trap_Props Console_Props Fs_Dir_Props Heap_Props Log_Props User_Progs Grep Sh_Print Grind Mkfs
begin

text \<open>
  A model of the xv6-riscv-ext2 system: the kernel under src/kernel/, the user programs under src/user/ and the
  image builder src/mkfs/mkfs.c.

  \<^bold>\<open>The system.\<close> A RISC-V machine starts every hart in entry.S and start.c; hart 0 runs main(), which sets up the
  page allocator, the kernel page table, the process table, the buffer cache, the inode table, the disk and the first
  process. From then on the kernel runs when a process traps: trampoline.S saves the registers, usertrap() dispatches
  system calls and device interrupts, and usertrapret() goes back. The system calls use the process table, open files,
  pipes, and a file system in the ext2 format on top of the buffer cache and the virtio disk. User programs are
  linked with ulib.c, printf.c and umalloc.c and reach the kernel only through system calls.

  \<^bold>\<open>The state.\<close> One record, extended component by component: \<open>machine\<close> (physical memory and the free list, Physmem
  and Kalloc), \<open>procs\<close> (proc.c), \<open>bio\<close> (the buffer cache and the disk), \<open>logs\<close> (log.c), \<open>fs\<close> (fs.c), \<open>devs\<close>
  (console and UART), \<open>files\<close> (files and pipes), \<open>kern\<close> (control registers and the interrupt controller) and \<open>vkern\<close>
  (the virtio queue). An operation takes the state last and returns \<open>Ok\<close> with its result and the new state,
  \<open>Panic\<close> (also for undefined behaviour of the C code, such as an access past an array), \<open>Hang\<close>, \<open>Sleeps\<close> with the channel
  it sleeps on, or \<open>Exits\<close>. Code inside a critical section of a spin lock is one step; Spinlock justifies it.

  \<^bold>\<open>Theories of the kernel.\<close>
  \<^item> Xv6_Prelude: machine integers, results, little-endian words, shared lemmas.
  \<^item> Kstring: string.c, and the routines of user/ulib.c with the same contract. memmove() is correct for overlapping
    ranges, safestrcpy() always terminates its result.
  \<^item> Physmem, Kalloc: riscv.h, memlayout.h, kalloc.c. kalloc() and kfree() implement a stack of distinct pages.
  \<^item> Vm, Vm_Frame, Vm_Map, Vm_Copy, Vm_Grow: vm.c. Page tables in memory refine a map from virtual pages to entries;
    unmapping returns the frames; copyout() and copyin() read back what was written; uvmalloc() gives zeroed pages.
  \<^item> Spinlock: spinlock.c, with the harts interleaved by a step relation; at most one hart is in a critical section.
  \<^item> Proc, Proc_Props: proc.c. Fresh pids, wait(), one round of the scheduler, kill() of pid 0.
  \<^item> Sleeplock, Bio, Bio_Cache, Bio_Props: sleeplock.c and bio.c. The contract of a block cache and its interpretation,
    least recently used replacement, and what happens to a buffer that is changed and never written.
  \<^item> Log, Log_Props: log.c. Recovery redoes the logged transaction, also when it is interrupted by crashes.
  \<^item> Fs_Block, Fs_Inode, Fs_Dir with Fs_Block_Props, Fs_Inode_Props, Fs_File_Props, Fs_Dir_Props: fs.c. balloc(), the
    inode table, bmap() against the tree of block numbers, readi() against the bytes of a file, dirlookup() against
    the chain of entries, and the cases in which bfree(), ialloc(), iupdate() and dirlookup() go wrong.
  \<^item> Kprintf, Console, Console_Props: printf.c, uart.c, console.c. The console refines a line discipline.
  \<^item> Ring_Buffer, File_Table, Pipe_Props: file.c and pipe.c. Pipes are bounded queues.
  \<^item> Procfs: fork(), exit(), userinit() of proc.c and exec.c. Sysfile: syscall.c, sysproc.c, sysfile.c.
    Virtio: virtio_disk.c. Trap: trap.c, plic.c, forkret() and main.c.
  \<^item> Hart, Hart_Props, Trap_Props: the registers of a hart, start.c, and the assembly entry.S, trampoline.S, swtch.S and
    kernelvec.S as lists of instructions. What is saved is restored, and what usertrapret() prepares is what the
    return to user space and the next trap need.
  \<^item> Sample: a concrete state of the whole kernel for the witnesses.

  \<^bold>\<open>Theories of the programs.\<close>
  \<^item> User_Env, Uprintf: user.h, usys.pl, ulib.c, printf.c. A program runs against the sequence of the kernel's replies.
  \<^item> Umalloc, Heap_Props: umalloc.c, with sbrk() as a locale that the kernel's sys_sbrk() interprets: the heap stays
    consistent, and blocks in use are disjoint.
  \<^item> User_Progs, Grep, Sh, Sh_Props, Sh_Print, Grind: the programs. match() decides the language of its pattern, grep prints
    the matching lines, the shell's parser is total and inverts printing, and grind's generator is that of Park and
    Miller.
  \<^item> Mkfs: mkfs.c.

  \<^bold>\<open>Interfaces.\<close> The locales \<open>page_allocator\<close>, \<open>sleeplock_field\<close>, \<open>block_cache\<close>, \<open>bounded_fifo\<close> and \<open>heap_growth\<close> hold
  the laws that the users of the page allocator, of sleep locks, of the buffer cache, of ring buffers and of sbrk()
  rely on; each is interpreted on the definitions of the code.

  \<^bold>\<open>Loops.\<close> Most loops terminate by a measure. The walk along directory entries has 2 ^ 32 steps of fuel, the number of
  offsets, and is \<open>Hang\<close> after them; for a well-formed directory it ends. The shell's parser recurses at most 4 n + 4
  deep on n bytes, and never runs out. The endless loops of grind take the number of their rounds. Loops over a
  circular list or a device that may never answer are partial functions with \<open>None\<close> for no result. A loop of a user program
  that makes a system call in every round ends with the replies.

  \<^bold>\<open>Parameters.\<close> The addresses of linker symbols, the answers of devices, bytes of the stack that the code reads
  uninitialised, and the translation of addresses for the assembly code are fields of the state or arguments.

  \<^bold>\<open>Not modelled.\<close> user/usertests.c, a test program whose checks are of the system calls modelled here, often with raw addresses
  that must fault; messages printed for debugging; declarations (defs.h); linker scripts; the code in fs.c that is commented
  out; memory fences and the TLB. The interleaving of processes inside a system call is modelled only at the points where
  it sleeps. commit() of the log is modelled, but crash safety is proved for recovery only: the running system never
  initialises the log.
\<close>

end
